(* ===== verification/Prelude.thy ===== *)
theory Prelude
  imports Main "HOL-Library.Word"
begin

text \<open>
  Shared vocabulary of the development: the result type of a Go computation that may
  panic, counted loops over it, the rules by which every component proves that it does
  not panic, and a few list facts.

  A Go run-time panic is a value of \<open>panic\<close>.  The bounds-check panics carry what the Go
  run time reports: the offending index and the length (or the slice bounds and the
  capacity).  \<open>InCall\<close> is a line of the traceback that Go prints with a panic: it says in which call
  the panic happened, and with which argument.  \<open>Diverges\<close> marks a loop that used up its fuel; it stands for a call that does
  not return.
\<close>

named_theorems wp "weakest-precondition style rules for the operations of the model"

section \<open>Arithmetic\<close>

lemma int_div_less:
  fixes a c d :: int
  assumes "0 < c" "a < d * c"
  shows "a div c < d"
proof -
  have "(a div c) * c + a mod c = a" by (rule div_mult_mod_eq)
  moreover have "0 \<le> a mod c" using assms(1) by simp
  ultimately have "(a div c) * c < d * c" using assms(2) by linarith
  then show ?thesis using assms(1) by (simp add: mult_less_cancel_right)
qed

section \<open>Results of Go computations\<close>

datatype panic =
    IndexPanic int int           \<comment> \<open>index, length\<close>
  | SlicePanic int int int       \<comment> \<open>low, high, capacity\<close>
  | ExplicitPanic string
  | Diverges
  | InCall string "32 word" panic  \<comment> \<open>traceback: function and bits of its \<open>float32\<close> argument\<close>

type_synonym 'a res = "panic + 'a"

abbreviation Ok :: "'a \<Rightarrow> 'a res" where "Ok \<equiv> Inr"
abbreviation Panic :: "panic \<Rightarrow> 'a res" where "Panic \<equiv> Inl"

fun bnd :: "'a res \<Rightarrow> ('a \<Rightarrow> 'b res) \<Rightarrow> 'b res" where
  "bnd (Inl p) f = Inl p"
| "bnd (Inr x) f = f x"

lemma bnd_cong [fundef_cong]:
  "m = m' \<Longrightarrow> (\<And>x. m' = Inr x \<Longrightarrow> f x = g x) \<Longrightarrow> bnd m f = bnd m' g"
  by (cases m') auto

lemma bnd_Ok_right [simp]: "bnd m Inr = m"
  by (cases m) auto

lemma bnd_assoc: "bnd (bnd m f) g = bnd m (\<lambda>x. bnd (f x) g)"
  by (cases m) auto

lemma bnd_eq_Ok: "bnd m f = Ok y \<longleftrightarrow> (\<exists>x. m = Ok x \<and> f x = Ok y)"
  by (cases m) auto

text \<open>A call whose panics show it in their traceback.\<close>

definition traced :: "string \<Rightarrow> 32 word \<Rightarrow> 'a res \<Rightarrow> 'a res" where
  "traced f x m = (case m of Inl p \<Rightarrow> Inl (InCall f x p) | Inr y \<Rightarrow> Inr y)"

lemma traced_Ok [simp]: "traced f x m = Ok y \<longleftrightarrow> m = Ok y"
  by (cases m) (simp_all add: traced_def)

lemma bnd_if: "bnd (if c then a else b) f = (if c then bnd a f else bnd b f)"
  by simp

section \<open>Counted loops\<close>

text \<open>
  \<open>for_up i n body\<close> is \<open>for ; i < n; i++\<close>, \<open>for_by d i n body\<close> is
  \<open>for ; i < n; i += d\<close> and \<open>for_down i n body\<close> is \<open>for ; i >= n; i--\<close>; the
  variables the body assigns are the loop state.
\<close>

function for_up :: "int \<Rightarrow> int \<Rightarrow> (int \<Rightarrow> 's \<Rightarrow> 's res) \<Rightarrow> 's \<Rightarrow> 's res" where
  "for_up i n body s =
     (if i < n then bnd (body i s) (\<lambda>s'. for_up (i + 1) n body s') else Ok s)"
  by pat_completeness auto
termination
  by (relation "measure (\<lambda>(i, n, body, s). nat (n - i))") auto

function for_by :: "int \<Rightarrow> int \<Rightarrow> int \<Rightarrow> (int \<Rightarrow> 's \<Rightarrow> 's res) \<Rightarrow> 's \<Rightarrow> 's res" where
  "for_by d i n body s =
     (if 0 < d \<and> i < n then bnd (body i s) (\<lambda>s'. for_by d (i + d) n body s') else Ok s)"
  by pat_completeness auto
termination
  by (relation "measure (\<lambda>(d, i, n, body, s). nat (n - i))") auto

function for_down :: "int \<Rightarrow> int \<Rightarrow> (int \<Rightarrow> 's \<Rightarrow> 's res) \<Rightarrow> 's \<Rightarrow> 's res" where
  "for_down i n body s =
     (if n \<le> i then bnd (body i s) (\<lambda>s'. for_down (i - 1) n body s') else Ok s)"
  by pat_completeness auto
termination
  by (relation "measure (\<lambda>(i, n, body, s). nat (i + 1 - n))") auto

declare for_up.simps [simp del] for_by.simps [simp del] for_down.simps [simp del]

lemma for_up_done [simp]: "n \<le> i \<Longrightarrow> for_up i n body s = Ok s"
  by (subst for_up.simps) simp

lemma for_up_step: "i < n \<Longrightarrow> for_up i n body s = bnd (body i s) (for_up (i + 1) n body)"
  by (subst for_up.simps) simp

lemma for_down_done [simp]: "i < n \<Longrightarrow> for_down i n body s = Ok s"
  by (subst for_down.simps) simp

lemma for_down_step: "n \<le> i \<Longrightarrow> for_down i n body s = bnd (body i s) (for_down (i - 1) n body)"
  by (subst for_down.simps) simp

lemma for_by_done [simp]: "n \<le> i \<Longrightarrow> for_by d i n body s = Ok s"
  by (subst for_by.simps) simp

lemma for_by_step:
  "0 < d \<Longrightarrow> i < n \<Longrightarrow> for_by d i n body s = bnd (body i s) (for_by d (i + d) n body)"
  by (subst for_by.simps) simp

lemma for_up_cong:
  assumes "\<And>i s. lo \<le> i \<Longrightarrow> i < hi \<Longrightarrow> f i s = g i s"
  shows "for_up lo hi f s = for_up lo hi g s"
  using assms
proof (induction lo hi f s rule: for_up.induct)
  case (1 i n body s)
  show ?case
  proof (cases "i < n")
    case True
    have "body i s = g i s" using "1.prems" True by simp
    moreover have "for_up (i + 1) n body s' = for_up (i + 1) n g s'" if "body i s = Ok s'" for s'
      using "1.IH"[OF True that] "1.prems" by simp
    ultimately show ?thesis
      using True by (simp add: for_up_step) (rule bnd_cong, auto)
  qed simp
qed

lemma for_up_split:
  "lo \<le> mid \<Longrightarrow> mid \<le> hi \<Longrightarrow>
     for_up lo hi body s = bnd (for_up lo mid body s) (for_up mid hi body)"
proof (induction lo mid body s rule: for_up.induct)
  case (1 i n body s)
  show ?case
  proof (cases "i < n")
    case True
    then have *: "for_up i hi body s = bnd (body i s) (for_up (i + 1) hi body)"
      using "1.prems" by (simp add: for_up_step)
    show ?thesis
      unfolding * for_up_step[OF True] bnd_assoc
      by (rule bnd_cong) (use "1.IH" True "1.prems" in auto)
  next
    case False
    then show ?thesis using "1.prems" by simp
  qed
qed

lemma for_up_shift: "for_up (lo + d) (hi + d) body s = for_up lo hi (\<lambda>i. body (i + d)) s"
proof (induction lo hi "\<lambda>i. body (i + d)" s rule: for_up.induct)
  case (1 i n s)
  show ?case
  proof (cases "i < n")
    case True
    then show ?thesis
      by (simp add: for_up_step) (rule bnd_cong, use 1 True in \<open>auto simp: algebra_simps\<close>)
  qed simp
qed

section \<open>Specifications\<close>

text \<open>
  \<open>spec E Q m\<close>: the computation either returns a value that satisfies \<open>Q\<close> or panics with
  a panic that \<open>E\<close> allows.  \<open>safe Q m\<close> allows none.
\<close>

definition spec :: "(panic \<Rightarrow> bool) \<Rightarrow> ('a \<Rightarrow> bool) \<Rightarrow> 'a res \<Rightarrow> bool" where
  "spec E Q m = (case m of Inl p \<Rightarrow> E p | Inr x \<Rightarrow> Q x)"

abbreviation safe :: "('a \<Rightarrow> bool) \<Rightarrow> 'a res \<Rightarrow> bool" where
  "safe \<equiv> spec (\<lambda>_. False)"

lemma spec_Ok [simp]: "spec E Q (Inr x) = Q x"
  and spec_Panic [simp]: "spec E Q (Inl p) = E p"
  by (simp_all add: spec_def)

lemma spec_bnd [simp]: "spec E Q (bnd m f) = spec E (\<lambda>x. spec E Q (f x)) m"
  by (cases m) simp_all

lemma spec_traced [simp]: "spec E Q (traced f x m) = spec (\<lambda>p. E (InCall f x p)) Q m"
  by (cases m) (simp_all add: traced_def)

lemma spec_mono: "spec E Q m \<Longrightarrow> (\<And>x. Q x \<Longrightarrow> R x) \<Longrightarrow> spec E R m"
  by (cases m) auto

lemma spec_mono_eq: "spec E Q m \<Longrightarrow> (\<And>x. m = Ok x \<Longrightarrow> Q x \<Longrightarrow> R x) \<Longrightarrow> spec E R m"
  by (cases m) auto

lemma spec_weaken: "safe Q m \<Longrightarrow> spec E Q m"
  by (cases m) auto

lemma spec_safe_mono: "safe Q m \<Longrightarrow> (\<And>x. Q x \<Longrightarrow> R x) \<Longrightarrow> spec E R m"
  by (cases m) auto

lemma safe_iff: "safe Q m \<longleftrightarrow> (\<exists>x. m = Ok x \<and> Q x)"
  by (cases m) auto

lemma spec_conj: "safe P m \<Longrightarrow> spec E Q m \<Longrightarrow> spec E (\<lambda>x. P x \<and> Q x) m"
  by (cases m) auto

lemma for_up_spec:
  assumes "I lo s" and "lo \<le> hi"
    and "\<And>i s. lo \<le> i \<Longrightarrow> i < hi \<Longrightarrow> I i s \<Longrightarrow> spec E (I (i + 1)) (body i s)"
  shows "spec E (I hi) (for_up lo hi body s)"
  using assms
proof (induction lo hi body s rule: for_up.induct)
  case (1 i n body s)
  show ?case
  proof (cases "i < n")
    case True
    from "1.prems" True have b: "spec E (I (i + 1)) (body i s)" by simp
    show ?thesis
      using True by (simp add: for_up_step)
        (rule spec_mono_eq[OF b], use "1.IH"[OF True] "1.prems" in auto)
  next
    case False
    then show ?thesis using "1.prems" by simp
  qed
qed

lemma for_up_idx:
  assumes "I lo s" and "lo \<le> hi"
    and "\<And>i s. lo \<le> i \<Longrightarrow> i < hi \<Longrightarrow> I i s \<Longrightarrow> spec E (I (i + 1)) (body i s)"
    and "\<And>s. I hi s \<Longrightarrow> Q s"
  shows "spec E Q (for_up lo hi body s)"
  using for_up_spec[of I, OF assms(1,2,3)] assms(4) by (rule spec_mono)

lemma for_up_inv:
  assumes "I s"
    and "\<And>i s. lo \<le> i \<Longrightarrow> i < hi \<Longrightarrow> I s \<Longrightarrow> spec E I (body i s)"
    and "\<And>s. I s \<Longrightarrow> Q s"
  shows "spec E Q (for_up lo hi body s)"
proof (cases "lo \<le> hi")
  case True
  then have "spec E I (for_up lo hi body s)"
    using for_up_spec[of "\<lambda>_. I" lo s hi E body] assms by blast
  then show ?thesis using assms(3) by (rule spec_mono)
qed (use assms in auto)

lemma for_down_inv:
  assumes "I s"
    and "\<And>i s. lo \<le> i \<Longrightarrow> i \<le> hi \<Longrightarrow> I s \<Longrightarrow> spec E I (body i s)"
    and "\<And>s. I s \<Longrightarrow> Q s"
  shows "spec E Q (for_down hi lo body s)"
  using assms
proof (induction hi lo body s rule: for_down.induct)
  case (1 i n body s)
  show ?case
  proof (cases "n \<le> i")
    case True
    from "1.prems" True have b: "spec E I (body i s)" by simp
    show ?thesis
      using True by (simp add: for_down_step)
        (rule spec_mono_eq[OF b], use "1.IH"[OF True] "1.prems" in auto)
  qed (use 1 in auto)
qed

lemma for_by_inv:
  assumes "I s"
    and "\<And>i s. lo \<le> i \<Longrightarrow> i < hi \<Longrightarrow> I s \<Longrightarrow> spec E I (body i s)"
    and "\<And>s. I s \<Longrightarrow> Q s"
  shows "spec E Q (for_by d lo hi body s)"
  using assms
proof (induction d lo hi body s rule: for_by.induct)
  case (1 d i n body s)
  show ?case
  proof (cases "0 < d \<and> i < n")
    case True
    then have t: "0 < d" "i < n" by auto
    from "1.prems" t have b: "spec E I (body i s)" by simp
    show ?thesis
      using t by (simp add: for_by_step)
        (rule spec_mono_eq[OF b], use "1.IH"[OF True] "1.prems" t in auto)
  next
    case False
    then show ?thesis using "1.prems" by (subst for_by.simps) auto
  qed
qed

lemma for_by_spec:
  assumes "I lo s" and "0 < d" and "lo < hi + d"
    and "\<And>i s. lo \<le> i \<Longrightarrow> i < hi \<Longrightarrow> I i s \<Longrightarrow> spec E (I (i + d)) (body i s)"
    and "\<And>i s. hi \<le> i \<Longrightarrow> i < hi + d \<Longrightarrow> I i s \<Longrightarrow> Q s"
  shows "spec E Q (for_by d lo hi body s)"
  using assms
proof (induction d lo hi body s rule: for_by.induct)
  case (1 d i n body s)
  show ?case
  proof (cases "i < n")
    case True
    then have t: "0 < d \<and> i < n" using "1.prems" by simp
    from "1.prems" True have b: "spec E (I (i + d)) (body i s)" by simp
    show ?thesis
      using t by (simp add: for_by_step)
        (rule spec_mono_eq[OF b], use "1.IH"[OF t] "1.prems" t in auto)
  next
    case False
    have "Q s" by (rule "1.prems"(5)[of i]) (use "1.prems"(1,3) False in auto)
    then show ?thesis using False by simp
  qed
qed

lemma for_down_spec:
  assumes "I hi s" and "lo - 1 \<le> hi"
    and "\<And>i s. lo \<le> i \<Longrightarrow> i \<le> hi \<Longrightarrow> I i s \<Longrightarrow> spec E (I (i - 1)) (body i s)"
  shows "spec E (I (lo - 1)) (for_down hi lo body s)"
  using assms
proof (induction hi lo body s rule: for_down.induct)
  case (1 i n body s)
  show ?case
  proof (cases "n \<le> i")
    case True
    from "1.prems" True have b: "spec E (I (i - 1)) (body i s)" by simp
    show ?thesis
      using True by (simp add: for_down_step)
        (rule spec_mono_eq[OF b], use "1.IH"[OF True] "1.prems" in auto)
  next
    case False
    then have "i = n - 1" using "1.prems" by simp
    then show ?thesis using "1.prems" by simp
  qed
qed

section \<open>Folds over lists\<close>

fun foldM :: "('x \<Rightarrow> 's \<Rightarrow> 's res) \<Rightarrow> 'x list \<Rightarrow> 's \<Rightarrow> 's res" where
  "foldM f [] s = Ok s"
| "foldM f (x # xs) s = bnd (f x s) (foldM f xs)"

lemma bnd_foldM_Nil [simp]: "bnd m (foldM f []) = m"
  by (cases m) simp_all

lemma foldM_append: "foldM f (xs @ ys) s = bnd (foldM f xs s) (foldM f ys)"
  by (induction xs arbitrary: s) (auto simp: bnd_assoc intro!: bnd_cong)

lemma foldM_inv:
  assumes "\<And>x s s'. x \<in> set xs \<Longrightarrow> P s \<Longrightarrow> f x s = Ok s' \<Longrightarrow> P s'"
  shows "P s \<Longrightarrow> foldM f xs s = Ok s' \<Longrightarrow> P s'"
  using assms by (induction xs arbitrary: s) (auto simp: bnd_eq_Ok)

text \<open>A counted loop whose body folds over a list is a fold over the concatenation.\<close>

lemma for_up_foldM:
  assumes "\<And>k s. lo \<le> k \<Longrightarrow> k < hi \<Longrightarrow> P s \<Longrightarrow> body k s = foldM f (g k) s"
    and "\<And>x s s'. P s \<Longrightarrow> f x s = Ok s' \<Longrightarrow> P s'"
    and "P s"
  shows "for_up lo hi body s = foldM f (concat (map g [lo..hi - 1])) s"
  using assms
proof (induction lo hi body s rule: for_up.induct)
  case (1 i n body s)
  show ?case
  proof (cases "i < n")
    case True
    then have l: "[i..n - 1] = i # [i + 1..n - 1]" by (simp add: upto_rec1)
    have b: "body i s = foldM f (g i) s" using "1.prems" True by simp
    have "for_up (i + 1) n body s' = foldM f (concat (map g [i + 1..n - 1])) s'"
      if "body i s = Ok s'" for s'
    proof -
      have "P s'" by (rule foldM_inv[of "g i" P f s]) (use that b "1.prems" in auto)
      then show ?thesis using "1.IH"[OF True that] "1.prems" by simp
    qed
    then show ?thesis
      unfolding l using True by (simp add: for_up_step foldM_append flip: b) (rule bnd_cong, auto)
  next
    case False
    then show ?thesis by simp
  qed
qed

end
