(* ===== verification/Softfloat.thy ===== *)
theory Softfloat
  imports Prelude
begin

text \<open>
  The arithmetic of Go's \<open>float32\<close> and \<open>float64\<close> types: IEEE 754 binary32 and binary64 with
  rounding to nearest, ties to even.  A value is its bit pattern (what
  \<open>math.Float32bits\<close> returns).  Every operation decodes its operands, computes the exact
  result as \<open>(-1)^s * m * 2^e\<close>, and rounds once.  Division and square root are computed
  with a sticky bit, enough digits that the single rounding is the correct one.

  All NaNs that an operation returns are the same quiet NaN: the program never looks at the
  payload of a NaN, and the Go specification does not fix it.
\<close>

unbundle bit_operations_syntax

section \<open>Unpacked values\<close>

datatype fp = FNaN | FInf bool | FFin bool nat int

fun bitlen :: "nat \<Rightarrow> nat" where
  "bitlen n = (if n = 0 then 0 else Suc (bitlen (n div 2)))"

declare bitlen.simps [simp del]

text \<open>\<open>t\<close> is the number of stored fraction bits and \<open>w\<close> that of exponent bits.\<close>

definition emin :: "nat \<Rightarrow> nat \<Rightarrow> int" where
  "emin t w = 2 - 2 ^ (w - 1) - int t"

definition unpack_fp :: "nat \<Rightarrow> nat \<Rightarrow> nat \<Rightarrow> fp" where
  "unpack_fp t w n =
     (let s = odd (n div 2 ^ (t + w));
          x = (n div 2 ^ t) mod 2 ^ w;
          f = n mod 2 ^ t
      in if x = 2 ^ w - 1 then (if f = 0 then FInf s else FNaN)
         else if x = 0 then FFin s f (emin t w)
         else FFin s (2 ^ t + f) (emin t w + int x - 1))"

text \<open>\<open>rne m d\<close>: \<open>m / 2^d\<close> rounded to the nearest integer, ties to even.\<close>

definition rne :: "nat \<Rightarrow> int \<Rightarrow> nat" where
  "rne m d =
     (if d \<le> 0 then m * 2 ^ nat (- d)
      else let h = m div 2 ^ nat d; r = m mod 2 ^ nat d; half = 2 ^ (nat d - 1)
           in if half < r \<or> (r = half \<and> odd h) then h + 1 else h)"

definition round_mag :: "nat \<Rightarrow> nat \<Rightarrow> nat \<Rightarrow> int \<Rightarrow> nat" where
  "round_mag t w m e =
     (if m = 0 then 0
      else let q = max (e + int (bitlen m) - int (t + 1)) (emin t w)
           in min (nat (q - emin t w) * 2 ^ t + rne m (q - e)) ((2 ^ w - 1) * 2 ^ t))"

definition sign_bit :: "nat \<Rightarrow> nat \<Rightarrow> bool \<Rightarrow> nat" where
  "sign_bit t w s = (if s then 2 ^ (t + w) else 0)"

fun pack_fp :: "nat \<Rightarrow> nat \<Rightarrow> fp \<Rightarrow> nat" where
  "pack_fp t w FNaN = (2 ^ w - 1) * 2 ^ t + 2 ^ (t - 1)"
| "pack_fp t w (FInf s) = sign_bit t w s + (2 ^ w - 1) * 2 ^ t"
| "pack_fp t w (FFin s m e) = sign_bit t w s + round_mag t w m e"

section \<open>Exact operations on unpacked values\<close>

definition signed :: "bool \<Rightarrow> nat \<Rightarrow> int" where
  "signed s m = (if s then - int m else int m)"

fun fp_neg :: "fp \<Rightarrow> fp" where
  "fp_neg FNaN = FNaN"
| "fp_neg (FInf s) = FInf (\<not> s)"
| "fp_neg (FFin s m e) = FFin (\<not> s) m e"

fun fp_abs :: "fp \<Rightarrow> fp" where
  "fp_abs FNaN = FNaN"
| "fp_abs (FInf s) = FInf False"
| "fp_abs (FFin s m e) = FFin False m e"

fun fp_add :: "fp \<Rightarrow> fp \<Rightarrow> fp" where
  "fp_add FNaN b = FNaN"
| "fp_add a FNaN = FNaN"
| "fp_add (FInf s) (FInf s') = (if s = s' then FInf s else FNaN)"
| "fp_add (FInf s) (FFin s' m' e') = FInf s"
| "fp_add (FFin s m e) (FInf s') = FInf s'"
| "fp_add (FFin s m e) (FFin s' m' e') =
     (let q = min e e';
          v = signed s m * 2 ^ nat (e - q) + signed s' m' * 2 ^ nat (e' - q)
      in if v = 0 then FFin (s \<and> s') 0 q else FFin (v < 0) (nat \<bar>v\<bar>) q)"

fun fp_mul :: "fp \<Rightarrow> fp \<Rightarrow> fp" where
  "fp_mul FNaN b = FNaN"
| "fp_mul a FNaN = FNaN"
| "fp_mul (FInf s) (FInf s') = FInf (s \<noteq> s')"
| "fp_mul (FInf s) (FFin s' m' e') = (if m' = 0 then FNaN else FInf (s \<noteq> s'))"
| "fp_mul (FFin s m e) (FInf s') = (if m = 0 then FNaN else FInf (s \<noteq> s'))"
| "fp_mul (FFin s m e) (FFin s' m' e') = FFin (s \<noteq> s') (m * m') (e + e')"

text \<open>The last bit of the quotient (and of the root) is sticky: set when digits were cut.\<close>

fun fp_div :: "nat \<Rightarrow> fp \<Rightarrow> fp \<Rightarrow> fp" where
  "fp_div t FNaN b = FNaN"
| "fp_div t a FNaN = FNaN"
| "fp_div t (FInf s) (FInf s') = FNaN"
| "fp_div t (FInf s) (FFin s' m' e') = FInf (s \<noteq> s')"
| "fp_div t (FFin s m e) (FInf s') = FFin (s \<noteq> s') 0 0"
| "fp_div t (FFin s m e) (FFin s' m' e') =
     (if m' = 0 then (if m = 0 then FNaN else FInf (s \<noteq> s'))
      else let k = t + 3 + bitlen m'; n = m * 2 ^ k
           in FFin (s \<noteq> s') (2 * (n div m') + (if n mod m' = 0 then 0 else 1))
                (e - e' - int k - 1))"

fun isqrt :: "nat \<Rightarrow> nat" where
  "isqrt n =
     (if n = 0 then 0
      else let r = 2 * isqrt (n div 4) in if (r + 1) * (r + 1) \<le> n then r + 1 else r)"

declare isqrt.simps [simp del]

fun fp_sqrt :: "nat \<Rightarrow> fp \<Rightarrow> fp" where
  "fp_sqrt t FNaN = FNaN"
| "fp_sqrt t (FInf s) = (if s then FNaN else FInf False)"
| "fp_sqrt t (FFin s m e) =
     (if m = 0 then FFin s 0 e
      else if s then FNaN
      else let k = 2 * (t + 3) + (if even e then 0 else 1);
               n = m * 2 ^ k; r = isqrt n
           in FFin False (2 * r + (if r * r = n then 0 else 1)) ((e - int k) div 2 - 1))"

fun fp_less :: "fp \<Rightarrow> fp \<Rightarrow> bool" where
  "fp_less FNaN b = False"
| "fp_less a FNaN = False"
| "fp_less (FInf s) (FInf s') = (s \<and> \<not> s')"
| "fp_less (FInf s) (FFin s' m' e') = s"
| "fp_less (FFin s m e) (FInf s') = (\<not> s')"
| "fp_less (FFin s m e) (FFin s' m' e') =
     (signed s m * 2 ^ nat (e - min e e') < signed s' m' * 2 ^ nat (e' - min e e'))"

fun fp_le :: "fp \<Rightarrow> fp \<Rightarrow> bool" where
  "fp_le FNaN b = False"
| "fp_le a FNaN = False"
| "fp_le (FInf s) (FInf s') = (s \<or> \<not> s')"
| "fp_le (FInf s) (FFin s' m' e') = s"
| "fp_le (FFin s m e) (FInf s') = (\<not> s')"
| "fp_le (FFin s m e) (FFin s' m' e') =
     (signed s m * 2 ^ nat (e - min e e') \<le> signed s' m' * 2 ^ nat (e' - min e e'))"

text \<open>Conversion to an integer truncates towards zero; \<open>None\<close> for NaN and infinities.\<close>

fun fp_trunc :: "fp \<Rightarrow> int option" where
  "fp_trunc FNaN = None"
| "fp_trunc (FInf s) = None"
| "fp_trunc (FFin s m e) =
     Some (signed s (if 0 \<le> e then m * 2 ^ nat e else m div 2 ^ nat (- e)))"

text \<open>The decimal literal \<open>m * 10^-k\<close>, to be rounded to a format with \<open>t\<close> fraction bits.\<close>

definition fp_decimal :: "nat \<Rightarrow> int \<Rightarrow> nat \<Rightarrow> fp" where
  "fp_decimal t m k = fp_div t (FFin (m < 0) (nat \<bar>m\<bar>) 0) (FFin False (10 ^ k) 0)"

definition fp_of_int :: "int \<Rightarrow> fp" where
  "fp_of_int n = FFin (n < 0) (nat \<bar>n\<bar>) 0"

section \<open>float32\<close>

datatype float32 = Float32 (float32bits: "32 word")

definition val32 :: "float32 \<Rightarrow> fp" where
  "val32 x = unpack_fp 23 8 (unat (float32bits x))"

definition rnd32 :: "fp \<Rightarrow> float32" where
  "rnd32 v = Float32 (word_of_nat (pack_fp 23 8 v))"

instantiation float32 :: "{zero, one, plus, minus, uminus, times, inverse, ord}"
begin

definition zero_float32 :: float32 where "zero_float32 = Float32 0"
definition one_float32 :: float32 where "one_float32 = Float32 0x3F800000"
definition plus_float32 :: "float32 \<Rightarrow> float32 \<Rightarrow> float32" where
  "plus_float32 a b = rnd32 (fp_add (val32 a) (val32 b))"
definition minus_float32 :: "float32 \<Rightarrow> float32 \<Rightarrow> float32" where
  "minus_float32 a b = rnd32 (fp_add (val32 a) (fp_neg (val32 b)))"
definition uminus_float32 :: "float32 \<Rightarrow> float32" where
  "uminus_float32 a = rnd32 (fp_neg (val32 a))"
definition times_float32 :: "float32 \<Rightarrow> float32 \<Rightarrow> float32" where
  "times_float32 a b = rnd32 (fp_mul (val32 a) (val32 b))"
definition divide_float32 :: "float32 \<Rightarrow> float32 \<Rightarrow> float32" where
  "divide_float32 a b = rnd32 (fp_div 23 (val32 a) (val32 b))"
definition inverse_float32 :: "float32 \<Rightarrow> float32" where
  "inverse_float32 a = divide 1 a"
definition less_float32 :: "float32 \<Rightarrow> float32 \<Rightarrow> bool" where
  "less_float32 a b = fp_less (val32 a) (val32 b)"
definition less_eq_float32 :: "float32 \<Rightarrow> float32 \<Rightarrow> bool" where
  "less_eq_float32 a b = fp_le (val32 a) (val32 b)"

instance ..

end

definition dec32 :: "int \<Rightarrow> nat \<Rightarrow> float32" where
  "dec32 m k = rnd32 (fp_decimal 23 m k)"

definition int32 :: "int \<Rightarrow> float32" where
  "int32 n = rnd32 (fp_of_int n)"

definition is_nan32 :: "float32 \<Rightarrow> bool" where
  "is_nan32 x = (val32 x = FNaN)"

section \<open>float64\<close>

datatype float64 = Float64 (float64bits: "64 word")

definition val64 :: "float64 \<Rightarrow> fp" where
  "val64 x = unpack_fp 52 11 (unat (float64bits x))"

definition rnd64 :: "fp \<Rightarrow> float64" where
  "rnd64 v = Float64 (word_of_nat (pack_fp 52 11 v))"

instantiation float64 :: "{zero, plus, minus, times, ord}"
begin

definition zero_float64 :: float64 where "zero_float64 = Float64 0"
definition plus_float64 :: "float64 \<Rightarrow> float64 \<Rightarrow> float64" where
  "plus_float64 a b = rnd64 (fp_add (val64 a) (val64 b))"
definition minus_float64 :: "float64 \<Rightarrow> float64 \<Rightarrow> float64" where
  "minus_float64 a b = rnd64 (fp_add (val64 a) (fp_neg (val64 b)))"
definition times_float64 :: "float64 \<Rightarrow> float64 \<Rightarrow> float64" where
  "times_float64 a b = rnd64 (fp_mul (val64 a) (val64 b))"
definition less_float64 :: "float64 \<Rightarrow> float64 \<Rightarrow> bool" where
  "less_float64 a b = fp_less (val64 a) (val64 b)"
definition less_eq_float64 :: "float64 \<Rightarrow> float64 \<Rightarrow> bool" where
  "less_eq_float64 a b = fp_le (val64 a) (val64 b)"

instance ..

end

definition dec64 :: "int \<Rightarrow> nat \<Rightarrow> float64" where
  "dec64 m k = rnd64 (fp_decimal 52 m k)"

definition int64 :: "int \<Rightarrow> float64" where
  "int64 n = rnd64 (fp_of_int n)"

text \<open>\<open>float64(x)\<close> is exact; \<open>float32(y)\<close> rounds.\<close>

definition f64 :: "float32 \<Rightarrow> float64" where
  "f64 x = rnd64 (val32 x)"

definition f32 :: "float64 \<Rightarrow> float32" where
  "f32 y = rnd32 (val64 y)"

section \<open>The functions of package math with a specified result\<close>

definition math_Abs :: "float64 \<Rightarrow> float64" where
  "math_Abs x = rnd64 (fp_abs (val64 x))"

definition math_Sqrt :: "float64 \<Rightarrow> float64" where
  "math_Sqrt x = rnd64 (fp_sqrt 52 (val64 x))"

text \<open>The built-in \<open>min\<close> and \<open>max\<close> on floats: NaN if an operand is, and \<open>-0 < +0\<close>.\<close>

definition neg_sign32 :: "float32 \<Rightarrow> bool" where
  "neg_sign32 x = bit (float32bits x) 31"

definition go_min :: "float32 \<Rightarrow> float32 \<Rightarrow> float32" where
  "go_min x y =
     (if is_nan32 x then x else if is_nan32 y then y
      else if x < y then x else if y < x then y
      else if neg_sign32 x then x else y)"

definition go_max :: "float32 \<Rightarrow> float32 \<Rightarrow> float32" where
  "go_max x y =
     (if is_nan32 x then x else if is_nan32 y then y
      else if x < y then y else if y < x then x
      else if neg_sign32 x then y else x)"

section \<open>What the Go specification leaves to the implementation\<close>

text \<open>
  The accuracy of \<open>math.Cos\<close>, \<open>math.Pow\<close> and \<open>math.Log10\<close> is not specified and differs
  between architectures, and so does the result of converting a float to an integer type
  that cannot represent it.  They are a parameter of the model: every theorem holds for all
  of them.
\<close>

record platform =
  math_Cos :: "float64 \<Rightarrow> float64"
  math_Pow :: "float64 \<Rightarrow> float64 \<Rightarrow> float64"
  math_Log10 :: "float64 \<Rightarrow> float64"
  int_of_unrep :: "float32 \<Rightarrow> int"
  int_of_unrep64 :: "float64 \<Rightarrow> int"
  int16_of_unrep :: "float32 \<Rightarrow> 16 word"

text \<open>\<open>int(x)\<close> on a platform with 64-bit \<open>int\<close>, from \<open>float32\<close> and \<open>float64\<close>; \<open>int16(x)\<close>.\<close>

definition in_int64 :: "int \<Rightarrow> bool" where
  "in_int64 n \<longleftrightarrow> - (2 ^ 63) \<le> n \<and> n < 2 ^ 63"

definition go_int :: "platform \<Rightarrow> float32 \<Rightarrow> int" where
  "go_int P x = (case fp_trunc (val32 x) of
       Some n \<Rightarrow> if in_int64 n then n else int_of_unrep P x
     | None \<Rightarrow> int_of_unrep P x)"

definition go_int_of64 :: "platform \<Rightarrow> float64 \<Rightarrow> int" where
  "go_int_of64 P x = (case fp_trunc (val64 x) of
       Some n \<Rightarrow> if in_int64 n then n else int_of_unrep64 P x
     | None \<Rightarrow> int_of_unrep64 P x)"

definition go_int16 :: "platform \<Rightarrow> float32 \<Rightarrow> 16 word" where
  "go_int16 P x = (case fp_trunc (val32 x) of
       Some n \<Rightarrow> if - 32768 \<le> n \<and> n < 32768 then word_of_int n else int16_of_unrep P x
     | None \<Rightarrow> int16_of_unrep P x)"

end
