(* ===== verification/Span.thy ===== *)
theory Span
  imports Softfloat
begin

text \<open>
  Go slices and arrays as lists, and the program's \<open>span\<close> type (span.go): a backing array
  with a base offset.  Every read and write checks its index the way the Go run time does
  and panics with the index and the length it saw.  A function of the program that writes
  through a span argument returns the updated backing array.
\<close>

section \<open>Arrays and slice expressions\<close>

definition idx :: "'a list \<Rightarrow> int \<Rightarrow> 'a res" where
  "idx xs i = (if 0 \<le> i \<and> i < int (length xs) then Ok (xs ! nat i)
               else Panic (IndexPanic i (int (length xs))))"

definition upd :: "'a list \<Rightarrow> int \<Rightarrow> 'a \<Rightarrow> 'a list res" where
  "upd xs i v = (if 0 \<le> i \<and> i < int (length xs) then Ok (xs[nat i := v])
                 else Panic (IndexPanic i (int (length xs))))"

text \<open>The slice expression \<open>xs[lo:hi]\<close> of an array, read; every array sliced in the program
  has its length as capacity.\<close>

definition sub :: "'a list \<Rightarrow> int \<Rightarrow> int \<Rightarrow> 'a list res" where
  "sub xs lo hi = (if 0 \<le> lo \<and> lo \<le> hi \<and> hi \<le> int (length xs)
                   then Ok (take (nat (hi - lo)) (drop (nat lo) xs))
                   else Panic (SlicePanic lo hi (int (length xs))))"

text \<open>\<open>blit xs i ys\<close> overwrites \<open>xs\<close> from position \<open>i\<close> on with \<open>ys\<close>.\<close>

definition blit :: "'a list \<Rightarrow> nat \<Rightarrow> 'a list \<Rightarrow> 'a list" where
  "blit xs i ys = take i xs @ ys @ drop (i + length ys) xs"

text \<open>\<open>copy(xs[lo:hi], ys)\<close>: as many elements as the shorter of the two has.\<close>

definition copy_sub :: "'a list \<Rightarrow> int \<Rightarrow> int \<Rightarrow> 'a list \<Rightarrow> 'a list res" where
  "copy_sub xs lo hi ys =
     (if 0 \<le> lo \<and> lo \<le> hi \<and> hi \<le> int (length xs)
      then Ok (blit xs (nat lo) (take (nat (hi - lo)) ys))
      else Panic (SlicePanic lo hi (int (length xs))))"

text \<open>\<open>clear(xs[lo:hi])\<close>\<close>

definition clear_sub :: "('a::zero) list \<Rightarrow> int \<Rightarrow> int \<Rightarrow> 'a list res" where
  "clear_sub xs lo hi =
     (if 0 \<le> lo \<and> lo \<le> hi \<and> hi \<le> int (length xs)
      then Ok (blit xs (nat lo) (replicate (nat (hi - lo)) 0))
      else Panic (SlicePanic lo hi (int (length xs))))"

section \<open>span.go\<close>

record 'a span =
  sdata :: "'a list"
  soff :: int

abbreviation mk :: "'a list \<Rightarrow> int \<Rightarrow> 'a span" where
  "mk xs i \<equiv> \<lparr>sdata = xs, soff = i\<rparr>"

definition add :: "'a span \<Rightarrow> int \<Rightarrow> 'a span" where
  "add p n = p\<lparr>soff := soff p + n\<rparr>"

text \<open>\<open>at\<close> returns a pointer: \<open>at\<close> here is the read through it, \<open>put\<close> the write.\<close>

definition at :: "'a span \<Rightarrow> int \<Rightarrow> 'a res" where
  "at p n = idx (sdata p) (soff p + n)"

definition put :: "'a span \<Rightarrow> int \<Rightarrow> 'a \<Rightarrow> 'a list res" where
  "put p n v = upd (sdata p) (soff p + n) v"

definition slice :: "'a span \<Rightarrow> int \<Rightarrow> 'a list res" where
  "slice p n = sub (sdata p) (soff p) (soff p + n)"

text \<open>\<open>copy(p.slice(n), ys)\<close> and \<open>clear(p.slice(n))\<close>.\<close>

definition copy_slice :: "'a span \<Rightarrow> int \<Rightarrow> 'a list \<Rightarrow> 'a list res" where
  "copy_slice p n ys = copy_sub (sdata p) (soff p) (soff p + n) ys"

definition clear_slice :: "('a::zero) span \<Rightarrow> int \<Rightarrow> 'a list res" where
  "clear_slice p n = clear_sub (sdata p) (soff p) (soff p + n)"

text \<open>
  Writes through a span that keep the span: \<open>*p.at(n) = v\<close> and \<open>*p.at(n) = f(*p.at(n))\<close>.  A
  pointer that a loop of the program advances by one step in each iteration is written
  below as its base span with the loop counter added to the index.
\<close>

definition store :: "'a span \<Rightarrow> int \<Rightarrow> 'a \<Rightarrow> 'a span res" where
  "store p n v = bnd (put p n v) (\<lambda>d. Ok (p\<lparr>sdata := d\<rparr>))"

definition modify :: "'a span \<Rightarrow> int \<Rightarrow> ('a \<Rightarrow> 'a) \<Rightarrow> 'a span res" where
  "modify p n f = bnd (at p n) (\<lambda>v. store p n (f v))"

section \<open>Lemmas\<close>

lemma idx_in [simp]: "0 \<le> i \<Longrightarrow> i < int (length xs) \<Longrightarrow> idx xs i = Ok (xs ! nat i)"
  by (simp add: idx_def)

lemma upd_in [simp]: "0 \<le> i \<Longrightarrow> i < int (length xs) \<Longrightarrow> upd xs i v = Ok (xs[nat i := v])"
  by (simp add: upd_def)

lemma sub_in [simp]:
  "0 \<le> lo \<Longrightarrow> lo \<le> hi \<Longrightarrow> hi \<le> int (length xs) \<Longrightarrow>
     sub xs lo hi = Ok (take (nat (hi - lo)) (drop (nat lo) xs))"
  by (simp add: sub_def)

lemma copy_sub_in [simp]:
  "0 \<le> lo \<Longrightarrow> lo \<le> hi \<Longrightarrow> hi \<le> int (length xs) \<Longrightarrow>
     copy_sub xs lo hi ys = Ok (blit xs (nat lo) (take (nat (hi - lo)) ys))"
  by (simp add: copy_sub_def)

lemma clear_sub_in [simp]:
  "0 \<le> lo \<Longrightarrow> lo \<le> hi \<Longrightarrow> hi \<le> int (length xs) \<Longrightarrow>
     clear_sub xs lo hi = Ok (blit xs (nat lo) (replicate (nat (hi - lo)) 0))"
  by (simp add: clear_sub_def)

lemma length_blit [simp]: "i + length ys \<le> length xs \<Longrightarrow> length (blit xs i ys) = length xs"
  by (simp add: blit_def)

lemma nth_blit:
  "i + length ys \<le> length xs \<Longrightarrow> j < length xs \<Longrightarrow>
     blit xs i ys ! j = (if i \<le> j \<and> j < i + length ys then ys ! (j - i) else xs ! j)"
  by (auto simp: blit_def nth_append min_def)

lemma blit_Nil [simp]: "blit xs i [] = xs"
  by (simp add: blit_def)

lemma blit_all [simp]: "length ys = length xs \<Longrightarrow> blit xs 0 ys = ys"
  by (simp add: blit_def)

lemma add_simps [simp]: "sdata (add p n) = sdata p" "soff (add p n) = soff p + n"
  by (simp_all add: add_def)

lemma at_mk [simp]: "at (mk xs i) n = idx xs (i + n)"
  by (simp add: at_def)

lemma at_in [simp]:
  "0 \<le> soff p + n \<Longrightarrow> soff p + n < int (length (sdata p)) \<Longrightarrow>
     at p n = Ok (sdata p ! nat (soff p + n))"
  by (simp add: at_def)

lemma put_in [simp]:
  "0 \<le> soff p + n \<Longrightarrow> soff p + n < int (length (sdata p)) \<Longrightarrow>
     put p n v = Ok ((sdata p)[nat (soff p + n) := v])"
  by (simp add: put_def)

lemma slice_in [simp]:
  "0 \<le> soff p \<Longrightarrow> 0 \<le> n \<Longrightarrow> soff p + n \<le> int (length (sdata p)) \<Longrightarrow>
     slice p n = Ok (take (nat n) (drop (nat (soff p)) (sdata p)))"
  by (simp add: slice_def)

lemma copy_slice_in [simp]:
  "0 \<le> soff p \<Longrightarrow> 0 \<le> n \<Longrightarrow> soff p + n \<le> int (length (sdata p)) \<Longrightarrow>
     copy_slice p n ys = Ok (blit (sdata p) (nat (soff p)) (take (nat n) ys))"
  by (simp add: copy_slice_def)

lemma clear_slice_in [simp]:
  "0 \<le> soff p \<Longrightarrow> 0 \<le> n \<Longrightarrow> soff p + n \<le> int (length (sdata p)) \<Longrightarrow>
     clear_slice p n = Ok (blit (sdata p) (nat (soff p)) (replicate (nat n) 0))"
  by (simp add: clear_slice_def)

lemma store_in [simp]:
  "0 \<le> soff p + n \<Longrightarrow> soff p + n < int (length (sdata p)) \<Longrightarrow>
     store p n v = Ok (p\<lparr>sdata := (sdata p)[nat (soff p + n) := v]\<rparr>)"
  by (simp add: store_def)

lemma modify_in [simp]:
  "0 \<le> soff p + n \<Longrightarrow> soff p + n < int (length (sdata p)) \<Longrightarrow>
     modify p n f = Ok (p\<lparr>sdata := (sdata p)[nat (soff p + n) := f (sdata p ! nat (soff p + n))]\<rparr>)"
  by (simp add: modify_def)

text \<open>Reads and writes succeed exactly inside the bounds.\<close>

lemma idx_Ok_iff: "(\<exists>x. idx xs i = Ok x) \<longleftrightarrow> 0 \<le> i \<and> i < int (length xs)"
  by (simp add: idx_def)

lemma idx_append1 [simp]: "0 \<le> i \<Longrightarrow> i < int (length xs) \<Longrightarrow> idx (xs @ ys) i = Ok (xs ! nat i)"
  by (simp add: nth_append nat_less_iff)

section \<open>Rules for proofs that no access is out of bounds\<close>

text \<open>
  Introduction rules for \<open>spec\<close>, one for each operation; they keep of a written array only
  its length.  \<open>similar p q\<close>: the span \<open>q\<close> is \<open>p\<close> after writes through it.
\<close>

definition similar :: "'a span \<Rightarrow> 'a span \<Rightarrow> bool" where
  "similar p q \<longleftrightarrow> soff q = soff p \<and> length (sdata q) = length (sdata p)"

lemma similar_refl [simp]: "similar p p"
  by (simp add: similar_def)

lemma similar_trans: "similar p q \<Longrightarrow> similar q r \<Longrightarrow> similar p r"
  by (simp add: similar_def)

lemma similar_data [simp]: "similar p (p\<lparr>sdata := d\<rparr>) \<longleftrightarrow> length d = length (sdata p)"
  by (simp add: similar_def)

lemma spec_bndI [wp]: "spec E (\<lambda>x. spec E Q (f x)) m \<Longrightarrow> spec E Q (bnd m f)"
  by simp

lemma spec_OkI [wp]: "Q x \<Longrightarrow> spec E Q (Ok x)"
  by simp

lemma spec_ifI [wp]:
  "(c \<Longrightarrow> spec E Q a) \<Longrightarrow> (\<not> c \<Longrightarrow> spec E Q b) \<Longrightarrow> spec E Q (if c then a else b)"
  by simp

lemma spec_case_prod [wp]:
  "(\<And>a b. s = (a, b) \<Longrightarrow> spec E Q (f a b)) \<Longrightarrow> spec E Q (case s of (a, b) \<Rightarrow> f a b)"
  by (cases s) simp

lemma spec_case_prod_app [wp]:
  "(\<And>a b. s = (a, b) \<Longrightarrow> spec E Q (f a b c)) \<Longrightarrow> spec E Q ((case s of (a, b) \<Rightarrow> f a b) c)"
  by (cases s) simp

lemma spec_let [wp]: "(\<And>x. x = v \<Longrightarrow> spec E Q (f x)) \<Longrightarrow> spec E Q (Let v f)"
  by simp

lemma spec_idx [wp]: "0 \<le> i \<Longrightarrow> i < int (length xs) \<Longrightarrow> Q (xs ! nat i) \<Longrightarrow> spec E Q (idx xs i)"
  by simp

lemma spec_upd [wp]:
  "0 \<le> i \<Longrightarrow> i < int (length xs) \<Longrightarrow> (\<And>ys. length ys = length xs \<Longrightarrow> Q ys) \<Longrightarrow> spec E Q (upd xs i v)"
  by simp

lemma spec_at [wp]:
  "0 \<le> soff p + n \<Longrightarrow> soff p + n < int (length (sdata p)) \<Longrightarrow> Q (sdata p ! nat (soff p + n)) \<Longrightarrow>
     spec E Q (at p n)"
  by simp

lemma spec_store [wp]:
  "0 \<le> soff p + n \<Longrightarrow> soff p + n < int (length (sdata p)) \<Longrightarrow> (\<And>q. similar p q \<Longrightarrow> Q q) \<Longrightarrow>
     spec E Q (store p n v)"
  by simp

lemma spec_modify [wp]:
  "0 \<le> soff p + n \<Longrightarrow> soff p + n < int (length (sdata p)) \<Longrightarrow> (\<And>q. similar p q \<Longrightarrow> Q q) \<Longrightarrow>
     spec E Q (modify p n f)"
  by simp

lemma spec_sub [wp]:
  "0 \<le> lo \<Longrightarrow> lo \<le> hi \<Longrightarrow> hi \<le> int (length xs) \<Longrightarrow> (\<And>ys. int (length ys) = hi - lo \<Longrightarrow> Q ys) \<Longrightarrow>
     spec E Q (sub xs lo hi)"
  by simp

lemma spec_copy_sub [wp]:
  "0 \<le> lo \<Longrightarrow> lo \<le> hi \<Longrightarrow> hi \<le> int (length xs) \<Longrightarrow> (\<And>zs. length zs = length xs \<Longrightarrow> Q zs) \<Longrightarrow>
     spec E Q (copy_sub xs lo hi ys)"
  by simp

lemma spec_clear_sub [wp]:
  "0 \<le> lo \<Longrightarrow> lo \<le> hi \<Longrightarrow> hi \<le> int (length xs) \<Longrightarrow> (\<And>zs. length zs = length xs \<Longrightarrow> Q zs) \<Longrightarrow>
     spec E Q (clear_sub xs lo hi)"
  by simp

lemma spec_slice [wp]:
  "0 \<le> soff p \<Longrightarrow> 0 \<le> n \<Longrightarrow> soff p + n \<le> int (length (sdata p)) \<Longrightarrow>
     (\<And>ys. int (length ys) = n \<Longrightarrow> Q ys) \<Longrightarrow> spec E Q (slice p n)"
  by simp

lemma spec_copy_slice [wp]:
  "0 \<le> soff p \<Longrightarrow> 0 \<le> n \<Longrightarrow> soff p + n \<le> int (length (sdata p)) \<Longrightarrow>
     (\<And>zs. length zs = length (sdata p) \<Longrightarrow> Q zs) \<Longrightarrow> spec E Q (copy_slice p n ys)"
  by simp

lemma spec_clear_slice [wp]:
  "0 \<le> soff p \<Longrightarrow> 0 \<le> n \<Longrightarrow> soff p + n \<le> int (length (sdata p)) \<Longrightarrow>
     (\<And>zs. length zs = length (sdata p) \<Longrightarrow> Q zs) \<Longrightarrow> spec E Q (clear_slice p n)"
  by simp

end
