(* ===== verification/Constants.thy ===== *)
theory Constants
  imports Span
begin

text \<open>
  The tables, the bit-allocation layouts and the two state records of constants.go.
  A decimal literal of type \<open>float32\<close> is the nearest \<open>float32\<close>, which \<open>dec32 m k\<close> computes
  for \<open>m * 10^-k\<close>; \<open>micro\<close> gives a table of literals with at most six decimals.  Record
  fields of the encoder state that the decoder state also has carry a prefix.
\<close>

definition micro :: "int list \<Rightarrow> float32 list" where
  "micro ms = map (\<lambda>m. dec32 m 6) ms"

lemma length_micro [simp]: "length (micro ms) = length ms"
  by (simp add: micro_def)

section \<open>Types\<close>

record ulpLayout =
  lsfBits :: "int list list"
  startBits :: "int list"
  startfirstBits :: "int list"
  scaleBits :: "int list"
  stateBits :: "int list"
  ulp_extraCbIndex :: "int list list"
  ulp_extraCbGain :: "int list list"
  ulp_cbIndex :: "int list list list"
  ulp_cbGain :: "int list list list"

record encoderState =
  e_mode :: int
  e_frameSamples :: int
  e_subframes :: int
  e_adaptiveSubframes :: int
  e_frameBytes :: int
  e_frameWords :: int
  e_lpcAnalyses :: int
  e_shortStateSamples :: int
  e_ulp :: ulpLayout
  anaMem :: "float32 list"
  lsfold :: "float32 list"
  e_lsfdeqold :: "float32 list"
  lpcBuffer :: "float32 list"
  hpimem :: "float32 list"

record decoderState =
  d_mode :: int
  d_frameSamples :: int
  d_subframes :: int
  d_adaptiveSubframes :: int
  d_frameBytes :: int
  d_frameWords :: int
  d_lpcAnalyses :: int
  d_shortStateSamples :: int
  d_ulp :: ulpLayout
  syntMem :: "float32 list"
  d_lsfdeqold :: "float32 list"
  lastLag :: int
  prevLag :: int
  consPLICount :: int
  prevPLI :: int
  prevEnhPl :: int
  prevLpc :: "float32 list"
  prevResidual :: "float32 list"
  per :: float32
  seed :: "32 word"
  oldSyntdenum :: "float32 list"
  hpomem :: "float32 list"
  enhancement :: int
  enhBuf :: "float32 list"
  enhPeriod :: "float32 list"

section \<open>Tables\<close>

definition ulp20Table :: ulpLayout where
  "ulp20Table = \<lparr>
    lsfBits = [[6, 0, 0, 0, 0], [7, 0, 0, 0, 0], [7, 0, 0, 0, 0], [0, 0, 0, 0, 0], [0, 0, 0, 0, 0], [0, 0, 0, 0, 0]],
    startBits = [2, 0, 0, 0, 0],
    startfirstBits = [1, 0, 0, 0, 0],
    scaleBits = [6, 0, 0, 0, 0],
    stateBits = [0, 1, 2, 0, 0],
    ulp_extraCbIndex = [[6, 0, 1, 0, 0], [0, 0, 7, 0, 0], [0, 0, 7, 0, 0]],
    ulp_extraCbGain = [[2, 0, 3, 0, 0], [1, 1, 2, 0, 0], [0, 0, 3, 0, 0]],
    ulp_cbIndex = [
      [[7, 0, 1, 0, 0], [0, 0, 7, 0, 0], [0, 0, 7, 0, 0]],
      [[0, 0, 8, 0, 0], [0, 0, 8, 0, 0], [0, 0, 8, 0, 0]],
      [[0, 0, 0, 0, 0], [0, 0, 0, 0, 0], [0, 0, 0, 0, 0]],
      [[0, 0, 0, 0, 0], [0, 0, 0, 0, 0], [0, 0, 0, 0, 0]],
      [[0, 0, 0, 0, 0], [0, 0, 0, 0, 0], [0, 0, 0, 0, 0]],
      [[0, 0, 0, 0, 0], [0, 0, 0, 0, 0], [0, 0, 0, 0, 0]]],
    ulp_cbGain = [
      [[1, 2, 2, 0, 0], [1, 1, 2, 0, 0], [0, 0, 3, 0, 0]],
      [[1, 1, 3, 0, 0], [0, 2, 2, 0, 0], [0, 0, 3, 0, 0]],
      [[0, 0, 0, 0, 0], [0, 0, 0, 0, 0], [0, 0, 0, 0, 0]],
      [[0, 0, 0, 0, 0], [0, 0, 0, 0, 0], [0, 0, 0, 0, 0]],
      [[0, 0, 0, 0, 0], [0, 0, 0, 0, 0], [0, 0, 0, 0, 0]],
      [[0, 0, 0, 0, 0], [0, 0, 0, 0, 0], [0, 0, 0, 0, 0]]]\<rparr>"

definition ulp30Table :: ulpLayout where
  "ulp30Table = \<lparr>
    lsfBits = [[6, 0, 0, 0, 0], [7, 0, 0, 0, 0], [7, 0, 0, 0, 0], [6, 0, 0, 0, 0], [7, 0, 0, 0, 0], [7, 0, 0, 0, 0]],
    startBits = [3, 0, 0, 0, 0],
    startfirstBits = [1, 0, 0, 0, 0],
    scaleBits = [6, 0, 0, 0, 0],
    stateBits = [0, 1, 2, 0, 0],
    ulp_extraCbIndex = [[4, 2, 1, 0, 0], [0, 0, 7, 0, 0], [0, 0, 7, 0, 0]],
    ulp_extraCbGain = [[1, 1, 3, 0, 0], [1, 1, 2, 0, 0], [0, 0, 3, 0, 0]],
    ulp_cbIndex = [
      [[6, 1, 1, 0, 0], [0, 0, 7, 0, 0], [0, 0, 7, 0, 0]],
      [[0, 7, 1, 0, 0], [0, 0, 8, 0, 0], [0, 0, 8, 0, 0]],
      [[0, 7, 1, 0, 0], [0, 0, 8, 0, 0], [0, 0, 8, 0, 0]],
      [[0, 7, 1, 0, 0], [0, 0, 8, 0, 0], [0, 0, 8, 0, 0]],
      [[0, 0, 0, 0, 0], [0, 0, 0, 0, 0], [0, 0, 0, 0, 0]],
      [[0, 0, 0, 0, 0], [0, 0, 0, 0, 0], [0, 0, 0, 0, 0]]],
    ulp_cbGain = [
      [[1, 2, 2, 0, 0], [1, 2, 1, 0, 0], [0, 0, 3, 0, 0]],
      [[0, 2, 3, 0, 0], [0, 2, 2, 0, 0], [0, 0, 3, 0, 0]],
      [[0, 1, 4, 0, 0], [0, 1, 3, 0, 0], [0, 0, 3, 0, 0]],
      [[0, 1, 4, 0, 0], [0, 1, 3, 0, 0], [0, 0, 3, 0, 0]],
      [[0, 0, 0, 0, 0], [0, 0, 0, 0, 0], [0, 0, 0, 0, 0]],
      [[0, 0, 0, 0, 0], [0, 0, 0, 0, 0], [0, 0, 0, 0, 0]]]\<rparr>"

definition hpiZeroCoefsTbl :: "float32 list" where
  "hpiZeroCoefsTbl = [dec32 92727435 8, dec32 (-18544941) 7, dec32 92727435 8]"

definition hpiPoleCoefsTbl :: "float32 list" where
  "hpiPoleCoefsTbl = [dec32 1 0, dec32 (-19059465) 7, dec32 9114024 7]"

definition hpoZeroCoefsTbl :: "float32 list" where
  "hpoZeroCoefsTbl = [dec32 9398058 7, dec32 (-18795834) 7, dec32 9398058 7]"

definition hpoPoleCoefsTbl :: "float32 list" where
  "hpoPoleCoefsTbl = [dec32 1 0, dec32 (-19330735) 7, dec32 935892 6]"

definition lpFiltCoefsTbl :: "float32 list" where
  "lpFiltCoefsTbl = micro [
     -66650, 125000, 316650, 414063, 316650, 125000, -66650
   ]"

definition stateSq3Tbl :: "float32 list" where
  "stateSq3Tbl = micro [
     -3719849, -2177490, -1130005, -309692, 444214, 1329712, 2436279, 3983887
   ]"

definition stateFrgqTbl :: "float32 list" where
  "stateFrgqTbl = micro [
     1000085, 1071695, 1140395, 1206868, 1277188, 1351503, 1429380, 1500727, 1569049, 1639599,
     1707071, 1781531, 1840799, 1901550, 1956695, 2006750, 2055474, 2102787, 2142819, 2183592,
     2217962, 2257177, 2295739, 2332967, 2369248, 2402792, 2435080, 2468598, 2503394, 2539284,
     2572944, 2605036, 2636331, 2668939, 2698780, 2729101, 2759786, 2789834, 2818679, 2848074,
     2877470, 2906899, 2936655, 2967804, 3000115, 3033367, 3066355, 3104231, 3141499, 3183012,
     3222952, 3265433, 3308441, 3350823, 3395275, 3442793, 3490801, 3542514, 3604064, 3666050,
     3740994, 3830749, 3938770, 4101764
   ]"

definition searchRangeTbl :: "int list list" where
  "searchRangeTbl = [[58, 58, 58], [108, 44, 44], [108, 108, 108], [108, 108, 108], [108, 108, 108]]"

definition stMemLTbl :: "int" where
  "stMemLTbl = 85"

definition memLfTbl :: "int list" where
  "memLfTbl = [147, 147, 147, 147]"

definition cbfiltersTbl :: "float32 list" where
  "cbfiltersTbl = micro [
     -34180, 108887, -184326, 806152, 713379, -144043, 83740, -33691
   ]"

definition gainSq3Tbl :: "float32 list" where
  "gainSq3Tbl = micro [
     -1000000, -659973, -330017, 0, 250000, 500000, 750000, 1000000
   ]"

definition gainSq4Tbl :: "float32 list" where
  "gainSq4Tbl = micro [
     -1049988, -900024, -750000, -599976, -450012, -299988, -150024, 0, 150024, 299988,
     450012, 599976, 750000, 900024, 1049988, 1200012
   ]"

definition gainSq5Tbl :: "float32 list" where
  "gainSq5Tbl = micro [
     37476, 75012, 112488, 150024, 187500, 224976, 262512, 299988, 337524, 375000,
     412476, 450012, 487488, 525024, 562500, 599976, 637512, 674988, 712524, 750000,
     787476, 825012, 862488, 900024, 937500, 974976, 1012512, 1049988, 1087524, 1125000,
     1162476, 1200012
   ]"

definition polyphaserTbl :: "float32 list" where
  "polyphaserTbl = micro [
     0, 0, 0, 1000000, 0, 0, 0, 15625, -76904, 288330,
     862061, -106445, 18799, -15625, 23682, -124268, 601563, 601563, -124268, 23682,
     -23682, 18799, -106445, 862061, 288330, -76904, 15625, -18799
   ]"

definition enhPlocsTbl :: "float32 list" where
  "enhPlocsTbl = micro [
     40000000, 120000000, 200000000, 280000000, 360000000, 440000000, 520000000, 600000000
   ]"

definition dimLsfCbTbl :: "int list" where
  "dimLsfCbTbl = [3, 3, 4]"

definition sizeLsfCbTbl :: "int list" where
  "sizeLsfCbTbl = [64, 128, 128]"

definition lsfmeanTbl :: "float32 list" where
  "lsfmeanTbl = micro [
     281738, 445801, 663330, 962524, 1251831, 1533081, 1850586, 2137817, 2481445, 2777344
   ]"

definition lsfWeightTbl30ms :: "float32 list" where
  "lsfWeightTbl30ms = [dec32 5 1, dec32 1 0, dec32 6666667 7, dec32 33333334 8, dec32 0 0, dec32 0 0]"

definition lsfWeightTbl20ms :: "float32 list" where
  "lsfWeightTbl20ms = micro [
     750000, 500000, 250000, 0
   ]"

definition lpcWinTbl :: "float32 list" where
  "lpcWinTbl = micro [
     183, 671, 1526, 2716, 4242, 6104, 8301, 10834, 13702, 16907,
     20416, 24261, 28442, 32928, 37750, 42877, 48309, 54047, 60089, 66437,
     73090, 80017, 87219, 94727, 102509, 110535, 118835, 127411, 136230, 145294,
     154602, 164154, 173920, 183899, 194122, 204529, 215149, 225952, 236938, 248108,
     259460, 270966, 282654, 294464, 306396, 318481, 330688, 343018, 355438, 367981,
     380585, 393280, 406067, 418884, 431763, 444702, 457672, 470673, 483704, 496735,
     509766, 522797, 535828, 548798, 561768, 574677, 587524, 600342, 613068, 625732,
     638306, 650787, 663147, 675415, 687561, 699585, 711487, 723206, 734802, 746216,
     757477, 768585, 779480, 790192, 800720, 811005, 821106, 830994, 840668, 850067,
     859253, 868225, 876892, 885345, 893524, 901428, 909058, 916412, 923492, 930267,
     936768, 942963, 948853, 954437, 959717, 964691, 969360, 973694, 977692, 981384,
     984741, 987762, 990479, 992828, 994873, 996552, 997925, 998932, 999603, 999969,
     999969, 999603, 998932, 997925, 996552, 994873, 992828, 990479, 987762, 984741,
     981384, 977692, 973694, 969360, 964691, 959717, 954437, 948853, 942963, 936768,
     930267, 923492, 916412, 909058, 901428, 893524, 885345, 876892, 868225, 859253,
     850067, 840668, 830994, 821106, 811005, 800720, 790192, 779480, 768585, 757477,
     746216, 734802, 723206, 711487, 699585, 687561, 675415, 663147, 650787, 638306,
     625732, 613068, 600342, 587524, 574677, 561768, 548798, 535828, 522797, 509766,
     496735, 483704, 470673, 457672, 444702, 431763, 418884, 406067, 393280, 380585,
     367981, 355438, 343018, 330688, 318481, 306396, 294464, 282654, 270966, 259460,
     248108, 236938, 225952, 215149, 204529, 194122, 183899, 173920, 164154, 154602,
     145294, 136230, 127411, 118835, 110535, 102509, 94727, 87219, 80017, 73090,
     66437, 60089, 54047, 48309, 42877, 37750, 32928, 28442, 24261, 20416,
     16907, 13702, 10834, 8301, 6104, 4242, 2716, 1526, 671, 183
   ]"

definition lpcAsymwinTbl :: "float32 list" where
  "lpcAsymwinTbl = micro [
     61, 214, 458, 824, 1282, 1831, 2472, 3235, 4120, 5066,
     6134, 7294, 8545, 9918, 11383, 12939, 14587, 16357, 18219, 20172,
     22217, 24353, 26611, 28961, 31372, 33905, 36530, 39276, 42084, 44983,
     47974, 51086, 54260, 57526, 60883, 64331, 67871, 71503, 75226, 79010,
     82916, 86884, 90942, 95062, 99304, 103607, 107971, 112427, 116974, 121582,
     126282, 131073, 135895, 140839, 145813, 150879, 156006, 161224, 166504, 171844,
     177246, 182709, 188263, 193848, 199524, 205231, 211029, 216858, 222778, 228729,
     234741, 240814, 246918, 253082, 259308, 265564, 271881, 278259, 284668, 291107,
     297607, 304138, 310730, 317322, 323975, 330658, 337372, 344147, 350922, 357727,
     364594, 371460, 378357, 385284, 392212, 399170, 406158, 413177, 420197, 427246,
     434296, 441376, 448456, 455536, 462646, 469757, 476868, 483978, 491089, 498230,
     505341, 512451, 519592, 526703, 533813, 540924, 548004, 555084, 562164, 569244,
     576294, 583313, 590332, 597321, 604309, 611267, 618195, 625092, 631989, 638855,
     645660, 652466, 659241, 665985, 672668, 679352, 685974, 692566, 699127, 705658,
     712128, 718536, 724945, 731262, 737549, 743805, 750000, 756134, 762238, 768280,
     774261, 780182, 786072, 791870, 797638, 803314, 808960, 814514, 820038, 825470,
     830841, 836151, 841400, 846558, 851654, 856689, 861633, 866516, 871338, 876068,
     880737, 885315, 889801, 894226, 898560, 902832, 907013, 911102, 915100, 919037,
     922882, 926636, 930328, 933899, 937408, 940796, 944122, 947357, 950470, 953522,
     956482, 959351, 962097, 964783, 967377, 969849, 972229, 974518, 976715, 978821,
     980835, 982727, 984528, 986237, 987854, 989380, 990784, 992096, 993317, 994415,
     995422, 996338, 997162, 997864, 998474, 998962, 999390, 999695, 999878, 999969,
     999969, 996918, 987701, 972382, 951050, 923889, 891022, 852631, 809021, 760406,
     707092, 649445, 587799, 522491, 453979, 382690, 309021, 233459, 156433, 78461
   ]"

definition lpcLagwinTbl :: "float32 list" where
  "lpcLagwinTbl = micro [
     1000100, 998890, 995569, 990057, 982392, 972623, 960816, 947047, 931405, 913989,
     894909
   ]"

definition lsfCbTbl :: "float32 list" where
  "lsfCbTbl = micro [
     155396, 273193, 451172, 390503, 648071, 1002075, 440186, 692261, 955688, 343628,
     642334, 1071533, 318359, 491577, 670532, 193115, 375488, 725708, 364136, 510376,
     658691, 297485, 527588, 842529, 227173, 365967, 563110, 244995, 396729, 636475,
     169434, 300171, 520264, 312866, 464478, 643188, 248535, 429932, 626099, 236206,
     491333, 817139, 334961, 625122, 895752, 343018, 518555, 698608, 372803, 659790,
     945435, 176880, 316528, 581421, 416382, 625977, 805176, 303223, 568726, 915039,
     203613, 351440, 588135, 221191, 375000, 614746, 199951, 323364, 476074, 300781,
     433350, 566895, 226196, 354004, 507568, 300049, 508179, 711670, 312012, 492676,
     763428, 329956, 541016, 795776, 373779, 604614, 928833, 210571, 452026, 755249,
     271118, 473267, 662476, 285522, 436890, 634399, 246704, 565552, 859009, 270508,
     406250, 553589, 361450, 578491, 813843, 342651, 482788, 622437, 340332, 549438,
     743164, 200439, 336304, 540894, 407837, 644775, 895142, 294678, 454834, 699097,
     193115, 344482, 643188, 275757, 420776, 598755, 380493, 608643, 861084, 222778,
     426147, 676514, 407471, 700195, 1053101, 218384, 377197, 669922, 313232, 454102,
     600952, 347412, 571533, 874146, 238037, 405396, 729492, 223877, 412964, 822021,
     395264, 582153, 743896, 247925, 485596, 720581, 229126, 496582, 907715, 260132,
     566895, 1012695, 337402, 611572, 978149, 267822, 447632, 769287, 250610, 381714,
     530029, 430054, 805054, 1221924, 382568, 544067, 701660, 383545, 710327, 1149170,
     271362, 529053, 775513, 246826, 393555, 588623, 266846, 422119, 676758, 311523,
     580688, 838623, 1331177, 1576782, 1779541, 1160034, 1401978, 1768188, 1161865, 1525146,
     1715332, 759521, 913940, 1119873, 947144, 1121338, 1282471, 1015015, 1557007, 1804932,
     1172974, 1402100, 1692627, 1087524, 1474243, 1665405, 899536, 1105225, 1406250, 1148438,
     1484741, 1796265, 785645, 1209839, 1567749, 867798, 1166504, 1450684, 922485, 1229858,
     1420898, 791260, 1123291, 1409546, 788940, 966064, 1340332, 1051147, 1272827, 1556641,
     866821, 1181152, 1538818, 906738, 1373535, 1607910, 1244751, 1581421, 1933838, 913940,
     1337280, 1539673, 680542, 959229, 1662720, 887207, 1430542, 1800781, 912598, 1433594,
     1683960, 860474, 1060303, 1455322, 1005127, 1381104, 1706909, 800781, 1363892, 1829102,
     781860, 1124390, 1505981, 1003662, 1471436, 1684692, 981323, 1309570, 1618042, 1228760,
     1554321, 1756470, 734375, 895752, 1225586, 841797, 1055664, 1249268, 920166, 1119385,
     1486206, 894409, 1539063, 1828979, 1283691, 1543335, 1858276, 676025, 933105, 1490845,
     821289, 1491821, 1739868, 923218, 1144653, 1580566, 1057251, 1345581, 1635864, 888672,
     1074951, 1353149, 942749, 1195435, 1505493, 1492310, 1788086, 2039673, 1070313, 1634399,
     1860962, 1253296, 1488892, 1686035, 647095, 864014, 1401855, 866699, 1254883, 1453369,
     1063965, 1532593, 1731323, 1167847, 1521484, 1884033, 956055, 1502075, 1745605, 928711,
     1288574, 1479614, 1088013, 1380737, 1570801, 905029, 1186768, 1371948, 1057861, 1421021,
     1617432, 1108276, 1312500, 1501465, 979492, 1416992, 1624268, 1276001, 1661011, 2007935,
     993042, 1168579, 1331665, 778198, 944946, 1235962, 1223755, 1491333, 1815674, 852661,
     1350464, 1722290, 1134766, 1593140, 1787354, 1051392, 1339722, 1531006, 803589, 1271240,
     1652100, 755737, 1143555, 1639404, 700928, 837280, 1130371, 942749, 1197876, 1669800,
     993286, 1378296, 1566528, 801025, 1095337, 1298950, 739990, 1032959, 1383667, 845703,
     1072266, 1543823, 915649, 1072266, 1224487, 1021973, 1226196, 1481323, 999878, 1204102,
     1555908, 722290, 913940, 1340210, 673340, 835938, 1259521, 832397, 1208374, 1394165,
     962158, 1576172, 1912842, 1166748, 1370850, 1556763, 946289, 1138550, 1400391, 1035034,
     1218262, 1386475, 1393799, 1717773, 2000244, 972656, 1260986, 1760620, 1028198, 1288452,
     1484619, 773560, 1258057, 1756714, 1080322, 1328003, 1742676, 823975, 1450806, 1917725,
     859009, 1016602, 1191895, 843994, 1131104, 1645020, 1189697, 1702759, 1894409, 1346680,
     1763184, 2066040, 980469, 1253784, 1441650, 1338135, 1641968, 1932739, 1223267, 1424194,
     1626465, 765747, 1004150, 1579102, 1042847, 1269165, 1647461, 968750, 1257568, 1555786,
     826294, 993408, 1275146, 742310, 950439, 1430542, 1054321, 1439819, 1828003, 1072998,
     1261719, 1441895, 859375, 1036377, 1314819, 895752, 1267212, 1605591, 805420, 962891,
     1142334, 795654, 1005493, 1468506, 1105347, 1313843, 1584839, 792236, 1221802, 1465698,
     1170532, 1467651, 1664063, 838257, 1153198, 1342163, 968018, 1198242, 1391235, 1250122,
     1623535, 1823608, 711670, 1058350, 1512085, 1204834, 1454468, 1739136, 1137451, 1421753,
     1620117, 820435, 1322754, 1578247, 798706, 1005005, 1213867, 980713, 1324951, 1512939,
     1112305, 1438843, 1735596, 1135498, 1356689, 1635742, 1101318, 1387451, 1686523, 849854,
     1276978, 1523438, 1377930, 1627563, 1858154, 884888, 1095459, 1287476, 1289795, 1505859,
     1756592, 817505, 1384155, 1650513, 1446655, 1702148, 1931885, 835815, 1023071, 1385376,
     916626, 1139038, 1335327, 980103, 1174072, 1453735, 1705688, 2153809, 2398315, 2743408,
     1797119, 2016846, 2445679, 2701904, 1990356, 2219116, 2576416, 2813477, 1849365, 2190918,
     2611572, 2835083, 1657959, 1854370, 2159058, 2726196, 1437744, 1897705, 2253174, 2655396,
     2028687, 2247314, 2542358, 2875854, 1736938, 1922119, 2185913, 2743408, 1521606, 1870972,
     2526855, 2786987, 1841431, 2050659, 2463623, 2857666, 1590088, 2067261, 2427979, 2794434,
     1746826, 2057373, 2320190, 2800781, 1734619, 1940552, 2306030, 2826416, 1786255, 2204468,
     2457520, 2795288, 1861084, 2170532, 2414551, 2763672, 2001465, 2307617, 2552734, 2811890,
     1784424, 2124146, 2381592, 2645508, 1888794, 2135864, 2418579, 2861206, 2301147, 2531250,
     2724976, 2913086, 1837769, 2051270, 2261963, 2553223, 2012939, 2221191, 2440186, 2678101,
     1429565, 1858276, 2582275, 2845703, 1622803, 1897705, 2367310, 2621094, 1581543, 1960449,
     2515869, 2736450, 1419434, 1933960, 2394653, 2746704, 1721924, 2059570, 2421753, 2769653,
     1911011, 2220703, 2461060, 2740723, 1581177, 1860840, 2516968, 2874634, 1870361, 2098755,
     2432373, 2656494, 2059692, 2279785, 2495605, 2729370, 1815674, 2181519, 2451538, 2680542,
     1407959, 1768311, 2343018, 2668091, 2168701, 2394653, 2604736, 2829346, 1636230, 1865723,
     2329102, 2824219, 1878906, 2139526, 2376709, 2679810, 1765381, 1971802, 2195435, 2586914,
     2164795, 2410889, 2673706, 2903198, 2071899, 2331055, 2645874, 2907104, 2026001, 2311523,
     2594849, 2863892, 1948975, 2180786, 2514893, 2797852, 1881836, 2130859, 2478149, 2804199,
     2238159, 2452759, 2652832, 2868286, 1897949, 2101685, 2524292, 2880127, 1856445, 2074585,
     2541016, 2791748, 1695557, 2199097, 2506226, 2742676, 1612671, 1877075, 2435425, 2732910,
     1568848, 1786499, 2194580, 2768555, 1953369, 2164551, 2486938, 2874023, 1388306, 1725342,
     2384521, 2771851, 2115356, 2337769, 2592896, 2864014, 1905762, 2111328, 2363525, 2789307,
     1882568, 2332031, 2598267, 2827637, 1683594, 2088745, 2361938, 2608643, 1874023, 2182129,
     2536133, 2766968, 1861938, 2070435, 2309692, 2700562, 1722168, 2107422, 2477295, 2837646,
     1926880, 2184692, 2442627, 2663818, 2123901, 2337280, 2553101, 2777466, 1588135, 1911499,
     2212769, 2543945, 2053955, 2370850, 2712158, 2939941, 2210449, 2519653, 2770386, 2958618,
     2199463, 2474731, 2718262, 2919922, 1960083, 2175415, 2608032, 2888794, 1953735, 2185181,
     2428223, 2809570, 1615234, 2036499, 2576538, 2834595, 1621094, 2028198, 2431030, 2664673,
     1824951, 2267456, 2514526, 2747925, 1994263, 2229126, 2475220, 2833984, 1746338, 2011353,
     2588257, 2826904, 1562866, 2135986, 2471680, 2687256, 1748901, 2083496, 2460938, 2686279,
     1758057, 2131470, 2636597, 2891602, 2071289, 2299072, 2550781, 2814331, 1839600, 2094360,
     2496460, 2723999, 1882202, 2088257, 2636841, 2923096, 1957886, 2153198, 2384399, 2615234,
     1992920, 2351196, 2654419, 2889771, 2012817, 2262451, 2643799, 2903076, 2025635, 2254761,
     2508423, 2784058, 2316040, 2589355, 2794189, 2963623, 1741211, 2279541, 2578491, 2816284,
     1845337, 2055786, 2348511, 2822021, 1679932, 1926514, 2499756, 2835693, 1722534, 1946899,
     2448486, 2728760, 1829834, 2043213, 2580444, 2867676, 1676636, 2071655, 2322510, 2704834,
     1791504, 2113525, 2469727, 2784058, 1977051, 2215088, 2497437, 2726929, 1800171, 2106689,
     2357788, 2738892, 1827759, 2170166, 2525879, 2852417, 1918335, 2132813, 2488403, 2728149,
     1916748, 2225098, 2542603, 2857666, 1761230, 1976074, 2507446, 2884521, 2053711, 2367432,
     2608032, 2837646, 1595337, 2000977, 2307129, 2578247, 1470581, 2031250, 2375854, 2647583,
     1801392, 2128052, 2399780, 2822876, 1853638, 2066650, 2429199, 2751465, 1956299, 2163696,
     2394775, 2734253, 1963623, 2275757, 2585327, 2865234, 1887451, 2105469, 2331787, 2587402,
     2120117, 2443359, 2733887, 2941406, 1506348, 1766968, 2400513, 2851807, 1664551, 1981079,
     2375732, 2774414, 1720703, 1978882, 2391479, 2640991, 1483398, 1814819, 2434448, 2722290,
     1769043, 2136597, 2563721, 2774414, 1810791, 2049316, 2373901, 2613647, 1788330, 2005981,
     2359131, 2723145, 1785156, 1993164, 2399780, 2832520, 1695313, 2022949, 2522583, 2745117,
     1584106, 1965576, 2299927, 2715576, 1894897, 2249878, 2655884, 2897705, 1720581, 1995728,
     2299438, 2557007, 1619385, 2173950, 2574219, 2787964, 1883179, 2220459, 2474365, 2825073,
     1447632, 2045044, 2555542, 2744873, 1502686, 2156616, 2653320, 2846558, 1711548, 1944092,
     2282959, 2685791, 1499756, 1867554, 2341064, 2578857, 1916870, 2135132, 2568237, 2826050,
     1498047, 1711182, 2223267, 2755127, 1808716, 1997559, 2256470, 2758545, 2088501, 2402710,
     2667358, 2890259, 1545044, 1819214, 2324097, 2692993, 1796021, 2012573, 2505737, 2784912,
     1786499, 2041748, 2290405, 2650757, 1938232, 2264404, 2529053, 2796143
   ]"

section \<open>Table sizes\<close>

lemma table_lengths [simp]:
  "length hpiZeroCoefsTbl = 3"
  "length hpiPoleCoefsTbl = 3"
  "length hpoZeroCoefsTbl = 3"
  "length hpoPoleCoefsTbl = 3"
  "length lpFiltCoefsTbl = 7"
  "length stateSq3Tbl = 8"
  "length stateFrgqTbl = 64"
  "length searchRangeTbl = 5"
  "length memLfTbl = 4"
  "length cbfiltersTbl = 8"
  "length gainSq3Tbl = 8"
  "length gainSq4Tbl = 16"
  "length gainSq5Tbl = 32"
  "length polyphaserTbl = 28"
  "length enhPlocsTbl = 8"
  "length dimLsfCbTbl = 3"
  "length sizeLsfCbTbl = 3"
  "length lsfmeanTbl = 10"
  "length lsfWeightTbl30ms = 6"
  "length lsfWeightTbl20ms = 4"
  "length lpcWinTbl = 240"
  "length lpcAsymwinTbl = 240"
  "length lpcLagwinTbl = 11"
  "length lsfCbTbl = 1088"
  by (simp_all add: hpiZeroCoefsTbl_def hpiPoleCoefsTbl_def hpoZeroCoefsTbl_def hpoPoleCoefsTbl_def lpFiltCoefsTbl_def stateSq3Tbl_def stateFrgqTbl_def searchRangeTbl_def memLfTbl_def cbfiltersTbl_def gainSq3Tbl_def gainSq4Tbl_def gainSq5Tbl_def polyphaserTbl_def enhPlocsTbl_def dimLsfCbTbl_def sizeLsfCbTbl_def lsfmeanTbl_def lsfWeightTbl30ms_def lsfWeightTbl20ms_def lpcWinTbl_def lpcAsymwinTbl_def lpcLagwinTbl_def lsfCbTbl_def)

end
