(* ===== verification/Helpfun.thy ===== *)
theory Helpfun
  imports Constants
begin

text \<open>
  helpfun.go: correlation, windowing, the Levinson-Durbin recursion, interpolation, bandwidth
  expansion, vector and scalar quantisation and the LSF stability check.
\<close>

definition autocorr ::
  "float32 span \<Rightarrow> float32 span \<Rightarrow> int \<Rightarrow> int \<Rightarrow> float32 list res" where
  "autocorr r x len order =
     bnd (for_up 0 (order + 1) (\<lambda>lag r.
       bnd (for_up 0 (len - lag) (\<lambda>n sum.
         bnd (at x n) (\<lambda>a.
         bnd (at x (n + lag)) (\<lambda>b.
         Ok (sum + a * b)))) 0) (\<lambda>sum.
       store r lag sum)) r) (\<lambda>r.
     Ok (sdata r))"

text \<open>
  The two source operands are spans by value; at iteration \<open>i\<close> the code reads element \<open>i\<close> of
  both before it writes element \<open>i\<close>, so passing the same array twice is the in-place call.
\<close>

definition window ::
  "float32 span \<Rightarrow> float32 span \<Rightarrow> float32 span \<Rightarrow> int \<Rightarrow> float32 list res" where
  "window z x y len =
     bnd (for_up 0 len (\<lambda>i z.
       bnd (at x i) (\<lambda>a.
       bnd (at y i) (\<lambda>b.
       store z i (a * b)))) z) (\<lambda>z.
     Ok (sdata z))"

definition levdurb_update ::
  "int \<Rightarrow> float32 \<Rightarrow> int \<Rightarrow> float32 span \<Rightarrow> float32 span res" where
  "levdurb_update m km i a =
     bnd (at a (i + 1)) (\<lambda>ai.
     bnd (at a (m - i)) (\<lambda>am.
     let sum = ai + km * am in
     bnd (modify a (m - i) (\<lambda>v. v + km * ai)) (\<lambda>a.
     store a (i + 1) sum)))"

definition levdurb ::
  "float32 span \<Rightarrow> float32 span \<Rightarrow> float32 span \<Rightarrow> int \<Rightarrow> (float32 list \<times> float32 list) res" where
  "levdurb a k r order =
     bnd (store a 0 1) (\<lambda>a.
     bnd (at r 0) (\<lambda>r0.
     if r0 < dec32 2220446 22 then
       bnd (for_up 0 order (\<lambda>i (a, k).
         bnd (store k i 0) (\<lambda>k.
         bnd (store a (i + 1) 0) (\<lambda>a.
         Ok (a, k)))) (a, k)) (\<lambda>(a, k).
       Ok (sdata a, sdata k))
     else
       bnd (at r 1) (\<lambda>r1.
       bnd (store a 1 (- r1 / r0)) (\<lambda>a.
       bnd (store k 0 (- r1 / r0)) (\<lambda>k.
       bnd (at k 0) (\<lambda>k0.
       bnd (for_up 1 order (\<lambda>m (a, k, alpha).
         bnd (at r (m + 1)) (\<lambda>sum.
         bnd (for_up 0 m (\<lambda>i sum.
           bnd (at a (i + 1)) (\<lambda>ai.
           bnd (at r (m - i)) (\<lambda>rm.
           Ok (sum + ai * rm)))) sum) (\<lambda>sum.
         let km = - sum / alpha in
         bnd (store k m km) (\<lambda>k.
         let alpha = alpha + km * sum; mH = (m + 1) div 2 in
         bnd (for_up 0 mH (levdurb_update m km) a) (\<lambda>a.
         bnd (store a (m + 1) km) (\<lambda>a.
         Ok (a, k, alpha))))))) (a, k, r0 + r1 * k0)) (\<lambda>(a, k, alpha).
       Ok (sdata a, sdata k))))))))"

definition interpolate ::
  "float32 span \<Rightarrow> float32 span \<Rightarrow> float32 span \<Rightarrow> float32 \<Rightarrow> int \<Rightarrow> float32 list res" where
  "interpolate out in1 in2 coef len =
     (let invcoef = 1 - coef in
      bnd (for_up 0 len (\<lambda>i out.
        bnd (at in1 i) (\<lambda>x.
        bnd (at in2 i) (\<lambda>y.
        store out i (coef * x + invcoef * y)))) out) (\<lambda>out.
      Ok (sdata out)))"

definition bwexpand ::
  "float32 span \<Rightarrow> float32 span \<Rightarrow> float32 \<Rightarrow> int \<Rightarrow> float32 list res" where
  "bwexpand out input coef len =
     bnd (at input 0) (\<lambda>x.
     bnd (store out 0 x) (\<lambda>out.
     bnd (for_up 1 len (\<lambda>i (out, chirp).
       bnd (at input i) (\<lambda>x.
       bnd (store out i (chirp * x)) (\<lambda>out.
       Ok (out, chirp * coef)))) (out, coef)) (\<lambda>(out, chirp).
     Ok (sdata out))))"

section \<open>Vector quantisation\<close>

text \<open>The squared distance of the target and codebook entry \<open>j\<close>, accumulated as in the code.\<close>

definition vq_dist :: "float32 span \<Rightarrow> float32 span \<Rightarrow> int \<Rightarrow> int \<Rightarrow> float32 res" where
  "vq_dist cB x pos dim =
     bnd (at x 0) (\<lambda>x0.
     bnd (at cB pos) (\<lambda>c0.
     let dist = x0 - c0; dist = dist * dist in
     for_up 1 dim (\<lambda>i dist.
       bnd (at x i) (\<lambda>xi.
       bnd (at cB (pos + i)) (\<lambda>ci.
       let tmp = xi - ci in Ok (dist + tmp * tmp)))) dist))"

definition vq ::
  "float32 span \<Rightarrow> int span \<Rightarrow> float32 span \<Rightarrow> float32 span \<Rightarrow> int \<Rightarrow> int \<Rightarrow>
   (float32 list \<times> int list) res" where
  "vq xq index cB x nCb dim =
     bnd (for_up 0 nCb (\<lambda>j (pos, mindist, minindex).
       bnd (vq_dist cB x pos dim) (\<lambda>dist.
       Ok (pos + dim, if dist < mindist then (dist, j) else (mindist, minindex))))
       (0, dec32 (10 ^ 37) 0, 0)) (\<lambda>(pos, mindist, minindex).
     bnd (for_up 0 dim (\<lambda>i xq.
       bnd (at cB (minindex * dim + i)) (\<lambda>c.
       store xq i c)) xq) (\<lambda>xq.
     bnd (store index 0 minindex) (\<lambda>index.
     Ok (sdata xq, sdata index))))"

definition splitVQ ::
  "float32 span \<Rightarrow> int span \<Rightarrow> float32 span \<Rightarrow> float32 span \<Rightarrow> int \<Rightarrow> int span \<Rightarrow> int span \<Rightarrow>
   (float32 list \<times> int list) res" where
  "splitVQ qX index x cB nsplit dim cbsize =
     bnd (for_up 0 nsplit (\<lambda>i (qX, index, cbPos, xPos).
       bnd (at cbsize i) (\<lambda>size.
       bnd (at dim i) (\<lambda>d.
       bnd (vq (add qX xPos) (add index i) (add cB cbPos) (add x xPos) size d) (\<lambda>(q, ix).
       Ok (qX\<lparr>sdata := q\<rparr>, index\<lparr>sdata := ix\<rparr>, cbPos + d * size, xPos + d)))))
       (qX, index, 0, 0)) (\<lambda>(qX, index, cbPos, xPos).
     Ok (sdata qX, sdata index))"

section \<open>Scalar quantisation\<close>

function sortSq_scan :: "float32 \<Rightarrow> float32 span \<Rightarrow> int \<Rightarrow> int \<Rightarrow> int res" where
  "sortSq_scan x cb cbSize i =
     bnd (at cb i) (\<lambda>c.
     if c < x \<and> i < cbSize - 1 then sortSq_scan x cb cbSize (i + 1) else Ok i)"
  by pat_completeness auto
termination
  by (relation "measure (\<lambda>(x, cb, cbSize, i). nat (cbSize - 1 - i))") auto

declare sortSq_scan.simps [simp del]

text \<open>Its panics show the input in their traceback.\<close>

definition sortSq ::
  "float32 span \<Rightarrow> int span \<Rightarrow> float32 \<Rightarrow> float32 span \<Rightarrow> int \<Rightarrow> (float32 list \<times> int list) res" where
  "sortSq xq index x cb cbSize = traced ''sortSq'' (float32bits x) (
     bnd (at cb 0) (\<lambda>c0.
     if x \<le> c0 then
       bnd (store index 0 0) (\<lambda>index.
       bnd (store xq 0 c0) (\<lambda>xq.
       Ok (sdata xq, sdata index)))
     else
       bnd (sortSq_scan x cb cbSize 0) (\<lambda>i.
       bnd (at cb i) (\<lambda>ci.
       bnd (at cb (i - 1)) (\<lambda>cp.
       if (ci + cp) / int32 2 < x then
         bnd (store index 0 i) (\<lambda>index.
         bnd (store xq 0 ci) (\<lambda>xq.
         Ok (sdata xq, sdata index)))
       else
         bnd (store index 0 (i - 1)) (\<lambda>index.
         bnd (store xq 0 cp) (\<lambda>xq.
         Ok (sdata xq, sdata index))))))))"

section \<open>LSF stability\<close>

definition checkLSF_step ::
  "int \<Rightarrow> float32 span \<times> int \<Rightarrow> (float32 span \<times> int) res" where
  "checkLSF_step pos = (\<lambda>(lsf, change).
     let eps = dec32 39 3; eps2 = dec32 195 4; maxlsf = dec32 314 2; minlsf = dec32 1 2 in
     bnd (at lsf (pos + 1)) (\<lambda>b.
     bnd (at lsf pos) (\<lambda>a.
     bnd (if b - a < eps then
            if b < a then
              bnd (store lsf (pos + 1) (a + eps2)) (\<lambda>lsf.
              bnd (at lsf (pos + 1)) (\<lambda>b.
              bnd (store lsf pos (b - eps2)) (\<lambda>lsf.
              Ok (lsf, 1))))
            else
              bnd (modify lsf pos (\<lambda>v. v - eps2)) (\<lambda>lsf.
              bnd (modify lsf (pos + 1) (\<lambda>v. v + eps2)) (\<lambda>lsf.
              Ok (lsf, 1)))
          else Ok (lsf, change)) (\<lambda>(lsf, change).
     bnd (at lsf pos) (\<lambda>a.
     bnd (if a < minlsf then bnd (store lsf pos minlsf) (\<lambda>lsf. Ok (lsf, 1))
          else Ok (lsf, change)) (\<lambda>(lsf, change).
     bnd (at lsf pos) (\<lambda>a.
     if maxlsf < a then bnd (store lsf pos maxlsf) (\<lambda>lsf. Ok (lsf, 1))
     else Ok (lsf, change))))))))"

text \<open>The result is the updated LSF array and the change flag.\<close>

definition checkLSF :: "float32 span \<Rightarrow> int \<Rightarrow> int \<Rightarrow> (float32 list \<times> int) res" where
  "checkLSF lsf dim noAn =
     bnd (for_up 0 2 (\<lambda>n. for_up 0 noAn (\<lambda>m. for_up 0 (dim - 1) (\<lambda>k.
       checkLSF_step (m * dim + k)))) (lsf, 0)) (\<lambda>(lsf, change).
     Ok (sdata lsf, change))"

section \<open>No access out of bounds\<close>

lemma autocorr_wp [wp]:
  assumes "0 \<le> soff r" "soff r + order < int (length (sdata r))"
    and "0 \<le> soff x" "soff x + n \<le> int (length (sdata x))" "0 \<le> order"
    and "\<And>d. length d = length (sdata r) \<Longrightarrow> Q d"
  shows "spec E Q (autocorr r x n order)"
  unfolding autocorr_def
  by (intro wp for_up_inv[where I = "similar r"] for_up_inv[where I = "\<lambda>_. True"])
    (use assms in \<open>auto simp: similar_def\<close>)

lemma window_wp [wp]:
  assumes "0 \<le> soff z" "soff z + n \<le> int (length (sdata z))"
    and "0 \<le> soff x" "soff x + n \<le> int (length (sdata x))"
    and "0 \<le> soff y" "soff y + n \<le> int (length (sdata y))"
    and "\<And>d. length d = length (sdata z) \<Longrightarrow> Q d"
  shows "spec E Q (window z x y n)"
  unfolding window_def
  by (intro wp for_up_inv[where I = "similar z"]) (use assms in \<open>auto simp: similar_def\<close>)

lemma levdurb_update_wp:
  assumes "0 \<le> soff a" "soff a + m < int (length (sdata a))" "0 \<le> i" "i < m"
    and "\<And>b. similar a b \<Longrightarrow> Q b"
  shows "spec E Q (levdurb_update m km i a)"
  unfolding levdurb_update_def by (intro wp) (use assms in \<open>auto simp: similar_def\<close>)

lemma levdurb_wp [wp]:
  assumes "0 \<le> soff a" "soff a + order < int (length (sdata a))"
    and "0 \<le> soff k" "soff k + order \<le> int (length (sdata k))"
    and "0 \<le> soff r" "soff r + order < int (length (sdata r))" "1 \<le> order"
    and "\<And>d e. length d = length (sdata a) \<Longrightarrow> length e = length (sdata k) \<Longrightarrow> Q (d, e)"
  shows "spec E Q (levdurb a k r order)"
proof -
  have u: "spec E (similar a) (levdurb_update m km i b)"
    if "similar a b" "0 \<le> i" "i < (m + 1) div 2" "1 \<le> m" "m < order" for m km i b
    by (rule levdurb_update_wp) (use that assms in \<open>auto simp: similar_def\<close>)
  show ?thesis
    unfolding levdurb_def
    by (intro wp for_up_inv[where I = "\<lambda>(b, l). similar a b \<and> similar k l"]
        for_up_inv[where I = "\<lambda>(b, l, alpha). similar a b \<and> similar k l"]
        for_up_inv[where I = "\<lambda>x :: float32. True"] for_up_inv[where I = "similar a"])
      (use assms u in \<open>auto simp: similar_def\<close>)
qed

lemma interpolate_wp [wp]:
  assumes "0 \<le> soff z" "soff z + n \<le> int (length (sdata z))"
    and "0 \<le> soff x" "soff x + n \<le> int (length (sdata x))"
    and "0 \<le> soff y" "soff y + n \<le> int (length (sdata y))"
    and "\<And>d. length d = length (sdata z) \<Longrightarrow> Q d"
  shows "spec E Q (interpolate z x y c n)"
  unfolding interpolate_def
  by (intro wp for_up_inv[where I = "similar z"]) (use assms in \<open>auto simp: similar_def\<close>)

lemma bwexpand_wp [wp]:
  assumes "0 \<le> soff z" "soff z + n \<le> int (length (sdata z))" "1 \<le> n"
    and "0 \<le> soff x" "soff x + n \<le> int (length (sdata x))"
    and "\<And>d. length d = length (sdata z) \<Longrightarrow> Q d"
  shows "spec E Q (bwexpand z x c n)"
  unfolding bwexpand_def
  by (intro wp for_up_inv[where I = "\<lambda>(y, c). similar z y"]) (use assms in \<open>auto simp: similar_def\<close>)

text \<open>A vector quantiser returns an index of its codebook.\<close>

lemma vq_dist_wp [wp]:
  assumes "0 \<le> soff cB + pos" "soff cB + pos + dim \<le> int (length (sdata cB))"
    and "0 \<le> soff x" "soff x + dim \<le> int (length (sdata x))" "1 \<le> dim" "\<And>d. Q d"
  shows "spec E Q (vq_dist cB x pos dim)"
  unfolding vq_dist_def
  by (intro wp for_up_inv[where I = "\<lambda>_. True"]) (use assms in auto)

lemma vq_wp [wp]:
  assumes "0 \<le> soff xq" "soff xq + dim \<le> int (length (sdata xq))"
    and "0 \<le> soff ix" "soff ix < int (length (sdata ix))"
    and "0 \<le> soff cB" "soff cB + n * dim \<le> int (length (sdata cB))"
    and "0 \<le> soff x" "soff x + dim \<le> int (length (sdata x))" "1 \<le> dim" "1 \<le> n"
    and "\<And>q k. length q = length (sdata xq) \<Longrightarrow> 0 \<le> k \<Longrightarrow> k < n \<Longrightarrow>
      Q (q, (sdata ix)[nat (soff ix) := k])"
  shows "spec E Q (vq xq ix cB x n dim)"
proof -
  have room: "j * dim + dim \<le> n * dim" if "j < n" for j
  proof -
    have "(j + 1) * dim \<le> n * dim" by (rule mult_right_mono) (use that assms in auto)
    then show ?thesis by (simp add: algebra_simps)
  qed
  have nn: "0 \<le> j * dim" if "0 \<le> j" for j using that assms by simp
  show ?thesis
    unfolding vq_def
    apply (rule spec_bndI, rule spec_mono[OF for_up_spec[where
        I = "\<lambda>j (pos, md, mi). pos = j * dim \<and> 0 \<le> mi \<and> mi < n"]])
    subgoal using assms by simp
    subgoal using assms by simp
    subgoal for j s
      using room[of j] nn[of j] assms by (intro wp) (auto simp: algebra_simps)
    subgoal for s
      apply (cases s, clarsimp)
      subgoal for md mi
        using room[of mi] nn[of mi] assms
        by (intro for_up_inv[where I = "similar xq"]) (auto simp: similar_def)
      done
    done
qed

text \<open>The scalar quantiser reads before its table only when its input is not a number.\<close>

lemma sortSq_scan_wp:
  assumes "0 \<le> i" "i < n" "0 \<le> soff cb" "soff cb + n \<le> int (length (sdata cb))"
    and "\<And>k. i \<le> k \<Longrightarrow> k < n \<Longrightarrow> (k = i \<longrightarrow> \<not> (sdata cb ! nat (soff cb + i) < x \<and> i < n - 1)) \<Longrightarrow> Q k"
  shows "spec E Q (sortSq_scan x cb n i)"
  using assms
proof (induction x cb n i rule: sortSq_scan.induct)
  case (1 x cb n i)
  show ?case
  proof (cases "sdata cb ! nat (soff cb + i) < x \<and> i < n - 1")
    case True
    have "spec E Q (sortSq_scan x cb n (i + 1))"
      by (rule "1.IH"[of "sdata cb ! nat (soff cb + i)"]) (use "1.prems" True in auto)
    then show ?thesis
      using "1.prems" True by (subst sortSq_scan.simps) simp
  next
    case False
    then have "Q i" using "1.prems" by simp
    then show ?thesis
      using "1.prems" False by (subst sortSq_scan.simps) auto
  qed
qed

lemma sortSq_wp:
  assumes "0 \<le> soff xq" "soff xq < int (length (sdata xq))"
    and "0 \<le> soff ix" "soff ix < int (length (sdata ix))"
    and "soff cb = 0" "n \<le> int (length (sdata cb))" "2 \<le> n"
    and "\<not> x \<le> sdata cb ! 0 \<Longrightarrow> \<not> sdata cb ! 0 < x \<Longrightarrow> 
      E (InCall ''sortSq'' (float32bits x) (IndexPanic (- 1) (int (length (sdata cb)))))"
    and "\<And>q k. length q = length (sdata xq) \<Longrightarrow> 0 \<le> k \<Longrightarrow> k < n \<Longrightarrow>
      Q (q, (sdata ix)[nat (soff ix) := k])"
  shows "spec E Q (sortSq xq ix x cb n)"
proof -
  let ?E = "\<lambda>p. E (InCall ''sortSq'' (float32bits x) p)"
  have "spec ?E Q (bnd (at cb 0) (\<lambda>c0.
     if x \<le> c0 then
       bnd (store ix 0 0) (\<lambda>index.
       bnd (store xq 0 c0) (\<lambda>xq.
       Ok (sdata xq, sdata index)))
     else
       bnd (sortSq_scan x cb n 0) (\<lambda>i.
       bnd (at cb i) (\<lambda>ci.
       bnd (at cb (i - 1)) (\<lambda>cp.
       if (ci + cp) / int32 2 < x then
         bnd (store ix 0 i) (\<lambda>index.
         bnd (store xq 0 ci) (\<lambda>xq.
         Ok (sdata xq, sdata index)))
       else
         bnd (store ix 0 (i - 1)) (\<lambda>index.
         bnd (store xq 0 cp) (\<lambda>xq.
         Ok (sdata xq, sdata index))))))))"
proof (cases "x \<le> sdata cb ! 0")
  case True
  have "0 < int (length (sdata cb))" using assms(6,7) by linarith
  then have "at cb 0 = Ok (sdata cb ! 0)" using assms by (simp add: at_def idx_def)
  then show ?thesis using True assms by simp
next
  case nle: False
  have "spec ?E (\<lambda>i. spec ?E Q (bnd (at cb i) (\<lambda>ci.
       bnd (at cb (i - 1)) (\<lambda>cp.
       if (ci + cp) / int32 2 < x then
         bnd (store ix 0 i) (\<lambda>index.
         bnd (store xq 0 ci) (\<lambda>xq.
         Ok (sdata xq, sdata index)))
       else
         bnd (store ix 0 (i - 1)) (\<lambda>index.
         bnd (store xq 0 cp) (\<lambda>xq.
         Ok (sdata xq, sdata index))))))) (sortSq_scan x cb n 0)"
  proof (rule sortSq_scan_wp)
    fix k assume k: "0 \<le> k" "k < n" "k = 0 \<longrightarrow> \<not> (sdata cb ! nat (soff cb + 0) < x \<and> 0 < n - 1)"
    show "spec ?E Q (bnd (at cb k) (\<lambda>ci.
       bnd (at cb (k - 1)) (\<lambda>cp.
       if (ci + cp) / int32 2 < x then
         bnd (store ix 0 k) (\<lambda>index.
         bnd (store xq 0 ci) (\<lambda>xq.
         Ok (sdata xq, sdata index)))
       else
         bnd (store ix 0 (k - 1)) (\<lambda>index.
         bnd (store xq 0 cp) (\<lambda>xq.
         Ok (sdata xq, sdata index))))))"
    proof (cases "k = 0")
      case True
      then have "at cb (k - 1) = Panic (IndexPanic (- 1) (int (length (sdata cb))))"
        using assms(5) True by (simp add: at_def idx_def)
      moreover have "0 < int (length (sdata cb))" using assms(6,7) by linarith
      then have "at cb k = Ok (sdata cb ! 0)" using assms(5) True by (simp add: at_def idx_def)
      ultimately show ?thesis using k True nle assms by simp
    next
      case False
      then show ?thesis using k assms by auto
    qed
  qed (use assms in auto)
  moreover have "0 < int (length (sdata cb))" using assms(6,7) by linarith
  then have "at cb 0 = Ok (sdata cb ! 0)" using assms by (simp add: at_def idx_def)
  ultimately show ?thesis using nle by (simp only: bnd.simps if_False spec_bnd)
qed
  then show ?thesis by (simp only: sortSq_def spec_traced)
qed

lemma checkLSF_step_wp:
  assumes "0 \<le> soff lsf + pos" "soff lsf + pos + 1 < int (length (sdata lsf))"
    and "\<And>l c. similar lsf l \<Longrightarrow> Q (l, c)"
  shows "spec E Q (checkLSF_step pos (lsf, change))"
  unfolding checkLSF_step_def Let_def prod.case
  by (intro wp) (use assms in \<open>auto simp: similar_def\<close>)

lemma checkLSF_wp [wp]:
  assumes "0 \<le> soff lsf" "soff lsf + dim * noAn \<le> int (length (sdata lsf))" "0 \<le> dim" "0 \<le> noAn"
    and "\<And>l c. length l = length (sdata lsf) \<Longrightarrow> Q (l, c)"
  shows "spec E Q (checkLSF lsf dim noAn)"
proof -
  have room: "m * dim + dim \<le> dim * noAn \<and> 0 \<le> m * dim" if "0 \<le> m" "m < noAn" for m
  proof -
    have "(m + 1) * dim \<le> noAn * dim" by (rule mult_right_mono) (use that assms in auto)
    then show ?thesis using that assms by (simp add: algebra_simps)
  qed
  have st: "spec E (\<lambda>(l, c). similar lsf l) (checkLSF_step (m * dim + k) s)"
    if "case s of (l, c) \<Rightarrow> similar lsf l" "0 \<le> m" "m < noAn" "0 \<le> k" "k < dim - 1" for m k s
    using that room[of m] assms
    by (cases s) (auto intro!: checkLSF_step_wp simp: similar_def)
  show ?thesis
    unfolding checkLSF_def
    by (intro wp for_up_inv[where I = "\<lambda>(l, c). similar lsf l"])
      (use assms st in \<open>auto simp: similar_def\<close>)
qed

end
