(* ===== verification/Lsf.thy ===== *)
theory Lsf
  imports Constants
begin

text \<open>
  lsf.go: conversion between LPC coefficients and line spectral frequencies.  The inner loop
  of \<open>a2lsf\<close> searches for a sign change on a grid that is refined three times; it runs on
  fuel, \<open>a2lsf_fuel\<close> units for each of the ten frequencies.
\<close>

section \<open>a2lsf\<close>

definition lsf_steps :: "float32 list" where
  "lsf_steps = [dec32 635 5, dec32 3175 6, dec32 15875 7, dec32 79375 8]"

definition two_pi :: float32 where "two_pi = dec32 62831855 7"

text \<open>The value of the sum or difference polynomial at a frequency.\<close>

definition lsf_poly :: "platform \<Rightarrow> float32 list \<Rightarrow> float32 \<Rightarrow> float32" where
  "lsf_poly P pq omega =
     (let hlp = f32 (math_Cos P (f64 (omega * two_pi)));
          hlp1 = int32 2 * hlp + pq ! 0;
          hlp2 = int32 2 * hlp * hlp1 - 1 + pq ! 1;
          hlp3 = int32 2 * hlp * hlp2 - hlp1 + pq ! 2;
          hlp4 = int32 2 * hlp * hlp3 - hlp2 + pq ! 3
      in hlp * hlp4 - hlp3 + pq ! 4)"

text \<open>
  One run of the loop \<open>for stepIdx < 4\<close>; \<open>step\<close> is always \<open>steps[stepIdx]\<close>.  The result is
  the frequency found and the new values of \<open>omega\<close>, \<open>oldOmega\<close> and \<open>*old\<close>.
\<close>

fun lsf_scan :: "platform \<Rightarrow> float32 list \<Rightarrow> nat \<Rightarrow> nat \<Rightarrow> float32 \<Rightarrow> float32 \<Rightarrow> float32 \<Rightarrow>
  (float32 \<times> float32 \<times> float32 \<times> float32) res" where
  "lsf_scan P pq 0 stepIdx omega oldOmega old = Panic Diverges"
| "lsf_scan P pq (Suc fuel) stepIdx omega oldOmega old =
     (let hlp5 = lsf_poly P pq omega; step = lsf_steps ! stepIdx in
      if f64 (hlp5 * old) \<le> 0 \<or> dec64 5 1 \<le> f64 omega then
        if stepIdx = 3 then
          let freq = (if math_Abs (f64 old) \<le> math_Abs (f64 hlp5) then omega - step else omega);
              old = (if 0 \<le> f64 old then dec32 (- (10 ^ 37)) 0 else dec32 (10 ^ 37) 0)
          in Ok (freq, oldOmega, oldOmega, old)
        else
          let oldOmega = (if stepIdx = 0 then omega else oldOmega)
          in lsf_scan P pq fuel (stepIdx + 1) (omega - lsf_steps ! (stepIdx + 1)) oldOmega old
      else lsf_scan P pq fuel stepIdx (omega + step) oldOmega hlp5)"

definition a2lsf_fuel :: nat where "a2lsf_fuel = 2000"

definition lsf_pPre :: "float32 list \<Rightarrow> float32 list" where
  "lsf_pPre p =
     (let p0 = int32 (- 1) - p ! 0; p1 = - p0 - p ! 1; p2 = - p1 - p ! 2; p3 = - p2 - p ! 3;
          p4 = - p3 - p ! 4
      in [p0, p1, p2, p3, p4 / int32 2])"

definition lsf_qPre :: "float32 list \<Rightarrow> float32 list" where
  "lsf_qPre q =
     (let q0 = 1 - q ! 0; q1 = q0 - q ! 1; q2 = q1 - q ! 2; q3 = q2 - q ! 3; q4 = q3 - q ! 4
      in [q0, q1, q2, q3, q4 / int32 2])"

definition a2lsf_index :: "platform \<Rightarrow> float32 list \<Rightarrow> float32 list \<Rightarrow> int \<Rightarrow>
  float32 span \<times> float32 \<times> float32 \<times> float32 \<times> float32 \<Rightarrow>
  (float32 span \<times> float32 \<times> float32 \<times> float32 \<times> float32) res" where
  "a2lsf_index P pPre qPre lspIndex = (\<lambda>(freq, omega, oldOmega, oldP, oldQ).
     if lspIndex mod 2 = 0 then
       bnd (lsf_scan P pPre a2lsf_fuel 0 omega oldOmega oldP) (\<lambda>(f, omega, oldOmega, oldP).
       bnd (store freq lspIndex f) (\<lambda>freq.
       Ok (freq, omega, oldOmega, oldP, oldQ)))
     else
       bnd (lsf_scan P qPre a2lsf_fuel 0 omega oldOmega oldQ) (\<lambda>(f, omega, oldOmega, oldQ).
       bnd (store freq lspIndex f) (\<lambda>freq.
       Ok (freq, omega, oldOmega, oldP, oldQ))))"

definition a2lsf :: "platform \<Rightarrow> float32 span \<Rightarrow> float32 span \<Rightarrow> float32 list res" where
  "a2lsf P freq a =
     bnd (for_up 0 5 (\<lambda>i (p, q).
       bnd (at a (i + 1)) (\<lambda>lo.
       bnd (at a (10 - i)) (\<lambda>hi.
       bnd (upd p i (int32 (- 1) * (lo + hi))) (\<lambda>p.
       bnd (upd q i (hi - lo)) (\<lambda>q.
       Ok (p, q)))))) (replicate 5 0, replicate 5 0)) (\<lambda>(p, q).
     bnd (for_up 0 10 (a2lsf_index P (lsf_pPre p) (lsf_qPre q))
       (freq, 0, 0, dec32 (10 ^ 37) 0, dec32 (10 ^ 37) 0)) (\<lambda>(freq, _).
     bnd (for_up 0 10 (\<lambda>i freq. modify freq i (\<lambda>v. v * two_pi)) freq) (\<lambda>freq.
     Ok (sdata freq))))"

section \<open>lsf2a\<close>

text \<open>One second-order section: \<open>a\<close> has six entries, \<open>a1\<close> and \<open>a2\<close> are its delayed values.\<close>

definition lsf2a_section :: "float32 list \<Rightarrow> int \<Rightarrow> float32 list \<times> float32 list \<times> float32 list \<Rightarrow>
  (float32 list \<times> float32 list \<times> float32 list) res" where
  "lsf2a_section p i = (\<lambda>(a, a1, a2).
     bnd (idx a i) (\<lambda>ai.
     bnd (idx p i) (\<lambda>pi.
     bnd (idx a1 i) (\<lambda>a1i.
     bnd (idx a2 i) (\<lambda>a2i.
     bnd (upd a (i + 1) (ai - int32 2 * pi * a1i + a2i)) (\<lambda>a.
     bnd (upd a2 i a1i) (\<lambda>a2.
     bnd (upd a1 i ai) (\<lambda>a1.
     Ok (a, a1, a2)))))))))"

text \<open>The guard of lsf2a against frequencies outside the open interval (0, 1/2).\<close>

definition lsf2a_repair :: "float32 span \<Rightarrow> float32 span res" where
  "lsf2a_repair freq =
     bnd (at freq 0) (\<lambda>f0.
     bnd (at freq 9) (\<lambda>f9.
     if f64 f0 \<le> 0 \<or> dec64 5 1 \<le> f64 f9 then
       bnd (if f64 f0 \<le> 0 then store freq 0 (dec32 22 3) else Ok freq) (\<lambda>freq.
       bnd (at freq 9) (\<lambda>f9.
       bnd (if dec64 5 1 \<le> f64 f9 then store freq 9 (dec32 499 3) else Ok freq) (\<lambda>freq.
       bnd (at freq 9) (\<lambda>f9.
       bnd (at freq 0) (\<lambda>f0.
       let hlp = (f9 - f0) / int32 9 in
       for_up 1 10 (\<lambda>i freq. bnd (at freq (i - 1)) (\<lambda>f. store freq i (f + hlp))) freq)))))
     else Ok freq))"

text \<open>The five sections of both polynomials in cascade.\<close>

type_synonym lsf_section = "float32 list \<times> float32 list \<times> float32 list"

definition lsf2a_sections ::
  "float32 list \<Rightarrow> float32 list \<Rightarrow> lsf_section \<times> lsf_section \<Rightarrow> (lsf_section \<times> lsf_section) res" where
  "lsf2a_sections p q = for_up 0 5 (\<lambda>i (sa, sb).
     bnd (lsf2a_section p i sa) (\<lambda>sa.
     bnd (lsf2a_section q i sb) (\<lambda>sb.
     Ok (sa, sb))))"

text \<open>\<open>a[0] = v\<close>\<close>

definition feed_section :: "float32 \<Rightarrow> lsf_section \<Rightarrow> lsf_section" where
  "feed_section v = (\<lambda>(a, a1, a2). (a[0 := v], a1, a2))"

definition lsf2a :: "platform \<Rightarrow> float32 span \<Rightarrow> float32 span \<Rightarrow> (float32 list \<times> float32 list) res" where
  "lsf2a P aCoef freq =
     bnd (for_up 0 10 (\<lambda>i freq. modify freq i (\<lambda>v. v * dec32 15915494 8)) freq) (\<lambda>freq.
     bnd (lsf2a_repair freq) (\<lambda>freq.
     bnd (for_up 0 5 (\<lambda>i (p, q).
       bnd (at freq (2 * i)) (\<lambda>fp.
       bnd (upd p i (f32 (math_Cos P (f64 (two_pi * fp))))) (\<lambda>p.
       bnd (at freq (2 * i + 1)) (\<lambda>fq.
       bnd (upd q i (f32 (math_Cos P (f64 (two_pi * fq))))) (\<lambda>q.
       Ok (p, q)))))) (replicate 5 0, replicate 5 0)) (\<lambda>(p, q).
     let zero = (replicate 6 0, replicate 5 0, replicate 5 0) in
     bnd (lsf2a_sections p q (feed_section (dec32 25 2) zero, feed_section (dec32 25 2) zero)) (\<lambda>s.
     bnd (for_up 0 10 (\<lambda>j ((sa, sb), aCoef).
       let sa = feed_section (if j = 0 then dec32 25 2 else 0) sa;
           sb = feed_section (if j = 0 then dec32 (- 25) 2 else 0) sb in
       bnd (lsf2a_sections p q (sa, sb)) (\<lambda>(sa, sb).
       bnd (store aCoef (j + 1) (int32 2 * (fst sa ! 5 + fst sb ! 5))) (\<lambda>aCoef.
       Ok ((sa, sb), aCoef)))) (s, aCoef)) (\<lambda>(_, aCoef).
     bnd (store aCoef 0 1) (\<lambda>aCoef.
     Ok (sdata aCoef, sdata freq)))))))"

section \<open>No access out of bounds in lsf2a\<close>

definition section_ok :: "lsf_section \<Rightarrow> bool" where
  "section_ok = (\<lambda>(a, a1, a2). length a = 6 \<and> length a1 = 5 \<and> length a2 = 5)"

lemma section_ok_feed [simp]: "section_ok (feed_section v s) = section_ok s"
  by (cases s) (simp add: section_ok_def feed_section_def)

lemma lsf2a_section_wp:
  assumes "0 \<le> i" "i < 5" "length p = 5" "section_ok s" "\<And>s. section_ok s \<Longrightarrow> Q s"
  shows "spec E Q (lsf2a_section p i s)"
  using assms unfolding lsf2a_section_def by (cases s) (auto simp: section_ok_def)

lemma lsf2a_repair_wp:
  assumes "0 \<le> soff freq" "soff freq + 10 \<le> int (length (sdata freq))" "\<And>f. similar freq f \<Longrightarrow> Q f"
  shows "spec E Q (lsf2a_repair freq)"
  unfolding lsf2a_repair_def
  by (intro wp for_up_inv[where I = "similar freq"]) (use assms in \<open>auto simp: similar_def\<close>)

lemma lsf2a_sections_wp:
  assumes "length p = 5" "length q = 5" "section_ok (fst s)" "section_ok (snd s)"
    and "\<And>s. section_ok (fst s) \<Longrightarrow> section_ok (snd s) \<Longrightarrow> Q s"
  shows "spec E Q (lsf2a_sections p q s)"
  unfolding lsf2a_sections_def
  by (rule for_up_inv[where I = "\<lambda>s. section_ok (fst s) \<and> section_ok (snd s)"])
    (use assms in \<open>auto intro!: lsf2a_section_wp\<close>)

lemma lsf2a_wp [wp]:
  assumes "0 \<le> soff z" "soff z + 11 \<le> int (length (sdata z))"
    and "0 \<le> soff freq" "soff freq + 10 \<le> int (length (sdata freq))"
    and "\<And>d f. length d = length (sdata z) \<Longrightarrow> length f = length (sdata freq) \<Longrightarrow> Q (d, f)"
  shows "spec E Q (lsf2a P z freq)"
  unfolding lsf2a_def
  by (intro wp lsf2a_repair_wp lsf2a_sections_wp for_up_inv[where I = "similar freq"]
      for_up_inv[where I = "\<lambda>(p :: float32 list, q :: float32 list). length p = 5 \<and> length q = 5"]
      for_up_inv[where I = "\<lambda>(s, c). section_ok (fst s) \<and> section_ok (snd s) \<and> similar z c"])
    (use assms in \<open>auto simp: similar_def section_ok_def feed_section_def\<close>)

end
