(* ===== verification/Lpc.thy ===== *)
theory Lpc
  imports Helpfun Lsf
begin

text \<open>
  lpcencode.go and lpcdecode.go: LPC analysis, quantisation and interpolation in the encoder,
  dequantisation and interpolation in the decoder.
\<close>

section \<open>lpcencode.go\<close>

text \<open>The array \<open>temp\<close> also serves as the reflection coefficients of \<open>levdurb\<close>; the next
  analysis overwrites its 240 entries.\<close>

definition simpleAnalysis_pass ::
  "platform \<Rightarrow> encoderState \<Rightarrow> int \<Rightarrow> float32 span \<times> float32 list \<times> float32 list \<times> float32 list \<times> float32 list \<Rightarrow>
   (float32 span \<times> float32 list \<times> float32 list \<times> float32 list \<times> float32 list) res" where
  "simpleAnalysis_pass P encoder k = (\<lambda>(lsf, temp, lp, lp2, r).
     let is = 60 in
     bnd (if k < e_lpcAnalyses encoder - 1
          then window (mk temp 0) (mk lpcWinTbl 0) (mk (lpcBuffer encoder) 0) 240
          else window (mk temp 0) (mk lpcAsymwinTbl 0) (mk (lpcBuffer encoder) is) 240) (\<lambda>temp.
     bnd (autocorr (mk r 0) (mk temp 0) 240 10) (\<lambda>r.
     bnd (window (mk r 0) (mk r 0) (mk lpcLagwinTbl 0) 11) (\<lambda>r.
     bnd (levdurb (mk lp 0) (mk temp 0) (mk r 0) 10) (\<lambda>(lp, temp).
     bnd (bwexpand (mk lp2 0) (mk lp 0) (dec32 9025 4) 11) (\<lambda>lp2.
     bnd (a2lsf P (add lsf (k * 10)) (mk lp2 0)) (\<lambda>d.
     Ok (lsf\<lparr>sdata := d\<rparr>, temp, lp, lp2, r))))))))"

definition simpleAnalysis ::
  "platform \<Rightarrow> float32 span \<Rightarrow> float32 span \<Rightarrow> encoderState \<Rightarrow> (float32 list \<times> encoderState) res" where
  "simpleAnalysis P lsf data encoder =
     (let fs = e_frameSamples encoder; is = 300 - fs in
      bnd (slice data fs) (\<lambda>xs.
      bnd (copy_sub (lpcBuffer encoder) is (is + fs) xs) (\<lambda>buf.
      let encoder = encoder\<lparr>lpcBuffer := buf\<rparr> in
      bnd (for_up 0 (e_lpcAnalyses encoder) (simpleAnalysis_pass P encoder)
        (lsf, replicate 240 0, replicate 11 0, replicate 11 0, replicate 11 0)) (\<lambda>(lsf, _).
      bnd (sub (lpcBuffer encoder) (300 - is) (300 - is + is)) (\<lambda>xs.
      bnd (copy_sub (lpcBuffer encoder) 0 is xs) (\<lambda>buf.
      Ok (sdata lsf, encoder\<lparr>lpcBuffer := buf\<rparr>)))))))"

definition interpolateEncoderLSF ::
  "platform \<Rightarrow> float32 span \<Rightarrow> float32 span \<Rightarrow> float32 span \<Rightarrow> float32 \<Rightarrow> int \<Rightarrow> float32 list res" where
  "interpolateEncoderLSF P a lsf1 lsf2 coef len =
     bnd (interpolate (mk (replicate 10 0) 0) lsf1 lsf2 coef len) (\<lambda>lsftmp.
     bnd (lsf2a P a (mk lsftmp 0)) (\<lambda>(a, _).
     Ok a))"

text \<open>One subframe: the synthesis filter from the quantised LSFs, the weighting filter from the
  unquantised ones.\<close>

definition encoder_subframe_lpc ::
  "platform \<Rightarrow> float32 span \<Rightarrow> float32 span \<Rightarrow> float32 span \<Rightarrow> float32 span \<Rightarrow> float32 \<Rightarrow> int \<Rightarrow> int \<Rightarrow>
   float32 span \<times> float32 span \<times> float32 list \<Rightarrow> (float32 span \<times> float32 span \<times> float32 list) res" where
  "encoder_subframe_lpc P deq1 deq2 lsf1 lsf2 coef len pos = (\<lambda>(syntdenum, weightdenum, lp).
     let lpLength = len + 1 in
     bnd (interpolateEncoderLSF P (mk lp 0) deq1 deq2 coef len) (\<lambda>lp.
     bnd (sub lp 0 lpLength) (\<lambda>xs.
     bnd (copy_slice (add syntdenum pos) lpLength xs) (\<lambda>s.
     bnd (interpolateEncoderLSF P (mk lp 0) lsf1 lsf2 coef len) (\<lambda>lp.
     bnd (bwexpand (add weightdenum pos) (mk lp 0) (dec32 4222 4) lpLength) (\<lambda>w.
     Ok (syntdenum\<lparr>sdata := s\<rparr>, weightdenum\<lparr>sdata := w\<rparr>, lp)))))))"

text \<open>
  \<open>lsfold\<close> and \<open>lsfdeqold\<close> are the arrays of the encoder state.  The result is the two filter
  arrays and the state.
\<close>

definition simpleInterpolateLSF ::
  "platform \<Rightarrow> float32 span \<Rightarrow> float32 span \<Rightarrow> float32 span \<Rightarrow> float32 span \<Rightarrow> int \<Rightarrow> encoderState \<Rightarrow>
   (float32 list \<times> float32 list \<times> encoderState) res" where
  "simpleInterpolateLSF P syntdenum weightdenum lsf lsfdeq len encoder =
     (let old = mk (lsfold encoder) 0; deqold = mk (e_lsfdeqold encoder) 0;
          lsf2 = add lsf len; lsfdeq2 = add lsfdeq len; lpLength = len + 1;
          s = (syntdenum, weightdenum, replicate 11 0) in
      bnd (if e_mode encoder = 30 then
             bnd (encoder_subframe_lpc P deqold lsfdeq old lsf (lsfWeightTbl30ms ! 0) len 0 s) (\<lambda>s.
             bnd (for_up 1 (e_subframes encoder) (\<lambda>i (s, pos).
               bnd (idx lsfWeightTbl30ms i) (\<lambda>w.
               bnd (encoder_subframe_lpc P lsfdeq lsfdeq2 lsf lsf2 w len pos s) (\<lambda>s.
               Ok (s, pos + lpLength)))) (s, lpLength)) (\<lambda>(s, pos).
             Ok s))
           else
             bnd (for_up 0 (e_subframes encoder) (\<lambda>i (s, pos).
               bnd (idx lsfWeightTbl20ms i) (\<lambda>w.
               bnd (encoder_subframe_lpc P deqold lsfdeq old lsf w len pos s) (\<lambda>s.
               Ok (s, pos + lpLength)))) (s, 0)) (\<lambda>(s, pos).
             Ok s)) (\<lambda>(syntdenum, weightdenum, lp).
      bnd (slice (if e_mode encoder = 30 then lsf2 else lsf) len) (\<lambda>xs.
      bnd (copy_slice old len xs) (\<lambda>o'.
      bnd (slice (if e_mode encoder = 30 then lsfdeq2 else lsfdeq) len) (\<lambda>xs.
      bnd (copy_slice deqold len xs) (\<lambda>d'.
      Ok (sdata syntdenum, sdata weightdenum, encoder\<lparr>lsfold := o', e_lsfdeqold := d'\<rparr>)))))))"

definition quantizeLSF ::
  "float32 span \<Rightarrow> int span \<Rightarrow> float32 span \<Rightarrow> int \<Rightarrow> (float32 list \<times> int list) res" where
  "quantizeLSF lsfdeq index lsf lpcAnalyses =
     bnd (splitVQ lsfdeq index lsf (mk lsfCbTbl 0) 3 (mk dimLsfCbTbl 0) (mk sizeLsfCbTbl 0)) (\<lambda>(q, ix).
     if lpcAnalyses = 2 then
       splitVQ (add (lsfdeq\<lparr>sdata := q\<rparr>) 10) (add (index\<lparr>sdata := ix\<rparr>) 3) (add lsf 10)
         (mk lsfCbTbl 0) 3 (mk dimLsfCbTbl 0) (mk sizeLsfCbTbl 0)
     else Ok (q, ix))"

text \<open>The result is \<open>syntdenum\<close>, \<open>weightdenum\<close>, the indices and the state.\<close>

definition encodeLPC ::
  "platform \<Rightarrow> float32 span \<Rightarrow> float32 span \<Rightarrow> int span \<Rightarrow> float32 span \<Rightarrow> encoderState \<Rightarrow>
   (float32 list \<times> float32 list \<times> int list \<times> encoderState) res" where
  "encodeLPC P syntdenum weightdenum lsfIndex data encoder =
     bnd (simpleAnalysis P (mk (replicate 20 0) 0) data encoder) (\<lambda>(lsf, encoder).
     bnd (quantizeLSF (mk (replicate 20 0) 0) lsfIndex (mk lsf 0) (e_lpcAnalyses encoder)) (\<lambda>(lsfdeq, ix).
     bnd (checkLSF (mk lsfdeq 0) 10 (e_lpcAnalyses encoder)) (\<lambda>(lsfdeq, _).
     bnd (simpleInterpolateLSF P syntdenum weightdenum (mk lsf 0) (mk lsfdeq 0) 10 encoder)
       (\<lambda>(s, w, encoder).
     Ok (s, w, ix, encoder)))))"

section \<open>lpcdecode.go\<close>

definition interpolateDecoderLSF ::
  "platform \<Rightarrow> float32 span \<Rightarrow> float32 span \<Rightarrow> float32 span \<Rightarrow> float32 \<Rightarrow> int \<Rightarrow> float32 list res" where
  "interpolateDecoderLSF P a lsf1 lsf2 coef len =
     bnd (interpolate (mk (replicate 10 0) 0) lsf1 lsf2 coef len) (\<lambda>lsftmp.
     bnd (lsf2a P a (mk lsftmp 0)) (\<lambda>(a, _).
     Ok a))"

text \<open>One set of three split codebook entries: LSFs from \<open>base\<close>, indices from \<open>ibase\<close> on.\<close>

definition dequantize_split ::
  "int \<Rightarrow> int \<Rightarrow> int span \<Rightarrow> float32 span \<Rightarrow> float32 span res" where
  "dequantize_split base ibase index lsfdeq =
     bnd (for_up 0 3 (\<lambda>i (lsfdeq, pos, cbPos).
       bnd (idx dimLsfCbTbl i) (\<lambda>dim.
       bnd (for_up 0 dim (\<lambda>j lsfdeq.
         bnd (at index (ibase + i)) (\<lambda>v.
         bnd (idx lsfCbTbl (cbPos + sint (word_of_int v :: 32 word) * dim + j)) (\<lambda>c.
         store lsfdeq (base + pos + j) c))) lsfdeq) (\<lambda>lsfdeq.
       bnd (idx sizeLsfCbTbl i) (\<lambda>size.
       Ok (lsfdeq, pos + dim, cbPos + size * dim))))) (lsfdeq, 0, 0)) (\<lambda>(lsfdeq, pos, cbPos).
     Ok lsfdeq)"

definition dequantizeLSF :: "float32 span \<Rightarrow> int span \<Rightarrow> int \<Rightarrow> float32 list res" where
  "dequantizeLSF lsfdeq index lpcAnalyses =
     bnd (dequantize_split 0 0 index lsfdeq) (\<lambda>lsfdeq.
     bnd (if 1 < lpcAnalyses then dequantize_split 10 3 index lsfdeq else Ok lsfdeq) (\<lambda>lsfdeq.
     Ok (sdata lsfdeq)))"

definition decoder_subframe_lpc ::
  "platform \<Rightarrow> float32 span \<Rightarrow> float32 span \<Rightarrow> float32 \<Rightarrow> int \<Rightarrow> int \<Rightarrow>
   float32 span \<times> float32 span \<times> float32 list \<Rightarrow> (float32 span \<times> float32 span \<times> float32 list) res" where
  "decoder_subframe_lpc P deq1 deq2 coef len pos = (\<lambda>(syntdenum, weightdenum, lp).
     let lpLength = len + 1 in
     bnd (interpolateDecoderLSF P (mk lp 0) deq1 deq2 coef len) (\<lambda>lp.
     bnd (sub lp 0 lpLength) (\<lambda>xs.
     bnd (copy_slice (add syntdenum pos) lpLength xs) (\<lambda>s.
     bnd (bwexpand (add weightdenum pos) (mk lp 0) (dec32 4222 4) lpLength) (\<lambda>w.
     Ok (syntdenum\<lparr>sdata := s\<rparr>, weightdenum\<lparr>sdata := w\<rparr>, lp))))))"

definition decoderInterpolateLSF ::
  "platform \<Rightarrow> float32 span \<Rightarrow> float32 span \<Rightarrow> float32 span \<Rightarrow> int \<Rightarrow> decoderState \<Rightarrow>
   (float32 list \<times> float32 list \<times> decoderState) res" where
  "decoderInterpolateLSF P syntdenum weightdenum lsfdeq len decoder =
     (let deqold = mk (d_lsfdeqold decoder) 0; lsfdeq2 = add lsfdeq len; lpLength = len + 1;
          s = (syntdenum, weightdenum, replicate 11 0) in
      bnd (if d_mode decoder = 30 then
             bnd (decoder_subframe_lpc P deqold lsfdeq (lsfWeightTbl30ms ! 0) len 0 s) (\<lambda>s.
             bnd (for_up 1 6 (\<lambda>i (s, pos).
               bnd (idx lsfWeightTbl30ms i) (\<lambda>w.
               bnd (decoder_subframe_lpc P lsfdeq lsfdeq2 w len pos s) (\<lambda>s.
               Ok (s, pos + lpLength)))) (s, lpLength)) (\<lambda>(s, pos).
             Ok s))
           else
             bnd (for_up 0 (d_subframes decoder) (\<lambda>i (s, pos).
               bnd (idx lsfWeightTbl20ms i) (\<lambda>w.
               bnd (decoder_subframe_lpc P deqold lsfdeq w len pos s) (\<lambda>s.
               Ok (s, pos + lpLength)))) (s, 0)) (\<lambda>(s, pos).
             Ok s)) (\<lambda>(syntdenum, weightdenum, lp).
      bnd (slice (if d_mode decoder = 30 then lsfdeq2 else lsfdeq) len) (\<lambda>xs.
      bnd (copy_sub (d_lsfdeqold decoder) 0 len xs) (\<lambda>d'.
      Ok (sdata syntdenum, sdata weightdenum, decoder\<lparr>d_lsfdeqold := d'\<rparr>)))))"

section \<open>No access out of bounds in the decoder\<close>

lemma interpolateDecoderLSF_wp [wp]:
  assumes "0 \<le> soff z" "soff z + 11 \<le> int (length (sdata z))"
    and "0 \<le> soff x" "soff x + 10 \<le> int (length (sdata x))"
    and "0 \<le> soff y" "soff y + 10 \<le> int (length (sdata y))"
    and "\<And>d. length d = length (sdata z) \<Longrightarrow> Q d"
  shows "spec E Q (interpolateDecoderLSF P z x y c 10)"
  unfolding interpolateDecoderLSF_def by (intro wp) (use assms in auto)

text \<open>The sizes of the LSF codebooks, by index position.\<close>

definition lsf_ranges :: "int list" where
  "lsf_ranges = [64, 128, 128, 64, 128, 128]"

definition lsf_indices_ok :: "int \<Rightarrow> int list \<Rightarrow> bool" where
  "lsf_indices_ok n ix \<longleftrightarrow> n \<le> int (length ix) \<and>
     (\<forall>i. 0 \<le> i \<and> i < n \<longrightarrow> 0 \<le> ix ! nat i \<and> ix ! nat i < lsf_ranges ! nat i)"

lemma sint_of_small: "0 \<le> v \<Longrightarrow> v < 2 ^ 31 \<Longrightarrow> sint (word_of_int v :: 32 word) = v"
  by (simp add: sint_sbintrunc' signed_take_bit_int_eq_self)

lemma dequantize_split_wp [wp]:
  assumes base: "0 \<le> soff p + base" "soff p + base + 10 \<le> int (length (sdata p))"
    and ib: "ibase = 0 \<or> ibase = 3" and ix: "lsf_indices_ok (ibase + 3) (sdata index)" "soff index = 0"
    and Q: "\<And>q. similar p q \<Longrightarrow> Q q"
  shows "spec E Q (dequantize_split base ibase index p)"
proof -
  define I where "I i s = (case s of (q, pos, cbPos) \<Rightarrow> similar p q \<and>
    pos = [0, 3, 6, 10] ! nat i \<and> cbPos = [0, 192, 576, 1088] ! nat i)"
    for i and s :: "float32 span \<times> int \<times> int"
  have len: "ibase + 3 \<le> int (length (sdata index))" using ix by (simp add: lsf_indices_ok_def)
  have r: "0 \<le> v \<and> v < lsf_ranges ! nat (ibase + i)"
    if "v = sdata index ! nat (ibase + i)" "0 \<le> i" "i < 3" for v i
    using that ix ib unfolding lsf_indices_ok_def by auto
  have cases3: "i = 0 \<or> i = 1 \<or> i = 2" if "0 \<le> i" "i < 3" for i :: int using that by linarith
  show ?thesis
    unfolding dequantize_split_def
  proof (rule spec_bndI, rule spec_mono[OF for_up_spec[where I = I]])
    fix i s assume i: "0 \<le> i" "i < 3" "I i s"
    obtain q pos cbPos where s: "s = (q, pos, cbPos)" by (cases s)
    define v where "v = sdata index ! nat (ibase + i)"
    have v: "0 \<le> v" "v < lsf_ranges ! nat (ibase + i)" using r[OF v_def i(1,2)] by simp_all
    have at: "at index (ibase + i) = Ok v"
      using i ib len ix(2) by (auto simp: v_def)
    show "spec E (I (i + 1)) ((\<lambda>(lsfdeq, pos, cbPos).
       bnd (idx dimLsfCbTbl i) (\<lambda>dim.
       bnd (for_up 0 dim (\<lambda>j lsfdeq.
         bnd (at index (ibase + i)) (\<lambda>v.
         bnd (idx lsfCbTbl (cbPos + sint (word_of_int v :: 32 word) * dim + j)) (\<lambda>c.
         store lsfdeq (base + pos + j) c))) lsfdeq) (\<lambda>lsfdeq.
       bnd (idx sizeLsfCbTbl i) (\<lambda>size.
       Ok (lsfdeq, pos + dim, cbPos + size * dim))))) s)"
      unfolding s prod.case at bnd.simps
      using cases3[OF i(1,2)] v ib i(3) base s
      by (elim disjE) (intro wp for_up_inv[where I = "similar p"],
        auto simp: I_def similar_def lsf_ranges_def dimLsfCbTbl_def sizeLsfCbTbl_def sint_of_small)+
  next
    fix s assume "I 3 s"
    then show "spec E Q (case s of (lsfdeq, pos, cbPos) \<Rightarrow> Ok lsfdeq)"
      using Q by (auto simp: I_def split: prod.split)
  qed (auto simp: I_def)
qed

lemma dequantizeLSF_wp [wp]:
  assumes "soff p = 0" "length (sdata p) = 20" "soff ix = 0" "n = 1 \<or> n = 2" "lsf_indices_ok (3 * n) (sdata ix)"
    and "\<And>d. length d = 20 \<Longrightarrow> Q d"
  shows "spec E Q (dequantizeLSF p ix n)"
proof -
  have "lsf_indices_ok 3 (sdata ix)" using assms(4,5) by (auto simp: lsf_indices_ok_def)
  then show ?thesis
    unfolding dequantizeLSF_def by (intro wp) (use assms in \<open>auto simp: similar_def\<close>)
qed

lemma decoder_subframe_lpc_wp:
  assumes "soff x = 0" "10 \<le> length (sdata x)" "0 \<le> soff y" "soff y + 10 \<le> int (length (sdata y))"
    and "soff s = 0" "length (sdata s) = 66" "soff w = 0" "length (sdata w) = 66" "length lp = 11"
    and "0 \<le> pos" "pos \<le> 55"
    and "\<And>s' w' lp. similar s s' \<Longrightarrow> similar w w' \<Longrightarrow> length lp = 11 \<Longrightarrow> Q (s', w', lp)"
  shows "spec E Q (decoder_subframe_lpc P x y c 10 pos (s, w, lp))"
  unfolding decoder_subframe_lpc_def Let_def prod.case
  by (intro wp) (use assms in \<open>auto simp: similar_def\<close>)

lemma decoderInterpolateLSF_wp [wp]:
  assumes m: "d_mode d = 20 \<and> d_subframes d = 4 \<or> d_mode d = 30 \<and> d_subframes d = 6"
    and l: "soff lsf = 0" "length (sdata lsf) = 20" "length (d_lsfdeqold d) = 10"
    and s: "soff s = 0" "length (sdata s) = 66" "soff w = 0" "length (sdata w) = 66"
    and Q: "\<And>xs ys old. length xs = 66 \<Longrightarrow> length ys = 66 \<Longrightarrow> length old = 10 \<Longrightarrow>
      Q (xs, ys, d\<lparr>d_lsfdeqold := old\<rparr>)"
  shows "spec E Q (decoderInterpolateLSF P s w lsf 10 d)"
proof -
  define J where "J = (\<lambda>(s', w', lp :: float32 list). similar s s' \<and> similar w w' \<and> length lp = 11)"
  have sub: "spec E J (decoder_subframe_lpc P x y c 10 pos t)"
    if "soff x = 0" "10 \<le> length (sdata x)" "0 \<le> soff y" "soff y + 10 \<le> int (length (sdata y))"
      "0 \<le> pos" "pos \<le> 55" "J t" for x y c pos t
    using that s by (cases t) (auto simp: J_def similar_def intro!: decoder_subframe_lpc_wp)
  show ?thesis
    unfolding decoderInterpolateLSF_def Let_def
    by (intro wp sub[THEN spec_mono] for_up_idx[where I = "\<lambda>i (t, pos). J t \<and> pos = 11 * i"])
      (use m l s Q in \<open>auto simp: J_def similar_def\<close>)
qed

end
