(* ===== verification/Filters.thy ===== *)
theory Filters
  imports Constants
begin

text \<open>
  The linear filters: filter.go, syntfilter.go, anafilter.go, hpinput.go, hpoutput.go and
  denormal.go.  A filter returns the backing arrays it wrote, the filter memory last.
\<close>

section \<open>filter.go\<close>

definition allPoleFilter ::
  "float32 span \<Rightarrow> float32 span \<Rightarrow> int \<Rightarrow> int \<Rightarrow> float32 list res" where
  "allPoleFilter inOut coef lengthInOut orderCoef =
     bnd (for_up 0 lengthInOut (\<lambda>n. for_up 1 (orderCoef + 1) (\<lambda>k inOut.
       bnd (at coef k) (\<lambda>c.
       bnd (at inOut (n - k)) (\<lambda>y.
       modify inOut n (\<lambda>v. v - c * y))))) inOut) (\<lambda>inOut.
     Ok (sdata inOut))"

definition allZeroFilter ::
  "float32 span \<Rightarrow> float32 span \<Rightarrow> int \<Rightarrow> int \<Rightarrow> float32 span \<Rightarrow> float32 list res" where
  "allZeroFilter inp coef lengthInOut orderCoef out =
     bnd (for_up 0 lengthInOut (\<lambda>n out.
       bnd (at coef 0) (\<lambda>c.
       bnd (at inp n) (\<lambda>x.
       bnd (store out n (c * x)) (\<lambda>out.
       for_up 1 (orderCoef + 1) (\<lambda>k out.
         bnd (at coef k) (\<lambda>c.
         bnd (at inp (n - k)) (\<lambda>x.
         modify out n (\<lambda>v. v + c * x)))) out)))) out) (\<lambda>out.
     Ok (sdata out))"

definition zeroPoleFilter ::
  "float32 span \<Rightarrow> float32 span \<Rightarrow> float32 span \<Rightarrow> int \<Rightarrow> int \<Rightarrow> float32 span \<Rightarrow> float32 list res" where
  "zeroPoleFilter inp zeroCoef poleCoef lengthInOut orderCoef out =
     bnd (allZeroFilter inp zeroCoef lengthInOut orderCoef out) (\<lambda>d.
     allPoleFilter (out\<lparr>sdata := d\<rparr>) poleCoef lengthInOut orderCoef)"

text \<open>The second component of the loop state is the position of \<open>outPtr\<close>.\<close>

definition downSample ::
  "float32 span \<Rightarrow> float32 span \<Rightarrow> int \<Rightarrow> float32 span \<Rightarrow> float32 span \<Rightarrow> float32 list res" where
  "downSample inp coef lengthIn state out =
     bnd (for_by 2 3 lengthIn (\<lambda>i (out, m).
       let stop = (if i < 7 then i + 1 else 7) in
       bnd (for_up 0 stop (\<lambda>j o'.
         bnd (at coef j) (\<lambda>c.
         bnd (at inp (i - j)) (\<lambda>x.
         Ok (o' + c * x)))) 0) (\<lambda>o'.
       bnd (for_up (i + 1) 7 (\<lambda>j o'.
         bnd (at coef j) (\<lambda>c.
         bnd (at state (5 - (j - (i + 1)))) (\<lambda>x.
         Ok (o' + c * x)))) o') (\<lambda>o'.
       bnd (store out m o') (\<lambda>out.
       Ok (out, m + 1))))) (out, 0)) (\<lambda>(out, m).
     bnd (for_by 2 (lengthIn + 2) (lengthIn + 3) (\<lambda>i (out, m).
       bnd (for_up 0 (7 - (i - lengthIn)) (\<lambda>j o'.
         bnd (at coef (i - lengthIn + j)) (\<lambda>c.
         bnd (at inp (lengthIn - 1 - j)) (\<lambda>x.
         Ok (o' + c * x)))) 0) (\<lambda>o'.
       bnd (store out m o') (\<lambda>out.
       Ok (out, m + 1)))) (out, m)) (\<lambda>(out, m).
     Ok (sdata out)))"

section \<open>syntfilter.go\<close>

definition syntFilter ::
  "float32 span \<Rightarrow> float32 span \<Rightarrow> int \<Rightarrow> float32 span \<Rightarrow> (float32 list \<times> float32 list) res" where
  "syntFilter out a len mem =
     bnd (for_up 0 10 (\<lambda>i out.
       bnd (for_up 1 (i + 1) (\<lambda>j out.
         bnd (at a j) (\<lambda>x.
         bnd (at out (i - j)) (\<lambda>y.
         modify out i (\<lambda>v. v - x * y)))) out) (\<lambda>out.
       for_up (i + 1) 11 (\<lambda>j out.
         bnd (at a j) (\<lambda>x.
         bnd (at mem (9 - (j - (i + 1)))) (\<lambda>y.
         modify out i (\<lambda>v. v - x * y)))) out)) out) (\<lambda>out.
     bnd (for_up 10 len (\<lambda>i. for_up 1 11 (\<lambda>j out.
         bnd (at a j) (\<lambda>x.
         bnd (at out (i - j)) (\<lambda>y.
         modify out i (\<lambda>v. v - x * y))))) out) (\<lambda>out.
     bnd (slice (add out (len - 10)) 10) (\<lambda>ys.
     bnd (copy_slice mem 10 ys) (\<lambda>m.
     Ok (sdata out, m)))))"

section \<open>anafilter.go\<close>

definition anaFilter ::
  "float32 span \<Rightarrow> float32 span \<Rightarrow> int \<Rightarrow> float32 span \<Rightarrow> float32 span \<Rightarrow>
   (float32 list \<times> float32 list) res" where
  "anaFilter inp a len out mem =
     bnd (for_up 0 10 (\<lambda>i out.
       bnd (store out i 0) (\<lambda>out.
       bnd (for_up 0 (i + 1) (\<lambda>j out.
         bnd (at a j) (\<lambda>x.
         bnd (at inp (i - j)) (\<lambda>y.
         modify out i (\<lambda>v. v + x * y)))) out) (\<lambda>out.
       for_up (i + 1) 11 (\<lambda>j out.
         bnd (at a j) (\<lambda>x.
         bnd (at mem (9 - (j - (i + 1)))) (\<lambda>y.
         modify out i (\<lambda>v. v + x * y)))) out))) out) (\<lambda>out.
     bnd (for_up 10 len (\<lambda>i out.
       bnd (store out i 0) (\<lambda>out.
       for_up 0 11 (\<lambda>j out.
         bnd (at a j) (\<lambda>x.
         bnd (at inp (i - j)) (\<lambda>y.
         modify out i (\<lambda>v. v + x * y)))) out)) out) (\<lambda>out.
     bnd (slice (add inp (len - 10)) 10) (\<lambda>ys.
     bnd (copy_slice mem 10 ys) (\<lambda>m.
     Ok (sdata out, m)))))"

section \<open>hpinput.go and hpoutput.go\<close>

definition hpInput ::
  "float32 span \<Rightarrow> int \<Rightarrow> float32 span \<Rightarrow> float32 span \<Rightarrow> (float32 list \<times> float32 list) res" where
  "hpInput inp len out mem =
     bnd (for_up 0 len (\<lambda>i (out, mem).
       bnd (at inp i) (\<lambda>x.
       bnd (store out i (hpiZeroCoefsTbl ! 0 * x)) (\<lambda>out.
       bnd (at mem 0) (\<lambda>m0.
       bnd (modify out i (\<lambda>v. v + hpiZeroCoefsTbl ! 1 * m0)) (\<lambda>out.
       bnd (at mem 1) (\<lambda>m1.
       bnd (modify out i (\<lambda>v. v + hpiZeroCoefsTbl ! 2 * m1)) (\<lambda>out.
       bnd (store mem 1 m0) (\<lambda>mem.
       bnd (store mem 0 x) (\<lambda>mem.
       Ok (out, mem)))))))))) (out, mem)) (\<lambda>(out, mem).
     bnd (for_up 0 len (\<lambda>i (out, mem).
       bnd (at mem 2) (\<lambda>m2.
       bnd (modify out i (\<lambda>v. v - hpiPoleCoefsTbl ! 1 * m2)) (\<lambda>out.
       bnd (at mem 3) (\<lambda>m3.
       bnd (modify out i (\<lambda>v. v - hpiPoleCoefsTbl ! 2 * m3)) (\<lambda>out.
       bnd (store mem 3 m2) (\<lambda>mem.
       bnd (at out i) (\<lambda>y.
       bnd (store mem 2 y) (\<lambda>mem.
       Ok (out, mem))))))))) (out, mem)) (\<lambda>(out, mem).
     Ok (sdata out, sdata mem)))"

definition hpOutput ::
  "float32 span \<Rightarrow> int \<Rightarrow> float32 span \<Rightarrow> float32 span \<Rightarrow> (float32 list \<times> float32 list) res" where
  "hpOutput inp len out mem =
     bnd (for_up 0 len (\<lambda>i (out, mem).
       bnd (at inp i) (\<lambda>x.
       bnd (store out i (hpoZeroCoefsTbl ! 0 * x)) (\<lambda>out.
       bnd (at mem 0) (\<lambda>m0.
       bnd (modify out i (\<lambda>v. v + hpoZeroCoefsTbl ! 1 * m0)) (\<lambda>out.
       bnd (at mem 1) (\<lambda>m1.
       bnd (modify out i (\<lambda>v. v + hpoZeroCoefsTbl ! 2 * m1)) (\<lambda>out.
       bnd (store mem 1 m0) (\<lambda>mem.
       bnd (store mem 0 x) (\<lambda>mem.
       Ok (out, mem)))))))))) (out, mem)) (\<lambda>(out, mem).
     bnd (for_up 0 len (\<lambda>i (out, mem).
       bnd (at mem 2) (\<lambda>m2.
       bnd (modify out i (\<lambda>v. v - hpoPoleCoefsTbl ! 1 * m2)) (\<lambda>out.
       bnd (at mem 3) (\<lambda>m3.
       bnd (modify out i (\<lambda>v. v - hpoPoleCoefsTbl ! 2 * m3)) (\<lambda>out.
       bnd (store mem 3 m2) (\<lambda>mem.
       bnd (at out i) (\<lambda>y.
       bnd (store mem 2 y) (\<lambda>mem.
       Ok (out, mem))))))))) (out, mem)) (\<lambda>(out, mem).
     Ok (sdata out, sdata mem)))"

section \<open>denormal.go\<close>

definition flush_value :: "float32 \<Rightarrow> float32" where
  "flush_value value =
     (let magnitude = float32bits value AND 0x7fffffff
      in if magnitude \<noteq> 0 \<and> magnitude < 0x00800000 then 0 else value)"

definition flushSubnormalHistory :: "float32 list \<Rightarrow> float32 list" where
  "flushSubnormalHistory history = map flush_value history"

section \<open>No filter accesses memory out of bounds\<close>

lemma allPoleFilter_wp [wp]:
  assumes "0 \<le> soff coef" "soff coef + order < int (length (sdata coef))" "0 \<le> order"
    and "order \<le> soff p" "soff p + n \<le> int (length (sdata p))"
    and "\<And>r. length r = length (sdata p) \<Longrightarrow> Q r"
  shows "spec E Q (allPoleFilter p coef n order)"
  unfolding allPoleFilter_def
  by (intro wp for_up_inv[where I = "similar p"]) (use assms in \<open>auto simp: similar_def\<close>)

lemma allZeroFilter_wp [wp]:
  assumes "0 \<le> soff coef" "soff coef + order < int (length (sdata coef))" "0 \<le> order"
    and "order \<le> soff x" "soff x + n \<le> int (length (sdata x))"
    and "0 \<le> soff p" "soff p + n \<le> int (length (sdata p))"
    and "\<And>r. length r = length (sdata p) \<Longrightarrow> Q r"
  shows "spec E Q (allZeroFilter x coef n order p)"
  unfolding allZeroFilter_def
  by (intro wp for_up_inv[where I = "similar p"]) (use assms in \<open>auto simp: similar_def\<close>)

lemma zeroPoleFilter_wp [wp]:
  assumes "0 \<le> soff zero" "soff zero + order < int (length (sdata zero))" "0 \<le> order"
    and "0 \<le> soff pole" "soff pole + order < int (length (sdata pole))"
    and "order \<le> soff x" "soff x + n \<le> int (length (sdata x))"
    and "order \<le> soff p" "soff p + n \<le> int (length (sdata p))"
    and "\<And>r. length r = length (sdata p) \<Longrightarrow> Q r"
  shows "spec E Q (zeroPoleFilter x zero pole n order p)"
  unfolding zeroPoleFilter_def by (intro wp) (use assms in auto)

lemma syntFilter_wp [wp]:
  assumes "0 \<le> soff a" "soff a + 11 \<le> int (length (sdata a))"
    and "0 \<le> soff p" "soff p + n \<le> int (length (sdata p))" "10 \<le> n"
    and "0 \<le> soff mem" "soff mem + 10 \<le> int (length (sdata mem))"
    and "\<And>d m. length d = length (sdata p) \<Longrightarrow> length m = length (sdata mem) \<Longrightarrow> Q (d, m)"
  shows "spec E Q (syntFilter p a n mem)"
  unfolding syntFilter_def
  by (intro wp for_up_inv[where I = "similar p"]) (use assms in \<open>auto simp: similar_def\<close>)

lemma anaFilter_wp [wp]:
  assumes "0 \<le> soff a" "soff a + 11 \<le> int (length (sdata a))"
    and "0 \<le> soff x" "soff x + n \<le> int (length (sdata x))" "10 \<le> n"
    and "0 \<le> soff p" "soff p + n \<le> int (length (sdata p))"
    and "0 \<le> soff mem" "soff mem + 10 \<le> int (length (sdata mem))"
    and "\<And>d m. length d = length (sdata p) \<Longrightarrow> length m = length (sdata mem) \<Longrightarrow> Q (d, m)"
  shows "spec E Q (anaFilter x a n p mem)"
  unfolding anaFilter_def
  by (intro wp for_up_inv[where I = "similar p"]) (use assms in \<open>auto simp: similar_def\<close>)

lemma hpInput_wp [wp]:
  assumes "0 \<le> soff x" "soff x + n \<le> int (length (sdata x))"
    and "0 \<le> soff p" "soff p + n \<le> int (length (sdata p))"
    and "0 \<le> soff mem" "soff mem + 4 \<le> int (length (sdata mem))"
    and "\<And>d m. length d = length (sdata p) \<Longrightarrow> length m = length (sdata mem) \<Longrightarrow> Q (d, m)"
  shows "spec E Q (hpInput x n p mem)"
  unfolding hpInput_def
  by (intro wp for_up_inv[where I = "\<lambda>(q, m). similar p q \<and> similar mem m"])
    (use assms in \<open>auto simp: similar_def\<close>)

lemma hpOutput_wp [wp]:
  assumes "0 \<le> soff x" "soff x + n \<le> int (length (sdata x))"
    and "0 \<le> soff p" "soff p + n \<le> int (length (sdata p))"
    and "0 \<le> soff mem" "soff mem + 4 \<le> int (length (sdata mem))"
    and "\<And>d m. length d = length (sdata p) \<Longrightarrow> length m = length (sdata mem) \<Longrightarrow> Q (d, m)"
  shows "spec E Q (hpOutput x n p mem)"
  unfolding hpOutput_def
  by (intro wp for_up_inv[where I = "\<lambda>(q, m). similar p q \<and> similar mem m"])
    (use assms in \<open>auto simp: similar_def\<close>)

lemma length_flush [simp]: "length (flushSubnormalHistory xs) = length xs"
  by (simp add: flushSubnormalHistory_def)

text \<open>The output of \<open>downSample\<close> has half as many samples as its input.\<close>

lemma downSample_wp [wp]:
  assumes "0 \<le> soff coef" "soff coef + 7 \<le> int (length (sdata coef))"
    and "even n" "8 \<le> n" "0 \<le> soff x" "soff x + n \<le> int (length (sdata x))"
    and "0 \<le> soff st" "soff st + 6 \<le> int (length (sdata st))"
    and "0 \<le> soff p" "2 * soff p + n \<le> 2 * int (length (sdata p))"
    and "\<And>r. length r = length (sdata p) \<Longrightarrow> Q r"
  shows "spec E Q (downSample x coef n st p)"
proof -
  obtain h where h: "n = 2 * h" using assms(3) by blast
  show ?thesis
    unfolding downSample_def h
    by (intro wp for_by_spec[where I = "\<lambda>i (q, m). similar p q \<and> 0 \<le> m \<and> 2 * m \<le> i - 3"]
        for_up_inv[where I = "\<lambda>_. True"])
      (use assms[unfolded h] in \<open>auto simp: similar_def split: if_splits\<close>)
qed

end
