(* ===== verification/StateCoding.thy ===== *)
theory StateCoding
  imports Filters Helpfun
begin

text \<open>
  stateconstructw.go and statesearchw.go: decoding and quantisation of the start state.
\<close>

section \<open>stateconstructw.go\<close>

text \<open>The reversed coefficients that make the all-pole filter an all-pass filter.\<close>

definition reversed_coefs :: "float32 span \<Rightarrow> float32 list res" where
  "reversed_coefs syntDenum =
     bnd (for_up 0 10 (\<lambda>k numerator.
       bnd (at syntDenum (10 - k)) (\<lambda>c. upd numerator k c)) (replicate 11 0)) (\<lambda>numerator.
     bnd (at syntDenum 0) (\<lambda>c. upd numerator 10 c))"

definition stateConstructW ::
  "platform \<Rightarrow> int \<Rightarrow> int span \<Rightarrow> float32 span \<Rightarrow> float32 span \<Rightarrow> int \<Rightarrow> float32 list res" where
  "stateConstructW P idxForMax idxVec syntDenum out len =
     bnd (idx stateFrgqTbl idxForMax) (\<lambda>q.
     let maxVal = f32 (math_Pow P (int64 10) (f64 q)) / dec32 45 1 in
     bnd (clear_sub (replicate 170 0) 0 10) (\<lambda>tmpbuf.
     bnd (clear_sub (replicate 170 0) 0 10) (\<lambda>foutbuf.
     bnd (reversed_coefs syntDenum) (\<lambda>numerator.
     bnd (for_up 0 len (\<lambda>k tmp.
       let tmpi = len - 1 - k in
       bnd (at idxVec tmpi) (\<lambda>v.
       bnd (idx stateSq3Tbl v) (\<lambda>s.
       store tmp k (maxVal * s)))) (mk tmpbuf 10)) (\<lambda>tmp.
     bnd (clear_slice (add tmp len) len) (\<lambda>d.
     bnd (zeroPoleFilter (tmp\<lparr>sdata := d\<rparr>) (mk numerator 0) syntDenum (2 * len) 10 (mk foutbuf 10)) (\<lambda>fout.
     bnd (for_up 0 len (\<lambda>k out.
       bnd (at (mk fout 10) (len - 1 - k)) (\<lambda>x.
       bnd (at (mk fout 10) (2 * len - 1 - k)) (\<lambda>y.
       store out k (x + y)))) out) (\<lambda>out.
     Ok (sdata out)))))))))"

section \<open>statesearchw.go\<close>

text \<open>
  One sample of \<open>absQuantW\<close>.  The loop state is the filtered input, the synthesis memory, the
  indices and the weighting filter, which moves to the next subframe in the middle.
\<close>

definition absQuantW_sample ::
  "encoderState \<Rightarrow> int \<Rightarrow> int \<Rightarrow> int \<Rightarrow> float32 span \<times> float32 span \<times> int span \<times> float32 span \<Rightarrow>
   (float32 span \<times> float32 span \<times> int span \<times> float32 span) res" where
  "absQuantW_sample encoder len stateFirst n = (\<lambda>(input, syntOut, out, weightDenum).
     bnd (if stateFirst \<noteq> 0 \<and> n = 40 \<or> stateFirst = 0 \<and> n = e_shortStateSamples encoder - 40 then
            let weightDenum = add weightDenum 11 in
            bnd (allPoleFilter (add input n) weightDenum (len - n) 10) (\<lambda>d.
            Ok (input\<lparr>sdata := d\<rparr>, weightDenum))
          else Ok (input, weightDenum)) (\<lambda>(input, weightDenum).
     bnd (store syntOut n 0) (\<lambda>syntOut.
     bnd (allPoleFilter (add syntOut n) weightDenum 1 10) (\<lambda>d.
     let syntOut = syntOut\<lparr>sdata := d\<rparr> in
     bnd (at input n) (\<lambda>x.
     bnd (at syntOut n) (\<lambda>y.
     let toQ = x - y in
     bnd (sortSq (mk [0] 0) (mk [0] 0) toQ (mk stateSq3Tbl 0) 8) (\<lambda>(xq, index).
     bnd (store out n (index ! 0)) (\<lambda>out.
     bnd (at out n) (\<lambda>v.
     bnd (idx stateSq3Tbl v) (\<lambda>s.
     bnd (store syntOut n s) (\<lambda>syntOut.
     bnd (allPoleFilter (add syntOut n) weightDenum 1 10) (\<lambda>d.
     Ok (input, syntOut\<lparr>sdata := d\<rparr>, out, weightDenum)))))))))))))"

definition absQuantW ::
  "encoderState \<Rightarrow> float32 span \<Rightarrow> float32 span \<Rightarrow> int span \<Rightarrow> int \<Rightarrow> int \<Rightarrow> int list res" where
  "absQuantW encoder input weightDenum out len stateFirst =
     bnd (clear_sub (replicate 68 0) 0 10) (\<lambda>syntOutBuf.
     bnd (allPoleFilter input weightDenum
       (if stateFirst \<noteq> 0 then 40 else e_shortStateSamples encoder - 40) 10) (\<lambda>d.
     bnd (for_up 0 len (absQuantW_sample encoder len stateFirst)
       (input\<lparr>sdata := d\<rparr>, mk syntOutBuf 10, out, weightDenum)) (\<lambda>(input, syntOut, out, weightDenum).
     Ok (sdata out))))"

text \<open>The peak of the filtered residual, as it is quantised: the decimal logarithm of its size.\<close>

definition state_peak :: "platform \<Rightarrow> float32 span \<Rightarrow> int \<Rightarrow> float32 res" where
  "state_peak P fout len =
     bnd (at fout 0) (\<lambda>x.
     bnd (for_up 1 len (\<lambda>k maxVal.
       bnd (at fout k) (\<lambda>y.
       Ok (if maxVal * maxVal < y * y then y else maxVal))) x) (\<lambda>maxVal.
     let maxVal = f32 (math_Abs (f64 maxVal));
         maxVal = (if f64 maxVal < int64 10 then int32 10 else maxVal) in
     Ok (f32 (math_Log10 P (f64 maxVal)))))"

text \<open>The result is the index of the maximum and the indices of the samples.\<close>

definition stateSearchW ::
  "platform \<Rightarrow> encoderState \<Rightarrow> float32 span \<Rightarrow> float32 span \<Rightarrow> float32 span \<Rightarrow> int span \<Rightarrow> int span \<Rightarrow>
   int \<Rightarrow> int \<Rightarrow> (int list \<times> int list) res" where
  "stateSearchW P encoder residual syntDenum weightDenum idxForMax idxVec len stateFirst =
     bnd (clear_sub (replicate 126 0) 0 10) (\<lambda>tmpbuf.
     bnd (clear_sub (replicate 126 0) 0 10) (\<lambda>foutbuf.
     bnd (reversed_coefs syntDenum) (\<lambda>numerator.
     bnd (slice residual len) (\<lambda>xs.
     bnd (copy_slice (mk tmpbuf 10) len xs) (\<lambda>d.
     bnd (clear_slice (add (mk d 10) len) len) (\<lambda>d.
     bnd (zeroPoleFilter (mk d 10) (mk numerator 0) syntDenum (2 * len) 10 (mk foutbuf 10)) (\<lambda>d.
     bnd (for_up 0 len (\<lambda>k fout.
       bnd (at fout (k + len)) (\<lambda>y.
       modify fout k (\<lambda>v. v + y))) (mk d 10)) (\<lambda>fout.
     bnd (state_peak P fout len) (\<lambda>maxVal.
     bnd (sortSq (mk [0] 0) idxForMax maxVal (mk stateFrgqTbl 0) 64) (\<lambda>(dtmp, im).
     let idxForMax = idxForMax\<lparr>sdata := im\<rparr> in
     bnd (at idxForMax 0) (\<lambda>i.
     bnd (idx stateFrgqTbl i) (\<lambda>maxVal.
     let qmax = f32 (math_Pow P (int64 10) (f64 maxVal)); scal = dec32 45 1 / qmax in
     bnd (for_up 0 len (\<lambda>k fout. modify fout k (\<lambda>v. v * scal)) fout) (\<lambda>fout.
     bnd (absQuantW encoder fout weightDenum idxVec len stateFirst) (\<lambda>iv.
     Ok (im, iv)))))))))))))))"

section \<open>No access out of bounds\<close>

lemma reversed_coefs_wp [wp]:
  assumes "0 \<le> soff a" "soff a + 11 \<le> int (length (sdata a))" "\<And>c. length c = 11 \<Longrightarrow> Q c"
  shows "spec E Q (reversed_coefs a)"
  unfolding reversed_coefs_def
  by (intro wp for_up_inv[where I = "\<lambda>c :: float32 list. length c = 11"]) (use assms in auto)

text \<open>The indices the bitstream delivers: six bits for the scale, three for each sample.\<close>

lemma stateConstructW_wp [wp]:
  assumes "0 \<le> i" "i < 64" "0 \<le> len" "len \<le> 80"
    and "0 \<le> soff v" "soff v + len \<le> int (length (sdata v))" "\<And>k. k \<in> set (sdata v) \<Longrightarrow> 0 \<le> k \<and> k < 8"
    and "0 \<le> soff a" "soff a + 11 \<le> int (length (sdata a))"
    and "0 \<le> soff p" "soff p + len \<le> int (length (sdata p))"
    and "\<And>d. length d = length (sdata p) \<Longrightarrow> Q d"
  shows "spec E Q (stateConstructW P i v a p len)"
proof -
  have v: "0 \<le> sdata v ! nat (soff v + k) \<and> sdata v ! nat (soff v + k) < 8" if "0 \<le> k" "k < len" for k
    by (rule assms(7), rule nth_mem) (use that assms in linarith)
  have t: "length stateFrgqTbl = 64" "length stateSq3Tbl = 8" by (simp_all add: stateFrgqTbl_def stateSq3Tbl_def)
  show ?thesis
    unfolding stateConstructW_def Let_def
    by (intro wp for_up_inv[where I = "\<lambda>q. soff q = 10 \<and> length (sdata q) = 170"]
          for_up_inv[where I = "similar p"])
      (use assms v t in \<open>auto simp: similar_def\<close>)
qed

end
