(* ===== verification/Gainquant.thy ===== *)
theory Gainquant
  imports Constants
begin

text \<open>
  gainquant.go: the scalar gain quantiser and its inverse.  \<open>gainquant\<close> returns the quantised
  gain and the updated index array.
\<close>

definition gain_table :: "int \<Rightarrow> float32 list" where
  "gain_table cblen = (if cblen = 8 then gainSq3Tbl else if cblen = 16 then gainSq4Tbl else gainSq5Tbl)"

definition gain_scale :: "float32 \<Rightarrow> float32" where
  "gain_scale x = (if f64 x < dec64 1 1 then dec32 1 1 else x)"

definition gainquant ::
  "float32 \<Rightarrow> float32 \<Rightarrow> int \<Rightarrow> int span \<Rightarrow> (float32 \<times> int list) res" where
  "gainquant input maxIn cblen index =
     (let scale = gain_scale maxIn; cb = mk (gain_table cblen) 0 in
      bnd (for_up 0 cblen (\<lambda>i (tindex, minmeasure).
        bnd (at cb i) (\<lambda>c.
        let measure = (input - scale * c) * (input - scale * c) in
        Ok (if measure < minmeasure then (i, measure) else (tindex, minmeasure))))
        (0, dec32 (10 ^ 7) 0)) (\<lambda>(tindex, minmeasure).
      bnd (store index 0 tindex) (\<lambda>index.
      bnd (at cb tindex) (\<lambda>c.
      Ok (scale * c, sdata index)))))"

definition gaindequant :: "int \<Rightarrow> float32 \<Rightarrow> int \<Rightarrow> float32 res" where
  "gaindequant index maxIn cblen =
     (let scale = gain_scale (f32 (math_Abs (f64 maxIn))) in
      if cblen = 8 then bnd (idx gainSq3Tbl index) (\<lambda>c. Ok (scale * c))
      else if cblen = 16 then bnd (idx gainSq4Tbl index) (\<lambda>c. Ok (scale * c))
      else if cblen = 32 then bnd (idx gainSq5Tbl index) (\<lambda>c. Ok (scale * c))
      else Ok 0)"

section \<open>No access out of bounds\<close>

lemma length_gain_table: "cblen \<in> {8, 16, 32} \<Longrightarrow> int (length (gain_table cblen)) = cblen"
  by (auto simp: gain_table_def)

lemma gainquant_wp [wp]:
  assumes "cblen \<in> {8, 16, 32}" "0 \<le> soff ix" "soff ix < int (length (sdata ix))"
    and "\<And>g k. 0 \<le> k \<Longrightarrow> k < cblen \<Longrightarrow> Q (g, (sdata ix)[nat (soff ix) := k])"
  shows "spec E Q (gainquant input maxIn cblen ix)"
proof -
  have n: "int (length (gain_table cblen)) = cblen" "0 < cblen"
    using assms(1) by (auto simp: gain_table_def)
  show ?thesis
    unfolding gainquant_def Let_def
    by (rule spec_bndI, rule for_up_inv[where I = "\<lambda>(t, m). 0 \<le> t \<and> t < cblen"])
      (use assms n in auto)
qed

lemma gaindequant_wp [wp]:
  assumes "0 \<le> i" "i < cblen" "cblen \<in> {8, 16, 32}" "\<And>g. Q g"
  shows "spec E Q (gaindequant i maxIn cblen)"
  using assms unfolding gaindequant_def by (auto simp: Let_def)

end
