(* ===== verification/Codebook.thy ===== *)
theory Codebook
  imports Gainquant
begin

text \<open>
  getcbvec.go, icbconstruct.go and createcb.go: the adaptive codebook.  \<open>getCBvec\<close> builds one
  codebook vector from the memory, \<open>constructCodebook\<close> sums the gain-scaled vectors of the
  three stages, and the functions of createcb.go serve the search of the encoder.
\<close>

section \<open>getcbvec.go\<close>

text \<open>The eight-tap filter of the second codebook half: \<open>n\<close> outputs, output \<open>i\<close> from \<open>src[i..i+7]\<close>.\<close>

definition cb_filter :: "float32 span \<Rightarrow> int \<Rightarrow> float32 span \<Rightarrow> float32 span res" where
  "cb_filter src n out =
     for_up 0 n (\<lambda>i. for_up 0 8 (\<lambda>j out.
       bnd (at src (i + j)) (\<lambda>x.
       bnd (idx cbfiltersTbl (7 - j)) (\<lambda>c.
       modify out i (\<lambda>v. v + x * c))))) out"

text \<open>The five interpolated samples of an augmented vector, with \<open>alfa\<close> growing by 0.2.\<close>

definition cb_blend ::
  "float32 span \<Rightarrow> int \<Rightarrow> int \<Rightarrow> int \<Rightarrow> int \<Rightarrow> float32 span \<Rightarrow> float32 span res" where
  "cb_blend src p q ilow ihigh cbvec =
     bnd (for_up ilow ihigh (\<lambda>j (cbvec, alfa).
       bnd (at src (p + j)) (\<lambda>x.
       bnd (at src (q + j)) (\<lambda>y.
       bnd (store cbvec j ((1 - alfa) * x + alfa * y)) (\<lambda>cbvec.
       Ok (cbvec, alfa + dec32 2 1))))) (cbvec, 0)) (\<lambda>(cbvec, alfa).
     Ok cbvec)"

text \<open>The memory with four zeros before and five after it, in a buffer of 156 samples.\<close>

definition cb_padded :: "float32 span \<Rightarrow> int \<Rightarrow> float32 list res" where
  "cb_padded mem lMem =
     bnd (clear_sub (replicate 156 0) 0 4) (\<lambda>tempbuff2.
     bnd (slice mem lMem) (\<lambda>ms.
     bnd (copy_sub tempbuff2 4 (4 + lMem) ms) (\<lambda>tempbuff2.
     clear_sub tempbuff2 (lMem + 4) (lMem + 4 + 5))))"

definition cb_copy ::
  "float32 span \<Rightarrow> int \<Rightarrow> int \<Rightarrow> float32 span \<Rightarrow> int \<Rightarrow> float32 span res" where
  "cb_copy dst i n src j =
     bnd (slice (add src j) n) (\<lambda>xs.
     bnd (copy_slice (add dst i) n xs) (\<lambda>d.
     Ok (dst\<lparr>sdata := d\<rparr>)))"

definition getCBvec ::
  "float32 span \<Rightarrow> float32 span \<Rightarrow> int \<Rightarrow> int \<Rightarrow> int \<Rightarrow> float32 list res" where
  "getCBvec cbvec mem index lMem cbveclen =
     (let baseSize = lMem - cbveclen + 1;
          baseSize = (if cbveclen = 40 then baseSize + cbveclen div 2 else baseSize) in
      bnd (
        if index < lMem - cbveclen + 1 then
          let k = index + cbveclen in
          cb_copy cbvec 0 cbveclen mem (lMem - k)
        else if index < baseSize then
          let k = 2 * (index - (lMem - cbveclen + 1)) + cbveclen; ihigh = k div 2; ilow = ihigh - 5 in
          bnd (cb_copy cbvec 0 ilow mem (lMem - k div 2)) (\<lambda>cbvec.
          bnd (cb_blend mem (lMem - k div 2) (lMem - k) ilow ihigh cbvec) (\<lambda>cbvec.
          cb_copy cbvec ihigh (cbveclen - ihigh) mem (lMem - k + ihigh)))
        else if index - baseSize < lMem - cbveclen + 1 then
          bnd (cb_padded mem lMem) (\<lambda>tempbuff2.
          let k = index - baseSize + cbveclen; sFilt = lMem - k; memInd = sFilt + 1 - 4 in
          bnd (clear_slice cbvec cbveclen) (\<lambda>d.
          cb_filter (mk tempbuff2 (memInd + 4)) cbveclen (cbvec\<lparr>sdata := d\<rparr>)))
        else
          bnd (cb_padded mem lMem) (\<lambda>tempbuff2.
          let k = 2 * (index - baseSize - (lMem - cbveclen + 1)) + cbveclen;
              sFilt = lMem - k; memInd = sFilt + 1 - 4; pos = mk (replicate 147 0) sFilt in
          bnd (clear_slice pos k) (\<lambda>d.
          bnd (cb_filter (mk tempbuff2 (memInd + 4)) k (pos\<lparr>sdata := d\<rparr>)) (\<lambda>pos.
          let ihigh = k div 2; ilow = ihigh - 5; tmpbuf = mk (sdata pos) 0 in
          bnd (cb_copy cbvec 0 ilow tmpbuf (lMem - k div 2)) (\<lambda>cbvec.
          bnd (cb_blend tmpbuf (lMem - k div 2) (lMem - k) ilow ihigh cbvec) (\<lambda>cbvec.
          cb_copy cbvec ihigh (cbveclen - ihigh) tmpbuf (lMem - k + ihigh)))))))
      (\<lambda>cbvec. Ok (sdata cbvec)))"

section \<open>icbconstruct.go\<close>

definition convertEncoderIndices :: "int span \<Rightarrow> int list res" where
  "convertEncoderIndices index =
     bnd (for_up 1 3 (\<lambda>k index.
       bnd (at index k) (\<lambda>v.
       if 108 \<le> v \<and> v < 172 then store index k (v - 64)
       else if 236 \<le> v then store index k (v - 128)
       else Ok index)) index) (\<lambda>index.
     Ok (sdata index))"

definition convertDecoderIndices :: "int span \<Rightarrow> int list res" where
  "convertDecoderIndices index =
     bnd (for_up 1 3 (\<lambda>k index.
       bnd (at index k) (\<lambda>v.
       if 44 \<le> v \<and> v < 108 then store index k (v + 64)
       else if 108 \<le> v \<and> v < 128 then store index k (v + 128)
       else Ok index)) index) (\<lambda>index.
     Ok (sdata index))"

definition abs32 :: "float32 \<Rightarrow> float32" where
  "abs32 x = f32 (math_Abs (f64 x))"

text \<open>The gains of the stages; each is the scale of the next.\<close>

definition stage_gains :: "int span \<Rightarrow> int \<Rightarrow> float32 list res" where
  "stage_gains gainIndex nStages =
     bnd (at gainIndex 0) (\<lambda>g0.
     bnd (gaindequant g0 1 32) (\<lambda>v0.
     bnd (if 1 < nStages then bnd (at gainIndex 1) (\<lambda>g1. gaindequant g1 (abs32 v0) 16) else Ok 0) (\<lambda>v1.
     bnd (if 2 < nStages then bnd (at gainIndex 2) (\<lambda>g2. gaindequant g2 (abs32 v1) 8) else Ok 0) (\<lambda>v2.
     Ok [v0, v1, v2]))))"

definition constructCodebook ::
  "float32 span \<Rightarrow> int span \<Rightarrow> int span \<Rightarrow> float32 span \<Rightarrow> int \<Rightarrow> int \<Rightarrow> int \<Rightarrow> float32 list res" where
  "constructCodebook decvector index gainIndex mem lMem veclen nStages =
     bnd (stage_gains gainIndex nStages) (\<lambda>gain.
     bnd (at index 0) (\<lambda>i0.
     bnd (getCBvec (mk (replicate 40 0) 0) mem i0 lMem veclen) (\<lambda>cbvec.
     bnd (for_up 0 veclen (\<lambda>j decvector.
       bnd (idx cbvec j) (\<lambda>c.
       store decvector j (gain ! 0 * c))) decvector) (\<lambda>decvector.
     bnd (if 1 < nStages then
            for_up 1 nStages (\<lambda>k (decvector, cbvec).
              bnd (at index k) (\<lambda>ik.
              bnd (getCBvec (mk cbvec 0) mem ik lMem veclen) (\<lambda>cbvec.
              bnd (for_up 0 veclen (\<lambda>j decvector.
                bnd (idx gain k) (\<lambda>g.
                bnd (idx cbvec j) (\<lambda>c.
                modify decvector j (\<lambda>v. v + g * c)))) decvector) (\<lambda>decvector.
              Ok (decvector, cbvec))))) (decvector, cbvec)
          else Ok (decvector, cbvec)) (\<lambda>(decvector, cbvec).
     Ok (sdata decvector))))))"

section \<open>createcb.go\<close>

definition filteredCBvecs :: "float32 span \<Rightarrow> float32 span \<Rightarrow> int \<Rightarrow> float32 list res" where
  "filteredCBvecs cbvectors mem lMem =
     bnd (clear_sub (replicate 155 0) 0 3) (\<lambda>tempbuff2.
     bnd (slice mem lMem) (\<lambda>ms.
     bnd (copy_sub tempbuff2 3 (3 + lMem) ms) (\<lambda>tempbuff2.
     bnd (clear_sub tempbuff2 (lMem + 4 - 1) (lMem + 4 - 1 + 5)) (\<lambda>tempbuff2.
     bnd (clear_slice cbvectors lMem) (\<lambda>d.
     bnd (cb_filter (mk tempbuff2 0) lMem (cbvectors\<lparr>sdata := d\<rparr>)) (\<lambda>cbvectors.
     Ok (sdata cbvectors)))))))"

text \<open>
  The running optimum of a search: the best measure, its index and its gain; and the energy
  arrays that the stages share.
\<close>

record cb_best =
  maxMeasure :: float32
  bestIndex :: int
  gain :: float32

definition float_eps :: float32 where "float_eps = dec32 2220446 22"

definition cb_limit :: float64 where "cb_limit = dec64 12999999523162842 16"

definition inv_energy :: "float32 \<Rightarrow> float32" where
  "inv_energy e = (if 0 < f64 e then 1 / (e + float_eps) else 0)"

definition cb_measure :: "int \<Rightarrow> float32 \<Rightarrow> float32 \<Rightarrow> float32" where
  "cb_measure stage crossDot inve =
     (if stage = 0 then if 0 < f64 crossDot then crossDot * crossDot * inve else dec32 (- (10 ^ 7)) 0
      else crossDot * crossDot * inve)"

definition cb_update :: "int \<Rightarrow> float32 \<Rightarrow> float32 \<Rightarrow> cb_best \<Rightarrow> cb_best" where
  "cb_update i crit ftmp best =
     (if maxMeasure best < crit \<and> math_Abs (f64 ftmp) < cb_limit
      then \<lparr>maxMeasure = crit, bestIndex = i, gain = ftmp\<rparr> else best)"

definition searchAugmentedCB ::
  "int \<Rightarrow> int \<Rightarrow> int \<Rightarrow> int \<Rightarrow> float32 span \<Rightarrow> float32 span \<Rightarrow> cb_best \<Rightarrow> float32 span \<Rightarrow> float32 span \<Rightarrow>
   (cb_best \<times> float32 list \<times> float32 list) res" where
  "searchAugmentedCB low high stage startIndex target buffer best energy invenergy =
     bnd (for_up 0 (low - 5) (\<lambda>j nrj.
       bnd (at buffer (- low + 1 + j)) (\<lambda>x. Ok (nrj + x * x))) 0) (\<lambda>nrjRecursive.
     bnd (for_up low (high + 1) (\<lambda>icount (best, energy, invenergy, nrjRecursive).
       let tmpIndex = startIndex + icount - 20; ilow = icount - 4 in
       bnd (at buffer (- low - (icount - low))) (\<lambda>e.
       let nrjRecursive = nrjRecursive + e * e in
       bnd (store energy tmpIndex nrjRecursive) (\<lambda>energy.
       bnd (for_up 0 ilow (\<lambda>j crossDot.
         bnd (at target j) (\<lambda>t.
         bnd (at buffer (- icount + j)) (\<lambda>x.
         Ok (crossDot + t * x)))) 0) (\<lambda>crossDot.
       bnd (for_up ilow icount (\<lambda>j (energy, crossDot, alfa).
         bnd (at buffer (- 4 + (j - ilow))) (\<lambda>x.
         bnd (at buffer (- icount - 4 + (j - ilow))) (\<lambda>y.
         let weighted = (1 - alfa) * x + alfa * y in
         bnd (modify energy tmpIndex (\<lambda>v. v + weighted * weighted)) (\<lambda>energy.
         bnd (at target j) (\<lambda>t.
         Ok (energy, crossDot + t * weighted, alfa + dec32 2 1))))))
         (energy, crossDot, dec32 2 1)) (\<lambda>(energy, crossDot, alfa).
       bnd (for_up icount 40 (\<lambda>j (energy, crossDot).
         bnd (at buffer (- icount + (j - icount))) (\<lambda>x.
         bnd (modify energy tmpIndex (\<lambda>v. v + x * x)) (\<lambda>energy.
         bnd (at target j) (\<lambda>t.
         Ok (energy, crossDot + t * x))))) (energy, crossDot)) (\<lambda>(energy, crossDot).
       bnd (at energy tmpIndex) (\<lambda>e.
       bnd (store invenergy tmpIndex (inv_energy e)) (\<lambda>invenergy.
       let inve = inv_energy e; measure = cb_measure stage crossDot inve; ftmp = crossDot * inve in
       Ok (cb_update tmpIndex measure ftmp best, energy, invenergy, nrjRecursive)))))))))
       (best, energy, invenergy, nrjRecursive)) (\<lambda>(best, energy, invenergy, nrjRecursive).
     Ok (best, sdata energy, sdata invenergy)))"

text \<open>The code writes the vector length as \<open>4*index/4\<close>, which is \<open>index\<close>.\<close>

definition createAugmentedVec :: "int \<Rightarrow> float32 span \<Rightarrow> float32 span \<Rightarrow> float32 list res" where
  "createAugmentedVec index buffer cbVec =
     (let ilow = index - 5 in
      bnd (cb_copy cbVec 0 (4 * index div 4) buffer (- index)) (\<lambda>cbVec.
      bnd (cb_blend buffer (- 5 - ilow) (- index - 5 - ilow) ilow index cbVec) (\<lambda>cbVec.
      bnd (cb_copy cbVec index (4 * (40 - index) div 4) buffer (- index)) (\<lambda>cbVec.
      Ok (sdata cbVec)))))"

section \<open>No access out of bounds\<close>

lemma cb_filter_wp [wp]:
  assumes "0 \<le> soff src" "soff src + n + 7 \<le> int (length (sdata src))"
    and "0 \<le> soff p" "soff p + n \<le> int (length (sdata p))"
    and "\<And>q. similar p q \<Longrightarrow> Q q"
  shows "spec E Q (cb_filter src n p)"
  unfolding cb_filter_def
  by (intro wp for_up_inv[where I = "similar p"]) (use assms in \<open>auto simp: similar_def\<close>)

lemma cb_blend_wp [wp]:
  assumes "0 \<le> soff src + a + lo" "soff src + a + hi \<le> int (length (sdata src))"
    and "0 \<le> soff src + b + lo" "soff src + b + hi \<le> int (length (sdata src))"
    and "0 \<le> soff p + lo" "soff p + hi \<le> int (length (sdata p))"
    and "\<And>q. similar p q \<Longrightarrow> Q q"
  shows "spec E Q (cb_blend src a b lo hi p)"
  unfolding cb_blend_def
  by (intro wp for_up_inv[where I = "\<lambda>(q, alfa). similar p q"]) (use assms in \<open>auto simp: similar_def\<close>)

lemma cb_padded_wp [wp]:
  assumes "0 \<le> n" "n \<le> 147" "0 \<le> soff mem" "soff mem + n \<le> int (length (sdata mem))"
    and "\<And>d. length d = 156 \<Longrightarrow> Q d"
  shows "spec E Q (cb_padded mem n)"
  unfolding cb_padded_def by (intro wp) (use assms in auto)

lemma cb_copy_wp [wp]:
  assumes "0 \<le> n" "0 \<le> soff src + j" "soff src + j + n \<le> int (length (sdata src))"
    and "0 \<le> soff p + i" "soff p + i + n \<le> int (length (sdata p))"
    and "\<And>q. similar p q \<Longrightarrow> Q q"
  shows "spec E Q (cb_copy p i n src j)"
  unfolding cb_copy_def by (intro wp) (use assms in auto)

text \<open>The three sizes in use: subframes of 40 samples with the full memory, and the boundary of
  the start state with 22 or 23 samples and a memory of 85.\<close>

lemma getCBvec_40:
  assumes "0 \<le> i" "i < 256"
    and "0 \<le> soff p" "soff p + 40 \<le> int (length (sdata p))"
    and "0 \<le> soff mem" "soff mem + 147 \<le> int (length (sdata mem))"
    and "\<And>d. length d = length (sdata p) \<Longrightarrow> Q d"
  shows "spec E Q (getCBvec p mem i 147 40)"
proof -
  have h: "(2 * x + 40) div 2 = x + 20" for x :: int by simp
  show ?thesis
    unfolding getCBvec_def Let_def h
    by (intro wp) (use assms in \<open>auto simp: similar_def\<close>)
qed

lemma getCBvec_23:
  assumes "0 \<le> i" "i < 128"
    and "0 \<le> soff p" "soff p + 23 \<le> int (length (sdata p))"
    and "0 \<le> soff mem" "soff mem + 85 \<le> int (length (sdata mem))"
    and "\<And>d. length d = length (sdata p) \<Longrightarrow> Q d"
  shows "spec E Q (getCBvec p mem i 85 23)"
proof -
  have h: "(2 * x + 23) div 2 = x + 11" for x :: int by simp
  show ?thesis
    unfolding getCBvec_def Let_def h
    by (intro wp) (use assms in \<open>auto simp: similar_def\<close>)
qed

lemma getCBvec_22:
  assumes "0 \<le> i" "i < 128"
    and "0 \<le> soff p" "soff p + 22 \<le> int (length (sdata p))"
    and "0 \<le> soff mem" "soff mem + 85 \<le> int (length (sdata mem))"
    and "\<And>d. length d = length (sdata p) \<Longrightarrow> Q d"
  shows "spec E Q (getCBvec p mem i 85 22)"
proof -
  have h: "(2 * x + 22) div 2 = x + 11" for x :: int by simp
  show ?thesis
    unfolding getCBvec_def Let_def h
    by (intro wp) (use assms in \<open>auto simp: similar_def\<close>)
qed

lemma getCBvec_wp:
  assumes "(lMem, veclen) \<in> {(147, 40), (85, 23), (85, 22)}"
    and "0 \<le> i" "i < (if veclen = 40 then 256 else 128)"
    and "0 \<le> soff p" "soff p + veclen \<le> int (length (sdata p))"
    and "0 \<le> soff mem" "soff mem + lMem \<le> int (length (sdata mem))"
    and "\<And>d. length d = length (sdata p) \<Longrightarrow> Q d"
  shows "spec E Q (getCBvec p mem i lMem veclen)"
  using assms by (auto intro!: getCBvec_40 getCBvec_23 getCBvec_22)

lemma stage_gains_wp:
  assumes "0 \<le> soff gi" "soff gi + 3 \<le> int (length (sdata gi))"
    and "\<And>k. k < 3 \<Longrightarrow> 0 \<le> sdata gi ! (nat (soff gi) + k) \<and> sdata gi ! (nat (soff gi) + k) < 2 ^ (5 - k)"
    and "\<And>g. length g = 3 \<Longrightarrow> Q g"
  shows "spec E Q (stage_gains gi 3)"
  unfolding stage_gains_def
  by (intro wp)
    (use assms(1,2,4) assms(3)[of 0] assms(3)[of 1] assms(3)[of 2] in \<open>auto simp: nat_add_distrib\<close>)

lemma constructCodebook_wp:
  assumes "(lMem, veclen) \<in> {(147, 40), (85, 23), (85, 22)}"
    and "0 \<le> soff dv" "soff dv + veclen \<le> int (length (sdata dv))"
    and "0 \<le> soff ix" "soff ix + 3 \<le> int (length (sdata ix))"
    and "\<And>k. k < 3 \<Longrightarrow> 0 \<le> sdata ix ! (nat (soff ix) + k) \<and>
      sdata ix ! (nat (soff ix) + k) < (if veclen = 40 then 256 else 128)"
    and "0 \<le> soff gi" "soff gi + 3 \<le> int (length (sdata gi))"
    and "\<And>k. k < 3 \<Longrightarrow> 0 \<le> sdata gi ! (nat (soff gi) + k) \<and> sdata gi ! (nat (soff gi) + k) < 2 ^ (5 - k)"
    and "0 \<le> soff mem" "soff mem + lMem \<le> int (length (sdata mem))"
    and "\<And>d. length d = length (sdata dv) \<Longrightarrow> Q d"
  shows "spec E Q (constructCodebook dv ix gi mem lMem veclen 3)"
proof -
  have v: "veclen \<le> 40" using assms(1) by auto
  have ix: "0 \<le> sdata ix ! nat (soff ix + k) \<and> sdata ix ! nat (soff ix + k) < (if veclen = 40 then 256 else 128)"
    if "0 \<le> k" "k < 3" for k
    using assms(6)[of "nat k"] that assms(4) by (simp add: nat_add_distrib)
  show ?thesis
    unfolding constructCodebook_def
    by (intro wp stage_gains_wp getCBvec_wp for_up_inv[where I = "similar dv"]
        for_up_inv[where I = "\<lambda>(d, c :: float32 list). similar dv d \<and> length c = 40"])
      (use assms v ix ix[of 0] in \<open>auto simp: similar_def\<close>)
qed

lemma convertDecoderIndices_wp [wp]:
  assumes "0 \<le> soff ix" "soff ix + 3 \<le> int (length (sdata ix))" "\<And>d. length d = length (sdata ix) \<Longrightarrow> Q d"
  shows "spec E Q (convertDecoderIndices ix)"
  unfolding convertDecoderIndices_def
  by (intro wp for_up_inv[where I = "similar ix"]) (use assms in \<open>auto simp: similar_def\<close>)

section \<open>Index conversion\<close>

definition enc_conv :: "int \<Rightarrow> int" where
  "enc_conv v = (if 108 \<le> v \<and> v < 172 then v - 64 else if 236 \<le> v then v - 128 else v)"

definition dec_conv :: "int \<Rightarrow> int" where
  "dec_conv v = (if 44 \<le> v \<and> v < 108 then v + 64 else if 108 \<le> v \<and> v < 128 then v + 128 else v)"

lemma two_up: "for_up 1 3 f s = bnd (f 1 s) (f (2 :: int))"
proof -
  have "for_up 3 3 f = Inr" by (rule ext) simp
  then show ?thesis by (simp add: for_up_step) (rule bnd_cong, simp_all add: for_up_step)
qed

lemma convertEncoder_eq:
  assumes "3 \<le> length xs"
  shows "convertEncoderIndices (mk xs 0) = Ok (xs[1 := enc_conv (xs ! 1), 2 := enc_conv (xs ! 2)])"
proof -
  have step: "bnd (at (mk ys 0) k) (\<lambda>v.
       if 108 \<le> v \<and> v < 172 then store (mk ys 0) k (v - 64)
       else if 236 \<le> v then store (mk ys 0) k (v - 128)
       else Ok (mk ys 0)) = Ok (mk (ys[nat k := enc_conv (ys ! nat k)]) 0)"
    if "0 \<le> k" "k < int (length ys)" for k ys
    using that by (simp add: enc_conv_def)
  have 1: "0 \<le> (1 :: int)" "1 < int (length xs)" using assms by simp_all
  have 2: "0 \<le> (2 :: int)" "2 < int (length (xs[nat 1 := enc_conv (xs ! nat 1)]))" using assms by simp_all
  show ?thesis
    unfolding convertEncoderIndices_def two_up step[OF 1] bnd.simps step[OF 2] using assms by simp
qed

lemma convertDecoder_eq:
  assumes "3 \<le> length xs"
  shows "convertDecoderIndices (mk xs 0) = Ok (xs[1 := dec_conv (xs ! 1), 2 := dec_conv (xs ! 2)])"
proof -
  have step: "bnd (at (mk ys 0) k) (\<lambda>v.
       if 44 \<le> v \<and> v < 108 then store (mk ys 0) k (v + 64)
       else if 108 \<le> v \<and> v < 128 then store (mk ys 0) k (v + 128)
       else Ok (mk ys 0)) = Ok (mk (ys[nat k := dec_conv (ys ! nat k)]) 0)"
    if "0 \<le> k" "k < int (length ys)" for k ys
    using that by (simp add: dec_conv_def)
  have 1: "0 \<le> (1 :: int)" "1 < int (length xs)" using assms by simp_all
  have 2: "0 \<le> (2 :: int)" "2 < int (length (xs[nat 1 := dec_conv (xs ! nat 1)]))" using assms by simp_all
  show ?thesis
    unfolding convertDecoderIndices_def two_up step[OF 1] bnd.simps step[OF 2] using assms by simp
qed

text \<open>The indices the restricted search of the first subframe can return.\<close>

definition restricted_index :: "int \<Rightarrow> bool" where
  "restricted_index v \<longleftrightarrow> 0 \<le> v \<and> v < 44 \<or> 108 \<le> v \<and> v < 172 \<or> 236 \<le> v \<and> v < 256"

lemma dec_enc_conv: "restricted_index v \<Longrightarrow> dec_conv (enc_conv v) = v \<and> 0 \<le> enc_conv v \<and> enc_conv v < 128"
  by (auto simp: restricted_index_def enc_conv_def dec_conv_def)

lemma enc_dec_conv: "0 \<le> v \<Longrightarrow> v < 128 \<Longrightarrow> enc_conv (dec_conv v) = v \<and> restricted_index (dec_conv v)"
  by (auto simp: restricted_index_def enc_conv_def dec_conv_def)

end
