(* ===== verification/Exact.thy ===== *)
theory Exact
  imports Softfloat
begin

text \<open>
  When the arithmetic of Softfloat is exact.  \<open>units\<close> measures a finite value in multiples
  of the least positive number of its format; a result is not rounded when its size is a
  number of at most \<open>t + 1\<close> bits times a power of two.  From this follow the exact sums,
  comparisons and conversions of small multiples of a quarter, which is what the enhancer
  computes its block positions with.
\<close>

section \<open>Bit lengths\<close>

lemma bitlen_0 [simp]: "bitlen 0 = 0"
  by (simp add: bitlen.simps)

lemma bitlen_pos: "0 < n \<Longrightarrow> bitlen n = Suc (bitlen (n div 2))"
  by (subst bitlen.simps) simp

lemma less_bitlen: "n < 2 ^ bitlen n"
proof (induction n rule: bitlen.induct)
  case (1 n)
  show ?case
  proof (cases "n = 0")
    case False
    then have "n div 2 < 2 ^ bitlen (n div 2)" using 1 by simp
    then show ?thesis using False by (simp add: bitlen_pos)
  qed simp
qed

lemma bitlen_le: "0 < n \<Longrightarrow> 2 ^ (bitlen n - 1) \<le> n"
proof (induction n rule: bitlen.induct)
  case (1 n)
  show ?case
  proof (cases "n div 2 = 0")
    case True
    then show ?thesis using 1 by (simp add: bitlen_pos)
  next
    case False
    then have *: "2 ^ (bitlen (n div 2) - 1) \<le> n div 2" using 1 by simp
    have "bitlen (n div 2) = Suc (bitlen (n div 2) - 1)" using False by (simp add: bitlen_pos)
    then have "2 ^ bitlen (n div 2) = 2 * (2 :: nat) ^ (bitlen (n div 2) - 1)" by (metis power_Suc)
    also have "\<dots> \<le> n" using * by linarith
    finally show ?thesis using "1.prems" by (simp add: bitlen_pos)
  qed
qed

lemma bitlen_leI: "n < 2 ^ k \<Longrightarrow> bitlen n \<le> k"
proof (rule ccontr)
  assume n: "n < 2 ^ k" "\<not> bitlen n \<le> k"
  then have "0 < n" by (cases n) auto
  moreover have "(2 :: nat) ^ k \<le> 2 ^ (bitlen n - 1)" by (rule power_increasing) (use n in auto)
  ultimately show False using bitlen_le[of n] n by linarith
qed

lemma bitlen_mult_pow: "0 < n \<Longrightarrow> bitlen (n * 2 ^ k) = bitlen n + k"
  by (induction k) (simp_all add: bitlen_pos mult.assoc[symmetric] flip: mult.commute[of 2])

section \<open>Exact rounding\<close>

lemma rne_exact: "2 ^ nat d dvd m \<Longrightarrow> rne m d = (if d \<le> 0 then m * 2 ^ nat (- d) else m div 2 ^ nat d)"
  by (simp add: rne_def Let_def)

text \<open>A finite value as a multiple of \<open>2 ^ emin\<close>; \<open>canon\<close> excludes exponents below that.\<close>

definition mag_units :: "nat \<Rightarrow> nat \<Rightarrow> nat \<Rightarrow> int \<Rightarrow> nat" where
  "mag_units t w m e = m * 2 ^ nat (e - emin t w)"

lemma unpack_fields:
  assumes "f < 2 ^ t" "x < 2 ^ w - (1 :: nat)"
  shows "unpack_fp t w (sign_bit t w s + (x * 2 ^ t + f)) =
    (if x = 0 then FFin s f (emin t w) else FFin s (2 ^ t + f) (emin t w + int x - 1))"
proof -
  have b: "x * 2 ^ t + f < 2 ^ (t + w)"
  proof -
    have "x * 2 ^ t + f < (x + 1) * 2 ^ t" using assms by simp
    also have "\<dots> \<le> 2 ^ w * 2 ^ t" by (rule mult_right_mono) (use assms in auto)
    finally show ?thesis by (simp add: power_add mult.commute)
  qed
  have 1: "odd ((sign_bit t w s + (x * 2 ^ t + f)) div 2 ^ (t + w)) = s"
    using b div_add_self1[of "2 ^ (t + w) :: nat" "x * 2 ^ t + f"] by (simp add: sign_bit_def)
  define a where "a = (if s then 2 ^ w else 0) + x"
  have n: "sign_bit t w s + (x * 2 ^ t + f) = a * 2 ^ t + f"
    by (simp add: a_def sign_bit_def power_add algebra_simps)
  have "a mod 2 ^ w = x" using assms by (simp add: a_def)
  then have 2: "((sign_bit t w s + (x * 2 ^ t + f)) div 2 ^ t) mod 2 ^ w = x"
    unfolding n using assms by simp
  have 3: "(sign_bit t w s + (x * 2 ^ t + f)) mod 2 ^ t = f"
    unfolding n using assms by simp
  show ?thesis
    unfolding unpack_fp_def Let_def 1 2 3 using assms by simp
qed

lemma unpack_round_mag:
  assumes e: "emin t w \<le> e" and u: "mag_units t w m e = n * 2 ^ k"
    and n: "n < 2 ^ (t + 1)" "k + 3 \<le> 2 ^ w"
  obtains m' e' where "unpack_fp t w (sign_bit t w s + round_mag t w m e) = FFin s m' e'"
    "emin t w \<le> e'" "mag_units t w m' e' = mag_units t w m e" "m' < 2 ^ (t + 1)"
proof (cases "m = 0")
  case True
  then have "unpack_fp t w (sign_bit t w s + round_mag t w m e) = FFin s 0 (emin t w)"
    using unpack_fields[of 0 t 0 w s] n by (simp add: round_mag_def)
  then show ?thesis using True that[of 0 "emin t w"] by (simp add: mag_units_def)
next
  case False
  define M where "M = mag_units t w m e"
  define g where "g = nat (e - emin t w)"
  define d where "d = bitlen M - (t + 1)"
  have M: "M = m * 2 ^ g" "0 < M" using False by (simp_all add: M_def mag_units_def g_def)
  have n0: "0 < n" using M u by (cases n) (auto simp: M_def)
  have B: "bitlen M = bitlen m + g" "bitlen M = bitlen n + k"
    using bitlen_mult_pow[of m g] bitlen_mult_pow[of n k] False n0 u M(1) by (simp_all flip: M_def)
  have dk: "d \<le> k" using B bitlen_leI[OF n(1)] by (simp add: d_def)
  then have dM: "2 ^ d dvd M" using u by (simp flip: M_def add: le_imp_power_dvd)
  define r where "r = M div 2 ^ d"
  have r: "r * 2 ^ d = M" using dM by (simp add: r_def)
  have q: "max (e + int (bitlen m) - int (t + 1)) (emin t w) = emin t w + int d"
    using B e by (auto simp: d_def g_def max_def)
  have "rne m (emin t w + int d - e) = r"
  proof (cases "d \<le> g")
    case True
    then have "m * 2 ^ nat (- (int d - int g)) * 2 ^ d = M"
      by (simp add: M mult.assoc nat_diff_distrib' flip: power_add)
    then have "m * 2 ^ nat (- (int d - int g)) = r" using r by (metis mult_cancel_right power_not_zero zero_neq_numeral)
    moreover have "emin t w + int d - e = int d - int g" using e by (simp add: g_def)
    ultimately show ?thesis using True by (subst rne_exact) auto
  next
    case False
    then have dg: "d = (d - g) + g" by simp
    have "2 ^ (d - g) * 2 ^ g dvd m * 2 ^ g" using dM unfolding M by (subst (asm) dg) (simp add: power_add)
    then have dv: "2 ^ (d - g) dvd m" by simp
    have "emin t w + int d - e = int (d - g)" using e False by (simp add: g_def)
    moreover have "m div 2 ^ (d - g) = r"
      unfolding r_def M by (subst (2) dg) (simp add: power_add)
    ultimately show ?thesis using dv False by (simp only: rne_exact nat_int) simp
  qed
  then have res: "round_mag t w m e = min (d * 2 ^ t + r) ((2 ^ w - 1) * 2 ^ t)"
    unfolding round_mag_def Let_def q using False by simp
  have r_less: "r < 2 ^ (t + 1)"
  proof -
    have "r * 2 ^ d < 2 ^ bitlen M" using r less_bitlen[of M] by simp
    also have "\<dots> \<le> 2 ^ (t + 1 + d)" by (rule power_increasing) (auto simp: d_def)
    finally show ?thesis by (simp add: power_add)
  qed
  have r_ge: "2 ^ t \<le> r" if "0 < d"
  proof -
    have "bitlen M - 1 = t + d" using that by (simp add: d_def)
    then have "2 ^ t * 2 ^ d \<le> r * 2 ^ d" using bitlen_le[OF M(2)] r by (simp add: power_add)
    then show ?thesis by simp
  qed
  have dw: "d + 3 \<le> 2 ^ w" using dk n(2) by simp
  have "d * 2 ^ t + r \<le> (2 ^ w - 1) * 2 ^ t"
  proof -
    have "d * 2 ^ t + r \<le> (d + 2) * 2 ^ t" using r_less by (simp add: algebra_simps)
    also have "\<dots> \<le> (2 ^ w - 1) * 2 ^ t" by (rule mult_right_mono) (use dw in auto)
    finally show ?thesis .
  qed
  then have res: "round_mag t w m e = d * 2 ^ t + r" using res by simp
  have fin: "unpack_fp t w (sign_bit t w s + round_mag t w m e) = FFin s r (emin t w + int d)"
  proof (cases "r < 2 ^ t")
    case True
    then have "d = 0" using r_ge by fastforce
    then show ?thesis using unpack_fields[of r t 0 w s] True dw res by simp
  next
    case False
    have "d * 2 ^ t + r = (d + 1) * 2 ^ t + (r - 2 ^ t)" using False by (simp add: algebra_simps)
    moreover have "r - 2 ^ t < 2 ^ t" using r_less by simp
    ultimately show ?thesis
      using unpack_fields[of "r - 2 ^ t" t "d + 1" w s] dw res False by simp
  qed
  show ?thesis
    by (rule that[OF fin]) (use r r_less M_def in \<open>auto simp: mag_units_def\<close>)
qed

section \<open>Multiples of a quarter\<close>

definition quarter_units :: "nat \<Rightarrow> nat \<Rightarrow> nat" where
  "quarter_units t w = nat (- 2 - emin t w)"

definition quarters :: "nat \<Rightarrow> nat \<Rightarrow> int \<Rightarrow> fp \<Rightarrow> bool" where
  "quarters t w n v \<longleftrightarrow> (\<exists>s m e. v = FFin s m e \<and> emin t w \<le> e \<and>
     signed s m * 2 ^ nat (e - emin t w) = n * 2 ^ quarter_units t w)"

lemma quarters_FFin [simp]:
  "quarters t w n (FFin s m e) \<longleftrightarrow>
     emin t w \<le> e \<and> signed s m * 2 ^ nat (e - emin t w) = n * 2 ^ quarter_units t w"
  by (auto simp: quarters_def)

lemma emin32: "emin 23 8 = - 149" and emin64: "emin 52 11 = - 1074"
  by (simp_all add: emin_def)

lemma quarters_neg: "quarters t w n v \<Longrightarrow> quarters t w (- n) (fp_neg v)"
  unfolding quarters_def signed_def by (fastforce split: if_splits)

lemma scale_signed:
  "q \<le> e \<Longrightarrow> l \<le> q \<Longrightarrow> (x :: int) * 2 ^ nat (e - q) * 2 ^ nat (q - l) = x * 2 ^ nat (e - l)"
  by (simp add: mult.assoc flip: power_add nat_add_distrib)

lemma quarters_add:
  assumes "quarters t w a x" "quarters t w b y"
  shows "quarters t w (a + b) (fp_add x y)"
proof -
  obtain s m e where x: "x = FFin s m e" "emin t w \<le> e"
      "signed s m * 2 ^ nat (e - emin t w) = a * 2 ^ quarter_units t w"
    using assms(1) by (auto simp: quarters_def)
  obtain s' m' e' where y: "y = FFin s' m' e'" "emin t w \<le> e'"
      "signed s' m' * 2 ^ nat (e' - emin t w) = b * 2 ^ quarter_units t w"
    using assms(2) by (auto simp: quarters_def)
  define q where "q = min e e'"
  define v where "v = signed s m * 2 ^ nat (e - q) + signed s' m' * 2 ^ nat (e' - q)"
  have q: "q \<le> e" "q \<le> e'" "emin t w \<le> q" using x y by (auto simp: q_def)
  have v: "v * 2 ^ nat (q - emin t w) = (a + b) * 2 ^ quarter_units t w"
    by (simp only: v_def distrib_right scale_signed[OF q(1,3)] scale_signed[OF q(2,3)] x(3) y(3))
  have "fp_add x y = (if v = 0 then FFin (s \<and> s') 0 q else FFin (v < 0) (nat \<bar>v\<bar>) q)"
    by (simp add: x(1) y(1) Let_def flip: q_def v_def)
  moreover have "signed (v < 0) (nat \<bar>v\<bar>) = v" by (simp add: signed_def)
  ultimately show ?thesis
    using v q(3) by (auto simp: quarters_def signed_def)
qed

lemma quarters_round:
  assumes "quarters t w n v" "\<bar>n\<bar> < 2 ^ (t + 1)" "quarter_units t w + 3 \<le> 2 ^ w"
  shows "quarters t w n (unpack_fp t w (pack_fp t w v))"
proof -
  obtain s m e where v: "v = FFin s m e" "emin t w \<le> e"
      "signed s m * 2 ^ nat (e - emin t w) = n * 2 ^ quarter_units t w"
    using assms(1) by (auto simp: quarters_def)
  have "\<bar>signed s m * 2 ^ nat (e - emin t w)\<bar> = \<bar>n\<bar> * 2 ^ quarter_units t w"
    unfolding v(3) by (simp add: abs_mult)
  then have "int (mag_units t w m e) = int (nat \<bar>n\<bar> * 2 ^ quarter_units t w)"
    by (simp add: mag_units_def abs_mult signed_def split: if_splits)
  then have u: "mag_units t w m e = nat \<bar>n\<bar> * 2 ^ quarter_units t w"
    by (simp only: of_nat_eq_iff)
  have b: "nat \<bar>n\<bar> < 2 ^ (t + 1)" using assms(2) by (simp add: nat_less_iff)
  obtain m' e' where r: "unpack_fp t w (sign_bit t w s + round_mag t w m e) = FFin s m' e'"
    "emin t w \<le> e'" "mag_units t w m' e' = mag_units t w m e"
    by (rule unpack_round_mag[OF v(2) u b assms(3)])
  have "int m' * 2 ^ nat (e' - emin t w) = int m * 2 ^ nat (e - emin t w)"
    using r(3) by (simp add: mag_units_def flip: of_nat_eq_iff[where 'a = int])
  then have "signed s m' * 2 ^ nat (e' - emin t w) = n * 2 ^ quarter_units t w"
    using v(3) by (auto simp: signed_def)
  then show ?thesis using r(1,2) by (auto simp: quarters_def v(1))
qed

lemma quarters_of_int: "emin t w \<le> - 2 \<Longrightarrow> quarters t w (4 * n) (fp_of_int n)"
proof -
  assume "emin t w \<le> - 2"
  then have "nat (- emin t w) = 2 + quarter_units t w" by (simp add: quarter_units_def)
  then show ?thesis using \<open>emin t w \<le> - 2\<close>
    by (auto simp: quarters_def fp_of_int_def signed_def power_add)
qed

lemma quarters_compare:
  assumes "quarters t w a x" "quarters t w b y"
  shows "fp_less x y \<longleftrightarrow> a < b" "fp_le x y \<longleftrightarrow> a \<le> b"
proof -
  obtain s m e where x: "x = FFin s m e" "emin t w \<le> e"
      "signed s m * 2 ^ nat (e - emin t w) = a * 2 ^ quarter_units t w"
    using assms(1) by (auto simp: quarters_def)
  obtain s' m' e' where y: "y = FFin s' m' e'" "emin t w \<le> e'"
      "signed s' m' * 2 ^ nat (e' - emin t w) = b * 2 ^ quarter_units t w"
    using assms(2) by (auto simp: quarters_def)
  define q where "q = min e e'"
  have q: "q \<le> e" "q \<le> e'" "emin t w \<le> q" using x y by (auto simp: q_def)
  have *: "x' < y' \<longleftrightarrow> x' * 2 ^ k < y' * 2 ^ k" "x' \<le> y' \<longleftrightarrow> x' * 2 ^ k \<le> y' * 2 ^ k" for x' y' :: int and k
    by simp_all
  show "fp_less x y \<longleftrightarrow> a < b"
    unfolding x(1) y(1) fp_less.simps q_def[symmetric]
    by (subst *(1)[of _ _ "nat (q - emin t w)"]) (simp only: scale_signed[OF q(1,3)] scale_signed[OF q(2,3)] x(3) y(3) flip: *(1))
  show "fp_le x y \<longleftrightarrow> a \<le> b"
    unfolding x(1) y(1) fp_le.simps q_def[symmetric]
    by (subst *(2)[of _ _ "nat (q - emin t w)"]) (simp only: scale_signed[OF q(1,3)] scale_signed[OF q(2,3)] x(3) y(3) flip: *(2))
qed

lemma quarters_trunc:
  assumes "quarters t w n v" "0 \<le> n" "emin t w \<le> - 2"
  shows "fp_trunc v = Some (n div 4)"
proof -
  obtain s m e where v: "v = FFin s m e" "emin t w \<le> e"
      "signed s m * 2 ^ nat (e - emin t w) = n * 2 ^ quarter_units t w"
    using assms(1) by (auto simp: quarters_def)
  have sg: "signed s m = int m"
  proof (rule ccontr)
    assume "signed s m \<noteq> int m"
    then have "signed s m < 0" by (auto simp: signed_def split: if_splits)
    then have "signed s m * 2 ^ nat (e - emin t w) < 0" by (simp add: mult_less_0_iff)
    then show False unfolding v(3) using assms(2) by (simp add: mult_less_0_iff)
  qed
  have k: "nat (- emin t w) = 2 + quarter_units t w" using assms(3) by (simp add: quarter_units_def)
  have eq: "int m * 2 ^ nat (e - emin t w) = n * 2 ^ quarter_units t w" using v(3) sg by simp
  show ?thesis
  proof (cases "0 \<le> e")
    case True
    then have "nat (e - emin t w) = nat e + (2 + quarter_units t w)"
      using k assms(3) v(2) by (simp add: nat_diff_distrib' flip: k)
    then have "(int m * 2 ^ nat e * 4) * 2 ^ quarter_units t w = n * 2 ^ quarter_units t w"
      using eq by (simp add: power_add mult_ac)
    then have "n = int m * 2 ^ nat e * 4" by simp
    then show ?thesis using True sg by (auto simp: v(1) signed_def split: if_splits)
  next
    case False
    define a where "a = nat (- e)"
    have "nat (e - emin t w) + a = 2 + quarter_units t w" using False v(2) k by (simp add: a_def flip: nat_add_distrib)
    then have "int m * 2 ^ nat (e - emin t w) * 4 = n * 2 ^ (nat (e - emin t w) + a)"
      using eq by (simp add: power_add)
    then have "int m * 4 = n * 2 ^ a" by (simp add: power_add)
    then have "n div 4 = int m div 2 ^ a"
      by (metis div_mult_mult1_if mult.commute div_mult2_eq nonzero_mult_div_cancel_right power_not_zero zero_neq_numeral div_mult_mult2)
    then show ?thesis using False sg by (simp add: v(1) signed_def a_def zdiv_int split: if_splits)
  qed
qed

lemma quarters_widen: "quarters 23 8 n v \<Longrightarrow> quarters 52 11 n v"
proof -
  assume "quarters 23 8 n v"
  then obtain s m e where v: "v = FFin s m e" "- 149 \<le> e"
      "signed s m * 2 ^ nat (e + 149) = n * 2 ^ 147"
    by (auto simp: quarters_def emin32 quarter_units_def)
  have "nat (e + 1074) = nat (e + 149) + 925" using v(2) by simp
  then have "signed s m * 2 ^ nat (e + 1074) = signed s m * 2 ^ nat (e + 149) * 2 ^ 925"
    by (simp add: power_add del: power_Suc)
  also have "\<dots> = n * 2 ^ 1072" unfolding v(3) by (simp only: mult.assoc flip: power_add) simp
  finally show ?thesis using v(1,2) by (auto simp: quarters_def emin64 quarter_units_def)
qed

section \<open>float32 and float64\<close>

lemma round_mag_le: "round_mag t w m e \<le> (2 ^ w - 1) * 2 ^ t"
  by (simp add: round_mag_def Let_def)

lemma pack_fp_less:
  assumes "0 < t" "0 < w"
  shows "pack_fp t w v < 2 ^ (1 + t + w)"
proof -
  have s: "sign_bit t w s \<le> 2 ^ (t + w)" for s by (simp add: sign_bit_def)
  have t: "(2 :: nat) ^ (t - 1) < 2 ^ t" using assms by simp
  have w: "(2 ^ w - 1) * 2 ^ t + 2 ^ t = (2 :: nat) ^ (t + w)"
    by (simp add: power_add algebra_simps diff_mult_distrib)
  have 2: "(2 :: nat) ^ (1 + t + w) = 2 ^ (t + w) + 2 ^ (t + w)" by simp
  show ?thesis
  proof (cases v)
    case FNaN
    have "pack_fp t w v < (2 ^ w - 1) * 2 ^ t + 2 ^ t" using FNaN t by simp
    then show ?thesis unfolding w 2 by simp
  next
    case (FInf s')
    have "(2 ^ w - 1) * 2 ^ t < (2 :: nat) ^ (t + w)" by (simp flip: w)
    then show ?thesis unfolding 2 FInf pack_fp.simps using s[of s'] by linarith
  next
    case (FFin s' m e)
    have "(2 ^ w - 1) * 2 ^ t < (2 :: nat) ^ (t + w)" by (simp flip: w)
    then show ?thesis unfolding 2 FFin pack_fp.simps using s[of s'] round_mag_le[of t w m e] by linarith
  qed
qed

lemma val32_rnd32: "val32 (rnd32 v) = unpack_fp 23 8 (pack_fp 23 8 v)"
  using pack_fp_less[of 23 8 v] by (simp add: val32_def rnd32_def unat_of_nat)

lemma val64_rnd64: "val64 (rnd64 v) = unpack_fp 52 11 (pack_fp 52 11 v)"
  using pack_fp_less[of 52 11 v] by (simp add: val64_def rnd64_def unat_of_nat)

text \<open>\<open>qf n x\<close>: the float is the number \<open>n / 4\<close>.\<close>

definition qf :: "int \<Rightarrow> float32 \<Rightarrow> bool" where
  "qf n x \<longleftrightarrow> quarters 23 8 n (val32 x)"

definition qf64 :: "int \<Rightarrow> float64 \<Rightarrow> bool" where
  "qf64 n x \<longleftrightarrow> quarters 52 11 n (val64 x)"

lemma qf_rnd32: "quarters 23 8 n v \<Longrightarrow> \<bar>n\<bar> < 2 ^ 24 \<Longrightarrow> qf n (rnd32 v)"
  unfolding qf_def val32_rnd32 by (rule quarters_round) (simp_all add: quarter_units_def emin32)

lemma qf64_rnd64: "quarters 52 11 n v \<Longrightarrow> \<bar>n\<bar> < 2 ^ 53 \<Longrightarrow> qf64 n (rnd64 v)"
  unfolding qf64_def val64_rnd64 by (rule quarters_round) (simp_all add: quarter_units_def emin64)

lemma qf_zero [simp]: "qf 0 0"
  by (auto simp: qf_def zero_float32_def val32_def unpack_fp_def emin32 signed_def)

lemma qf_int32: "\<bar>n\<bar> < 2 ^ 22 \<Longrightarrow> qf (4 * n) (int32 n)"
  unfolding int32_def by (rule qf_rnd32) (auto intro!: quarters_of_int simp: emin32)

lemma qf_add: "qf a x \<Longrightarrow> qf b y \<Longrightarrow> \<bar>a + b\<bar> < 2 ^ 24 \<Longrightarrow> qf (a + b) (x + y)"
  unfolding plus_float32_def by (intro qf_rnd32 quarters_add) (auto simp: qf_def)

lemma qf_diff: "qf a x \<Longrightarrow> qf b y \<Longrightarrow> \<bar>a - b\<bar> < 2 ^ 24 \<Longrightarrow> qf (a - b) (x - y)"
  using quarters_add[OF _ quarters_neg, of 23 8 a "val32 x" b "val32 y"]
  unfolding minus_float32_def by (intro qf_rnd32) (auto simp: qf_def)

lemma qf_less: "qf a x \<Longrightarrow> qf b y \<Longrightarrow> x < y \<longleftrightarrow> a < b"
  and qf_le: "qf a x \<Longrightarrow> qf b y \<Longrightarrow> x \<le> y \<longleftrightarrow> a \<le> b"
  unfolding less_float32_def less_eq_float32_def qf_def by (rule quarters_compare; assumption)+

lemma qf_f64: "qf n x \<Longrightarrow> \<bar>n\<bar> < 2 ^ 53 \<Longrightarrow> qf64 n (f64 x)"
  unfolding f64_def by (intro qf64_rnd64 quarters_widen) (auto simp: qf_def)

lemma qf64_diff: "qf64 a x \<Longrightarrow> qf64 b y \<Longrightarrow> \<bar>a - b\<bar> < 2 ^ 53 \<Longrightarrow> qf64 (a - b) (x - y)"
  using quarters_add[OF _ quarters_neg, of 52 11 a "val64 x" b "val64 y"]
  unfolding minus_float64_def by (intro qf64_rnd64) (auto simp: qf64_def)

lemma qf64_go_int: "qf64 n x \<Longrightarrow> 0 \<le> n \<Longrightarrow> n < 2 ^ 53 \<Longrightarrow> go_int_of64 P x = n div 4"
  using quarters_trunc[of 52 11 n "val64 x"] int_div_less[of 4 n "2 ^ 63"]
  using pos_imp_zdiv_nonneg_iff[of 4 n]
  by (simp add: go_int_of64_def qf64_def emin64 in_int64_def)

lemma qf_go_int: "qf n x \<Longrightarrow> 0 \<le> n \<Longrightarrow> n < 2 ^ 24 \<Longrightarrow> go_int P x = n div 4"
  using quarters_trunc[of 23 8 n "val32 x"] int_div_less[of 4 n "2 ^ 63"]
  using pos_imp_zdiv_nonneg_iff[of 4 n]
  by (simp add: go_int_def qf_def emin32 in_int64_def)

lemma qf64_half: "qf64 2 (dec64 5 1)"
  unfolding dec64_def
  by (rule qf64_rnd64)
    (simp_all add: fp_decimal_def bitlen_pos Let_def signed_def emin64 quarter_units_def)

text \<open>A small positive integer, and its quarter and double.\<close>

lemma int32_form:
  assumes "0 < n" "n < 2 ^ 22"
  obtains m e where "val32 (int32 n) = FFin False m e" "- 24 < e"
    "int m * 2 ^ nat (e + 149) = n * 2 ^ 149"
proof -
  have n: "nat n < 2 ^ (23 + 1)" using assms by (simp add: nat_less_iff)
  have u0: "emin 23 8 \<le> 0" "mag_units 23 8 (nat n) 0 = nat n * 2 ^ 149" "149 + 3 \<le> (2 :: nat) ^ 8"
    by (simp_all add: emin32 mag_units_def)
  obtain m e where r: "unpack_fp 23 8 (sign_bit 23 8 False + round_mag 23 8 (nat n) 0) = FFin False m e"
      "- 149 \<le> e" "mag_units 23 8 m e = mag_units 23 8 (nat n) 0" "m < 2 ^ 24"
    using unpack_round_mag[OF u0(1,2) n u0(3), of False] by (auto simp: emin32)
  have v: "val32 (int32 n) = FFin False m e"
    using r(1) assms by (simp add: int32_def val32_rnd32 fp_of_int_def)
  have u: "m * 2 ^ nat (e + 149) = nat n * 2 ^ 149" using r(3) by (simp add: mag_units_def emin32)
  have e: "- 24 < e"
  proof (rule ccontr)
    assume "\<not> - 24 < e"
    then have "(2 :: nat) ^ nat (e + 149) \<le> 2 ^ 125" by (intro power_increasing) simp_all
    then have "m * 2 ^ nat (e + 149) < 2 ^ 24 * 2 ^ 125"
      by (intro mult_less_le_imp_less r(4)) simp_all
    moreover have "2 ^ 149 \<le> nat n * 2 ^ 149" using assms by simp
    ultimately show False unfolding u by simp
  qed
  show ?thesis
    by (rule that[OF v e]) (use u assms in \<open>simp flip: of_nat_eq_iff[where 'a = int]\<close>)
qed

lemma val32_two: "val32 (int32 2) = FFin False (2 ^ 23) (- 22)"
  and val32_four: "val32 (int32 4) = FFin False (2 ^ 23) (- 21)"
  by (simp_all add: int32_def val32_rnd32 fp_of_int_def bitlen_pos Let_def round_mag_def rne_def
      sign_bit_def unpack_fp_def emin32)

lemma qf_quarter:
  assumes "0 \<le> n" "n < 2 ^ 22"
  shows "qf n (int32 n / int32 4)"
proof (cases "n = 0")
  case True
  then show ?thesis
    by (simp add: qf_def divide_float32_def val32_four)
      (simp add: int32_def val32_rnd32 fp_of_int_def bitlen_pos Let_def round_mag_def rne_def
        sign_bit_def unpack_fp_def emin32 signed_def)
next
  case False
  then have "0 < n" using assms by simp
  then obtain m e where v: "val32 (int32 n) = FFin False m e" and e: "- 24 < e"
      and u: "int m * 2 ^ nat (e + 149) = n * 2 ^ 149" using int32_form[OF _ assms(2)] by blast
  have d: "fp_div 23 (FFin False m e) (FFin False (2 ^ 23) (- 21)) = FFin False (m * 2 ^ 28) (e - 30)"
    by (simp add: bitlen_pos Let_def)
  have "nat (e + 149) = nat (e + 119) + 30" using e by simp
  then have "int m * 2 ^ nat (e + 149) = int m * 2 ^ 28 * 2 ^ nat (e + 119) * 4" by (simp add: power_add)
  then have "quarters 23 8 n (FFin False (m * 2 ^ 28) (e - 30))"
    using e u by (simp add: emin32 signed_def quarter_units_def add.commute)
  then show ?thesis
    unfolding divide_float32_def v val32_four d by (rule qf_rnd32) (use assms in simp)
qed

lemma qf_double:
  assumes "0 < n" "n < 2 ^ 20"
  shows "qf (4 * (2 * n)) (int32 n * int32 2)"
proof -
  have "n < 2 ^ 22" using assms by simp
  then obtain m e where v: "val32 (int32 n) = FFin False m e" and e: "- 24 < e"
      and u: "int m * 2 ^ nat (e + 149) = n * 2 ^ 149" using int32_form[OF assms(1)] by blast
  have d: "fp_mul (FFin False m e) (FFin False (2 ^ 23) (- 22)) = FFin False (m * 2 ^ 23) (e - 22)"
    by simp
  have "nat (e + 149) = nat (e + 127) + 22" using e by simp
  then have "int m * 2 ^ nat (e + 149) = int m * 2 ^ nat (e + 127) * 2 ^ 22" by (simp add: power_add)
  then have "quarters 23 8 (4 * (2 * n)) (FFin False (m * 2 ^ 23) (e - 22))"
    using e u by (simp add: emin32 signed_def quarter_units_def add.commute)
  then show ?thesis
    unfolding times_float32_def v val32_two d by (rule qf_rnd32) (use assms in simp)
qed

end
