(* ===== verification/Enhancer.thy ===== *)
theory Enhancer
  imports Filters Exact
begin

text \<open>
  enhancer.go: the pitch enhancer of the decoder.  It works on a history of 640 residual
  samples and the pitch periods of eight blocks; \<open>enhancerInterface\<close> returns the last lag,
  the output array and the updated decoder state.
\<close>

section \<open>Correlation and upsampling\<close>

definition nearestNeighbor :: "float32 span \<Rightarrow> float32 \<Rightarrow> int \<Rightarrow> int res" where
  "nearestNeighbor array value arlength =
     bnd (at array 0) (\<lambda>x.
     let crit = x - value; bestcrit = crit * crit in
     bnd (for_up 1 arlength (\<lambda>i (bestcrit, index).
       bnd (at array i) (\<lambda>x.
       let crit = x - value; crit = crit * crit in
       Ok (if crit < bestcrit then (crit, i) else (bestcrit, index)))) (bestcrit, 0)) (\<lambda>(bestcrit, index).
     Ok index))"

definition mycorr1 ::
  "float32 span \<Rightarrow> float32 span \<Rightarrow> int \<Rightarrow> float32 span \<Rightarrow> int \<Rightarrow> float32 list res" where
  "mycorr1 corr seq1 dim1 seq2 dim2 =
     bnd (for_up 0 (dim1 - dim2 + 1) (\<lambda>i corr.
       bnd (store corr i 0) (\<lambda>corr.
       for_up 0 dim2 (\<lambda>j corr.
         bnd (at seq1 (i + j)) (\<lambda>x.
         bnd (at seq2 j) (\<lambda>y.
         modify corr i (\<lambda>v. v + x * y)))) corr)) corr) (\<lambda>corr.
     Ok (sdata corr))"

text \<open>One output of the polyphase filter: \<open>n\<close> products, input backwards from \<open>i\<close>.\<close>

definition polyphase ::
  "float32 span \<Rightarrow> int \<Rightarrow> float32 span \<Rightarrow> int \<Rightarrow> float32 span \<times> int \<Rightarrow> (float32 span \<times> int) res" where
  "polyphase seq1 i pp n = (\<lambda>(useq1, u).
     bnd (store useq1 u 0) (\<lambda>useq1.
     bnd (for_up 0 n (\<lambda>k useq1.
       bnd (at seq1 (i - k)) (\<lambda>x.
       bnd (at pp k) (\<lambda>c.
       modify useq1 u (\<lambda>v. v + x * c)))) useq1) (\<lambda>useq1.
     Ok (useq1, u + 1))))"

definition upsampleEnhancement ::
  "float32 span \<Rightarrow> float32 span \<Rightarrow> int \<Rightarrow> int \<Rightarrow> float32 list res" where
  "upsampleEnhancement useq1 seq1 dim1 hfl =
     (let filterlength = 2 * hfl + 1;
          (polyp, hfl, filterlength) =
            (if dim1 < filterlength then
               let hfl2 = dim1 div 2 in
               (\<lambda>j. mk polyphaserTbl (j * filterlength + hfl - hfl2), hfl2, 2 * hfl2 + 1)
             else (\<lambda>j. mk polyphaserTbl (j * filterlength), hfl, filterlength)) in
      bnd (for_up hfl filterlength (\<lambda>i. for_up 0 4 (\<lambda>j. polyphase seq1 i (polyp j) (i + 1)))
        (useq1, 0)) (\<lambda>s.
      bnd (for_up filterlength dim1 (\<lambda>i. for_up 0 4 (\<lambda>j. polyphase seq1 i (polyp j) filterlength)) s) (\<lambda>s.
      bnd (for_up 1 (hfl + 1) (\<lambda>q. for_up 0 4 (\<lambda>j.
        polyphase seq1 (dim1 - 1) (add (polyp j) q) (filterlength - q))) s) (\<lambda>(useq1, u).
      Ok (sdata useq1)))))"

section \<open>refiner\<close>

text \<open>The segment of the input around the refined position, with zeros outside the input.\<close>

definition refiner_vect :: "float32 span \<Rightarrow> int \<Rightarrow> int \<Rightarrow> float32 list res" where
  "refiner_vect idata idatal st =
     (let vect = replicate 86 0 in
      if st < 0 then
        bnd (clear_sub vect 0 (- st)) (\<lambda>vect.
        bnd (slice idata (86 + st)) (\<lambda>xs.
        copy_sub vect (- st) (- st + (86 + st)) xs))
      else
        let en = st + 86 in
        if idatal < en then
          bnd (slice (add idata st) (86 - (en - idatal))) (\<lambda>xs.
          bnd (copy_sub vect 0 (86 - (en - idatal)) xs) (\<lambda>vect.
          clear_sub vect (86 - (en - idatal)) (86 - (en - idatal) + (en - idatal))))
        else
          bnd (slice (add idata st) 86) (\<lambda>xs. copy_sub vect 0 86 xs))"

text \<open>Returns the segment array and the value stored through \<open>updStartPos\<close>.\<close>

definition refiner ::
  "platform \<Rightarrow> float32 span \<Rightarrow> float32 span \<Rightarrow> int \<Rightarrow> int \<Rightarrow> float32 \<Rightarrow> (float32 list \<times> float32) res" where
  "refiner P seg idata idatal centerStartPos estSegPos =
     (let estSegPosRounded = go_int_of64 P (f64 estSegPos - dec64 5 1);
          searchSegStartPos = estSegPosRounded - 2;
          searchSegStartPos = (if searchSegStartPos < 0 then 0 else searchSegStartPos);
          searchSegEndPos = estSegPosRounded + 2;
          searchSegEndPos = (if idatal \<le> searchSegEndPos + 80 then idatal - 80 - 1 else searchSegEndPos);
          corrdim = searchSegEndPos - searchSegStartPos + 1 in
      bnd (mycorr1 (mk (replicate 5 0) 0) (add idata searchSegStartPos) (corrdim + 80 - 1)
            (add idata centerStartPos) 80) (\<lambda>corrVec.
      bnd (upsampleEnhancement (mk (replicate 20 0) 0) (mk corrVec 0) corrdim 3) (\<lambda>corrVecUps.
      bnd (for_up 1 (4 * corrdim) (\<lambda>i (tloc, maxv).
        bnd (idx corrVecUps i) (\<lambda>c.
        Ok (if maxv < c then (i, c) else (tloc, maxv)))) (0, corrVecUps ! 0)) (\<lambda>(tloc, maxv).
      let updStartPos = int32 searchSegStartPos + int32 tloc / int32 4 + 1;
          tloc2 = tloc div 4; tloc2 = (if tloc2 * 4 < tloc then tloc2 + 1 else tloc2);
          st = searchSegStartPos + tloc2 - 3 in
      bnd (refiner_vect idata idatal st) (\<lambda>vect.
      let fraction = tloc2 * 4 - tloc in
      bnd (mycorr1 seg (mk vect 0) 86 (mk polyphaserTbl (7 * fraction)) 7) (\<lambda>seg.
      Ok (seg, updStartPos)))))))"

section \<open>smath\<close>

definition smath_window :: "platform \<Rightarrow> int \<Rightarrow> float32 list res" where
  "smath_window P hl =
     bnd (for_up 1 (2 * hl + 2) (\<lambda>i wt.
       upd wt (i - 1) (dec32 5 1 * (1 - f32 (math_Cos P
         (f64 (dec32 62831855 7 * int32 i / int32 (2 * hl + 2))))))) (replicate 7 0)) (\<lambda>wt.
     upd wt hl 0)"

definition smath_add :: "float32 span \<Rightarrow> float32 \<Rightarrow> float32 list \<Rightarrow> float32 list res" where
  "smath_add psseq w surround =
     for_up 0 80 (\<lambda>i surround.
       bnd (at psseq i) (\<lambda>x.
       bnd (idx surround i) (\<lambda>s.
       upd surround i (s + x * w)))) surround"

definition smath_surround :: "float32 span \<Rightarrow> int \<Rightarrow> float32 list \<Rightarrow> float32 list res" where
  "smath_surround sseq hl wt =
     bnd (for_up 0 80 (\<lambda>i surround.
       bnd (at sseq i) (\<lambda>x.
       upd surround i (x * wt ! 0))) (replicate 240 0)) (\<lambda>surround.
     bnd (for_up 1 hl (\<lambda>k surround.
       bnd (idx wt k) (\<lambda>w. smath_add (add sseq (k * 80)) w surround)) surround) (\<lambda>surround.
     for_up (hl + 1) (2 * hl + 1) (\<lambda>k surround.
       bnd (idx wt k) (\<lambda>w. smath_add (add sseq (k * 80)) w surround)) surround))"

definition smath ::
  "platform \<Rightarrow> float32 span \<Rightarrow> float32 span \<Rightarrow> int \<Rightarrow> float32 \<Rightarrow> float32 list res" where
  "smath P odata sseq hl alpha0 =
     bnd (smath_window P hl) (\<lambda>wt.
     bnd (smath_surround sseq hl wt) (\<lambda>surround.
     let psseq = add sseq (hl * 80) in
     bnd (for_up 0 80 (\<lambda>i (w00, w11, w10).
       bnd (at psseq i) (\<lambda>x.
       bnd (idx surround i) (\<lambda>s.
       Ok (w00 + x * x, w11 + s * s, w10 + s * x)))) (0, 0, 0)) (\<lambda>(w00, w11, w10).
     let w11 = (if math_Abs (f64 w11) < int64 1 then 1 else w11);
         c = f32 (math_Sqrt (f64 (w00 / w11))) in
     bnd (for_up 0 80 (\<lambda>i (odata, errs).
       bnd (idx surround i) (\<lambda>s.
       bnd (store odata i (c * s)) (\<lambda>odata.
       bnd (at psseq i) (\<lambda>x.
       let err = x - c * s in
       Ok (odata, errs + err * err))))) (odata, 0)) (\<lambda>(odata, errs).
     if alpha0 * w00 < errs then
       let w00 = (if w00 < 1 then 1 else w00);
           denom = (w11 * w00 - w10 * w10) / (w00 * w00);
           (a, b) = (if dec64 1 4 < f64 denom then
               let a = f32 (math_Sqrt (f64 ((alpha0 - alpha0 * alpha0 / int32 4) / denom)));
                   b = - alpha0 / int32 2 - a * w10 / w00
               in (a, b + 1)
             else (0, 1)) in
       bnd (for_up 0 80 (\<lambda>i odata.
         bnd (idx surround i) (\<lambda>s.
         bnd (at psseq i) (\<lambda>x.
         store odata i (a * s + b * x)))) odata) (\<lambda>odata.
       Ok (sdata odata))
     else Ok (sdata odata)))))"

section \<open>getsseq\<close>

text \<open>
  The loop state of \<open>getsseq\<close>: the block start positions, the lag block indices and the
  sequence of segments.
\<close>

type_synonym sseq_state = "float32 list \<times> int list \<times> float32 span"

definition getsseq_block ::
  "platform \<Rightarrow> float32 span \<Rightarrow> int \<Rightarrow> int \<Rightarrow> bool \<Rightarrow> int \<Rightarrow> float32 \<Rightarrow> float32 span \<Rightarrow>
   (float32 span \<times> float32) res" where
  "getsseq_block P idata idatal centerStartPos inside q startPos sseq =
     (if inside then
        bnd (refiner P (add sseq (q * 80)) idata idatal centerStartPos startPos) (\<lambda>(d, upd).
        Ok (sseq\<lparr>sdata := d\<rparr>, upd))
      else
        bnd (clear_slice (add sseq (q * 80)) 80) (\<lambda>d.
        Ok (sseq\<lparr>sdata := d\<rparr>, startPos)))"

definition getsseq_back ::
  "platform \<Rightarrow> float32 span \<Rightarrow> int \<Rightarrow> int \<Rightarrow> float32 span \<Rightarrow> float32 span \<Rightarrow> int \<Rightarrow> int \<Rightarrow>
   sseq_state \<Rightarrow> sseq_state res" where
  "getsseq_back P idata idatal centerStartPos period plocs periodl q = (\<lambda>(blockStartPos, lagBlock, sseq).
     bnd (idx blockStartPos (q + 1)) (\<lambda>b1.
     bnd (idx lagBlock (q + 1)) (\<lambda>l1.
     bnd (at period l1) (\<lambda>p1.
     let b = b1 - p1 in
     bnd (nearestNeighbor plocs (b + int32 40 - p1) periodl) (\<lambda>l.
     bnd (upd lagBlock q l) (\<lambda>lagBlock.
     bnd (getsseq_block P idata idatal centerStartPos (0 \<le> b - int32 2) q b sseq) (\<lambda>(sseq, b).
     bnd (upd blockStartPos q b) (\<lambda>blockStartPos.
     Ok (blockStartPos, lagBlock, sseq)))))))))"

definition getsseq_forward ::
  "platform \<Rightarrow> float32 span \<Rightarrow> int \<Rightarrow> int \<Rightarrow> float32 span \<Rightarrow> float32 list \<Rightarrow> int \<Rightarrow> int \<Rightarrow>
   sseq_state \<Rightarrow> sseq_state res" where
  "getsseq_forward P idata idatal centerStartPos period plocs2 periodl q = (\<lambda>(blockStartPos, lagBlock, sseq).
     bnd (idx blockStartPos (q - 1)) (\<lambda>b1.
     bnd (nearestNeighbor (mk plocs2 0) (b1 + int32 40) periodl) (\<lambda>l.
     bnd (upd lagBlock q l) (\<lambda>lagBlock.
     bnd (at period l) (\<lambda>p.
     let b = b1 + p in
     bnd (getsseq_block P idata idatal centerStartPos (b + int32 80 + int32 2 < int32 idatal) q b sseq) (\<lambda>(sseq, b).
     bnd (upd blockStartPos q b) (\<lambda>blockStartPos.
     Ok (blockStartPos, lagBlock, sseq))))))))"

definition getsseq ::
  "platform \<Rightarrow> float32 span \<Rightarrow> float32 span \<Rightarrow> int \<Rightarrow> int \<Rightarrow> float32 span \<Rightarrow> float32 span \<Rightarrow> int \<Rightarrow> int \<Rightarrow>
   float32 list res" where
  "getsseq P sseq idata idatal centerStartPos period plocs periodl hl =
     (let centerEndPos = centerStartPos + 80 - 1 in
      bnd (nearestNeighbor plocs (dec32 5 1 * int32 (centerStartPos + centerEndPos)) periodl) (\<lambda>l.
      bnd (upd (replicate 7 0) hl l) (\<lambda>lagBlock.
      bnd (upd (replicate 7 0) hl (int32 centerStartPos)) (\<lambda>blockStartPos.
      bnd (slice (add idata centerStartPos) 80) (\<lambda>xs.
      bnd (copy_slice (add sseq (80 * hl)) 80 xs) (\<lambda>d.
      bnd (for_down (hl - 1) 0 (getsseq_back P idata idatal centerStartPos period plocs periodl)
        (blockStartPos, lagBlock, sseq\<lparr>sdata := d\<rparr>)) (\<lambda>s.
      bnd (for_up 0 periodl (\<lambda>i plocs2.
        bnd (at plocs i) (\<lambda>x.
        bnd (at period i) (\<lambda>p.
        upd plocs2 i (x - p)))) (replicate 20 0)) (\<lambda>plocs2.
      bnd (for_up (hl + 1) (2 * hl + 1) (getsseq_forward P idata idatal centerStartPos period plocs2 periodl) s)
        (\<lambda>(blockStartPos, lagBlock, sseq).
      Ok (sdata sseq))))))))))"

definition enhancer ::
  "platform \<Rightarrow> float32 span \<Rightarrow> float32 span \<Rightarrow> int \<Rightarrow> int \<Rightarrow> float32 \<Rightarrow> float32 span \<Rightarrow> float32 span \<Rightarrow> int \<Rightarrow>
   float32 list res" where
  "enhancer P odata idata idatal centerStartPos alpha0 period plocs periodl =
     bnd (getsseq P (mk (replicate 560 0) 0) idata idatal centerStartPos period plocs periodl 3) (\<lambda>sseq.
     smath P odata (mk sseq 0) 3 alpha0)"

section \<open>The interface\<close>

definition xCorrCoef :: "float32 span \<Rightarrow> float32 span \<Rightarrow> int \<Rightarrow> float32 res" where
  "xCorrCoef target regressor subl =
     bnd (for_up 0 subl (\<lambda>i (ftmp1, ftmp2).
       bnd (at target i) (\<lambda>t.
       bnd (at regressor i) (\<lambda>r.
       Ok (ftmp1 + t * r, ftmp2 + r * r)))) (0, 0)) (\<lambda>(ftmp1, ftmp2).
     Ok (if 0 < f64 ftmp1 then ftmp1 * ftmp1 / ftmp2 else 0))"

text \<open>
  The lag search shared by the enhancer and the decoder: the first lag with the largest
  correlation coefficient among \<open>lag\<close> and \<open>lo..hi-1\<close>; \<open>reg\<close> gives the regressor of a lag.
\<close>

definition best_lag :: "float32 span \<Rightarrow> (int \<Rightarrow> float32 span) \<Rightarrow> int \<Rightarrow> int \<Rightarrow> int \<Rightarrow> int \<Rightarrow> int res" where
  "best_lag target reg subl lag lo hi =
     bnd (xCorrCoef target (reg lag) subl) (\<lambda>maxcc.
     bnd (for_up lo hi (\<lambda>ilag (lag, maxcc).
       bnd (xCorrCoef target (reg ilag) subl) (\<lambda>cc.
       Ok (if maxcc < cc then (ilag, cc) else (lag, maxcc)))) (lag, maxcc)) (\<lambda>(lag, maxcc).
     Ok lag))"

text \<open>The pitch prediction of the block before a good frame that follows a loss.\<close>

definition plc_pred ::
  "float32 span \<Rightarrow> float32 span \<Rightarrow> int \<Rightarrow> int \<Rightarrow> int \<Rightarrow> float32 list res" where
  "plc_pred input buf frameSamples plcBlockl lag =
     (let start = (if plcBlockl < lag then plcBlockl else lag) in
      bnd (for_down start 1 (\<lambda>isample (plcPred, p, q).
        bnd (at input q) (\<lambda>x.
        bnd (upd plcPred p x) (\<lambda>plcPred.
        Ok (plcPred, p - 1, q - 1)))) (replicate 80 0, plcBlockl - 1, lag - 1)) (\<lambda>(plcPred, p, q).
      bnd (for_down (plcBlockl - 1 - lag) 0 (\<lambda>isample (plcPred, p, q).
        bnd (at buf q) (\<lambda>x.
        bnd (upd plcPred p x) (\<lambda>plcPred.
        Ok (plcPred, p - 1, q - 1)))) (plcPred, p, 639 - frameSamples)) (\<lambda>(plcPred, p, q).
      Ok plcPred)))"

text \<open>Attenuation of the prediction when it is much louder than the block it replaces.\<close>

definition plc_attenuate ::
  "float32 span \<Rightarrow> int \<Rightarrow> int \<Rightarrow> float32 list \<Rightarrow> float32 list res" where
  "plc_attenuate buf frameSamples plcBlockl plcPred =
     bnd (for_up 0 plcBlockl (\<lambda>i (ftmp1, ftmp2).
       bnd (at buf (639 - frameSamples - i)) (\<lambda>x.
       bnd (idx plcPred i) (\<lambda>y.
       Ok (ftmp1 + y * y, ftmp2 + x * x)))) (0, 0)) (\<lambda>(ftmp1, ftmp2).
     let ftmp1 = f32 (math_Sqrt (f64 (ftmp1 / int32 plcBlockl)));
         ftmp2 = f32 (math_Sqrt (f64 (ftmp2 / int32 plcBlockl))) in
     if int32 2 * ftmp2 < ftmp1 \<and> 0 < f64 ftmp1 then
       bnd (for_up 0 (plcBlockl - 10) (\<lambda>i plcPred.
         bnd (idx plcPred i) (\<lambda>y.
         upd plcPred i (y * (int32 2 * ftmp2 / ftmp1)))) plcPred) (\<lambda>plcPred.
       for_up (plcBlockl - 10) plcBlockl (\<lambda>i plcPred.
         bnd (idx plcPred i) (\<lambda>y.
         upd plcPred i (y * (int32 (i - plcBlockl + 10) * (1 - int32 2 * ftmp2 / ftmp1) / int32 10 +
           int32 2 * ftmp2 / ftmp1)))) plcPred)
     else Ok plcPred)"

text \<open>The cross-fade of the prediction into the history.\<close>

definition plc_crossfade ::
  "float32 span \<Rightarrow> int \<Rightarrow> int \<Rightarrow> float32 list \<Rightarrow> float32 span res" where
  "plc_crossfade buf frameSamples plcBlockl plcPred =
     for_up 0 plcBlockl (\<lambda>i buf.
       let ftmp1 = int32 (i + 1) / int32 (plcBlockl + 1) in
       bnd (modify buf (639 - frameSamples - i) (\<lambda>v. v * ftmp1)) (\<lambda>buf.
       bnd (idx plcPred (plcBlockl - 1 - i)) (\<lambda>y.
       modify buf (639 - frameSamples - i) (\<lambda>v. v + (1 - ftmp1) * y)))) buf"

definition enh_after_loss ::
  "platform \<Rightarrow> float32 span \<Rightarrow> int \<Rightarrow> int \<Rightarrow> int \<Rightarrow> float32 span \<times> float32 span \<Rightarrow>
   (float32 span \<times> float32 span) res" where
  "enh_after_loss P input frameSamples plcBlockl ioffset = (\<lambda>(buf, period).
     bnd (at period (5 + ioffset)) (\<lambda>p.
     let inlag = go_int P p in
     bnd (best_lag input (add input) plcBlockl (inlag - 1) inlag (inlag + 2)) (\<lambda>lag.
     bnd (store period (5 + ioffset - 1) (int32 lag)) (\<lambda>period.
     bnd (plc_pred input buf frameSamples plcBlockl lag) (\<lambda>plcPred.
     bnd (plc_attenuate buf frameSamples plcBlockl plcPred) (\<lambda>plcPred.
     bnd (plc_crossfade buf frameSamples plcBlockl plcPred) (\<lambda>buf.
     Ok (buf, period))))))))"

text \<open>The history shifted by one frame with the new residual at its end.\<close>

definition enh_shift :: "float32 span \<Rightarrow> float32 span \<Rightarrow> int \<Rightarrow> float32 span res" where
  "enh_shift buf input frameSamples =
     bnd (slice (add buf frameSamples) (640 - frameSamples)) (\<lambda>xs.
     bnd (copy_slice buf (640 - frameSamples) xs) (\<lambda>d.
     bnd (slice input frameSamples) (\<lambda>xs.
     bnd (copy_slice (add (buf\<lparr>sdata := d\<rparr>) (640 - frameSamples)) frameSamples xs) (\<lambda>d.
     Ok (buf\<lparr>sdata := d\<rparr>)))))"

text \<open>The pitch periods of the new blocks, searched at half the sampling rate; with the lag
  of the last block.\<close>

definition enh_periods ::
  "float32 span \<Rightarrow> int \<Rightarrow> float32 span \<Rightarrow> (float32 span \<times> int) res" where
  "enh_periods buf ioffset period =
     (let i = 3 - ioffset in
      bnd (slice (add period i) (8 - i)) (\<lambda>xs.
      bnd (copy_slice period (8 - i) xs) (\<lambda>d.
      let period = period\<lparr>sdata := d\<rparr> in
      bnd (slice (add buf ((5 + ioffset) * 80 - 126)) 6) (\<lambda>xs.
      bnd (copy_sub (replicate 6 0) 0 6 xs) (\<lambda>lpState.
      bnd (downSample (add buf ((5 + ioffset) * 80 - 120)) (mk lpFiltCoefsTbl 0) (360 - ioffset * 80)
        (mk lpState 0) (mk (replicate 180 0) 0)) (\<lambda>downsampled.
      for_up 0 (3 - ioffset) (\<lambda>iblock (period, lag).
        bnd (best_lag (mk downsampled (60 + iblock * 40))
          (\<lambda>lag. mk downsampled (60 + iblock * 40 - lag)) 40 10 11 60) (\<lambda>lag.
        bnd (store period (iblock + 5 + ioffset) (int32 lag * int32 2)) (\<lambda>period.
        Ok (period, lag)))) (period, 0)))))))"

definition enhancerInterface ::
  "platform \<Rightarrow> float32 span \<Rightarrow> float32 span \<Rightarrow> decoderState \<Rightarrow> (int \<times> float32 list \<times> decoderState) res" where
  "enhancerInterface P out input decoder =
     bnd (enh_shift (mk (enhBuf decoder) 0) input (d_frameSamples decoder)) (\<lambda>buf.
     let plcBlockl = (if d_mode decoder = 30 then 80 else 40);
         ioffset = (if d_mode decoder = 20 then 1 else 0) in
     bnd (enh_periods buf ioffset (mk (enhPeriod decoder) 0)) (\<lambda>(period, lag).
     let lastLag = lag * 2 in
     bnd (if prevEnhPl decoder = 1
          then enh_after_loss P input (d_frameSamples decoder) plcBlockl ioffset (buf, period)
          else Ok (buf, period)) (\<lambda>(buf, period).
     let decoder = decoder\<lparr>enhBuf := sdata buf, enhPeriod := sdata period\<rparr>;
         block = (\<lambda>iblock center out.
           bnd (enhancer P (add out (iblock * 80)) buf 640 center (dec32 5 2) period (mk enhPlocsTbl 0) 8) (\<lambda>d.
           Ok (out\<lparr>sdata := d\<rparr>))) in
     bnd (if d_mode decoder = 20 then
            for_up 0 2 (\<lambda>iblock. block iblock ((5 + iblock) * 80 + 40)) out
          else if d_mode decoder = 30 then
            for_up 0 3 (\<lambda>iblock. block iblock ((4 + iblock) * 80)) out
          else Ok out) (\<lambda>out.
     Ok (lastLag, sdata out, decoder)))))"

section \<open>No access out of bounds\<close>

subsection \<open>Correlation and upsampling\<close>

lemma nearestNeighbor_wp [wp]:
  assumes "0 \<le> soff a" "soff a + n \<le> int (length (sdata a))" "1 \<le> n" "\<And>i. 0 \<le> i \<Longrightarrow> i < n \<Longrightarrow> Q i"
  shows "spec E Q (nearestNeighbor a v n)"
  unfolding nearestNeighbor_def Let_def
  by (intro wp for_up_inv[where I = "\<lambda>(c :: float32, i). 0 \<le> i \<and> i < n"]) (use assms in auto)

lemma mycorr1_wp [wp]:
  assumes "0 \<le> soff c" "soff c + (n - m + 1) \<le> int (length (sdata c))"
    and "0 \<le> soff x" "soff x + n \<le> int (length (sdata x))" "0 \<le> m"
    and "0 \<le> soff y" "soff y + m \<le> int (length (sdata y))"
    and "\<And>d. length d = length (sdata c) \<Longrightarrow> Q d"
  shows "spec E Q (mycorr1 c x n y m)"
  unfolding mycorr1_def
  by (intro wp for_up_inv[where I = "similar c"]) (use assms in \<open>auto simp: similar_def\<close>)

lemma polyphase_wp:
  assumes "0 \<le> soff z + u" "soff z + u < int (length (sdata z))" "0 \<le> soff x + i - (n - 1)"
    "soff x + i < int (length (sdata x))" "0 \<le> soff p" "soff p + n \<le> int (length (sdata p))"
    "\<And>q. similar z q \<Longrightarrow> Q (q, u + 1)"
  shows "spec E Q (polyphase x i p n (z, u))"
  unfolding polyphase_def prod.case
  by (intro wp for_up_inv[where I = "similar z"]) (use assms in \<open>auto simp: similar_def\<close>)

text \<open>The enhancer upsamples four or five correlations, to twenty values.\<close>

lemma upsample_wp:
  assumes "soff z = 0" "length (sdata z) = 20" "soff x = 0" "length (sdata x) = 5" "n = 4 \<or> n = 5"
    and "\<And>d. length d = 20 \<Longrightarrow> Q d"
  shows "spec E Q (upsampleEnhancement z x n 3)"
proof -
  define I where "I b i s = (case s of (q, u) \<Rightarrow> similar z q \<and> u = b + 4 * i)"
    for b i and s :: "float32 span \<times> int"
  define J where "J b j s = (case s of (q, u) \<Rightarrow> similar z q \<and> u = b + j)"
    for b j and s :: "float32 span \<times> int"
  have pp: "spec E (J b (j + 1)) (polyphase x i p k s)"
    if "J b j s" "0 \<le> b + j" "b + j < 20" "k - 1 \<le> i" "i < 5" "0 \<le> soff p" "soff p + k \<le> 28" "sdata p = polyphaserTbl" for b j i k p s
    using that assms(1-4) by (cases s) (auto simp: J_def similar_def intro!: polyphase_wp)
  have four: "spec E (I b (i + 1)) (for_up 0 4 (\<lambda>j. polyphase x i' (p j) k) s)"
    if "I b i s" "0 \<le> b + 4 * i" "b + 4 * i + 3 < 20" "k - 1 \<le> i'" "i' < 5"
      "\<And>j. 0 \<le> j \<Longrightarrow> j < 4 \<Longrightarrow> 0 \<le> soff (p j) \<and> soff (p j) + k \<le> 28 \<and> sdata (p j) = polyphaserTbl" for b i i' k p s
  proof (rule for_up_idx[where I = "J (b + 4 * i)"])
    show "J (b + 4 * i) 0 s" using that(1) by (auto simp: I_def J_def)
    show "spec E (J (b + 4 * i) (j + 1)) (polyphase x i' (p j) k s)"
      if "0 \<le> j" "j < 4" "J (b + 4 * i) j s" for j s
      by (rule pp) (use that \<open>0 \<le> b + 4 * i\<close> \<open>b + 4 * i + 3 < 20\<close> \<open>k - 1 \<le> i'\<close> \<open>i' < 5\<close>
          \<open>\<And>j. 0 \<le> j \<Longrightarrow> j < 4 \<Longrightarrow> _ j\<close> in auto)
    show "I b (i + 1) s" if "J (b + 4 * i) 4 s" for s
      using that by (auto simp: I_def J_def)
  qed simp
  let ?p = "\<lambda>j. mk polyphaserTbl (1 + j * 7)"
  have 1: "spec E (I (- 8) 5) (for_up 2 5 (\<lambda>i. for_up 0 4 (\<lambda>j. polyphase x i (?p j) (i + 1))) (z, 0))"
    by (rule for_up_spec[where I = "I (- 8)"]) (auto intro!: four simp: I_def)
  have 2: "spec E (I 8 3) (for_up 1 3 (\<lambda>q. for_up 0 4 (\<lambda>j. polyphase x (n - 1) (add (?p j) q) (5 - q))) s)"
    if "I (- 8) 5 s" for s
    by (rule for_up_spec[where I = "I 8"]) (use that assms(5) in \<open>auto intro!: four simp: I_def\<close>)
  have n: "n div 2 = 2" "n < 7" "n \<le> 5" using assms(5) by auto
  show ?thesis
    unfolding upsampleEnhancement_def Let_def
    using n by simp (rule spec_mono[OF 1], simp add: case_prod_beta, rule spec_mono[OF 2],
      auto simp: I_def similar_def assms)
qed

subsection \<open>Segments at block positions\<close>

lemma refiner_vect_wp [wp]:
  assumes "soff x = 0" "length (sdata x) = 640" "- 86 \<le> st" "st \<le> 640" "\<And>v. length v = 86 \<Longrightarrow> Q v"
  shows "spec E Q (refiner_vect x 640 st)"
  unfolding refiner_vect_def Let_def by (intro wp) (use assms in auto)

text \<open>
  A position between 2 and 558, a multiple of a quarter: the search stays inside the history,
  and so does the refined position.
\<close>

definition inside_pos :: "float32 \<Rightarrow> bool" where
  "inside_pos b \<longleftrightarrow> (\<exists>n. qf n b \<and> 8 \<le> n \<and> n < 4 * 558)"

definition refined_pos :: "float32 \<Rightarrow> bool" where
  "refined_pos b \<longleftrightarrow> (\<exists>n. qf n b \<and> 4 \<le> n \<and> n < 4 * 561)"

lemma rounded_pos:
  assumes "inside_pos b"
  shows "1 \<le> go_int_of64 P (f64 b - dec64 5 1) \<and> go_int_of64 P (f64 b - dec64 5 1) \<le> 557"
proof -
  obtain n where n: "qf n b" "8 \<le> n" "n < 4 * 558" using assms by (auto simp: inside_pos_def)
  have "qf64 (n - 2) (f64 b - dec64 5 1)"
    by (rule qf64_diff[OF qf_f64 qf64_half]) (use n in auto)
  then have "go_int_of64 P (f64 b - dec64 5 1) = (n - 2) div 4"
    by (rule qf64_go_int) (use n in auto)
  then show ?thesis using n by simp linarith
qed

lemma updated_pos:
  assumes "0 \<le> st" "st \<le> 555" "0 \<le> tloc" "tloc < 20"
  shows "refined_pos (int32 st + int32 tloc / int32 4 + 1)"
proof -
  have one: "qf (4 * 1) 1"
    by (simp add: qf_def one_float32_def val32_def unpack_fp_def emin32 signed_def quarter_units_def)
  have "qf (4 * st + tloc + 4 * 1) (int32 st + int32 tloc / int32 4 + 1)"
    by (intro qf_add qf_int32 qf_quarter one) (use assms in auto)
  then show ?thesis using assms unfolding refined_pos_def by force
qed

lemma refiner_wp:
  assumes x: "soff x = 0" "length (sdata x) = 640" and c: "0 \<le> center" "center \<le> 560"
    and b: "inside_pos b" and s: "0 \<le> soff seg" "soff seg + 80 \<le> int (length (sdata seg))"
    and Q: "\<And>d u. length d = length (sdata seg) \<Longrightarrow> refined_pos u \<Longrightarrow> Q (d, u)"
  shows "spec E Q (refiner P seg x 640 center b)"
proof -
  define r where "r = go_int_of64 P (f64 b - dec64 5 1)"
  have r: "1 \<le> r" "r \<le> 557" using rounded_pos[OF b, of P] by (auto simp: r_def)
  define lo where "lo = (if r - 2 < 0 then 0 else r - 2)"
  define n where "n = r + 2 - lo + 1"
  have lo: "0 \<le> lo" "lo \<le> 555" and n: "n = 4 \<or> n = 5" "lo + n \<le> 560" using r by (auto simp: lo_def n_def)
  have hi: "(if 640 \<le> r + 2 + 80 then 640 - 80 - 1 else r + 2) = r + 2" using r by simp
  have tl: "0 \<le> (if t div 4 * 4 < t then t div 4 + 1 else t div 4) \<and>
      (if t div 4 * 4 < t then t div 4 + 1 else t div 4) \<le> 5 \<and>
      0 \<le> (if t div 4 * 4 < t then t div 4 + 1 else t div 4) * 4 - t \<and>
      (if t div 4 * 4 < t then t div 4 + 1 else t div 4) * 4 - t \<le> 3" if "0 \<le> t" "t < 20" for t :: int
    using that by simp linarith
  show ?thesis
    unfolding refiner_def Let_def r_def[symmetric] hi lo_def[symmetric] n_def[symmetric]
    by (intro wp upsample_wp for_up_inv[where I = "\<lambda>(t, m :: float32). 0 \<le> t \<and> t < 20"])
      (use assms lo n tl in \<open>auto intro!: Q updated_pos\<close>)
qed

definition pos_between :: "int \<Rightarrow> int \<Rightarrow> float32 \<Rightarrow> bool" where
  "pos_between lo hi b \<longleftrightarrow> (\<exists>n. qf n b \<and> lo \<le> n \<and> n \<le> hi)"

lemma pos_between_mono: "pos_between a b x \<Longrightarrow> c \<le> a \<Longrightarrow> b \<le> d \<Longrightarrow> pos_between c d x"
  by (force simp: pos_between_def)

lemma refined_between: "refined_pos b = pos_between 4 2243 b"
  by (force simp: refined_pos_def pos_between_def)

definition period_ok :: "float32 list \<Rightarrow> bool" where
  "period_ok ps \<longleftrightarrow> length ps = 8 \<and> (\<forall>x \<in> set ps. \<exists>n. qf (4 * n) x \<and> 19 \<le> n \<and> n \<le> 119)"

lemma period_at:
  assumes "period_ok ps" "0 \<le> i" "i < 8"
  shows "pos_between 76 476 (ps ! nat i)"
proof -
  have "ps ! nat i \<in> set ps" using assms by (simp add: period_ok_def)
  then obtain n where "qf (4 * n) (ps ! nat i)" "19 \<le> n" "n \<le> 119" using assms(1) by (auto simp: period_ok_def)
  then show ?thesis by (auto simp: pos_between_def)
qed

lemma pos_add: "pos_between a b x \<Longrightarrow> pos_between c d y \<Longrightarrow> - 10000 < a + c \<Longrightarrow> b + d < 10000 \<Longrightarrow>
    pos_between (a + c) (b + d) (x + y)"
  unfolding pos_between_def by (elim exE conjE, rule_tac x = "n + na" in exI) (auto intro!: qf_add)

lemma pos_diff: "pos_between a b x \<Longrightarrow> pos_between c d y \<Longrightarrow> - 10000 < a - d \<Longrightarrow> b - c < 10000 \<Longrightarrow>
    pos_between (a - d) (b - c) (x - y)"
  unfolding pos_between_def by (elim exE conjE, rule_tac x = "n - na" in exI) (auto intro!: qf_diff)

lemma not_before_start:
  assumes "pos_between lo hi b" "- 10000 < lo" "hi < 4 * 558" "0 \<le> b - int32 2"
  shows "inside_pos b"
proof -
  obtain n where n: "qf n b" "lo \<le> n" "n \<le> hi" using assms(1) by (auto simp: pos_between_def)
  have "qf (n - 4 * 2) (b - int32 2)" by (intro qf_diff qf_int32) (use n assms in auto)
  then have "0 \<le> n - 8" using qf_le[OF qf_zero] assms(4) by fastforce
  then show ?thesis using n assms(3) by (auto simp: inside_pos_def)
qed

lemma not_past_end:
  assumes "pos_between lo hi b" "8 \<le> lo" "hi < 10000" "b + int32 80 + int32 2 < int32 640"
  shows "inside_pos b"
proof -
  obtain n where n: "qf n b" "lo \<le> n" "n \<le> hi" using assms(1) by (auto simp: pos_between_def)
  have "qf (n + 4 * 80 + 4 * 2) (b + int32 80 + int32 2)" by (intro qf_add qf_int32) (use n assms in auto)
  moreover have "qf (4 * 640) (int32 640)" by (rule qf_int32) simp
  ultimately have "n + 4 * 80 + 4 * 2 < 4 * 640" using qf_less assms(4) by blast
  then show ?thesis using n assms(2) by (auto simp: inside_pos_def)
qed

lemma getsseq_block_wp:
  assumes "soff x = 0" "length (sdata x) = 640" "0 \<le> center" "center \<le> 560"
    and "inside \<Longrightarrow> inside_pos b" "0 \<le> q" "q < 7" "soff s = 0" "length (sdata s) = 560"
    and "pos_between lo hi b" "lo \<le> 4" "2243 \<le> hi"
    and "\<And>s' b'. similar s s' \<Longrightarrow> pos_between lo hi b' \<Longrightarrow> Q (s', b')"
  shows "spec E Q (getsseq_block P x 640 center inside q b s)"
  unfolding getsseq_block_def
  by (intro wp refiner_wp)
    (use assms pos_between_mono[of 4 2243 _ lo hi] in \<open>auto simp: similar_def refined_between\<close>)

definition lags_ok :: "int list \<Rightarrow> bool" where
  "lags_ok ls \<longleftrightarrow> length ls = 7 \<and> (\<forall>l \<in> set ls. 0 \<le> l \<and> l < 8)"

lemma lags_at: "lags_ok ls \<Longrightarrow> 0 \<le> i \<Longrightarrow> i < 7 \<Longrightarrow> 0 \<le> ls ! nat i \<and> ls ! nat i < 8"
  by (simp add: lags_ok_def nat_less_iff)

lemma lags_update: "lags_ok ls \<Longrightarrow> 0 \<le> l \<Longrightarrow> l < 8 \<Longrightarrow> lags_ok (ls[i := l])"
  using set_update_subset_insert[of ls i l] by (auto simp: lags_ok_def)

text \<open>One step of the walk away from the centre, backwards and forwards.\<close>

definition back_inv :: "float32 span \<Rightarrow> int \<Rightarrow> int \<Rightarrow> sseq_state \<Rightarrow> bool" where
  "back_inv sseq center i = (\<lambda>(bp, ls, s). length bp = 7 \<and> lags_ok ls \<and> similar sseq s \<and>
     bp ! 3 = int32 center \<and> pos_between (480 * (i - 2)) 2243 (bp ! nat (i + 1)))"

definition forward_inv :: "float32 span \<Rightarrow> int \<Rightarrow> sseq_state \<Rightarrow> bool" where
  "forward_inv sseq i = (\<lambda>(bp, ls, s). length bp = 7 \<and> lags_ok ls \<and> similar sseq s \<and>
     pos_between 4 (2243 + 476 * (i - 4)) (bp ! nat (i - 1)))"

lemma getsseq_back_wp:
  assumes x: "soff x = 0" "length (sdata x) = 640" and c: "0 \<le> center" "center \<le> 560"
    and ss: "soff ss = 0" "length (sdata ss) = 560" and p: "soff p = 0" "period_ok (sdata p)"
    and pl: "soff pl = 0" "8 \<le> length (sdata pl)" and i: "0 \<le> i" "i \<le> 2"
    and I: "back_inv ss center i st"
  shows "spec E (back_inv ss center (i - 1)) (getsseq_back P x 640 center p pl 8 i st)"
proof -
  obtain bp ls s where st: "st = (bp, ls, s)" by (cases st)
  have inv: "length bp = 7" "lags_ok ls" "soff s = 0" "length (sdata s) = 560" "bp ! 3 = int32 center"
      "pos_between (480 * (i - 2)) 2243 (bp ! nat (i + 1))"
    using I ss by (auto simp: back_inv_def st similar_def)
  have l: "0 \<le> ls ! nat (i + 1)" "ls ! nat (i + 1) < 8" "length ls = 7"
    using lags_at[OF inv(2), of "i + 1"] i inv(2) by (auto simp: lags_ok_def)
  have len: "length (sdata p) = 8" using p by (simp add: period_ok_def)
  define b where "b = bp ! nat (i + 1) - sdata p ! nat (ls ! nat (i + 1))"
  have b: "pos_between (480 * (i - 1 - 2)) 2243 b"
    unfolding b_def
    by (rule pos_between_mono[OF pos_diff[OF inv(6) period_at[OF p(2) l(1,2)]]]) (use i in auto)
  have b2: "pos_between (480 * (i - 2) - 476) (2243 - 76) b"
    unfolding b_def
    by (rule pos_diff[OF inv(6) period_at[OF p(2) l(1,2)]]) (use i in auto)
  have inside: "0 \<le> b - int32 2 \<Longrightarrow> inside_pos b"
    by (rule not_before_start[OF b2]) (use i in auto)
  have reads: "idx bp (i + 1) = Ok (bp ! nat (i + 1))" "idx ls (i + 1) = Ok (ls ! nat (i + 1))"
      "at p (ls ! nat (i + 1)) = Ok (sdata p ! nat (ls ! nat (i + 1)))"
    using inv l len i p(1) by auto
  show ?thesis
    unfolding getsseq_back_def st prod.case Let_def reads bnd.simps b_def[symmetric] spec_bnd
  proof (rule nearestNeighbor_wp)
    fix k :: int assume k: "0 \<le> k" "k < 8"
    have u: "upd ls i k = Ok (ls[nat i := k])" using i l by simp
    show "spec E (\<lambda>lb. spec E (\<lambda>xa. spec E (back_inv ss center (i - 1))
        (case xa of (sseq, b) \<Rightarrow> bnd (upd bp i b) (\<lambda>bp. Ok (bp, lb, sseq))))
        (getsseq_block P x 640 center (0 \<le> b - int32 2) i b s)) (upd ls i k)"
      unfolding u spec_Ok
      by (rule getsseq_block_wp[where lo = "480 * (i - 1 - 2)" and hi = 2243])
        (use x c inside i inv b k ss in \<open>auto simp: back_inv_def lags_update similar_def nth_list_update\<close>)
  qed (use pl in auto)
qed

lemma getsseq_forward_wp:
  assumes x: "soff x = 0" "length (sdata x) = 640" and c: "0 \<le> center" "center \<le> 560"
    and ss: "soff ss = 0" "length (sdata ss) = 560" and p: "soff p = 0" "period_ok (sdata p)"
    and pl: "8 \<le> length pl" and i: "4 \<le> i" "i \<le> 6"
    and I: "forward_inv ss i st"
  shows "spec E (forward_inv ss (i + 1)) (getsseq_forward P x 640 center p pl 8 i st)"
proof -
  obtain bp ls s where st: "st = (bp, ls, s)" by (cases st)
  have inv: "length bp = 7" "lags_ok ls" "soff s = 0" "length (sdata s) = 560"
      "pos_between 4 (2243 + 476 * (i - 4)) (bp ! nat (i - 1))"
    using I ss by (auto simp: forward_inv_def st similar_def)
  have len: "length (sdata p) = 8" "length ls = 7" using p inv(2) by (simp_all add: period_ok_def lags_ok_def)
  have reads: "idx bp (i - 1) = Ok (bp ! nat (i - 1))" using inv i by auto
  show ?thesis
    unfolding getsseq_forward_def st prod.case Let_def reads bnd.simps spec_bnd
  proof (rule nearestNeighbor_wp)
    fix k :: int assume k: "0 \<le> k" "k < 8"
    define b where "b = bp ! nat (i - 1) + sdata p ! nat k"
    have b: "pos_between (4 + 76) (2243 + 476 * (i - 4) + 476) b"
      unfolding b_def by (rule pos_add[OF inv(5) period_at[OF p(2) k]]) (use i in auto)
    have b': "pos_between 4 (2243 + 476 * (i + 1 - 4)) b"
      by (rule pos_between_mono[OF b]) auto
    have inside: "b + int32 80 + int32 2 < int32 640 \<Longrightarrow> inside_pos b"
      by (rule not_past_end[OF b]) (use i in auto)
    have u: "upd ls i k = Ok (ls[nat i := k])" "at p k = Ok (sdata p ! nat k)" using i k p(1) len by auto
    show "spec E (\<lambda>lb. spec E (\<lambda>xa. spec E (\<lambda>xa. spec E (forward_inv ss (i + 1))
        (case xa of (sseq, b) \<Rightarrow> bnd (upd bp i b) (\<lambda>bp. Ok (bp, lb, sseq))))
        (getsseq_block P x 640 center (bp ! nat (i - 1) + xa + int32 80 + int32 2 < int32 640) i
          (bp ! nat (i - 1) + xa) s)) (at p k)) (upd ls i k)"
      unfolding u spec_Ok b_def[symmetric]
      by (rule getsseq_block_wp[where lo = 4 and hi = "2243 + 476 * (i + 1 - 4)"])
        (use x c inside i inv b' k ss in \<open>auto simp: forward_inv_def lags_update similar_def nth_list_update\<close>)
  qed (use pl in auto)
qed

lemma getsseq_wp [wp]:
  assumes x: "soff x = 0" "length (sdata x) = 640" and c: "1 \<le> center" "center \<le> 560"
    and ss: "soff ss = 0" "length (sdata ss) = 560" and p: "soff p = 0" "period_ok (sdata p)"
    and pl: "soff pl = 0" "8 \<le> length (sdata pl)" and Q: "\<And>d. length d = 560 \<Longrightarrow> Q d"
  shows "spec E Q (getsseq P ss x 640 center p pl 8 3)"
proof -
  have c': "0 \<le> center" and len: "length (sdata p) = 8" using c p by (simp_all add: period_ok_def)
  have centre: "pos_between 4 2243 (int32 center)"
    using qf_int32[of center] c by (force simp: pos_between_def)
  have start: "back_inv s center 2 (bp, ls, s')"
    if "length bp = 7" "bp ! 3 = int32 center" "lags_ok ls" "similar s s'" for s bp ls s'
    using that pos_between_mono[OF centre, of 0 2243] by (simp add: back_inv_def)
  have turn: "forward_inv s 4 st" if "back_inv s center (- 1) st" for s st
    using that centre by (cases st) (simp add: back_inv_def forward_inv_def)
  have lags: "lags_ok ((replicate 7 0)[3 := l])" if "0 \<le> l" "l < 8" for l
    by (rule lags_update) (use that in \<open>auto simp: lags_ok_def\<close>)
  have walk: "spec E (back_inv s center (0 - 1)) (for_down 2 0 (getsseq_back P x 640 center p pl 8)
      ((replicate 7 0)[3 := int32 center], (replicate 7 0)[3 := l], s))"
    if "0 \<le> l" "l < 8" "soff s = 0" "length (sdata s) = 560" for l s
    by (rule for_down_spec) (use that in \<open>auto intro!: getsseq_back_wp x c c' p pl start lags\<close>)
  have run: "spec E Q (bnd (for_down 2 0 (getsseq_back P x 640 center p pl 8)
        ((replicate 7 0)[3 := int32 center], (replicate 7 0)[3 := l], s)) (\<lambda>st.
      bnd (for_up 0 8 (\<lambda>i plocs2. bnd (at pl i) (\<lambda>x. bnd (at p i) (\<lambda>p. upd plocs2 i (x - p))))
        (replicate 20 0)) (\<lambda>plocs2.
      bnd (for_up 4 7 (getsseq_forward P x 640 center p plocs2 8) st) (\<lambda>(bp, ls, s). Ok (sdata s)))))"
    if "0 \<le> l" "l < 8" "soff s = 0" "length (sdata s) = 560" for l s
    by (intro wp spec_mono[OF walk[OF that]] for_up_inv[where I = "\<lambda>q :: float32 list. length q = 20"]
          for_up_idx[where I = "forward_inv s"] getsseq_forward_wp)
      (use x c c' p pl that len Q turn in \<open>auto simp: forward_inv_def similar_def\<close>)
  have const: "3 - 1 = (2 :: int)" "3 + 1 = (4 :: int)" "2 * 3 + 1 = (7 :: int)" by simp_all
  have lagv: "upd (replicate 7 0) 3 v = Ok ((replicate 7 0)[3 := v])" for v :: int by simp
  have posv: "upd (replicate 7 0) 3 v = Ok ((replicate 7 0)[3 := v])" for v :: float32 by simp
  obtain xs where xs: "slice (add x center) 80 = Ok xs" using x c' c by simp
  obtain d where d: "copy_slice (add ss (80 * 3)) 80 xs = Ok d" "length d = 560" using ss by simp
  show ?thesis
    unfolding getsseq_def Let_def const lagv posv xs d(1) bnd.simps
    by (rule spec_bndI, rule nearestNeighbor_wp) (auto intro!: run[unfolded spec_bnd] simp: pl ss d(2))
qed

subsection \<open>Smoothing and the interface\<close>

lemma smath_window_wp [wp]:
  assumes "\<And>w. length w = 7 \<Longrightarrow> Q w"
  shows "spec E Q (smath_window P 3)"
  unfolding smath_window_def
  by (intro wp for_up_inv[where I = "\<lambda>w :: float32 list. length w = 7"]) (use assms in auto)

lemma smath_add_wp [wp]:
  assumes "0 \<le> soff s" "soff s + 80 \<le> int (length (sdata s))" "length d = 240" "\<And>d. length d = 240 \<Longrightarrow> Q d"
  shows "spec E Q (smath_add s w d)"
  unfolding smath_add_def
  by (intro wp for_up_inv[where I = "\<lambda>w :: float32 list. length w = 240"]) (use assms in auto)

lemma smath_surround_wp [wp]:
  assumes "soff s = 0" "length (sdata s) = 560" "length wt = 7" "\<And>d. length d = 240 \<Longrightarrow> Q d"
  shows "spec E Q (smath_surround s 3 wt)"
  unfolding smath_surround_def
  by (intro wp for_up_inv[where I = "\<lambda>w :: float32 list. length w = 240"]) (use assms in auto)

lemma smath_wp [wp]:
  assumes "0 \<le> soff z" "soff z + 80 \<le> int (length (sdata z))" "soff s = 0" "length (sdata s) = 560"
    and "\<And>d. length d = length (sdata z) \<Longrightarrow> Q d"
  shows "spec E Q (smath P z s 3 alpha0)"
  unfolding smath_def
  by (intro wp for_up_inv[where I = "\<lambda>_ :: float32 \<times> float32 \<times> float32. True"]
        for_up_inv[where I = "\<lambda>(q, e :: float32). similar z q"] for_up_inv[where I = "similar z"])
    (use assms in \<open>auto simp: similar_def Let_def\<close>)

lemma enhancer_wp [wp]:
  assumes "soff x = 0" "length (sdata x) = 640" "1 \<le> center" "center \<le> 560"
    and "0 \<le> soff z" "soff z + 80 \<le> int (length (sdata z))" "soff p = 0" "period_ok (sdata p)"
    and "soff pl = 0" "8 \<le> length (sdata pl)" "\<And>d. length d = length (sdata z) \<Longrightarrow> Q d"
  shows "spec E Q (enhancer P z x 640 center alpha0 p pl 8)"
  unfolding enhancer_def by (intro wp) (use assms in auto)

lemma xCorrCoef_wp [wp]:
  assumes "0 \<le> soff x" "soff x + n \<le> int (length (sdata x))" "0 \<le> soff y" "soff y + n \<le> int (length (sdata y))"
    and "\<And>c. Q c"
  shows "spec E Q (xCorrCoef x y n)"
  unfolding xCorrCoef_def
  by (intro wp for_up_inv[where I = "\<lambda>_ :: float32 \<times> float32. True"]) (use assms in auto)

lemma best_lag_wp:
  assumes "0 \<le> soff x" "soff x + n \<le> int (length (sdata x))"
    and "\<And>l. l = lag \<or> lo \<le> l \<and> l < hi \<Longrightarrow> 0 \<le> soff (reg l) \<and> soff (reg l) + n \<le> int (length (sdata (reg l)))"
    and "\<And>l. l = lag \<or> lo \<le> l \<and> l < hi \<Longrightarrow> Q l"
  shows "spec E Q (best_lag x reg n lag lo hi)"
  unfolding best_lag_def
  by (intro wp for_up_inv[where I = "\<lambda>(l, c :: float32). l = lag \<or> lo \<le> l \<and> l < hi"]) (use assms in auto)

lemma plc_pred_wp [wp]:
  assumes x: "soff x = 0" "240 \<le> length (sdata x)" and b: "soff b = 0" "length (sdata b) = 640"
    and n: "0 \<le> fs" "fs \<le> 240" "0 \<le> n" "n \<le> 80" and lag: "1 \<le> lag" "lag \<le> 120"
    and Q: "\<And>d. length d = 80 \<Longrightarrow> Q d"
  shows "spec E Q (plc_pred x b fs n lag)"
proof -
  define st where "st = (if n < lag then n else lag)"
  have st: "0 \<le> st" "st \<le> n" "st \<le> lag" "lag \<le> n \<Longrightarrow> st = lag" using n lag by (auto simp: st_def)
  have 1: "spec E (\<lambda>(d, p, q). length d = 80 \<and> p = n - 1 - st)
      (for_down st 1 (\<lambda>isample (plcPred, p, q). bnd (at x q) (\<lambda>x. bnd (upd plcPred p x) (\<lambda>plcPred.
        Ok (plcPred, p - 1, q - 1)))) (replicate 80 0, n - 1, lag - 1))"
    by (rule spec_mono[OF for_down_spec[where I = "\<lambda>i (d :: float32 list, p, q).
          length d = 80 \<and> p = n - 1 - (st - i) \<and> q = lag - 1 - (st - i)"]])
      (use st x n lag in auto)
  have 2: "spec E Q (bnd (for_down (n - 1 - lag) 0 (\<lambda>isample (plcPred, p, q). bnd (at b q) (\<lambda>x.
        bnd (upd plcPred p x) (\<lambda>plcPred. Ok (plcPred, p - 1, q - 1)))) (d, p, 639 - fs)) (\<lambda>(d, p, q). Ok d))"
    if d: "length d = 80" "p = n - 1 - st" for d p
  proof (cases "lag \<le> n")
    case True
    then show ?thesis
      by (intro spec_bndI spec_mono[OF for_down_spec[where I = "\<lambda>i (d :: float32 list, p, q).
          length d = 80 \<and> p = i \<and> q = 639 - fs - (n - 1 - lag - i)"]])
        (use d st b n lag Q in auto)
  qed (use d Q in auto)
  show ?thesis
    unfolding plc_pred_def Let_def st_def[symmetric]
    by (rule spec_bndI, rule spec_mono[OF 1]) (use 2[unfolded spec_bnd] in auto)
qed

lemma plc_attenuate_wp [wp]:
  assumes "soff b = 0" "length (sdata b) = 640" "0 \<le> fs" "fs \<le> 240" "10 \<le> n" "n \<le> 80" "length d = 80"
    and "\<And>d. length d = 80 \<Longrightarrow> Q d"
  shows "spec E Q (plc_attenuate b fs n d)"
  unfolding plc_attenuate_def Let_def
  by (intro wp for_up_inv[where I = "\<lambda>_ :: float32 \<times> float32. True"]
        for_up_inv[where I = "\<lambda>d :: float32 list. length d = 80"]) (use assms in auto)

lemma plc_crossfade_wp [wp]:
  assumes "soff b = 0" "length (sdata b) = 640" "0 \<le> fs" "fs \<le> 240" "0 \<le> n" "n \<le> 80" "length d = 80"
    and "\<And>c. similar b c \<Longrightarrow> Q c"
  shows "spec E Q (plc_crossfade b fs n d)"
  unfolding plc_crossfade_def Let_def
  by (intro wp for_up_inv[where I = "similar b"]) (use assms in \<open>auto simp: similar_def\<close>)

text \<open>The periods after an update at one position.\<close>

lemma period_store:
  assumes "period_ok ps" "19 \<le> l" "l \<le> 119"
  shows "period_ok (ps[i := int32 l])"
proof -
  have "\<exists>n. qf (4 * n) (int32 l) \<and> 19 \<le> n \<and> n \<le> 119" using assms qf_int32[of l] by auto
  then show ?thesis using assms(1) set_update_subset_insert[of ps i "int32 l"]
    by (auto simp: period_ok_def)
qed

lemma period_go_int:
  assumes "period_ok ps" "i < 8"
  shows "19 \<le> go_int P (ps ! i) \<and> go_int P (ps ! i) \<le> 119"
proof -
  have "ps ! i \<in> set ps" using assms by (simp add: period_ok_def)
  then obtain n where "qf (4 * n) (ps ! i)" "19 \<le> n" "n \<le> 119" using assms(1) by (auto simp: period_ok_def)
  then show ?thesis using qf_go_int[of "4 * n" "ps ! i" P] by simp
qed

text \<open>A period that \<open>enh_periods\<close> has just written is even and lies between 20 and 118.\<close>

definition fresh_period :: "float32 \<Rightarrow> bool" where
  "fresh_period x \<longleftrightarrow> (\<exists>n. qf (4 * n) x \<and> 20 \<le> n \<and> n \<le> 118)"

lemma fresh_period_int:
  assumes "10 \<le> l" "l < 60"
  shows "fresh_period (int32 l * int32 2)"
  using qf_double[of l] assms by (auto simp: fresh_period_def intro!: exI[of _ "2 * l"])

lemma fresh_period_go_int: "fresh_period x \<Longrightarrow> 20 \<le> go_int P x \<and> go_int P x \<le> 118"
  using qf_go_int[of _ x P] by (fastforce simp: fresh_period_def)

lemma period_fresh: "period_ok ps \<Longrightarrow> fresh_period x \<Longrightarrow> period_ok (ps[i := x])"
  using set_update_subset_insert[of ps i x] by (fastforce simp: period_ok_def fresh_period_def)

lemma enh_after_loss_wp [wp]:
  assumes x: "soff x = 0" "240 \<le> length (sdata x)" and b: "soff b = 0" "length (sdata b) = 640"
    and n: "0 \<le> fs" "fs \<le> 240" "10 \<le> n" "n \<le> 80" and o: "0 \<le> ioffset" "ioffset \<le> 1"
    and p: "soff p = 0" "period_ok (sdata p)" "fresh_period (sdata p ! nat (5 + ioffset))"
    and Q: "\<And>b' p'. similar b b' \<Longrightarrow> soff p' = 0 \<Longrightarrow> period_ok (sdata p') \<Longrightarrow> Q (b', p')"
  shows "spec E Q (enh_after_loss P x fs n ioffset (b, p))"
proof -
  have len: "length (sdata p) = 8" using p by (simp add: period_ok_def)
  define v where "v = sdata p ! nat (5 + ioffset)"
  have a: "at p (5 + ioffset) = Ok v" using p(1) len o by (simp add: v_def)
  have v: "20 \<le> go_int P v" "go_int P v \<le> 118" using fresh_period_go_int[OF p(3), of P] by (simp_all add: v_def)
  have st: "store p (5 + ioffset - 1) y = Ok (p\<lparr>sdata := (sdata p)[nat (4 + ioffset) := y]\<rparr>)" for y
    using p(1) len o by simp
  show ?thesis
    unfolding enh_after_loss_def prod.case a bnd.simps Let_def st
    by (intro wp best_lag_wp)
      (use x b n o p v Q period_store[OF p(2)] in \<open>auto simp: similar_def\<close>)
qed

lemma enh_shift_wp [wp]:
  assumes "soff b = 0" "length (sdata b) = 640" "0 \<le> fs" "fs \<le> 240" "soff x = 0" "240 \<le> length (sdata x)"
    and "\<And>c. similar b c \<Longrightarrow> Q c"
  shows "spec E Q (enh_shift b x fs)"
  unfolding enh_shift_def by (intro wp) (use assms in \<open>auto simp: similar_def\<close>)

lemma enh_periods_wp [wp]:
  assumes b: "soff b = 0" "length (sdata b) = 640" and o: "ioffset = 0 \<or> ioffset = 1"
    and p: "soff p = 0" "period_ok (sdata p)"
    and Q: "\<And>p' l. soff p' = 0 \<Longrightarrow> period_ok (sdata p') \<Longrightarrow> fresh_period (sdata p' ! nat (5 + ioffset)) \<Longrightarrow>
      10 \<le> l \<Longrightarrow> l < 60 \<Longrightarrow> Q (p', l)"
  shows "spec E Q (enh_periods b ioffset p)"
proof -
  define I where "I i s = (case s of (q, l) \<Rightarrow> soff q = 0 \<and> period_ok (sdata q) \<and>
      (0 < i \<longrightarrow> fresh_period (sdata q ! nat (5 + ioffset)) \<and> 10 \<le> l \<and> l < 60))"
    for i :: int and s :: "float32 span \<times> int"
  have len: "length (sdata p) = 8" using p by (simp add: period_ok_def)
  define k where "k = nat (3 - ioffset)"
  define ps where "ps = blit (sdata p) 0 (take (8 - k) (drop k (sdata p)))"
  have k: "3 - ioffset = int k" "k = 2 \<or> k = 3" using o by (auto simp: k_def)
  have c: "bnd (slice (add p (3 - ioffset)) (8 - (3 - ioffset))) (\<lambda>xs. copy_slice p (8 - (3 - ioffset)) xs) = Ok ps"
    unfolding k(1) using k(2) p(1) len by (auto simp: ps_def nat_diff_distrib)
  have ps: "period_ok ps"
  proof -
    have "set ps \<subseteq> set (sdata p)" by (auto simp: ps_def blit_def dest: in_set_takeD in_set_dropD)
    moreover have "length ps = 8" using k(2) len by (auto simp: ps_def)
    ultimately show ?thesis using p(2) unfolding period_ok_def by blast
  qed
  have step: "spec E (I (i + 1)) ((\<lambda>(period, lag).
      bnd (best_lag (mk ds (60 + i * 40)) (\<lambda>lag. mk ds (60 + i * 40 - lag)) 40 10 11 60) (\<lambda>lag.
      bnd (store period (i + 5 + ioffset) (int32 lag * int32 2)) (\<lambda>period. Ok (period, lag)))) s)"
    if i: "I i s" "0 \<le> i" "i < 3 - ioffset" and ds: "length ds = 180" for i s ds
  proof -
    obtain q l' where s: "s = (q, l')" by (cases s)
    have q: "soff q = 0" "period_ok (sdata q)" "length (sdata q) = 8"
      using i by (auto simp: I_def s period_ok_def)
    have "spec E (I (i + 1)) (bnd (store q (i + 5 + ioffset) (int32 l * int32 2)) (\<lambda>period. Ok (period, l)))"
      if "l = 10 \<or> 11 \<le> l \<and> l < 60" for l
      using that i o q fresh_period_int[of l] period_fresh[OF q(2) fresh_period_int[of l]]
      by (auto simp: I_def s nth_list_update nat_add_distrib)
    then show ?thesis
      unfolding s prod.case using i ds o by (intro spec_bndI best_lag_wp) auto
  qed
  show ?thesis
    unfolding enh_periods_def Let_def
    by (subst bnd_assoc[symmetric], subst c, simp only: bnd.simps,
        intro wp for_up_idx[where I = I] step)
      (use b o p ps Q in \<open>auto simp: I_def\<close>)
qed

definition mode_frame :: "decoderState \<Rightarrow> bool" where
  "mode_frame d \<longleftrightarrow> d_mode d = 20 \<and> d_frameSamples d = 160 \<and> d_subframes d = 4 \<or>
     d_mode d = 30 \<and> d_frameSamples d = 240 \<and> d_subframes d = 6"

lemma enhancerInterface_wp [wp]:
  assumes d: "mode_frame d" "length (enhBuf d) = 640" "period_ok (enhPeriod d)"
    and x: "soff x = 0" "length (sdata x) = 240" and z: "soff z = 0" "length (sdata z) = 240"
    and Q: "\<And>l out b p. 20 \<le> l \<Longrightarrow> l \<le> 118 \<Longrightarrow> length out = 240 \<Longrightarrow> length b = 640 \<Longrightarrow> period_ok p \<Longrightarrow>
      Q (l, out, d\<lparr>enhBuf := b, enhPeriod := p\<rparr>)"
  shows "spec E Q (enhancerInterface P z x d)"
  unfolding enhancerInterface_def Let_def
  by (intro wp for_up_inv[where I = "similar z"])
    (use d x z Q in \<open>auto simp: similar_def mode_frame_def\<close>)

end
