(* ===== verification/Plc.thy ===== *)
theory Plc
  imports Constants
begin

text \<open>
  docplc.go: packet loss concealment.  \<open>doThePLC\<close> returns the residual and LPC arrays it was
  given to fill and the updated decoder state.
\<close>

text \<open>\<open>compCorr\<close> returns what the code stores through \<open>cc\<close>, \<open>gc\<close> and \<open>pm\<close>.\<close>

definition compCorr :: "float32 span \<Rightarrow> int \<Rightarrow> int \<Rightarrow> int \<Rightarrow> (float32 \<times> float32 \<times> float32) res" where
  "compCorr buffer lag bLen sRange =
     (let sRange = (if bLen - sRange - lag < 0 then bLen - lag else sRange) in
      bnd (for_up 0 sRange (\<lambda>i (ftmp1, ftmp2, ftmp3).
        bnd (at buffer (bLen - sRange + i)) (\<lambda>x.
        bnd (at buffer (bLen - sRange + i - lag)) (\<lambda>y.
        Ok (ftmp1 + x * y, ftmp2 + y * y, ftmp3 + x * x)))) (0, 0, 0)) (\<lambda>(ftmp1, ftmp2, ftmp3).
      Ok (if 0 < f64 ftmp2 then
            (ftmp1 * ftmp1 / ftmp2, f32 (math_Abs (f64 (ftmp1 / ftmp2))),
             f32 (math_Abs (f64 ftmp1)) / (f32 (math_Sqrt (f64 ftmp2)) * f32 (math_Sqrt (f64 ftmp3))))
          else (0, 0, 0))))"

definition plc_useGain :: "int \<Rightarrow> float32" where
  "plc_useGain samples =
     (if 1280 < samples then 0 else if 960 < samples then dec32 5 1
      else if 640 < samples then dec32 7 1 else if 320 < samples then dec32 9 1 else 1)"

definition plc_pitchfact :: "float32 \<Rightarrow> float32" where
  "plc_pitchfact ftmp =
     (if dec32 7 1 < ftmp then 1
      else if dec32 4 1 < ftmp then (ftmp - dec32 4 1) / dec32 29999998 8 else 0)"

text \<open>The pitch lag and periodicity to conceal with: searched around the last lag after a good
  frame, reused in a burst of losses.\<close>

definition plc_lag :: "decoderState \<Rightarrow> int \<Rightarrow> (int \<times> float32) res" where
  "plc_lag decoder inlag =
     (if prevPLI decoder \<noteq> 1 then
        let buf = mk (prevResidual decoder) 0 in
        bnd (compCorr buf (inlag - 3) (d_frameSamples decoder) 60) (\<lambda>(maxcc, gain, maxPer).
        bnd (for_up (inlag - 2) (inlag + 4) (\<lambda>i (lag, maxcc, maxPer).
          bnd (compCorr buf i (d_frameSamples decoder) 60) (\<lambda>(maxccComp, gainComp, per).
          Ok (if maxcc < maxccComp then (i, maxccComp, per) else (lag, maxcc, maxPer))))
          (inlag - 3, maxcc, maxPer)) (\<lambda>(lag, maxcc, maxPer).
        Ok (lag, maxPer)))
      else Ok (prevLag decoder, per decoder))"

definition next_seed :: "32 word \<Rightarrow> 32 word" where
  "next_seed s = (s * 69069 + 1) AND 2147483647"

definition plc_sample :: "decoderState \<Rightarrow> float32 \<Rightarrow> float32 \<Rightarrow> int \<Rightarrow> int \<Rightarrow>
  32 word \<times> float32 list \<times> float32 span \<times> float32 \<Rightarrow>
  (32 word \<times> float32 list \<times> float32 span \<times> float32) res" where
  "plc_sample decoder useGain pitchfact useLag i = (\<lambda>(sd, randvec, pLCresidual, energy).
     let sd = next_seed sd; randlag = 50 + sint sd mod 70; pick = i - randlag in
     bnd (if pick < 0 then idx (prevResidual decoder) (d_frameSamples decoder + pick)
          else idx randvec pick) (\<lambda>r.
     bnd (upd randvec i r) (\<lambda>randvec.
     let pick = i - useLag in
     bnd (if pick < 0 then idx (prevResidual decoder) (d_frameSamples decoder + pick)
          else at pLCresidual pick) (\<lambda>v.
     let mixed = pitchfact * v + (1 - pitchfact) * r;
         v = (if i < 80 then useGain * mixed
              else if i < 160 then dec32 95 2 * useGain * mixed
              else dec32 9 1 * useGain * mixed) in
     bnd (store pLCresidual i v) (\<lambda>pLCresidual.
     Ok (sd, randvec, pLCresidual, energy + v * v))))))"

definition plc_conceal :: "float32 span \<Rightarrow> int \<Rightarrow> decoderState \<Rightarrow>
  (float32 span \<times> int \<times> float32 \<times> decoderState) res" where
  "plc_conceal pLCresidual inlag decoder =
     (let decoder = (if consPLICount decoder < 9
                     then decoder\<lparr>consPLICount := consPLICount decoder + 1\<rparr> else decoder) in
      bnd (plc_lag decoder inlag) (\<lambda>(lag, maxPer).
      let useGain = plc_useGain (consPLICount decoder * d_frameSamples decoder);
          pitchfact = plc_pitchfact (f32 (math_Sqrt (f64 maxPer)));
          useLag = (if lag < 80 then 2 * lag else lag) in
      bnd (for_up 0 (d_frameSamples decoder) (plc_sample decoder useGain pitchfact useLag)
        (seed decoder, replicate 240 0, pLCresidual, 0)) (\<lambda>(sd, randvec, pLCresidual, energy).
      let decoder = decoder\<lparr>seed := sd\<rparr> in
      bnd (if math_Sqrt (f64 (energy / int32 (d_frameSamples decoder))) < int64 30 then
             for_up 0 (d_frameSamples decoder) (\<lambda>i pLCresidual.
               bnd (idx randvec i) (\<lambda>r.
               store pLCresidual i (useGain * r))) pLCresidual
           else Ok pLCresidual) (\<lambda>pLCresidual.
      Ok (pLCresidual, lag, maxPer, decoder)))))"

definition doThePLC ::
  "float32 span \<Rightarrow> float32 span \<Rightarrow> int \<Rightarrow> float32 span \<Rightarrow> float32 span \<Rightarrow> int \<Rightarrow> decoderState \<Rightarrow>
   (float32 list \<times> float32 list \<times> decoderState) res" where
  "doThePLC pLCresidual pLClpc pLI decresidual lpc inlag decoder =
     bnd (if pLI = 1 then
            bnd (plc_conceal pLCresidual inlag decoder) (\<lambda>(pLCresidual, lag, maxPer, decoder).
            bnd (sub (prevLpc decoder) 0 11) (\<lambda>xs.
            bnd (copy_slice pLClpc 11 xs) (\<lambda>l.
            Ok (pLCresidual, pLClpc\<lparr>sdata := l\<rparr>, lag, maxPer, decoder))))
          else
            bnd (slice decresidual (d_frameSamples decoder)) (\<lambda>xs.
            bnd (copy_slice pLCresidual (d_frameSamples decoder) xs) (\<lambda>r.
            bnd (slice lpc 11) (\<lambda>xs.
            bnd (copy_slice pLClpc 11 xs) (\<lambda>l.
            Ok (pLCresidual\<lparr>sdata := r\<rparr>, pLClpc\<lparr>sdata := l\<rparr>, 20, 0,
                decoder\<lparr>consPLICount := 0\<rparr>)))))) (\<lambda>(pLCresidual, pLClpc, lag, maxPer, decoder).
     let decoder = (if pLI \<noteq> 0 then decoder\<lparr>prevLag := lag, per := maxPer\<rparr> else decoder);
         decoder = decoder\<lparr>prevPLI := pLI\<rparr> in
     bnd (slice pLClpc 11) (\<lambda>xs.
     bnd (copy_sub (prevLpc decoder) 0 11 xs) (\<lambda>l.
     let decoder = decoder\<lparr>prevLpc := l\<rparr> in
     bnd (slice pLCresidual (d_frameSamples decoder)) (\<lambda>xs.
     bnd (copy_sub (prevResidual decoder) 0 (d_frameSamples decoder) xs) (\<lambda>r.
     Ok (sdata pLCresidual, sdata pLClpc, decoder\<lparr>prevResidual := r\<rparr>))))))"

section \<open>No access out of bounds\<close>

lemma compCorr_wp [wp]:
  assumes "0 \<le> soff b" "soff b + n \<le> int (length (sdata b))" "0 \<le> lag" "lag \<le> n" "0 \<le> s" "s \<le> n" "\<And>r. Q r"
  shows "spec E Q (compCorr b lag n s)"
  unfolding compCorr_def
  by (intro wp for_up_inv[where I = "\<lambda>_. True"]) (use assms in \<open>auto split: if_splits\<close>)

lemma next_seed_mod: "0 \<le> sint (next_seed s) mod 70" "sint (next_seed s) mod 70 < 70"
  by simp_all

text \<open>
  The part of the decoder state that concealment uses: a frame of \<open>n\<close> samples, the last lags
  in the range of the searches.
\<close>

definition plc_ok :: "decoderState \<Rightarrow> bool" where
  "plc_ok d \<longleftrightarrow> (d_frameSamples d = 160 \<or> d_frameSamples d = 240) \<and> length (prevResidual d) = 240 \<and>
     length (prevLpc d) = 11 \<and> 17 \<le> prevLag d \<and> prevLag d \<le> 122 \<and>
     0 \<le> consPLICount d \<and> consPLICount d \<le> 9"

lemma plc_lag_wp:
  assumes "plc_ok d" "20 \<le> inlag" "inlag \<le> 119" "\<And>l m. 17 \<le> l \<Longrightarrow> l \<le> 122 \<Longrightarrow> Q (l, m)"
  shows "spec E Q (plc_lag d inlag)"
  unfolding plc_lag_def
  by (intro wp for_up_inv[where I = "\<lambda>(l, c :: float32, m :: float32). 17 \<le> l \<and> l \<le> 122"])
    (use assms in \<open>auto simp: plc_ok_def\<close>)

abbreviation plc_inv :: "float32 span \<Rightarrow> 32 word \<times> float32 list \<times> float32 span \<times> float32 \<Rightarrow> bool" where
  "plc_inv p \<equiv> (\<lambda>(sd, rv, p', e). length rv = 240 \<and> similar p p')"

lemma plc_sample_wp:
  assumes "plc_ok d" "17 \<le> useLag" "useLag \<le> 158" "0 \<le> i" "i < d_frameSamples d"
    and "length (sdata p) = 240" "soff p = 0" "plc_inv p s"
  shows "spec E (plc_inv p) (plc_sample d ug pf useLag i s)"
proof -
  obtain sd rv p' e where s: "s = (sd, rv, p', e)" by (cases s)
  show ?thesis
    unfolding plc_sample_def Let_def prod.case s
    by (intro wp) (use assms s next_seed_mod[of sd] in \<open>auto simp: plc_ok_def similar_def split: if_splits\<close>)
qed

lemma plc_conceal_wp:
  assumes d: "plc_ok d" "20 \<le> inlag" "inlag \<le> 119" and p: "length (sdata p) = 240" "soff p = 0"
    and Q: "\<And>p' l m c sd. similar p p' \<Longrightarrow> 17 \<le> l \<Longrightarrow> l \<le> 122 \<Longrightarrow> 0 \<le> c \<Longrightarrow> c \<le> 9 \<Longrightarrow>
      c = (if consPLICount d < 9 then consPLICount d + 1 else consPLICount d) \<Longrightarrow>
      Q (p', l, m, d\<lparr>consPLICount := c, seed := sd\<rparr>)"
  shows "spec E Q (plc_conceal p inlag d)"
proof -
  define c where "c = (if consPLICount d < 9 then consPLICount d + 1 else consPLICount d)"
  define d' where "d' = d\<lparr>consPLICount := c\<rparr>"
  have d': "(if consPLICount d < 9 then d\<lparr>consPLICount := consPLICount d + 1\<rparr> else d) = d'"
    by (simp add: c_def d'_def)
  have ok: "plc_ok d'" and c: "0 \<le> c" "c \<le> 9" using d by (auto simp: plc_ok_def d'_def c_def)
  note samples = plc_sample_wp[OF ok]
  have n: "length (sdata p) = 240" "soff p = 0" "d_frameSamples d' \<le> 240" using p ok by (auto simp: plc_ok_def)
  have q: "\<And>p' l m sd. similar p p' \<Longrightarrow> 17 \<le> l \<Longrightarrow> l \<le> 122 \<Longrightarrow> Q (p', l, m, d'\<lparr>seed := sd\<rparr>)"
    using Q[OF _ _ _ c] unfolding d'_def c_def by simp
  show ?thesis
    unfolding plc_conceal_def d' Let_def
    by (intro wp plc_lag_wp ok d
          for_up_inv[where I = "plc_inv p"] for_up_inv[where I = "similar p"] samples)
      (use n q in \<open>auto simp: similar_def split: if_splits\<close>)
qed

text \<open>The fields concealment does not write.\<close>

definition plc_frame :: "decoderState \<Rightarrow> decoderState \<Rightarrow> bool" where
  "plc_frame d d' \<longleftrightarrow> d'\<lparr>consPLICount := consPLICount d, seed := seed d, prevLag := prevLag d,
     per := per d, prevPLI := prevPLI d, prevLpc := prevLpc d, prevResidual := prevResidual d\<rparr> = d"

lemma doThePLC_wp [wp]:
  assumes d: "plc_ok d" "20 \<le> inlag" "inlag \<le> 119"
    and p: "length (sdata p) = 240" "soff p = 0" "length (sdata l) = 11" "soff l = 0"
    and q: "pLI \<noteq> 1 \<Longrightarrow> soff r = 0 \<and> d_frameSamples d \<le> int (length (sdata r))"
      "pLI \<noteq> 1 \<Longrightarrow> 0 \<le> soff a \<and> soff a + 11 \<le> int (length (sdata a))"
    and Q: "\<And>xs ys d'. length xs = 240 \<Longrightarrow> length ys = 11 \<Longrightarrow> plc_ok d' \<Longrightarrow> plc_frame d d' \<Longrightarrow>
      prevPLI d' = pLI \<Longrightarrow> Q (xs, ys, d')"
  shows "spec E Q (doThePLC p l pLI r a inlag d)"
proof -
  have len: "d_frameSamples d \<le> 240" "0 \<le> d_frameSamples d" "length (prevResidual d) = 240"
    "length (prevLpc d) = 11" "17 \<le> prevLag d" "prevLag d \<le> 122"
    using d by (auto simp: plc_ok_def)
  show ?thesis
    unfolding doThePLC_def Let_def
    by (intro wp plc_conceal_wp d p)
      (use p q len d(1) in \<open>auto simp: similar_def plc_ok_def plc_frame_def intro!: Q\<close>)
qed

end
