(* ===== verification/Bits.thy ===== *)
theory Bits
  imports Constants
begin

text \<open>
  Bit strings, most significant bit first: the abstract content of a packet.  \<open>to_bits n v\<close>
  are the \<open>n\<close> low bits of \<open>v\<close>, \<open>of_bits\<close> reads a bit string as a number, and
  \<open>stream_bits\<close> is a byte array read as one bit string.
\<close>

type_synonym byte = "8 word"

definition to_bits :: "nat \<Rightarrow> int \<Rightarrow> bool list" where
  "to_bits n v = map (\<lambda>i. bit v (n - 1 - i)) [0..<n]"

definition of_bits :: "bool list \<Rightarrow> int" where
  "of_bits xs = foldl (\<lambda>a b. 2 * a + of_bool b) 0 xs"

definition byte_bits :: "byte \<Rightarrow> bool list" where
  "byte_bits b = map (\<lambda>i. bit b (7 - i)) [0..<8]"

definition stream_bits :: "byte list \<Rightarrow> bool list" where
  "stream_bits bs = concat (map byte_bits bs)"

section \<open>Bit strings and numbers\<close>

lemma length_to_bits [simp]: "length (to_bits n v) = n"
  by (simp add: to_bits_def)

lemma nth_to_bits [simp]: "i < n \<Longrightarrow> to_bits n v ! i = bit v (n - 1 - i)"
  by (simp add: to_bits_def)

lemma to_bits_0 [simp]: "to_bits 0 v = []"
  by (simp add: to_bits_def)

lemma of_bits_Nil [simp]: "of_bits [] = 0"
  by (simp add: of_bits_def)

lemma of_bits_snoc: "of_bits (xs @ [b]) = 2 * of_bits xs + of_bool b"
  by (simp add: of_bits_def)

lemma of_bits_append: "of_bits (xs @ ys) = of_bits xs * 2 ^ length ys + of_bits ys"
proof (induction ys rule: rev_induct)
  case Nil
  then show ?case by simp
next
  case (snoc y ys)
  have "of_bits (xs @ ys @ [y]) = 2 * of_bits (xs @ ys) + of_bool y"
    using of_bits_snoc[of "xs @ ys" y] by simp
  then show ?case using snoc by (simp add: of_bits_snoc algebra_simps)
qed

lemma of_bits_bounds: "0 \<le> of_bits xs \<and> of_bits xs < 2 ^ length xs"
  by (induction xs rule: rev_induct) (auto simp: of_bits_snoc)

lemmas of_bits_nonneg [simp] = of_bits_bounds[THEN conjunct1]
lemmas of_bits_less = of_bits_bounds[THEN conjunct2]

lemma bit_of_bits: "bit (of_bits xs) n \<longleftrightarrow> n < length xs \<and> xs ! (length xs - 1 - n)"
proof (induction xs arbitrary: n rule: rev_induct)
  case Nil
  then show ?case by simp
next
  case (snoc x xs)
  show ?case
  proof (cases n)
    case 0
    then show ?thesis by (simp add: of_bits_snoc bit_0)
  next
    case (Suc k)
    have "bit (2 * of_bits xs + of_bool x) (Suc k) = bit (of_bits xs) k"
      by (simp add: bit_Suc)
    then show ?thesis
      using snoc[of k] Suc by (auto simp: of_bits_snoc nth_append)
  qed
qed

lemma of_bits_eqI:
  assumes "\<And>n. bit k n \<longleftrightarrow> n < length xs \<and> xs ! (length xs - 1 - n)"
  shows "k = of_bits xs"
  by (rule bit_eqI) (simp add: assms bit_of_bits)

lemma of_bits_to_bits: "of_bits (to_bits n v) = take_bit n v"
  by (rule sym, rule of_bits_eqI) (auto simp: bit_take_bit_iff)

lemma of_bits_to_bits_id: "0 \<le> v \<Longrightarrow> v < 2 ^ n \<Longrightarrow> of_bits (to_bits n v) = v"
  by (simp add: of_bits_to_bits take_bit_int_eq_self_iff)

lemma to_bits_of_bits: "to_bits (length xs) (of_bits xs) = xs"
  by (rule nth_equalityI) (auto simp: bit_of_bits)

lemma to_bits_append: "to_bits (a + b) v = to_bits a (drop_bit b v) @ to_bits b v"
  by (rule nth_equalityI) (auto simp: nth_append bit_drop_bit_eq algebra_simps)

lemma to_bits_take_bit [simp]: "to_bits n (take_bit n v) = to_bits n v"
  by (rule nth_equalityI) (auto simp: bit_take_bit_iff)

section \<open>Byte arrays as bit strings\<close>

lemma length_byte_bits [simp]: "length (byte_bits b) = 8"
  by (simp add: byte_bits_def)

lemma nth_byte_bits [simp]: "i < 8 \<Longrightarrow> byte_bits b ! i = bit b (7 - i)"
  by (simp add: byte_bits_def)

lemma stream_bits_simps [simp]:
  "stream_bits [] = []"
  "stream_bits (b # bs) = byte_bits b @ stream_bits bs"
  "stream_bits (xs @ ys) = stream_bits xs @ stream_bits ys"
  by (simp_all add: stream_bits_def)

lemma length_stream_bits [simp]: "length (stream_bits bs) = 8 * length bs"
  by (induction bs) auto

lemma stream_bits_split:
  "k < length bs \<Longrightarrow>
     stream_bits bs = stream_bits (take k bs) @ byte_bits (bs ! k) @ stream_bits (drop (Suc k) bs)"
  using id_take_nth_drop[of k bs] stream_bits_simps(3) stream_bits_simps(2) by metis

lemma byte_bits_inject: "byte_bits a = byte_bits b \<Longrightarrow> a = b"
proof (rule bit_eqI)
  fix n assume h: "byte_bits a = byte_bits b" and "possible_bit TYPE(8 word) n"
  then have "n < 8" by simp
  then have "byte_bits a ! (7 - n) = byte_bits b ! (7 - n)" using h by simp
  then show "bit a n = bit b n" using \<open>n < 8\<close> by simp
qed

lemma stream_bits_inject:
  "length xs = length ys \<Longrightarrow> stream_bits xs = stream_bits ys \<Longrightarrow> xs = ys"
  by (induction xs ys rule: list_induct2) (auto dest: byte_bits_inject)

lemma drop_stream_bits:
  assumes "k < length bs" "p \<le> 8"
  shows "drop (8 * k + p) (stream_bits bs) = drop p (byte_bits (bs ! k)) @ stream_bits (drop (Suc k) bs)"
  using assms by (simp add: stream_bits_split[OF assms(1)])

lemma take_stream_bits:
  assumes "k < length bs" "p \<le> 8"
  shows "take (8 * k + p) (stream_bits bs) = stream_bits (take k bs) @ take p (byte_bits (bs ! k))"
  using assms by (simp add: stream_bits_split[OF assms(1)])

end
