(* ===== verification/Packing.thy ===== *)
theory Packing
  imports Bits
begin

text \<open>
  packing.go.  The bit position of a stream is a byte span (whose offset is the current
  byte) and the number \<open>pos\<close> of bits already used in that byte; \<open>dopack\<close> and \<open>unpack\<close> return
  both.  Each iteration of their loops handles at least one bit when \<open>0 \<le> pos \<le> 8\<close>, so
  \<open>bitno\<close> units of fuel are enough (\<open>dopack_written\<close>, \<open>unpack_read\<close>).
\<close>

abbreviation shl :: "int \<Rightarrow> int \<Rightarrow> int" where "shl v n \<equiv> push_bit (nat n) v"
abbreviation shr :: "int \<Rightarrow> int \<Rightarrow> int" where "shr v n \<equiv> drop_bit (nat n) v"

definition packsplit :: "int \<Rightarrow> int \<Rightarrow> int \<Rightarrow> int \<times> int" where
  "packsplit index bitnoFirstpart bitnoTotal =
     (let bitnoRest = bitnoTotal - bitnoFirstpart;
          firstpart = shr index bitnoRest
      in (firstpart, index - shl firstpart bitnoRest))"

definition packcombine :: "int \<Rightarrow> int \<Rightarrow> int \<Rightarrow> int" where
  "packcombine index rest bitnoRest = shl index bitnoRest + rest"

fun dopack_loop :: "nat \<Rightarrow> byte span \<Rightarrow> int \<Rightarrow> int \<Rightarrow> int \<Rightarrow> (byte span \<times> int) res" where
  "dopack_loop 0 bs index bitno pos = (if 0 < bitno then Panic Diverges else Ok (bs, pos))"
| "dopack_loop (Suc fuel) bs index bitno pos =
     (if 0 < bitno then
        bnd (if pos = 8
             then let bs' = add bs 1 in bnd (put bs' 0 0) (\<lambda>d. Ok (bs'\<lparr>sdata := d\<rparr>, 0))
             else Ok (bs, pos)) (\<lambda>(bs, pos).
        let posLeft = 8 - pos in
        bnd (at bs 0) (\<lambda>b.
        if bitno \<le> posLeft then
          bnd (put bs 0 (b OR word_of_int (shl index (posLeft - bitno)))) (\<lambda>d.
          dopack_loop fuel (bs\<lparr>sdata := d\<rparr>) index 0 (pos + bitno))
        else
          bnd (put bs 0 (b OR word_of_int (shr index (bitno - posLeft)))) (\<lambda>d.
          dopack_loop fuel (bs\<lparr>sdata := d\<rparr>)
            (index - shl (shr index (bitno - posLeft)) (bitno - posLeft))
            (bitno - posLeft) 8)))
      else Ok (bs, pos))"

definition dopack :: "byte span \<Rightarrow> int \<Rightarrow> int \<Rightarrow> int \<Rightarrow> (byte span \<times> int) res" where
  "dopack bitstream index bitno pos =
     bnd (if pos = 0 then bnd (put bitstream 0 0) (\<lambda>d. Ok (bitstream\<lparr>sdata := d\<rparr>))
          else Ok bitstream) (\<lambda>bs.
     dopack_loop (nat bitno) bs index bitno pos)"

fun unpack_loop :: "nat \<Rightarrow> byte span \<Rightarrow> int \<Rightarrow> int \<Rightarrow> int \<Rightarrow> (byte span \<times> int \<times> int) res" where
  "unpack_loop 0 bs index bitno pos =
     (if 0 < bitno then Panic Diverges else Ok (bs, pos, index))"
| "unpack_loop (Suc fuel) bs index bitno pos =
     (if 0 < bitno then
        let (bs, pos) = (if pos = 8 then (add bs 1, 0) else (bs, pos));
            bitsLeft = 8 - pos in
        bnd (at bs 0) (\<lambda>b.
        let v = shl (uint b) pos AND 255 in
        if bitno \<le> bitsLeft then
          unpack_loop fuel bs (index + shr v (8 - bitno)) 0 (pos + bitno)
        else
          unpack_loop fuel bs
            (index + (if 0 < 8 - bitno then shr v (8 - bitno) else shl v (bitno - 8)))
            (bitno - bitsLeft) 8)
      else Ok (bs, pos, index))"

definition unpack :: "byte span \<Rightarrow> int \<Rightarrow> int \<Rightarrow> (byte span \<times> int \<times> int) res" where
  "unpack bitstream bitno pos = unpack_loop (nat bitno) bitstream 0 bitno pos"

section \<open>Splitting and combining an index\<close>

lemma packsplit_eq:
  "0 \<le> a \<Longrightarrow> a \<le> n \<Longrightarrow> packsplit v a n = (drop_bit (nat (n - a)) v, take_bit (nat (n - a)) v)"
  by (simp add: packsplit_def Let_def push_bit_eq_mult drop_bit_eq_div take_bit_eq_mod
      minus_div_mult_eq_mod)

lemma packcombine_split:
  "packsplit v a n = (x, r) \<Longrightarrow> packcombine x r (n - a) = v"
  by (auto simp: packsplit_def packcombine_def Let_def)

section \<open>Writing\<close>

text \<open>
  \<open>written bs pos acc\<close>: the bits before the position are \<open>acc\<close>.  \<open>clean bs pos\<close>: the bits
  of the current byte after the position are zero, so that they can be or-ed in.
\<close>

definition bitpos :: "'a span \<Rightarrow> int \<Rightarrow> int" where
  "bitpos bs pos = 8 * soff bs + pos"

definition written :: "byte span \<Rightarrow> int \<Rightarrow> bool list \<Rightarrow> bool" where
  "written bs pos acc \<longleftrightarrow>
     0 \<le> soff bs \<and> soff bs < int (length (sdata bs)) \<and> 0 \<le> pos \<and> pos \<le> 8 \<and>
     acc = stream_bits (take (nat (soff bs)) (sdata bs)) @
           take (nat pos) (byte_bits (sdata bs ! nat (soff bs)))"

definition clean :: "byte span \<Rightarrow> int \<Rightarrow> bool" where
  "clean bs pos \<longleftrightarrow> (\<forall>n < nat (8 - pos). \<not> bit (sdata bs ! nat (soff bs)) n)"

text \<open>The two byte updates of \<open>dopack\<close>.\<close>

lemma byte_or_fits:
  assumes z: "\<forall>n < 8 - p. \<not> bit b n" and n: "k + p \<le> 8"
    and v: "0 \<le> v" "v < 2 ^ k"
  shows "take (p + k) (byte_bits (b OR word_of_int (push_bit (8 - p - k) v))) =
         take p (byte_bits b) @ to_bits k v"
proof (rule nth_equalityI)
  fix i assume "i < length (take (p + k) (byte_bits (b OR word_of_int (push_bit (8 - p - k) v))))"
  then have i: "i < p + k" "i < 8" by auto
  have hi: "\<not> bit v n" if "k \<le> n" for n
    using v that by (metis bit_take_bit_iff not_le take_bit_int_eq_self)
  show "take (p + k) (byte_bits (b OR word_of_int (push_bit (8 - p - k) v))) ! i =
        (take p (byte_bits b) @ to_bits k v) ! i"
  proof (cases "i < p")
    case True
    then have "\<not> bit v (7 - i - (8 - p - k))" using hi i n by simp
    then show ?thesis
      using True i n by (simp add: nth_append bit_or_iff bit_word_of_int_iff bit_push_bit_iff)
  next
    case False
    then have "\<not> bit b (7 - i)" using z i by simp
    moreover have "7 - i - (8 - p - k) = k - 1 - (i - p)" "8 - p - k \<le> 7 - i"
      using False i n by auto
    ultimately show ?thesis
      using False i n
      by (auto simp: nth_append bit_or_iff bit_word_of_int_iff bit_push_bit_iff add.commute)
  qed
qed (use n in auto)

lemma byte_or_low_zero:
  assumes "\<forall>n < 8 - p. \<not> bit (b :: byte) n" "k + p \<le> 8"
  shows "\<forall>n < 8 - (p + k). \<not> bit (b OR word_of_int (push_bit (8 - p - k) v)) n"
  using assms by (auto simp: bit_or_iff bit_word_of_int_iff bit_push_bit_iff)

text \<open>Updating the current byte keeps the bytes before it.\<close>

lemma written_update:
  assumes w: "written bs p acc"
    and b': "take (nat p') (byte_bits b') = take (nat p) (byte_bits (sdata bs ! nat (soff bs))) @ xs"
    and p': "0 \<le> p'" "p' \<le> 8"
  shows "written (bs\<lparr>sdata := (sdata bs)[nat (soff bs) := b']\<rparr>) p' (acc @ xs)"
  using assms by (auto simp: written_def)

lemma clean_update:
  assumes "written bs p acc" "\<forall>n < nat (8 - p'). \<not> bit b' n"
  shows "clean (bs\<lparr>sdata := (sdata bs)[nat (soff bs) := b']\<rparr>) p'"
  using assms by (auto simp: written_def clean_def)

text \<open>Moving on to the next byte when the current one is full.\<close>

lemma dopack_advance:
  assumes w: "written bs pos acc" and c: "clean bs pos"
    and room: "bitpos bs pos < 8 * int (length (sdata bs))"
  obtains bs1 p1 where
    "(if pos = 8
      then let bs' = add bs 1 in bnd (put bs' 0 0) (\<lambda>d. Ok (bs'\<lparr>sdata := d\<rparr>, 0))
      else Ok (bs, pos)) = Ok (bs1, p1)"
    "written bs1 p1 acc" "clean bs1 p1" "0 \<le> p1" "p1 < 8"
    "bitpos bs1 p1 = bitpos bs pos" "length (sdata bs1) = length (sdata bs)"
proof (cases "pos = 8")
  case True
  let ?bs1 = "(add bs 1)\<lparr>sdata := (sdata bs)[nat (soff bs + 1) := 0]\<rparr>"
  have r: "0 \<le> soff bs" "soff bs + 1 < int (length (sdata bs))"
    using w room True by (auto simp: written_def bitpos_def)
  have "stream_bits (take (nat (soff bs + 1)) (sdata bs)) = acc"
    using w True r by (auto simp: written_def nat_add_distrib take_Suc_conv_app_nth)
  then have "written ?bs1 0 acc" using r by (simp add: written_def)
  moreover have "clean ?bs1 0" using r by (simp add: clean_def)
  ultimately show thesis
    using that[of ?bs1 0] True r by (simp add: bitpos_def)
next
  case False
  then show thesis using that[of bs pos] w c by (simp add: written_def)
qed

lemma to_bits_split:
  "k \<le> n \<Longrightarrow> to_bits n v = to_bits (n - k) (drop_bit k v) @ to_bits k (take_bit k v)"
  using to_bits_append[of "n - k" k v] by simp

lemma dopack_loop_written:
  assumes "written bs pos acc" "clean bs pos" "0 \<le> v" "v < 2 ^ n"
    and "bitpos bs pos + int n \<le> 8 * int (length (sdata bs))" and "n \<le> fuel"
  shows "\<exists>bs' pos'. dopack_loop fuel bs v (int n) pos = Ok (bs', pos') \<and>
           written bs' pos' (acc @ to_bits n v) \<and> clean bs' pos' \<and>
           length (sdata bs') = length (sdata bs) \<and> bitpos bs' pos' = bitpos bs pos + int n"
  using assms
proof (induction fuel arbitrary: bs pos acc v n)
  case 0
  then show ?case by simp
next
  case (Suc fuel)
  show ?case
  proof (cases "n = 0")
    case True
    then show ?thesis using Suc.prems by simp
  next
    case False
    then have room: "bitpos bs pos < 8 * int (length (sdata bs))" using Suc.prems by simp
    obtain bs1 p1 where adv: "(if pos = 8
        then let bs' = add bs 1 in bnd (put bs' 0 0) (\<lambda>d. Ok (bs'\<lparr>sdata := d\<rparr>, 0))
        else Ok (bs, pos)) = Ok (bs1, p1)"
      and w: "written bs1 p1 acc" and c: "clean bs1 p1" and p1: "0 \<le> p1" "p1 < 8"
      and bp: "bitpos bs1 p1 = bitpos bs pos" and len: "length (sdata bs1) = length (sdata bs)"
      by (rule dopack_advance[OF Suc.prems(1,2) room])
    have in1: "0 \<le> soff bs1" "soff bs1 < int (length (sdata bs1))"
      using w by (auto simp: written_def)
    let ?b = "sdata bs1 ! nat (soff bs1)" and ?p = "nat p1"
    have z: "\<forall>n < 8 - ?p. \<not> bit ?b n" using c p1 by (simp add: clean_def nat_diff_distrib)
    show ?thesis
    proof (cases "int n \<le> 8 - p1")
      case fits: True
      let ?b' = "?b OR word_of_int (push_bit (8 - ?p - n) v)"
      let ?bs2 = "bs1\<lparr>sdata := (sdata bs1)[nat (soff bs1) := ?b']\<rparr>"
      have e: "nat (8 - p1 - int n) = 8 - ?p - n" "nat (p1 + int n) = ?p + n" "n + ?p \<le> 8"
        "nat (8 - (p1 + int n)) = 8 - (?p + n)"
        using fits p1 by auto
      have "written ?bs2 (p1 + int n) (acc @ to_bits n v)"
        by (rule written_update[OF w])
          (use byte_or_fits[OF z e(3) Suc.prems(3,4)] e fits p1 in auto)
      moreover have "clean ?bs2 (p1 + int n)"
        by (rule clean_update[OF w]) (use byte_or_low_zero[OF z e(3)] e in auto)
      moreover have "dopack_loop fuel ?bs2 v 0 (p1 + int n) = Ok (?bs2, p1 + int n)"
        by (cases fuel) auto
      ultimately show ?thesis
        using False adv fits in1 len bp by (simp add: e bitpos_def)
    next
      case over: False
      let ?k = "n - (8 - ?p)"
      let ?b' = "?b OR word_of_int (push_bit (8 - ?p - (8 - ?p)) (drop_bit ?k v))"
      let ?bs2 = "bs1\<lparr>sdata := (sdata bs1)[nat (soff bs1) := ?b']\<rparr>"
      have e: "nat (int n - (8 - p1)) = ?k" "int n - (8 - p1) = int ?k" "n - ?k = 8 - ?p"
        "?k \<le> n" "8 - ?p + ?p \<le> 8" "0 < 8 - ?p" "int (8 - ?p) = 8 - p1"
        using over p1 by auto
      have dv: "0 \<le> drop_bit ?k v" "drop_bit ?k v < 2 ^ (8 - ?p)"
      proof -
        have "v < 2 ^ ?k * 2 ^ (8 - ?p)" using Suc.prems(4) e by (simp flip: power_add)
        then show "drop_bit ?k v < 2 ^ (8 - ?p)"
          by (simp add: drop_bit_eq_div int_div_less mult.commute)
      qed (use Suc.prems(3) in simp)
      have rest: "v - push_bit ?k (drop_bit ?k v) = take_bit ?k v"
        by (simp add: push_bit_eq_mult drop_bit_eq_div take_bit_eq_mod minus_div_mult_eq_mod)
      have w2: "written ?bs2 8 (acc @ to_bits (8 - ?p) (drop_bit ?k v))"
        by (rule written_update[OF w]) (use byte_or_fits[OF z e(5) dv] p1 in auto)
      have c2: "clean ?bs2 8" by (simp add: clean_def)
      have room2: "bitpos ?bs2 8 + int ?k \<le> 8 * int (length (sdata ?bs2))"
        using Suc.prems(5) bp len over e by (simp add: bitpos_def)
      obtain bs' pos' where IH: "dopack_loop fuel ?bs2 (take_bit ?k v) (int ?k) 8 = Ok (bs', pos')"
        "written bs' pos' ((acc @ to_bits (8 - ?p) (drop_bit ?k v)) @ to_bits ?k (take_bit ?k v))"
        "clean bs' pos'" "length (sdata bs') = length (sdata ?bs2)"
        "bitpos bs' pos' = bitpos ?bs2 8 + int ?k"
      proof -
        have "?k \<le> fuel" using Suc.prems(6) e(6) False by simp
        with Suc.IH[OF w2 c2 _ _ room2] that show thesis by (meson take_bit_nonnegative take_bit_int_less_exp)
      qed
      have "dopack_loop (Suc fuel) bs v (int n) pos = Ok (bs', pos')"
        using False adv over in1 IH(1) unfolding dopack_loop.simps
        by (simp only: e(1,2) rest bnd.simps split: if_split) (simp add: Let_def at_def put_def e(1,7) rest)
      moreover have "written bs' pos' (acc @ to_bits n v)"
        using IH(2) to_bits_split[OF e(4), of v] e(3) by simp
      moreover have "bitpos bs' pos' = bitpos bs pos + int n"
        using IH(5) bp over p1 by (simp add: bitpos_def)
      ultimately show ?thesis using IH(3,4) len by simp
    qed
  qed
qed

lemma dopack_written:
  assumes "written bs pos acc" "0 < pos \<Longrightarrow> clean bs pos" "0 \<le> v" "v < 2 ^ nat bitno" "0 \<le> bitno"
    and "bitpos bs pos + bitno \<le> 8 * int (length (sdata bs))"
  shows "\<exists>bs' pos'. dopack bs v bitno pos = Ok (bs', pos') \<and>
           written bs' pos' (acc @ to_bits (nat bitno) v) \<and> clean bs' pos' \<and>
           length (sdata bs') = length (sdata bs) \<and> bitpos bs' pos' = bitpos bs pos + bitno"
proof (cases "pos = 0")
  case True
  let ?bs = "bs\<lparr>sdata := (sdata bs)[nat (soff bs) := 0]\<rparr>"
  have in0: "0 \<le> soff bs" "soff bs < int (length (sdata bs))"
    using assms(1) by (auto simp: written_def)
  have "written ?bs 0 acc" using assms(1) True by (simp add: written_def)
  moreover have "clean ?bs 0" using in0 by (simp add: clean_def)
  ultimately show ?thesis
    using dopack_loop_written[of ?bs 0 acc v "nat bitno" "nat bitno"] assms True in0
    by (simp add: dopack_def bitpos_def)
next
  case False
  then have "clean bs pos" using assms(1,2) by (simp add: written_def)
  then show ?thesis
    using dopack_loop_written[of bs pos acc v "nat bitno" "nat bitno"] assms False
    by (simp add: dopack_def)
qed

section \<open>Reading\<close>

definition readable :: "byte span \<Rightarrow> int \<Rightarrow> bool" where
  "readable bs pos \<longleftrightarrow>
     0 \<le> soff bs \<and> soff bs < int (length (sdata bs)) \<and> 0 \<le> pos \<and> pos \<le> 8"

lemma shifted_byte_bits:
  "bit (push_bit p (uint (b :: byte)) AND 255) n \<longleftrightarrow> p \<le> n \<and> n < 8 \<and> bit b (n - p)"
proof -
  have m: "(255 :: int) = mask 8" by (simp add: mask_eq_exp_minus_1)
  have "bit (255 :: int) n \<longleftrightarrow> n < 8"
    unfolding m bit_mask_iff by simp
  then show ?thesis by (auto simp: bit_and_iff bit_push_bit_iff bit_uint_iff)
qed

lemma chunk_fits:
  assumes v: "\<And>n. bit v n \<longleftrightarrow> p \<le> n \<and> n < 8 \<and> bit b (n - p)" and "p \<le> 8" "n \<le> 8 - p"
  shows "drop_bit (8 - n) v = of_bits (take n (drop p (byte_bits b)))"
proof (rule of_bits_eqI)
  fix i
  have "8 - n + i - p = 7 - (p + (n - 1 - i))" if "i < n" using that assms(2,3) by simp
  then show "bit (drop_bit (8 - n) v) i \<longleftrightarrow>
        i < length (take n (drop p (byte_bits b))) \<and>
        take n (drop p (byte_bits b)) ! (length (take n (drop p (byte_bits b))) - 1 - i)"
    using assms(2,3) by (auto simp: bit_drop_bit_eq v min_def)
qed

lemma chunk_over:
  assumes v: "\<And>n. bit v n \<longleftrightarrow> p \<le> n \<and> n < 8 \<and> bit b (n - p)" and "p < 8" "8 - p < n"
  shows "(if n < 8 then drop_bit (8 - n) v else push_bit (n - 8) v)
         = of_bits (drop p (byte_bits b)) * 2 ^ (n - (8 - p))"
proof -
  have c: "drop_bit p v = of_bits (drop p (byte_bits b))"
    using chunk_fits[OF v, of "8 - p"] assms(2) by simp
  have "push_bit (n - (8 - p)) (drop_bit p v) =
        (if n < 8 then drop_bit (8 - n) v else push_bit (n - 8) v)"
  proof (rule bit_eqI)
    fix i
    let ?d = "n - (8 - p)"
    have "bit (push_bit ?d (drop_bit p v)) i \<longleftrightarrow> ?d \<le> i \<and> i - ?d + p < 8 \<and> bit b (i - ?d)"
      by (auto simp: bit_push_bit_iff bit_drop_bit_eq v)
    moreover have "bit (if n < 8 then drop_bit (8 - n) v else push_bit (n - 8) v) i \<longleftrightarrow>
        ?d \<le> i \<and> i - ?d + p < 8 \<and> bit b (i - ?d)"
    proof (cases "n < 8")
      case True
      then have "8 - n + i - p = i - ?d" "p \<le> 8 - n + i \<longleftrightarrow> ?d \<le> i"
        using assms(2,3) by auto
      moreover have "8 - n + i < 8 \<longleftrightarrow> i - ?d + p < 8" if "?d \<le> i"
        using that True assms(2,3) by auto
      ultimately show ?thesis using True by (auto simp: bit_drop_bit_eq v)
    next
      case False
      then have "i - (n - 8) - p = i - ?d" using assms(2,3) by auto
      moreover have "n - 8 \<le> i \<and> p \<le> i - (n - 8) \<and> i - (n - 8) < 8 \<longleftrightarrow> ?d \<le> i \<and> i - ?d + p < 8"
        using False assms(2,3) by auto
      ultimately show ?thesis using False by (auto simp: bit_push_bit_iff v)
    qed
    ultimately show "bit (push_bit ?d (drop_bit p v)) i =
        bit (if n < 8 then drop_bit (8 - n) v else push_bit (n - 8) v) i" by simp
  qed
  then show ?thesis using c by (simp add: push_bit_eq_mult)
qed

lemma readable_advance:
  assumes r: "readable bs pos" and room: "bitpos bs pos < 8 * int (length (sdata bs))"
  obtains bs1 p1 where "(if pos = 8 then (add bs 1, 0) else (bs, pos)) = (bs1, p1)"
    "readable bs1 p1" "p1 < 8" "sdata bs1 = sdata bs" "bitpos bs1 p1 = bitpos bs pos"
proof (cases "pos = 8")
  case True
  then show thesis using that[of "add bs 1" 0] assms by (simp add: readable_def bitpos_def)
next
  case False
  then show thesis using that[of bs pos] assms by (simp add: readable_def)
qed

lemma unpack_loop_read:
  assumes "readable bs pos" "bitpos bs pos + int n \<le> 8 * int (length (sdata bs))" "n \<le> fuel"
  shows "\<exists>bs' pos'. unpack_loop fuel bs k (int n) pos =
             Ok (bs', pos', k + of_bits (take n (drop (nat (bitpos bs pos)) (stream_bits (sdata bs))))) \<and>
           readable bs' pos' \<and> sdata bs' = sdata bs \<and> bitpos bs' pos' = bitpos bs pos + int n"
  using assms
proof (induction fuel arbitrary: bs pos n k)
  case 0
  then show ?case by simp
next
  case (Suc fuel)
  show ?case
  proof (cases "n = 0")
    case True
    then show ?thesis using Suc.prems by simp
  next
    case False
    then have room: "bitpos bs pos < 8 * int (length (sdata bs))" using Suc.prems by simp
    obtain bs1 p1 where adv: "(if pos = 8 then (add bs 1, 0) else (bs, pos)) = (bs1, p1)"
      and r1: "readable bs1 p1" and p1: "p1 < 8" and d1: "sdata bs1 = sdata bs"
      and bp: "bitpos bs1 p1 = bitpos bs pos"
      by (rule readable_advance[OF Suc.prems(1) room])
    have in1: "0 \<le> soff bs1" "soff bs1 < int (length (sdata bs1))" "0 \<le> p1"
      using r1 by (auto simp: readable_def)
    let ?b = "sdata bs1 ! nat (soff bs1)" and ?p = "nat p1"
    have "nat (bitpos bs pos) = 8 * nat (soff bs1) + ?p"
      using in1 by (simp flip: bp) (simp add: bitpos_def nat_add_distrib nat_mult_distrib)
    then have tail: "drop (nat (bitpos bs pos)) (stream_bits (sdata bs)) =
        drop ?p (byte_bits ?b) @ stream_bits (drop (Suc (nat (soff bs1))) (sdata bs))"
      using drop_stream_bits[of "nat (soff bs1)" "sdata bs" ?p] in1 p1 d1 by simp
    show ?thesis
    proof (cases "int n \<le> 8 - p1")
      case fits: True
      have e: "nat (8 - int n) = 8 - n" "?p \<le> 8" "n \<le> 8 - ?p" using fits p1 in1 by auto
      have "unpack_loop fuel bs1 k' 0 (p1 + int n) = Ok (bs1, p1 + int n, k')" for k'
        by (cases fuel) auto
      moreover have "bitpos bs1 (p1 + int n) = bitpos bs pos + int n"
        using bp by (simp add: bitpos_def)
      ultimately show ?thesis
        using False adv fits in1 r1 d1 chunk_fits[OF shifted_byte_bits e(2,3), of ?b] e
        by (simp add: tail readable_def)
    next
      case over: False
      let ?m = "n - (8 - ?p)"
      have e: "8 - ?p < n" "?p < 8" "int n - (8 - p1) = int ?m" "nat (8 - int n) = 8 - n"
        "nat (int n - 8) = n - 8" "(0 < 8 - int n) = (n < 8)"
        using over p1 in1 by auto
      have bp8: "bitpos bs1 8 = bitpos bs pos + (8 - p1)" using bp by (simp add: bitpos_def)
      have r8: "readable bs1 8" using r1 by (simp add: readable_def)
      have room8: "bitpos bs1 8 + int ?m \<le> 8 * int (length (sdata bs1))"
        using Suc.prems(2) bp8 d1 e(3) in1 by simp
      have "nat (bitpos bs1 8) = 8 * nat (soff bs1) + 8"
        using in1 by (simp add: bitpos_def nat_add_distrib nat_mult_distrib)
      then have tail8: "drop (nat (bitpos bs1 8)) (stream_bits (sdata bs1)) =
          stream_bits (drop (Suc (nat (soff bs1))) (sdata bs))"
        using drop_stream_bits[of "nat (soff bs1)" "sdata bs" 8] in1 d1 by simp
      let ?c = "of_bits (drop ?p (byte_bits ?b)) * 2 ^ ?m"
      have len: "length (stream_bits (drop (Suc (nat (soff bs1))) (sdata bs))) \<ge> ?m"
        using Suc.prems(2) bp in1 d1 p1 unfolding bitpos_def by (simp add: of_nat_diff)
      obtain bs' pos' where IH: "unpack_loop fuel bs1 (k + ?c) (int ?m) 8 =
             Ok (bs', pos', k + ?c + of_bits (take ?m (drop (nat (bitpos bs1 8)) (stream_bits (sdata bs1)))))"
        "readable bs' pos'" "sdata bs' = sdata bs1" "bitpos bs' pos' = bitpos bs1 8 + int ?m"
      proof -
        have "?m \<le> fuel" using Suc.prems(3) e(2) False by simp
        with Suc.IH[OF r8 room8] that show thesis by meson
      qed
      have val: "of_bits (take n (drop (nat (bitpos bs pos)) (stream_bits (sdata bs)))) =
          ?c + of_bits (take ?m (stream_bits (drop (Suc (nat (soff bs1))) (sdata bs))))"
        unfolding tail using e(1,2) len by (simp add: of_bits_append)
      have "unpack_loop (Suc fuel) bs k (int n) pos =
          unpack_loop fuel bs1 (k + ?c) (int n - (8 - p1)) 8"
        using False adv over in1 e(4,5,6) chunk_over[OF shifted_byte_bits e(2,1), of ?b]
        by (simp add: Let_def del: push_bit_and drop_bit_and split del: if_split cong: if_cong)
      then have "unpack_loop (Suc fuel) bs k (int n) pos = Ok (bs', pos',
          k + of_bits (take n (drop (nat (bitpos bs pos)) (stream_bits (sdata bs)))))"
        unfolding e(3) IH(1) tail8 val by (simp only: add.assoc)
      moreover have "bitpos bs' pos' = bitpos bs pos + int n"
        using IH(4) bp8 e(3) by linarith
      moreover have "sdata bs' = sdata bs" using IH(3) d1 by (rule trans)
      ultimately show ?thesis using IH(2) by blast
    qed
  qed
qed

lemma unpack_read:
  assumes "readable bs pos" "0 \<le> bitno" "bitpos bs pos + bitno \<le> 8 * int (length (sdata bs))"
  shows "\<exists>bs' pos'. unpack bs bitno pos =
             Ok (bs', pos', of_bits (take (nat bitno) (drop (nat (bitpos bs pos)) (stream_bits (sdata bs))))) \<and>
           readable bs' pos' \<and> sdata bs' = sdata bs \<and> bitpos bs' pos' = bitpos bs pos + bitno"
  using unpack_loop_read[of bs pos "nat bitno" "nat bitno" 0] assms by (simp add: unpack_def)

end
