(* ===== verification/Bitstream.thy ===== *)
theory Bitstream
  imports Packing
begin

text \<open>
  The bit stream of one frame: the loops of \<open>encodeFrame\<close> that write every index and those of
  \<open>decodeFrame\<close> that read them back.  Both run three times over all indices, once per
  ULP class, in the same order; \<open>frame_pass\<close> is that loop nest over an operation on one index,
  \<open>emit\<close> (split off the bits of this class and write them) or \<open>fetch\<close> (read the bits of this
  class and append them).

  The locales \<open>bit_writer\<close> and \<open>bit_reader\<close> state what a pass needs of the bit packer;
  their interpretations are \<open>dopack\<close> and \<open>unpack\<close>.
\<close>

section \<open>The indices of a frame\<close>

record frame =
  lsfI :: "int list"
  start :: int
  stateFirst :: int
  idxForMax :: int
  idxVec :: "int list"
  extraCbIndex :: "int list"
  extraGainIndex :: "int list"
  cbIndex :: "int list"
  gainIndex :: "int list"

definition zero_frame :: frame where
  "zero_frame = \<lparr>lsfI = replicate 6 0, start = 0, stateFirst = 0, idxForMax = 0,
     idxVec = replicate 80 0, extraCbIndex = replicate 3 0, extraGainIndex = replicate 3 0,
     cbIndex = replicate 12 0, gainIndex = replicate 12 0\<rparr>"

type_synonym 's index_op = "int \<Rightarrow> int list \<Rightarrow> int \<Rightarrow> 's \<Rightarrow> (int \<times> 's) res"

definition emit :: "(byte span \<times> int) index_op" where
  "emit v bits ulp = (\<lambda>(bs, pos).
     bnd (idx bits ulp) (\<lambda>a.
     bnd (idx bits (ulp + 1)) (\<lambda>b.
     bnd (idx bits (ulp + 2)) (\<lambda>c.
     let (firstpart, rest) = packsplit v a (a + b + c) in
     bnd (dopack bs firstpart a pos) (\<lambda>st.
     Ok (rest, st))))))"

definition fetch :: "(byte span \<times> int) index_op" where
  "fetch v bits ulp = (\<lambda>(bs, pos).
     bnd (idx bits ulp) (\<lambda>a.
     bnd (unpack bs a pos) (\<lambda>(bs, pos, lastpart).
     Ok (packcombine v lastpart a, (bs, pos)))))"

definition index_at :: "'s index_op \<Rightarrow> int list \<Rightarrow> int \<Rightarrow> int list \<Rightarrow> int \<Rightarrow> 's \<Rightarrow> (int list \<times> 's) res" where
  "index_at f bits ulp xs k st =
     bnd (idx xs k) (\<lambda>v.
     bnd (f v bits ulp st) (\<lambda>(v, st).
     bnd (upd xs k v) (\<lambda>xs.
     Ok (xs, st))))"

definition frame_pass ::
  "'s index_op \<Rightarrow> ulpLayout \<Rightarrow> int \<Rightarrow> int \<Rightarrow> int \<Rightarrow> int \<Rightarrow> frame \<times> 's \<Rightarrow> (frame \<times> 's) res" where
  "frame_pass f L lpcAnalyses shortStateSamples adaptiveSubframes ulp s =
     bnd (for_up 0 (3 * lpcAnalyses) (\<lambda>k (fr, st).
       bnd (idx (lsfBits L) k) (\<lambda>bits.
       bnd (index_at f bits ulp (lsfI fr) k st) (\<lambda>(xs, st).
       Ok (fr\<lparr>lsfI := xs\<rparr>, st)))) s) (\<lambda>(fr, st).
     bnd (f (start fr) (startBits L) ulp st) (\<lambda>(v, st).
     let fr = fr\<lparr>start := v\<rparr> in
     bnd (f (stateFirst fr) (startfirstBits L) ulp st) (\<lambda>(v, st).
     let fr = fr\<lparr>stateFirst := v\<rparr> in
     bnd (f (idxForMax fr) (scaleBits L) ulp st) (\<lambda>(v, st).
     let fr = fr\<lparr>idxForMax := v\<rparr> in
     bnd (for_up 0 shortStateSamples (\<lambda>k (fr, st).
       bnd (index_at f (stateBits L) ulp (idxVec fr) k st) (\<lambda>(xs, st).
       Ok (fr\<lparr>idxVec := xs\<rparr>, st))) (fr, st)) (\<lambda>s.
     bnd (for_up 0 3 (\<lambda>k (fr, st).
       bnd (idx (ulp_extraCbIndex L) k) (\<lambda>bits.
       bnd (index_at f bits ulp (extraCbIndex fr) k st) (\<lambda>(xs, st).
       Ok (fr\<lparr>extraCbIndex := xs\<rparr>, st)))) s) (\<lambda>s.
     bnd (for_up 0 3 (\<lambda>k (fr, st).
       bnd (idx (ulp_extraCbGain L) k) (\<lambda>bits.
       bnd (index_at f bits ulp (extraGainIndex fr) k st) (\<lambda>(xs, st).
       Ok (fr\<lparr>extraGainIndex := xs\<rparr>, st)))) s) (\<lambda>s.
     bnd (for_up 0 adaptiveSubframes (\<lambda>i. for_up 0 3 (\<lambda>k (fr, st).
       bnd (idx (ulp_cbIndex L) i) (\<lambda>row.
       bnd (idx row k) (\<lambda>bits.
       bnd (index_at f bits ulp (cbIndex fr) (i * 3 + k) st) (\<lambda>(xs, st).
       Ok (fr\<lparr>cbIndex := xs\<rparr>, st)))))) s) (\<lambda>s.
     for_up 0 adaptiveSubframes (\<lambda>i. for_up 0 3 (\<lambda>k (fr, st).
       bnd (idx (ulp_cbGain L) i) (\<lambda>row.
       bnd (idx row k) (\<lambda>bits.
       bnd (index_at f bits ulp (gainIndex fr) (i * 3 + k) st) (\<lambda>(xs, st).
       Ok (fr\<lparr>gainIndex := xs\<rparr>, st)))))) s))))))))"

definition packFrame ::
  "ulpLayout \<Rightarrow> int \<Rightarrow> int \<Rightarrow> int \<Rightarrow> frame \<Rightarrow> byte list \<Rightarrow> byte list res" where
  "packFrame L lpcAnalyses shortStateSamples adaptiveSubframes fr bytes =
     bnd (for_up 0 3 (frame_pass emit L lpcAnalyses shortStateSamples adaptiveSubframes)
       (fr, (mk bytes 0, 0))) (\<lambda>(fr, (bs, pos)).
     bnd (dopack bs 0 1 pos) (\<lambda>(bs, pos).
     Ok (sdata bs)))"

text \<open>The result of reading is the frame and the last bit.\<close>

definition unpackFrame ::
  "ulpLayout \<Rightarrow> int \<Rightarrow> int \<Rightarrow> int \<Rightarrow> byte list \<Rightarrow> (frame \<times> int) res" where
  "unpackFrame L lpcAnalyses shortStateSamples adaptiveSubframes bytes =
     bnd (for_up 0 3 (frame_pass fetch L lpcAnalyses shortStateSamples adaptiveSubframes)
       (zero_frame, (mk bytes 0, 0))) (\<lambda>(fr, (bs, pos)).
     bnd (unpack bs 1 pos) (\<lambda>(bs, pos, lastBit).
     Ok (fr, lastBit)))"

section \<open>The slots of a pass\<close>

text \<open>
  A pass visits a fixed list of slots: an index of the frame and its five bit counts.
\<close>

datatype field =
    FLsf int | FStart | FStateFirst | FScale | FState int
  | FExtraCb int | FExtraGain int | FCb int | FGain int

fun fget :: "frame \<Rightarrow> field \<Rightarrow> int" where
  "fget fr (FLsf k) = lsfI fr ! nat k"
| "fget fr FStart = start fr"
| "fget fr FStateFirst = stateFirst fr"
| "fget fr FScale = idxForMax fr"
| "fget fr (FState k) = idxVec fr ! nat k"
| "fget fr (FExtraCb k) = extraCbIndex fr ! nat k"
| "fget fr (FExtraGain k) = extraGainIndex fr ! nat k"
| "fget fr (FCb k) = cbIndex fr ! nat k"
| "fget fr (FGain k) = gainIndex fr ! nat k"

fun fset :: "frame \<Rightarrow> field \<Rightarrow> int \<Rightarrow> frame" where
  "fset fr (FLsf k) v = fr\<lparr>lsfI := (lsfI fr)[nat k := v]\<rparr>"
| "fset fr FStart v = fr\<lparr>start := v\<rparr>"
| "fset fr FStateFirst v = fr\<lparr>stateFirst := v\<rparr>"
| "fset fr FScale v = fr\<lparr>idxForMax := v\<rparr>"
| "fset fr (FState k) v = fr\<lparr>idxVec := (idxVec fr)[nat k := v]\<rparr>"
| "fset fr (FExtraCb k) v = fr\<lparr>extraCbIndex := (extraCbIndex fr)[nat k := v]\<rparr>"
| "fset fr (FExtraGain k) v = fr\<lparr>extraGainIndex := (extraGainIndex fr)[nat k := v]\<rparr>"
| "fset fr (FCb k) v = fr\<lparr>cbIndex := (cbIndex fr)[nat k := v]\<rparr>"
| "fset fr (FGain k) v = fr\<lparr>gainIndex := (gainIndex fr)[nat k := v]\<rparr>"

fun fvalid :: "field \<Rightarrow> bool" where
  "fvalid (FLsf k) = (0 \<le> k \<and> k < 6)"
| "fvalid (FState k) = (0 \<le> k \<and> k < 80)"
| "fvalid (FExtraCb k) = (0 \<le> k \<and> k < 3)"
| "fvalid (FExtraGain k) = (0 \<le> k \<and> k < 3)"
| "fvalid (FCb k) = (0 \<le> k \<and> k < 12)"
| "fvalid (FGain k) = (0 \<le> k \<and> k < 12)"
| "fvalid _ = True"

definition frame_shape :: "frame \<Rightarrow> bool" where
  "frame_shape fr \<longleftrightarrow> length (lsfI fr) = 6 \<and> length (idxVec fr) = 80 \<and>
     length (extraCbIndex fr) = 3 \<and> length (extraGainIndex fr) = 3 \<and>
     length (cbIndex fr) = 12 \<and> length (gainIndex fr) = 12"

lemma fget_fset:
  "frame_shape fr \<Longrightarrow> fvalid x \<Longrightarrow> fvalid y \<Longrightarrow>
     fget (fset fr x v) y = (if x = y then v else fget fr y)"
  by (cases x; cases y) (auto simp: frame_shape_def nth_list_update)

lemma frame_shape_fset [simp]: "frame_shape (fset fr x v) = frame_shape fr"
  by (cases x) (auto simp: frame_shape_def)

lemma frame_shape_zero [simp]: "frame_shape zero_frame"
  by (simp add: frame_shape_def zero_frame_def)

lemma fget_zero [simp]: "fvalid x \<Longrightarrow> fget zero_frame x = 0"
  by (cases x) (auto simp: zero_frame_def)

lemma int_list_eqI:
  assumes "length xs = n" "length ys = n"
    and "\<And>k. 0 \<le> k \<Longrightarrow> k < int n \<Longrightarrow> xs ! nat k = ys ! nat k"
  shows "xs = ys"
  by (rule nth_equalityI) (use assms assms(3)[of "int i" for i] in auto)

lemma frame_eqI:
  assumes "frame_shape a" "frame_shape b" "\<And>x. fvalid x \<Longrightarrow> fget a x = fget b x"
  shows "(a :: frame) = b"
proof (rule frame.equality)
  note sh = assms(1,2)[unfolded frame_shape_def]
  show "lsfI a = lsfI b"
    by (rule int_list_eqI[of _ 6]) (use sh assms(3)[of "FLsf k" for k] in auto)
  show "idxVec a = idxVec b"
    by (rule int_list_eqI[of _ 80]) (use sh assms(3)[of "FState k" for k] in auto)
  show "extraCbIndex a = extraCbIndex b"
    by (rule int_list_eqI[of _ 3]) (use sh assms(3)[of "FExtraCb k" for k] in auto)
  show "extraGainIndex a = extraGainIndex b"
    by (rule int_list_eqI[of _ 3]) (use sh assms(3)[of "FExtraGain k" for k] in auto)
  show "cbIndex a = cbIndex b"
    by (rule int_list_eqI[of _ 12]) (use sh assms(3)[of "FCb k" for k] in auto)
  show "gainIndex a = gainIndex b"
    by (rule int_list_eqI[of _ 12]) (use sh assms(3)[of "FGain k" for k] in auto)
  show "start a = start b" "stateFirst a = stateFirst b" "idxForMax a = idxForMax b"
    using assms(3)[of FStart] assms(3)[of FStateFirst] assms(3)[of FScale] by simp_all
qed simp

type_synonym slot = "field \<times> int list"

definition slots :: "ulpLayout \<Rightarrow> int \<Rightarrow> int \<Rightarrow> int \<Rightarrow> slot list" where
  "slots L nl ns na =
     map (\<lambda>k. (FLsf k, lsfBits L ! nat k)) [0..3 * nl - 1] @
     [(FStart, startBits L), (FStateFirst, startfirstBits L), (FScale, scaleBits L)] @
     map (\<lambda>k. (FState k, stateBits L)) [0..ns - 1] @
     map (\<lambda>k. (FExtraCb k, ulp_extraCbIndex L ! nat k)) [0..2] @
     map (\<lambda>k. (FExtraGain k, ulp_extraCbGain L ! nat k)) [0..2] @
     concat (map (\<lambda>i. map (\<lambda>k. (FCb (i * 3 + k), ulp_cbIndex L ! nat i ! nat k)) [0..2]) [0..na - 1]) @
     concat (map (\<lambda>i. map (\<lambda>k. (FGain (i * 3 + k), ulp_cbGain L ! nat i ! nat k)) [0..2]) [0..na - 1])"

definition slot_step :: "'s index_op \<Rightarrow> int \<Rightarrow> slot \<Rightarrow> frame \<times> 's \<Rightarrow> (frame \<times> 's) res" where
  "slot_step f ulp sl s =
     bnd (f (fget (fst s) (fst sl)) (snd sl) ulp (snd s)) (\<lambda>(v, st).
     Ok (fset (fst s) (fst sl) v, st))"

text \<open>The shape of a layout with room for the given numbers of indices.\<close>

definition layout_shape :: "ulpLayout \<Rightarrow> int \<Rightarrow> bool" where
  "layout_shape L na \<longleftrightarrow> length (lsfBits L) = 6 \<and> length (ulp_extraCbIndex L) = 3 \<and>
     length (ulp_extraCbGain L) = 3 \<and> na \<le> int (length (ulp_cbIndex L)) \<and>
     na \<le> int (length (ulp_cbGain L)) \<and>
     (\<forall>row \<in> set (ulp_cbIndex L) \<union> set (ulp_cbGain L). length row = 3)"

lemma slot_step_shape:
  "frame_shape (fst s) \<Longrightarrow> slot_step f ulp x s = Ok s' \<Longrightarrow> frame_shape (fst s')"
  by (auto simp: slot_step_def bnd_eq_Ok)

lemma foldM_slots_shape:
  "frame_shape (fst s) \<Longrightarrow> foldM (slot_step f ulp) xs s = Ok s' \<Longrightarrow> frame_shape (fst s')"
  by (rule foldM_inv[of xs "\<lambda>s. frame_shape (fst s)" "slot_step f ulp" s])
    (auto intro: slot_step_shape)

lemma index_at_in:
  "0 \<le> k \<Longrightarrow> k < int (length xs) \<Longrightarrow>
     index_at f bits ulp xs k st =
       bnd (f (xs ! nat k) bits ulp st) (\<lambda>(v, st). Ok (xs[nat k := v], st))"
  by (simp add: index_at_def split_beta)

lemma for_up_rows:
  assumes "\<And>k s. lo \<le> k \<Longrightarrow> k < hi \<Longrightarrow> frame_shape (fst s) \<Longrightarrow>
      body k s = foldM (slot_step f ulp) (g k) s"
    and "frame_shape (fst s)"
  shows "for_up lo hi body s = foldM (slot_step f ulp) (concat (map g [lo..hi - 1])) s"
  by (rule for_up_foldM[where P = "\<lambda>s. frame_shape (fst s)"])
    (use assms in \<open>auto intro: slot_step_shape\<close>)

lemma for_up_slots:
  assumes "\<And>k s. lo \<le> k \<Longrightarrow> k < hi \<Longrightarrow> frame_shape (fst s) \<Longrightarrow> body k s = slot_step f ulp (g k) s"
    and "frame_shape (fst s)" and "hi' = hi - 1"
  shows "for_up lo hi body s = foldM (slot_step f ulp) (map g [lo..hi']) s"
  using for_up_rows[where g = "\<lambda>k. [g k]" and body = body, of lo hi f ulp s] assms by simp

text \<open>The loop nest of the code visits exactly the slots, in this order.\<close>

lemma frame_pass_slots:
  assumes sh: "frame_shape (fst s)" and L: "layout_shape L na" and "nl \<le> 2" "ns \<le> 80" "na \<le> 4"
  shows "frame_pass f L nl ns na ulp s = foldM (slot_step f ulp) (slots L nl ns na) s"
proof -
  note simps = slot_step_def index_at_in frame_shape_def bnd_assoc case_prod_unfold
  have rows: "length (ulp_cbIndex L ! nat i) = 3" "length (ulp_cbGain L ! nat i) = 3"
    if "0 \<le> i" "i < na" for i
    using that L by (auto simp: layout_shape_def nat_less_iff)
  have A: "for_up 0 (3 * nl) (\<lambda>k (fr, st).
       bnd (idx (lsfBits L) k) (\<lambda>bits.
       bnd (index_at f bits ulp (lsfI fr) k st) (\<lambda>(xs, st).
       Ok (fr\<lparr>lsfI := xs\<rparr>, st)))) s =
      foldM (slot_step f ulp) (map (\<lambda>k. (FLsf k, lsfBits L ! nat k)) [0..3 * nl - 1]) s"
    if "frame_shape (fst s)" for s
    by (rule for_up_slots) (use that L assms(3) in \<open>auto simp: simps layout_shape_def\<close>)
  have B: "for_up 0 ns (\<lambda>k (fr, st).
       bnd (index_at f (stateBits L) ulp (idxVec fr) k st) (\<lambda>(xs, st).
       Ok (fr\<lparr>idxVec := xs\<rparr>, st))) s =
      foldM (slot_step f ulp) (map (\<lambda>k. (FState k, stateBits L)) [0..ns - 1]) s"
    if "frame_shape (fst s)" for s
    by (rule for_up_slots) (use that assms(4) in \<open>auto simp: simps\<close>)
  have C: "for_up 0 3 (\<lambda>k (fr, st).
       bnd (idx (ulp_extraCbIndex L) k) (\<lambda>bits.
       bnd (index_at f bits ulp (extraCbIndex fr) k st) (\<lambda>(xs, st).
       Ok (fr\<lparr>extraCbIndex := xs\<rparr>, st)))) s =
      foldM (slot_step f ulp) (map (\<lambda>k. (FExtraCb k, ulp_extraCbIndex L ! nat k)) [0..2]) s"
    if "frame_shape (fst s)" for s
    by (rule for_up_slots) (use that L in \<open>auto simp: simps layout_shape_def\<close>)
  have D: "for_up 0 3 (\<lambda>k (fr, st).
       bnd (idx (ulp_extraCbGain L) k) (\<lambda>bits.
       bnd (index_at f bits ulp (extraGainIndex fr) k st) (\<lambda>(xs, st).
       Ok (fr\<lparr>extraGainIndex := xs\<rparr>, st)))) s =
      foldM (slot_step f ulp) (map (\<lambda>k. (FExtraGain k, ulp_extraCbGain L ! nat k)) [0..2]) s"
    if "frame_shape (fst s)" for s
    by (rule for_up_slots) (use that L in \<open>auto simp: simps layout_shape_def\<close>)
  have E: "for_up 0 na (\<lambda>i. for_up 0 3 (\<lambda>k (fr, st).
       bnd (idx (ulp_cbIndex L) i) (\<lambda>row.
       bnd (idx row k) (\<lambda>bits.
       bnd (index_at f bits ulp (cbIndex fr) (i * 3 + k) st) (\<lambda>(xs, st).
       Ok (fr\<lparr>cbIndex := xs\<rparr>, st)))))) s =
      foldM (slot_step f ulp) (concat (map (\<lambda>i. map (\<lambda>k. (FCb (i * 3 + k), ulp_cbIndex L ! nat i ! nat k)) [0..2]) [0..na - 1])) s"
    if "frame_shape (fst s)" for s
    by (rule for_up_rows, rule for_up_slots)
      (use that L assms(5) rows in \<open>auto simp: simps layout_shape_def\<close>)
  have F: "for_up 0 na (\<lambda>i. for_up 0 3 (\<lambda>k (fr, st).
       bnd (idx (ulp_cbGain L) i) (\<lambda>row.
       bnd (idx row k) (\<lambda>bits.
       bnd (index_at f bits ulp (gainIndex fr) (i * 3 + k) st) (\<lambda>(xs, st).
       Ok (fr\<lparr>gainIndex := xs\<rparr>, st)))))) s =
      foldM (slot_step f ulp) (concat (map (\<lambda>i. map (\<lambda>k. (FGain (i * 3 + k), ulp_cbGain L ! nat i ! nat k)) [0..2]) [0..na - 1])) s"
    if "frame_shape (fst s)" for s
    by (rule for_up_rows, rule for_up_slots)
      (use that L assms(5) rows in \<open>auto simp: simps layout_shape_def\<close>)
  show ?thesis
    unfolding frame_pass_def slots_def foldM_append
    apply (rule bnd_cong[OF A[OF sh]])
    apply (drule foldM_slots_shape[OF sh])
    apply (clarsimp simp: slot_step_def Let_def split_beta bnd_assoc foldM_append)
    apply (rule bnd_cong[OF refl], clarsimp)
    apply (rule bnd_cong[OF refl], clarsimp)
    apply (rule bnd_cong[OF refl], clarsimp)
    apply (rule bnd_cong[OF B], simp add: frame_shape_def, drule foldM_slots_shape[rotated], simp add: frame_shape_def)
    apply (rule bnd_cong[OF C], assumption, drule (1) foldM_slots_shape[rotated])
    apply (rule bnd_cong[OF D], assumption, drule (1) foldM_slots_shape[rotated])
    apply (rule bnd_cong[OF E], assumption, drule (1) foldM_slots_shape[rotated])
    apply (erule F)
    done
qed

section \<open>The interface of the bit packer\<close>

locale bit_writer =
  fixes put_bits :: "'w \<Rightarrow> int \<Rightarrow> int \<Rightarrow> 'w res"
    and out :: "'w \<Rightarrow> bool list"
    and cap :: "'w \<Rightarrow> nat"
    and winv :: "'w \<Rightarrow> bool"
  assumes put_bits: "winv w \<Longrightarrow> 0 \<le> v \<Longrightarrow> v < 2 ^ nat n \<Longrightarrow> 0 \<le> n \<Longrightarrow>
      length (out w) + nat n \<le> cap w \<Longrightarrow>
      \<exists>w'. put_bits w v n = Ok w' \<and> winv w' \<and> out w' = out w @ to_bits (nat n) v \<and> cap w' = cap w"

locale bit_reader =
  fixes get_bits :: "'r \<Rightarrow> int \<Rightarrow> ('r \<times> int) res"
    and rest :: "'r \<Rightarrow> bool list"
    and rinv :: "'r \<Rightarrow> bool"
  assumes get_bits: "rinv r \<Longrightarrow> 0 \<le> n \<Longrightarrow> nat n \<le> length (rest r) \<Longrightarrow>
      \<exists>r'. get_bits r n = Ok (r', of_bits (take (nat n) (rest r))) \<and> rinv r' \<and>
        rest r' = drop (nat n) (rest r)"

section \<open>The interface of the bit packer, provided by dopack and unpack\<close>

abbreviation pack_bits :: "byte span \<times> int \<Rightarrow> int \<Rightarrow> int \<Rightarrow> (byte span \<times> int) res" where
  "pack_bits st v n \<equiv> dopack (fst st) v n (snd st)"

definition dopack_out :: "byte span \<times> int \<Rightarrow> bool list" where
  "dopack_out st = stream_bits (take (nat (soff (fst st))) (sdata (fst st))) @
     take (nat (snd st)) (byte_bits (sdata (fst st) ! nat (soff (fst st))))"

definition dopack_cap :: "byte span \<times> int \<Rightarrow> nat" where
  "dopack_cap st = 8 * length (sdata (fst st))"

definition dopack_inv :: "byte span \<times> int \<Rightarrow> bool" where
  "dopack_inv st \<longleftrightarrow> written (fst st) (snd st) (dopack_out st) \<and>
     (0 < snd st \<longrightarrow> clean (fst st) (snd st))"

lemma written_out: "written bs pos acc \<Longrightarrow> acc = dopack_out (bs, pos)"
  by (simp add: written_def dopack_out_def)

lemma length_dopack_out: "written bs pos acc \<Longrightarrow> int (length acc) = bitpos bs pos"
  by (auto simp: written_def bitpos_def min_def nat_less_iff)

interpretation packer: bit_writer pack_bits dopack_out dopack_cap dopack_inv
proof
  fix st :: "byte span \<times> int" and v n :: int
  assume inv: "dopack_inv st" and v: "0 \<le> v" "v < 2 ^ nat n" and n: "0 \<le> n"
    and room: "length (dopack_out st) + nat n \<le> dopack_cap st"
  let ?bs = "fst st" and ?pos = "snd st"
  from inv have w: "written ?bs ?pos (dopack_out st)" and c: "0 < ?pos \<Longrightarrow> clean ?bs ?pos"
    by (auto simp: dopack_inv_def)
  have "bitpos ?bs ?pos + n \<le> 8 * int (length (sdata ?bs))"
    using room n length_dopack_out[OF w] by (simp add: dopack_cap_def)
  from dopack_written[OF w c v n this] obtain bs' pos'
    where p: "dopack ?bs v n ?pos = Ok (bs', pos')" "clean bs' pos'"
        "length (sdata bs') = length (sdata ?bs)"
      and w': "written bs' pos' (dopack_out st @ to_bits (nat n) v)"
    by auto
  have "dopack_out (bs', pos') = dopack_out st @ to_bits (nat n) v"
    using written_out[OF w'] by simp
  then show "\<exists>st'. pack_bits st v n = Ok st' \<and> dopack_inv st' \<and>
      dopack_out st' = dopack_out st @ to_bits (nat n) v \<and> dopack_cap st' = dopack_cap st"
    using p w' by (auto simp: dopack_inv_def dopack_cap_def)
qed

definition unpack_bits :: "byte span \<times> int \<Rightarrow> int \<Rightarrow> ((byte span \<times> int) \<times> int) res" where
  "unpack_bits st n = bnd (unpack (fst st) n (snd st)) (\<lambda>(bs, pos, v). Ok ((bs, pos), v))"

definition unpack_rest :: "byte span \<times> int \<Rightarrow> bool list" where
  "unpack_rest st = drop (nat (bitpos (fst st) (snd st))) (stream_bits (sdata (fst st)))"

definition unpack_inv :: "byte span \<times> int \<Rightarrow> bool" where
  "unpack_inv st \<longleftrightarrow> readable (fst st) (snd st)"

interpretation unpacker: bit_reader unpack_bits unpack_rest unpack_inv
proof
  fix st :: "byte span \<times> int" and n :: int
  let ?bs = "fst st" and ?pos = "snd st"
  assume r: "unpack_inv st" and n: "0 \<le> n" and room: "nat n \<le> length (unpack_rest st)"
  from r have r: "readable ?bs ?pos" by (simp add: unpack_inv_def)
  have p: "0 \<le> bitpos ?bs ?pos" using r by (simp add: readable_def bitpos_def)
  have "bitpos ?bs ?pos \<le> 8 * int (length (sdata ?bs))"
    using r by (simp add: readable_def bitpos_def)
  then have "bitpos ?bs ?pos + n \<le> 8 * int (length (sdata ?bs))"
    using room p n by (simp add: unpack_rest_def)
  from unpack_read[OF r n this] obtain bs' pos'
    where u: "unpack ?bs n ?pos = Ok (bs', pos', of_bits (take (nat n) (unpack_rest st)))"
      "readable bs' pos'" "sdata bs' = sdata ?bs" "bitpos bs' pos' = bitpos ?bs ?pos + n"
    by (auto simp: unpack_rest_def)
  then show "\<exists>st'. unpack_bits st n = Ok (st', of_bits (take (nat n) (unpack_rest st))) \<and>
      unpack_inv st' \<and> unpack_rest st' = drop (nat n) (unpack_rest st)"
    using p n
    by (auto simp: unpack_bits_def unpack_rest_def unpack_inv_def nat_add_distrib add.commute)
qed

end
