(* ===== verification/Decoder.thy ===== *)
theory Decoder
  imports Lpc StateCoding Codebook Enhancer Plc Bitstream
begin

text \<open>
  ilbc_decode.go: initialisation of the decoder state, reconstruction of the residual from the
  indices of a frame, and the decoding of one frame.
\<close>

section \<open>initDecode\<close>

definition zero_layout :: ulpLayout where
  "zero_layout = \<lparr>lsfBits = [], startBits = [], startfirstBits = [], scaleBits = [], stateBits = [],
     ulp_extraCbIndex = [], ulp_extraCbGain = [], ulp_cbIndex = [], ulp_cbGain = []\<rparr>"

text \<open>The zero value of the state; its nil layout pointer is the empty layout.\<close>

definition zero_decoder :: decoderState where
  "zero_decoder = \<lparr>d_mode = 0, d_frameSamples = 0, d_subframes = 0, d_adaptiveSubframes = 0,
     d_frameBytes = 0, d_frameWords = 0, d_lpcAnalyses = 0, d_shortStateSamples = 0,
     d_ulp = zero_layout, syntMem = replicate 10 0, d_lsfdeqold = replicate 10 0, lastLag = 0,
     prevLag = 0, consPLICount = 0, prevPLI = 0, prevEnhPl = 0, prevLpc = replicate 11 0,
     prevResidual = replicate 240 0, per = 0, seed = 0, oldSyntdenum = replicate 66 0,
     hpomem = replicate 4 0, enhancement = 0, enhBuf = replicate 640 0, enhPeriod = replicate 8 0\<rparr>"

definition initDecode :: "decoderState \<Rightarrow> int \<Rightarrow> int \<Rightarrow> (16 word \<times> decoderState) res" where
  "initDecode decoder mode enh =
     (let decoder = decoder\<lparr>d_mode := mode\<rparr> in
      bnd (if mode = 30 then
             Ok (decoder\<lparr>d_frameSamples := 240, d_subframes := 6, d_adaptiveSubframes := 4,
               d_lpcAnalyses := 2, d_frameBytes := 50, d_frameWords := 25,
               d_shortStateSamples := 58, d_ulp := ulp30Table\<rparr>)
           else if mode = 20 then
             Ok (decoder\<lparr>d_frameSamples := 160, d_subframes := 4, d_adaptiveSubframes := 2,
               d_lpcAnalyses := 1, d_frameBytes := 38, d_frameWords := 19,
               d_shortStateSamples := 57, d_ulp := ulp20Table\<rparr>)
           else Panic (ExplicitPanic ''ilbc: invalid internal mode'')) (\<lambda>decoder.
      bnd (clear_sub (syntMem decoder) 0 10) (\<lambda>sm.
      bnd (copy_sub (d_lsfdeqold decoder) 0 10 (take 10 lsfmeanTbl)) (\<lambda>ld.
      bnd (clear_sub (oldSyntdenum decoder) 0 66) (\<lambda>os.
      bnd (for_up 0 6 (\<lambda>i os. upd os (i * 11) 1) os) (\<lambda>os.
      bnd (upd (prevLpc decoder) 0 1) (\<lambda>pl.
      bnd (clear_sub pl 1 11) (\<lambda>pl.
      bnd (clear_sub (prevResidual decoder) 0 240) (\<lambda>pr.
      bnd (clear_sub (hpomem decoder) 0 4) (\<lambda>hm.
      bnd (clear_sub (enhBuf decoder) 0 640) (\<lambda>eb.
      bnd (for_up 0 8 (\<lambda>i ep. upd ep i (int32 40)) (enhPeriod decoder)) (\<lambda>ep.
      let decoder = decoder\<lparr>syntMem := sm, d_lsfdeqold := ld, oldSyntdenum := os, lastLag := 20,
            prevLag := 120, per := 0, consPLICount := 0, prevPLI := 0, prevLpc := pl,
            prevResidual := pr, seed := 777, hpomem := hm, enhancement := enh, enhBuf := eb,
            enhPeriod := ep, prevEnhPl := 0\<rparr> in
      Ok (word_of_int (d_frameSamples decoder), decoder)))))))))))))"

section \<open>decode\<close>

text \<open>The codebook memory: shifted by one subframe with new samples at its end, or filled
  backwards from the decoded residual.\<close>

definition mem_shift :: "float32 list \<Rightarrow> float32 list \<Rightarrow> float32 list res" where
  "mem_shift mem xs =
     bnd (sub mem 40 147) (\<lambda>ms.
     bnd (copy_sub mem 0 107 ms) (\<lambda>mem.
     copy_sub mem 107 147 xs))"

definition mem_reverse :: "float32 list \<Rightarrow> float32 span \<Rightarrow> int \<Rightarrow> int \<Rightarrow> float32 list res" where
  "mem_reverse mem decresidual base memlGotten =
     bnd (for_up 0 memlGotten (\<lambda>k mem.
       bnd (at decresidual (base + k)) (\<lambda>x. upd mem (146 - k) x)) mem) (\<lambda>mem.
     clear_sub mem 0 (147 - max 0 memlGotten))"

abbreviation codebook_mem :: "float32 list \<Rightarrow> int \<Rightarrow> float32 span" where
  "codebook_mem mem l \<equiv> mk mem (147 - l)"

text \<open>The samples of the two subframes around the start state that it does not cover.\<close>

definition decode_boundary ::
  "decoderState \<Rightarrow> float32 span \<Rightarrow> int \<Rightarrow> int \<Rightarrow> int \<Rightarrow> int span \<Rightarrow> int span \<Rightarrow> float32 list \<Rightarrow>
   (float32 span \<times> float32 list) res" where
  "decode_boundary decoder decresidual startI stateF startPos extraCb extraGain mem =
     (let ns = d_shortStateSamples decoder; diff = 80 - ns in
      if stateF \<noteq> 0 then
        bnd (clear_sub mem 0 (147 - ns)) (\<lambda>mem.
        bnd (slice (add decresidual startPos) ns) (\<lambda>xs.
        bnd (copy_sub mem (147 - ns) (147 - ns + ns) xs) (\<lambda>mem.
        bnd (constructCodebook (add decresidual (startPos + ns)) extraCb extraGain
          (codebook_mem mem stMemLTbl) stMemLTbl diff 3) (\<lambda>d.
        Ok (decresidual\<lparr>sdata := d\<rparr>, mem)))))
      else
        bnd (for_up 0 diff (\<lambda>k rev.
          bnd (at decresidual ((startI + 1) * 40 - 1 - (k + ns))) (\<lambda>x. upd rev k x))
          (replicate 240 0)) (\<lambda>reverseDecresidual.
        bnd (mem_reverse mem decresidual startPos ns) (\<lambda>mem.
        bnd (constructCodebook (mk reverseDecresidual 0) extraCb extraGain
          (codebook_mem mem stMemLTbl) stMemLTbl diff 3) (\<lambda>reverseDecresidual.
        bnd (for_up 0 diff (\<lambda>k decresidual.
          bnd (idx reverseDecresidual k) (\<lambda>x.
          store decresidual (startPos - 1 - k) x)) decresidual) (\<lambda>decresidual.
        Ok (decresidual, mem))))))"

text \<open>The subframes after and before the two of the start state; the state is the residual, the
  codebook memory and \<open>subcount\<close>.\<close>

definition decode_forward ::
  "int \<Rightarrow> int span \<Rightarrow> int span \<Rightarrow> int \<Rightarrow> float32 span \<times> float32 list \<times> int \<Rightarrow>
   (float32 span \<times> float32 list \<times> int) res" where
  "decode_forward startI cbI gainI subframe = (\<lambda>(decresidual, mem, subcount).
     bnd (idx memLfTbl subcount) (\<lambda>l.
     bnd (constructCodebook (add decresidual ((startI + 1 + subframe) * 40)) (add cbI (subcount * 3))
       (add gainI (subcount * 3)) (codebook_mem mem l) l 40 3) (\<lambda>d.
     let decresidual = decresidual\<lparr>sdata := d\<rparr> in
     bnd (slice (add decresidual ((startI + 1 + subframe) * 40)) 40) (\<lambda>xs.
     bnd (mem_shift mem xs) (\<lambda>mem.
     Ok (decresidual, mem, subcount + 1))))))"

definition decode_backward ::
  "int span \<Rightarrow> int span \<Rightarrow> int \<Rightarrow> float32 list \<times> float32 list \<times> int \<Rightarrow>
   (float32 list \<times> float32 list \<times> int) res" where
  "decode_backward cbI gainI subframe = (\<lambda>(reverseDecresidual, mem, subcount).
     bnd (idx memLfTbl subcount) (\<lambda>l.
     bnd (constructCodebook (mk reverseDecresidual (subframe * 40)) (add cbI (subcount * 3))
       (add gainI (subcount * 3)) (codebook_mem mem l) l 40 3) (\<lambda>reverseDecresidual.
     bnd (sub reverseDecresidual (subframe * 40) (subframe * 40 + 40)) (\<lambda>xs.
     bnd (mem_shift mem xs) (\<lambda>mem.
     Ok (reverseDecresidual, mem, subcount + 1))))))"

definition decode_rest ::
  "decoderState \<Rightarrow> float32 span \<Rightarrow> int \<Rightarrow> int span \<Rightarrow> int span \<Rightarrow> float32 list \<Rightarrow> float32 span res" where
  "decode_rest decoder decresidual startI cbI gainI mem =
     (let nfor = d_subframes decoder - startI - 1; nback = startI - 1 in
      bnd (if 0 < nfor then
             bnd (clear_sub mem 0 67) (\<lambda>mem.
             bnd (slice (add decresidual ((startI - 1) * 40)) 80) (\<lambda>xs.
             bnd (copy_sub mem 67 147 xs) (\<lambda>mem.
             for_up 0 nfor (decode_forward startI cbI gainI) (decresidual, mem, 0))))
           else Ok (decresidual, mem, 0)) (\<lambda>(decresidual, mem, subcount).
      if 0 < nback then
        let memlGotten = 40 * (d_subframes decoder + 1 - startI);
            memlGotten = (if 147 < memlGotten then 147 else memlGotten) in
        bnd (mem_reverse mem decresidual ((startI - 1) * 40) memlGotten) (\<lambda>mem.
        bnd (for_up 0 nback (decode_backward cbI gainI) (replicate 240 0, mem, subcount))
          (\<lambda>(reverseDecresidual, mem, subcount).
        for_up 0 (40 * nback) (\<lambda>i decresidual.
          bnd (idx reverseDecresidual i) (\<lambda>x.
          store decresidual (40 * nback - i - 1) x)) decresidual))
      else Ok decresidual))"

text \<open>
  \<open>decode\<close>.  The array \<open>reverseDecresidual\<close> of the code is shared by the boundary and the
  backward subframes; the latter overwrite every entry they read.
\<close>

definition decode ::
  "platform \<Rightarrow> decoderState \<Rightarrow> float32 span \<Rightarrow> int \<Rightarrow> int \<Rightarrow> int span \<Rightarrow> float32 span \<Rightarrow> int span \<Rightarrow>
   int span \<Rightarrow> int span \<Rightarrow> int span \<Rightarrow> int \<Rightarrow> float32 list res" where
  "decode P decoder decresidual startI idxMax idxV syntdenum cbI gainI extraCb extraGain stateF =
     (let ns = d_shortStateSamples decoder; diff = 80 - ns;
          startPos = (if stateF = 1 then (startI - 1) * 40 else (startI - 1) * 40 + diff) in
      bnd (stateConstructW P idxMax idxV (add syntdenum ((startI - 1) * 11))
        (add decresidual startPos) ns) (\<lambda>d.
      bnd (decode_boundary decoder (decresidual\<lparr>sdata := d\<rparr>) startI stateF startPos extraCb extraGain
        (replicate 147 0)) (\<lambda>(decresidual, mem).
      bnd (decode_rest decoder decresidual startI cbI gainI mem) (\<lambda>decresidual.
      Ok (sdata decresidual)))))"

section \<open>decodeFrame\<close>

definition frame_mode :: "decoderState \<Rightarrow> frame \<Rightarrow> int \<Rightarrow> int \<Rightarrow> int" where
  "frame_mode decoder fr lastBit mode =
     (let mode = (if start fr < 1 then 0 else mode);
          mode = (if d_mode decoder = 30 \<and> 5 < start fr then 0 else mode)
      in if lastBit = 1 then 0 else mode)"

text \<open>A frame that arrived intact: the residual and the synthesis filters, decoded.\<close>

definition decode_received ::
  "platform \<Rightarrow> frame \<Rightarrow> decoderState \<Rightarrow> (float32 list \<times> float32 list \<times> decoderState) res" where
  "decode_received P fr decoder =
     bnd (convertDecoderIndices (mk (cbIndex fr) 0)) (\<lambda>cbI.
     bnd (dequantizeLSF (mk (replicate 20 0) 0) (mk (lsfI fr) 0) (d_lpcAnalyses decoder)) (\<lambda>lsfdeq.
     bnd (checkLSF (mk lsfdeq 0) 10 (d_lpcAnalyses decoder)) (\<lambda>(lsfdeq, _).
     bnd (decoderInterpolateLSF P (mk (replicate 66 0) 0) (mk (replicate 66 0) 0) (mk lsfdeq 0) 10 decoder)
       (\<lambda>(syntdenum, weightdenum, decoder).
     bnd (decode P decoder (mk (replicate 240 0) 0) (start fr) (idxForMax fr) (mk (idxVec fr) 0)
       (mk syntdenum 0) (mk cbI 0) (mk (gainIndex fr) 0) (mk (extraCbIndex fr) 0)
       (mk (extraGainIndex fr) 0) (stateFirst fr)) (\<lambda>decresidual.
     bnd (doThePLC (mk (replicate 240 0) 0) (mk (replicate 11 0) 0) 0 (mk decresidual 0)
       (mk syntdenum (11 * (d_subframes decoder - 1))) (lastLag decoder) decoder)
       (\<lambda>(pLCresidual, pLClpc, decoder).
     bnd (sub pLCresidual 0 (d_frameSamples decoder)) (\<lambda>xs.
     bnd (copy_sub decresidual 0 (d_frameSamples decoder) xs) (\<lambda>decresidual.
     Ok (decresidual, syntdenum, decoder)))))))))"

text \<open>A lost or damaged frame.\<close>

definition decode_lost ::
  "float32 list \<times> float32 list \<times> decoderState \<Rightarrow> (float32 list \<times> float32 list \<times> decoderState) res" where
  "decode_lost = (\<lambda>(decresidual, syntdenum, decoder).
     bnd (doThePLC (mk (replicate 240 0) 0) (mk (replicate 11 0) 0) 1 (mk (replicate 240 0) 0)
       (mk (1 # replicate 10 0) 0) (lastLag decoder) decoder) (\<lambda>(pLCresidual, pLClpc, decoder).
     bnd (sub pLCresidual 0 (d_frameSamples decoder)) (\<lambda>xs.
     bnd (copy_sub decresidual 0 (d_frameSamples decoder) xs) (\<lambda>decresidual.
     bnd (for_up 0 (d_subframes decoder) (\<lambda>i syntdenum.
       bnd (sub pLClpc 0 11) (\<lambda>xs.
       copy_sub syntdenum (i * 11) (i * 11 + 11) xs)) syntdenum) (\<lambda>syntdenum.
     Ok (decresidual, syntdenum, decoder))))))"

text \<open>Synthesis of the subframes \<open>lo..hi-1\<close>; \<open>coef i\<close> is the filter of subframe \<open>i\<close>.\<close>

definition synthesize ::
  "(int \<Rightarrow> float32 span) \<Rightarrow> int \<Rightarrow> int \<Rightarrow> float32 list \<times> float32 list \<Rightarrow> (float32 list \<times> float32 list) res" where
  "synthesize coef lo hi = for_up lo hi (\<lambda>i (data, mem).
     syntFilter (mk data (i * 40)) (coef i) 40 (mk mem 0))"

text \<open>The output stage: the result is the synthesised speech and the state.\<close>

definition decode_output ::
  "platform \<Rightarrow> float32 list \<Rightarrow> float32 list \<Rightarrow> decoderState \<Rightarrow> (float32 list \<times> decoderState) res" where
  "decode_output P decresidual syntdenum decoder =
     (let n = d_subframes decoder; old = (\<lambda>i. mk (oldSyntdenum decoder) (i * 11));
          new = (\<lambda>i. mk syntdenum (i * 11)); data = replicate 240 0 in
      if enhancement decoder = 1 then
        bnd (enhancerInterface P (mk data 0) (mk decresidual 0) decoder) (\<lambda>(lag, data, decoder).
        let decoder = decoder\<lparr>lastLag := lag\<rparr> in
        bnd (if d_mode decoder = 20 then
               bnd (synthesize (\<lambda>i. old (i + n - 1)) 0 1 (data, syntMem decoder)) (\<lambda>s.
               synthesize (\<lambda>i. new (i - 1)) 1 n s)
             else if d_mode decoder = 30 then
               bnd (synthesize (\<lambda>i. old (i + n - 2)) 0 2 (data, syntMem decoder)) (\<lambda>s.
               synthesize (\<lambda>i. new (i - 2)) 2 n s)
             else Ok (data, syntMem decoder)) (\<lambda>(data, mem).
        Ok (data, decoder\<lparr>syntMem := mem\<rparr>)))
      else
        let corrLen = (if d_frameSamples decoder = 160 then 40 else 80);
            corrStart = d_frameSamples decoder - corrLen in
        bnd (best_lag (mk decresidual corrStart) (\<lambda>ilag. mk decresidual (corrStart - ilag)) corrLen
          20 21 120) (\<lambda>lag.
        let decoder = decoder\<lparr>lastLag := lag\<rparr> in
        bnd (sub decresidual 0 (d_frameSamples decoder)) (\<lambda>xs.
        bnd (copy_sub data 0 (d_frameSamples decoder) xs) (\<lambda>data.
        bnd (synthesize new 0 n (data, syntMem decoder)) (\<lambda>(data, mem).
        Ok (data, decoder\<lparr>syntMem := mem\<rparr>))))))"

text \<open>The result is the output block and the state.\<close>

definition decodeFrame ::
  "platform \<Rightarrow> float32 span \<Rightarrow> byte list \<Rightarrow> decoderState \<Rightarrow> int \<Rightarrow> (float32 list \<times> decoderState) res" where
  "decodeFrame P decblock bytes decoder mode =
     bnd (if 0 < mode then
            bnd (unpackFrame (d_ulp decoder) (d_lpcAnalyses decoder) (d_shortStateSamples decoder)
              (d_adaptiveSubframes decoder) bytes) (\<lambda>(fr, lastBit).
            let mode = frame_mode decoder fr lastBit mode in
            if mode = 1 then
              bnd (decode_received P fr decoder) (\<lambda>s. Ok (mode, s))
            else Ok (mode, replicate 240 0, replicate 66 0, decoder))
          else Ok (mode, replicate 240 0, replicate 66 0, decoder)) (\<lambda>(mode, s).
     bnd (if mode = 0 then decode_lost s else Ok s) (\<lambda>(decresidual, syntdenum, decoder).
     bnd (decode_output P decresidual syntdenum decoder) (\<lambda>(data, decoder).
     bnd (hpOutput (mk data 0) (d_frameSamples decoder) decblock (mk (hpomem decoder) 0)) (\<lambda>(block, hm).
     let n = d_subframes decoder in
     bnd (sub syntdenum 0 (n * 11)) (\<lambda>xs.
     bnd (copy_sub (oldSyntdenum decoder) 0 (n * 11) xs) (\<lambda>os.
     Ok (block, decoder\<lparr>hpomem := hm, oldSyntdenum := os,
       prevEnhPl := if mode = 0 then 1 else 0\<rparr>)))))))"

end
