(* ===== verification/Cbsearch.thy ===== *)
theory Cbsearch
  imports Codebook Filters
begin

text \<open>
  icbsearch.go: the search of the adaptive codebook.  The search of one stage is split into
  its parts in the order of the code: the unfiltered half of the codebook, the range of the
  filtered half around the best vector so far, the filtered half, the gain, and the update of
  the target with the vector that was chosen.
\<close>

definition codebookDotProduct :: "float32 list \<Rightarrow> float32 list \<Rightarrow> float32 res" where
  "codebookDotProduct left right =
     bnd (sub right 0 (int (length left))) (\<lambda>right.
     Ok (foldl (\<lambda>sum (value, r). sum + value * r) 0 (zip left right)))"

text \<open>What the search of one stage works on.\<close>

record cb_search =
  cs_lMem :: int
  cs_lTarget :: int
  cs_baseSize :: int
  cs_stage :: int
  cs_range :: int                \<comment> \<open>valueRange\<close>
  cs_buf :: "float32 list"
  cs_cbvectors :: "float32 list"

type_synonym cb_energies = "float32 list \<times> float32 list"

text \<open>The comparison of one candidate, with the inner product of the target and its vector.\<close>

definition cb_try :: "int \<Rightarrow> int \<Rightarrow> float32 \<Rightarrow> float32 \<Rightarrow> cb_best \<Rightarrow> cb_best" where
  "cb_try stage i crossDot inve best =
     cb_update i (cb_measure stage crossDot inve) (crossDot * inve) best"

definition cb_cross :: "float32 list \<Rightarrow> int \<Rightarrow> float32 span \<Rightarrow> float32 res" where
  "cb_cross target lTarget pp =
     bnd (sub target 0 lTarget) (\<lambda>t.
     bnd (slice pp lTarget) (\<lambda>v.
     codebookDotProduct t v))"

definition sum_squares :: "float32 span \<Rightarrow> int \<Rightarrow> float32 list \<Rightarrow> int \<Rightarrow> float32 list res" where
  "sum_squares pp n energy i =
     bnd (upd energy i 0) (\<lambda>energy.
     for_up 0 n (\<lambda>j energy.
       bnd (at pp j) (\<lambda>x.
       bnd (idx energy i) (\<lambda>e. upd energy i (e + x * x)))) energy)"

definition search_base ::
  "cb_search \<Rightarrow> float32 list \<Rightarrow> cb_best \<times> cb_energies \<Rightarrow> (cb_best \<times> cb_energies) res" where
  "search_base S target = (\<lambda>(best, energy, invenergy).
     let base = 10 + cs_lMem S - cs_lTarget S in
     bnd (cb_cross target (cs_lTarget S) (mk (cs_buf S) base)) (\<lambda>crossDot.
     bnd (if cs_stage S = 0 then
            bnd (sum_squares (mk (cs_buf S) base) (cs_lTarget S) energy 0) (\<lambda>energy.
            bnd (idx energy 0) (\<lambda>e.
            bnd (upd invenergy 0 (inv_energy e)) (\<lambda>invenergy.
            Ok (energy, invenergy))))
          else Ok (energy, invenergy)) (\<lambda>(energy, invenergy).
     bnd (idx invenergy 0) (\<lambda>inve.
     for_up 1 (cs_range S) (\<lambda>icount (best, energy, invenergy).
       bnd (cb_cross target (cs_lTarget S) (mk (cs_buf S) (base - icount))) (\<lambda>crossDot.
       bnd (if cs_stage S = 0 then
              bnd (idx energy (icount - 1)) (\<lambda>e.
              bnd (at (mk (cs_buf S) (base - 1)) (- (icount - 1))) (\<lambda>x.
              bnd (at (mk (cs_buf S) (10 + cs_lMem S - 1)) (- (icount - 1))) (\<lambda>y.
              bnd (upd energy icount (e + x * x - y * y)) (\<lambda>energy.
              bnd (idx energy icount) (\<lambda>e.
              bnd (upd invenergy icount (inv_energy e)) (\<lambda>invenergy.
              Ok (energy, invenergy)))))))
            else Ok (energy, invenergy)) (\<lambda>(energy, invenergy).
       bnd (idx invenergy icount) (\<lambda>inve.
       Ok (cb_try (cs_stage S) icount crossDot inve best, energy, invenergy)))))
       (cb_try (cs_stage S) 0 crossDot inve best, energy, invenergy)))))"

definition search_augmented ::
  "cb_search \<Rightarrow> float32 list \<Rightarrow> int \<Rightarrow> int \<Rightarrow> int \<Rightarrow> float32 span \<Rightarrow> cb_best \<times> cb_energies \<Rightarrow>
   (cb_best \<times> cb_energies) res" where
  "search_augmented S target low high startIndex buffer = (\<lambda>(best, energy, invenergy).
     searchAugmentedCB low high (cs_stage S) startIndex (mk target 0) buffer best
       (mk energy 0) (mk invenergy 0))"

text \<open>The ranges of the filtered half: \<open>sInd\<close>, \<open>eInd\<close>, \<open>sIndAug\<close> and \<open>eIndAug\<close>.\<close>

definition cb_ranges :: "int \<Rightarrow> int \<Rightarrow> int \<Rightarrow> int \<Rightarrow> int \<times> int \<times> int \<times> int" where
  "cb_ranges lTarget baseIndex baseSize valueRange =
     (let sInd = baseIndex - 17; eInd = sInd + 34 in
      if lTarget = 40 then
        if sInd < 0 then (0, eInd, 40 + sInd, 39)
        else if baseIndex < baseSize - 20 then
          if valueRange < eInd then (sInd - (eInd - valueRange), valueRange, 0, 0)
          else (sInd, eInd, 0, 0)
        else if sInd < baseSize - 20 then
          (let eIndAug = 53 in
           if 39 < eIndAug then (0, eIndAug - 39, 20, 39) else (0, 0, 20, eIndAug))
        else
          (let sIndAug = 20 + sInd - (baseSize - 20); eIndAug = 39 in
           (0, 34 - (eIndAug - sIndAug + 1), sIndAug, eIndAug))
      else
        (let (sInd, eInd) = (if sInd < 0 then (0, eInd - sInd) else (sInd, eInd)) in
         if valueRange < eInd then (sInd - (eInd - valueRange), valueRange, 0, 0)
         else (sInd, eInd, 0, 0)))"

definition filtered_energies :: "cb_search \<Rightarrow> float32 list \<Rightarrow> float32 list res" where
  "filtered_energies S energy =
     (let cbv = cs_cbvectors S; lMem = cs_lMem S; lTarget = cs_lTarget S; b = cs_baseSize S in
      bnd (sum_squares (mk cbv (lMem - lTarget)) lTarget energy b) (\<lambda>energy.
      for_up 0 (cs_range S - 1) (\<lambda>j energy.
        bnd (idx energy (b + j)) (\<lambda>e.
        bnd (at (mk cbv (lMem - 1 - lTarget)) (- j)) (\<lambda>x.
        bnd (at (mk cbv (lMem - 1)) (- j)) (\<lambda>y.
        upd energy (b + j + 1) (e + x * x - y * y))))) energy))"

definition search_filtered ::
  "cb_search \<Rightarrow> float32 list \<Rightarrow> int \<Rightarrow> int \<Rightarrow> cb_best \<times> cb_energies \<Rightarrow> (cb_best \<times> cb_energies) res" where
  "search_filtered S target sInd eInd = (\<lambda>(best, energy, invenergy).
     bnd (if cs_stage S = 0 then filtered_energies S energy else Ok energy) (\<lambda>energy.
     for_up (sInd + cs_baseSize S) (eInd + cs_baseSize S) (\<lambda>icount (best, energy, invenergy).
       let counter = icount - cs_baseSize S in
       bnd (cb_cross target (cs_lTarget S)
         (mk (cs_cbvectors S) (cs_lMem S - counter - cs_lTarget S))) (\<lambda>crossDot.
       bnd (idx energy icount) (\<lambda>e.
       bnd (upd invenergy icount (inv_energy e)) (\<lambda>invenergy.
       Ok (cb_try (cs_stage S) icount crossDot (inv_energy e) best, energy, invenergy)))))
       (best, energy, invenergy)))"

text \<open>The complete search of one stage.\<close>

definition search_stage ::
  "cb_search \<Rightarrow> float32 list \<Rightarrow> cb_energies \<Rightarrow> (cb_best \<times> cb_energies) res" where
  "search_stage S target es =
     (let lMem = cs_lMem S; lTarget = cs_lTarget S; baseSize = cs_baseSize S in
      bnd (search_base S target (\<lparr>maxMeasure = dec32 (- (10 ^ 7)) 0, bestIndex = 0, gain = 0\<rparr>, es)) (\<lambda>s.
      bnd (if lTarget = 40
           then search_augmented S target 20 39 (baseSize - lTarget div 2) (mk (cs_buf S) (10 + lMem)) s
           else Ok s) (\<lambda>s.
      let (sInd, eInd, sIndAug, eIndAug) = cb_ranges lTarget (bestIndex (fst s)) baseSize (cs_range S) in
      bnd (search_filtered S target sInd eInd s) (\<lambda>s.
      if lTarget = 40 \<and> sIndAug \<noteq> 0
      then search_augmented S target sIndAug eIndAug (2 * baseSize - 20) (mk (cs_cbvectors S) lMem) s
      else Ok s))))"

text \<open>The gain of a stage, quantised relative to the gain of the stage before.\<close>

definition stage_gain :: "int \<Rightarrow> float32 list \<Rightarrow> float32 \<Rightarrow> int span \<Rightarrow> (float32 \<times> int list) res" where
  "stage_gain stage gains g gainIndex =
     (if stage = 0 then gainquant (go_min (go_max g 0) (dec32 13 1)) 1 32 (add gainIndex stage)
      else bnd (idx gains (stage - 1)) (\<lambda>p.
        gainquant g (abs32 p) (if stage = 1 then 16 else 8) (add gainIndex stage)))"

text \<open>The vector of the chosen index, as a span, and the array \<open>augVec\<close>.\<close>

definition chosen_vector ::
  "encoderState \<Rightarrow> cb_search \<Rightarrow> int \<Rightarrow> float32 list \<Rightarrow> (float32 span \<times> float32 list) res" where
  "chosen_vector encoder S i augVec =
     (let lMem = cs_lMem S; lTarget = cs_lTarget S; baseSize = cs_baseSize S;
          buf = cs_buf S; cbv = cs_cbvectors S in
      if lTarget = 80 - e_shortStateSamples encoder then
        if i < baseSize then Ok (mk buf (10 + lMem - lTarget - i), augVec)
        else Ok (mk cbv (lMem - lTarget - i + baseSize), augVec)
      else if i < baseSize then
        if i < baseSize - 20 then Ok (mk buf (10 + lMem - lTarget - i), augVec)
        else
          bnd (createAugmentedVec (i - baseSize + 40) (mk buf (10 + lMem)) (mk augVec 0)) (\<lambda>augVec.
          Ok (mk augVec 0, augVec))
      else
        let filterno = i div baseSize; position = i - filterno * baseSize in
        if position < baseSize - 20 then
          Ok (mk cbv (filterno * lMem - lTarget - i + filterno * baseSize), augVec)
        else
          bnd (createAugmentedVec (i - (filterno + 1) * baseSize + 40) (mk cbv (filterno * lMem)) (mk augVec 0))
            (\<lambda>augVec. Ok (mk augVec 0, augVec)))"

text \<open>The state the stages share.\<close>

record cb_stages =
  st_index :: "int span"
  st_gainIndex :: "int span"
  st_target :: "float32 list"
  st_cvec :: "float32 list"
  st_gains :: "float32 list"
  st_augVec :: "float32 list"
  st_energies :: cb_energies

definition run_stage :: "encoderState \<Rightarrow> cb_search \<Rightarrow> cb_stages \<Rightarrow> cb_stages res" where
  "run_stage encoder S st =
     (let stage = cs_stage S in
      bnd (search_stage S (st_target st) (st_energies st)) (\<lambda>(best, es).
      bnd (store (st_index st) stage (bestIndex best)) (\<lambda>index.
      bnd (stage_gain stage (st_gains st) (gain best) (st_gainIndex st)) (\<lambda>(g, gi).
      bnd (at index stage) (\<lambda>i.
      bnd (chosen_vector encoder S i (st_augVec st)) (\<lambda>(pp, augVec).
      bnd (for_up 0 (cs_lTarget S) (\<lambda>j (cvec, target).
        bnd (at pp j) (\<lambda>x.
        bnd (idx cvec j) (\<lambda>c.
        bnd (upd cvec j (c + g * x)) (\<lambda>cvec.
        bnd (idx target j) (\<lambda>t.
        bnd (upd target j (t - g * x)) (\<lambda>target.
        Ok (cvec, target))))))) (st_cvec st, st_target st)) (\<lambda>(cvec, target).
      bnd (upd (st_gains st) stage g) (\<lambda>gains.
      Ok \<lparr>st_index = index, st_gainIndex = (st_gainIndex st)\<lparr>sdata := gi\<rparr>, st_target = target,
          st_cvec = cvec, st_gains = gains, st_augVec = augVec, st_energies = es\<rparr>))))))))"

text \<open>The correction of the first gain towards the energy of the target.\<close>

definition adjust_gain :: "float32 \<Rightarrow> float32 \<Rightarrow> float32 \<Rightarrow> int \<Rightarrow> int res" where
  "adjust_gain cene tene g0 first =
     for_up first 32 (\<lambda>i j.
       bnd (idx gainSq5Tbl i) (\<lambda>gi.
       if cene * gi * gi < tene * g0 * g0 then
         bnd (idx gainSq5Tbl j) (\<lambda>gj.
         Ok (if f64 gj < int64 2 * f64 g0 then i else j))
       else Ok j)) first"

definition vec_energy :: "float32 list \<Rightarrow> int \<Rightarrow> float32 res" where
  "vec_energy xs n = for_up 0 n (\<lambda>i e. bnd (idx xs i) (\<lambda>x. Ok (e + x * x))) 0"

text \<open>The result is the index array and the gain index array.\<close>

definition searchCodebook ::
  "encoderState \<Rightarrow> int span \<Rightarrow> int span \<Rightarrow> float32 span \<Rightarrow> float32 span \<Rightarrow> int \<Rightarrow> int \<Rightarrow> int \<Rightarrow>
   float32 span \<Rightarrow> float32 span \<Rightarrow> int \<Rightarrow> (int list \<times> int list) res" where
  "searchCodebook encoder index gainIndex intarget mem lMem lTarget nStages weightDenum weightState block =
     (let baseSize = (if lTarget = 40 then lMem - lTarget + 1 + lTarget div 2 else lMem - lTarget + 1) in
      bnd (slice weightState 10) (\<lambda>xs.
      bnd (copy_sub (replicate 207 0) 0 10 xs) (\<lambda>buf.
      bnd (slice mem lMem) (\<lambda>xs.
      bnd (copy_sub buf 10 (10 + lMem) xs) (\<lambda>buf.
      bnd (slice intarget lTarget) (\<lambda>xs.
      bnd (copy_sub buf (10 + lMem) (10 + lMem + lTarget) xs) (\<lambda>buf.
      bnd (allPoleFilter (mk buf 10) weightDenum (lMem + lTarget) 10) (\<lambda>buf.
      bnd (sub buf (10 + lMem) (10 + lMem + lTarget)) (\<lambda>xs.
      bnd (copy_sub (replicate 40 0) 0 lTarget xs) (\<lambda>target.
      bnd (vec_energy target lTarget) (\<lambda>tene.
      bnd (filteredCBvecs (mk (replicate 147 0) 0) (mk buf 10) lMem) (\<lambda>cbvectors.
      bnd (for_up 0 nStages (\<lambda>stage st.
        bnd (idx searchRangeTbl block) (\<lambda>row.
        bnd (idx row stage) (\<lambda>valueRange.
        run_stage encoder \<lparr>cs_lMem = lMem, cs_lTarget = lTarget, cs_baseSize = baseSize,
          cs_stage = stage, cs_range = valueRange, cs_buf = buf, cs_cbvectors = cbvectors\<rparr> st)))
        \<lparr>st_index = index, st_gainIndex = gainIndex, st_target = target, st_cvec = replicate 40 0,
         st_gains = replicate 3 0, st_augVec = replicate 40 0,
         st_energies = (replicate 256 0, replicate 256 0)\<rparr>) (\<lambda>st.
      bnd (vec_energy (st_cvec st) lTarget) (\<lambda>cene.
      bnd (at (st_gainIndex st) 0) (\<lambda>first.
      bnd (adjust_gain cene tene (st_gains st ! 0) first) (\<lambda>j.
      bnd (store (st_gainIndex st) 0 j) (\<lambda>gi.
      Ok (sdata (st_index st), sdata gi))))))))))))))))))"

end
