(* ===== verification/Classify.thy ===== *)
theory Classify
  imports Constants
begin

text \<open>
  frameclassify.go: the position of the start state, chosen as the pair of neighbouring
  subframes with the largest weighted energy.
\<close>

definition ssqEnWin :: "float32 list" where
  "ssqEnWin = [dec32 8 1, dec32 9 1, 1, dec32 9 1, dec32 8 1]"

definition sampEnWin :: "float32 list" where
  "sampEnWin = [dec32 16666667 8, dec32 33333334 8, dec32 5 1, dec32 6666667 7, dec32 8333333 7]"

definition accumulate :: "float32 list \<Rightarrow> int \<Rightarrow> float32 \<Rightarrow> float32 list res" where
  "accumulate xs n v = bnd (idx xs n) (\<lambda>x. upd xs n (x + v))"

text \<open>\<open>acc[n]\<close> plus the energies of samples \<open>lo..hi-1\<close>, plain or weighted by a window.\<close>

definition add_energy :: "float32 span \<Rightarrow> int \<Rightarrow> int \<Rightarrow> int \<Rightarrow> float32 list \<Rightarrow> float32 list res" where
  "add_energy pp n lo hi acc =
     for_up lo hi (\<lambda>l acc. bnd (at pp l) (\<lambda>x. accumulate acc n (x * x))) acc"

definition add_weighted ::
  "float32 span \<Rightarrow> int \<Rightarrow> int \<Rightarrow> int \<Rightarrow> (int \<Rightarrow> int) \<Rightarrow> float32 list \<Rightarrow> float32 list res" where
  "add_weighted pp n lo hi w acc =
     for_up lo hi (\<lambda>l acc.
       bnd (idx sampEnWin (w l)) (\<lambda>c.
       bnd (at pp l) (\<lambda>x. accumulate acc n (c * x * x)))) acc"

definition ssq_candidate :: "float32 list \<Rightarrow> float32 list \<Rightarrow> int \<Rightarrow> int \<Rightarrow> float32 res" where
  "ssq_candidate fssqEn bssqEn n l =
     bnd (idx fssqEn (n - 1)) (\<lambda>f.
     bnd (idx bssqEn n) (\<lambda>b.
     bnd (idx ssqEnWin l) (\<lambda>w.
     Ok ((f + b) * w))))"

text \<open>The code fills both energies of an inner subframe in one loop; they are independent.\<close>

definition frameClassify :: "encoderState \<Rightarrow> float32 span \<Rightarrow> int res" where
  "frameClassify encoder residual =
     bnd (add_weighted residual 0 0 5 (\<lambda>l. l) (replicate 6 0)) (\<lambda>fssqEn.
     bnd (add_energy residual 0 5 40 fssqEn) (\<lambda>fssqEn.
     bnd (for_up 1 (e_subframes encoder - 1) (\<lambda>n (fssqEn, bssqEn).
       let pp = add residual (n * 40) in
       bnd (add_weighted pp n 0 5 (\<lambda>l. l) fssqEn) (\<lambda>fssqEn.
       bnd (add_energy pp n 5 40 fssqEn) (\<lambda>fssqEn.
       bnd (add_energy pp n 0 35 bssqEn) (\<lambda>bssqEn.
       bnd (add_weighted pp n 35 40 (\<lambda>l. 40 - l - 1) bssqEn) (\<lambda>bssqEn.
       Ok (fssqEn, bssqEn)))))) (fssqEn, replicate 6 0)) (\<lambda>(fssqEn, bssqEn).
     let n = e_subframes encoder - 1; pp = add residual (n * 40) in
     bnd (add_energy pp n 0 35 bssqEn) (\<lambda>bssqEn.
     bnd (add_weighted pp n 35 40 (\<lambda>l. 40 - l - 1) bssqEn) (\<lambda>bssqEn.
     let l = (if e_mode encoder = 20 then 1 else 0) in
     bnd (ssq_candidate fssqEn bssqEn 1 l) (\<lambda>maxSsqEn.
     bnd (for_up 2 (e_subframes encoder) (\<lambda>n (l, maxSsqEn, maxSsqEnN).
       let l = l + 1 in
       bnd (ssq_candidate fssqEn bssqEn n l) (\<lambda>c.
       Ok (if maxSsqEn < c then (l, c, n) else (l, maxSsqEn, maxSsqEnN))))
       (l, maxSsqEn, 1)) (\<lambda>(l, maxSsqEn, maxSsqEnN).
     Ok maxSsqEnN)))))))"

end
