(* ===== verification/Encoder.thy ===== *)
theory Encoder
  imports Decoder Cbsearch Classify
begin

text \<open>
  ilbc_encode.go: initialisation of the encoder state and the encoding of one frame.
\<close>

section \<open>initEncode\<close>

definition zero_encoder :: encoderState where
  "zero_encoder = \<lparr>e_mode = 0, e_frameSamples = 0, e_subframes = 0, e_adaptiveSubframes = 0,
     e_frameBytes = 0, e_frameWords = 0, e_lpcAnalyses = 0, e_shortStateSamples = 0,
     e_ulp = zero_layout, anaMem = replicate 10 0, lsfold = replicate 10 0,
     e_lsfdeqold = replicate 10 0, lpcBuffer = replicate 300 0, hpimem = replicate 4 0\<rparr>"

definition initEncode :: "encoderState \<Rightarrow> int \<Rightarrow> (16 word \<times> encoderState) res" where
  "initEncode encoder mode =
     (let encoder = encoder\<lparr>e_mode := mode\<rparr> in
      bnd (if mode = 30 then
             Ok (encoder\<lparr>e_frameSamples := 240, e_subframes := 6, e_adaptiveSubframes := 4,
               e_lpcAnalyses := 2, e_frameBytes := 50, e_frameWords := 25,
               e_shortStateSamples := 58, e_ulp := ulp30Table\<rparr>)
           else if mode = 20 then
             Ok (encoder\<lparr>e_frameSamples := 160, e_subframes := 4, e_adaptiveSubframes := 2,
               e_lpcAnalyses := 1, e_frameBytes := 38, e_frameWords := 19,
               e_shortStateSamples := 57, e_ulp := ulp20Table\<rparr>)
           else Panic (ExplicitPanic ''ilbc: invalid internal mode'')) (\<lambda>encoder.
      bnd (clear_sub (anaMem encoder) 0 10) (\<lambda>am.
      bnd (copy_sub (lsfold encoder) 0 10 (take 10 lsfmeanTbl)) (\<lambda>lo.
      bnd (copy_sub (e_lsfdeqold encoder) 0 10 (take 10 lsfmeanTbl)) (\<lambda>ld.
      bnd (clear_sub (lpcBuffer encoder) 0 300) (\<lambda>lb.
      bnd (clear_sub (hpimem encoder) 0 4) (\<lambda>hm.
      let encoder = encoder\<lparr>anaMem := am, lsfold := lo, e_lsfdeqold := ld, lpcBuffer := lb,
            hpimem := hm\<rparr> in
      Ok (word_of_int (e_frameBytes encoder), encoder))))))))"

section \<open>Analysis\<close>

text \<open>The filters, the LSF indices and the residual of the frame.\<close>

record analysis =
  an_syntdenum :: "float32 list"
  an_weightdenum :: "float32 list"
  an_lsfI :: "int list"
  an_residual :: "float32 list"

definition encode_analysis ::
  "platform \<Rightarrow> float32 span \<Rightarrow> encoderState \<Rightarrow> (analysis \<times> encoderState) res" where
  "encode_analysis P block encoder =
     bnd (hpInput block (e_frameSamples encoder) (mk (replicate 240 0) 0) (mk (hpimem encoder) 0))
       (\<lambda>(data, hm).
     let encoder = encoder\<lparr>hpimem := hm\<rparr> in
     bnd (encodeLPC P (mk (replicate 66 0) 0) (mk (replicate 66 0) 0) (mk (replicate 6 0) 0)
       (mk data 0) encoder) (\<lambda>(syntdenum, weightdenum, lsfI, encoder).
     bnd (for_up 0 (e_subframes encoder) (\<lambda>n (residual, mem).
       anaFilter (mk data (n * 40)) (mk syntdenum (n * 11)) 40 (mk residual (n * 40)) (mk mem 0))
       (replicate 240 0, anaMem encoder)) (\<lambda>(residual, mem).
     Ok (\<lparr>an_syntdenum = syntdenum, an_weightdenum = weightdenum, an_lsfI = lsfI,
           an_residual = residual\<rparr>, encoder\<lparr>anaMem := mem\<rparr>))))"

section \<open>The start state\<close>

text \<open>Which end of the two subframes the start state takes: \<open>stateFirst\<close> and \<open>startPos\<close>.\<close>

definition state_energy :: "float32 list \<Rightarrow> int \<Rightarrow> int \<Rightarrow> float32 res" where
  "state_energy residual index n =
     for_up 0 n (\<lambda>i en. bnd (idx residual (index + i)) (\<lambda>x. Ok (en + x * x))) 0"

definition state_position :: "encoderState \<Rightarrow> float32 list \<Rightarrow> int \<Rightarrow> (int \<times> int) res" where
  "state_position encoder residual st =
     (let ns = e_shortStateSamples encoder; diff = 80 - ns in
      bnd (state_energy residual ((st - 1) * 40) ns) (\<lambda>en1.
      bnd (state_energy residual ((st - 1) * 40 + diff) ns) (\<lambda>en2.
      Ok (if en2 < en1 then (1, (st - 1) * 40) else (0, (st - 1) * 40 + diff)))))"

section \<open>The adaptive codebook\<close>

text \<open>The indices found so far and the decoded residual.\<close>

record coding =
  cd_cbIndex :: "int list"
  cd_gainIndex :: "int list"
  cd_extraCb :: "int list"
  cd_extraGain :: "int list"
  cd_decresidual :: "float32 list"

text \<open>The samples of the two subframes of the start state that it does not cover; the second
  component of the result is the codebook memory.\<close>

definition encode_boundary ::
  "encoderState \<Rightarrow> analysis \<Rightarrow> int \<Rightarrow> int \<Rightarrow> int \<Rightarrow> coding \<Rightarrow> (coding \<times> float32 list) res" where
  "encode_boundary encoder an st stateF startPos cd =
     (let ns = e_shortStateSamples encoder; diff = 80 - ns; mem = replicate 147 0;
          weightState = mk (replicate 10 0) 0; res = an_residual an; dec = cd_decresidual cd in
      if stateF \<noteq> 0 then
        bnd (clear_sub mem 0 (147 - ns)) (\<lambda>mem.
        bnd (sub dec startPos (startPos + ns)) (\<lambda>xs.
        bnd (copy_sub mem (147 - ns) (147 - ns + ns) xs) (\<lambda>mem.
        bnd (searchCodebook encoder (mk (cd_extraCb cd) 0) (mk (cd_extraGain cd) 0)
          (mk res (startPos + ns)) (codebook_mem mem stMemLTbl) stMemLTbl diff 3
          (mk (an_weightdenum an) (st * 11)) weightState 0) (\<lambda>(ci, gi).
        bnd (constructCodebook (mk dec (startPos + ns)) (mk ci 0) (mk gi 0)
          (codebook_mem mem stMemLTbl) stMemLTbl diff 3) (\<lambda>dec.
        Ok (cd\<lparr>cd_extraCb := ci, cd_extraGain := gi, cd_decresidual := dec\<rparr>, mem))))))
      else
        bnd (for_up 0 diff (\<lambda>k rev.
          bnd (idx res ((st + 1) * 40 - 1 - (k + ns))) (\<lambda>x. upd rev k x)) (replicate 240 0))
          (\<lambda>reverseResidual.
        bnd (mem_reverse mem (mk dec 0) startPos ns) (\<lambda>mem.
        bnd (searchCodebook encoder (mk (cd_extraCb cd) 0) (mk (cd_extraGain cd) 0)
          (mk reverseResidual 0) (codebook_mem mem stMemLTbl) stMemLTbl diff 3
          (mk (an_weightdenum an) ((st - 1) * 11)) weightState 0) (\<lambda>(ci, gi).
        bnd (constructCodebook (mk (replicate 240 0) 0) (mk ci 0) (mk gi 0)
          (codebook_mem mem stMemLTbl) stMemLTbl diff 3) (\<lambda>reverseDecresidual.
        bnd (for_up 0 diff (\<lambda>k dec.
          bnd (idx reverseDecresidual k) (\<lambda>x. store dec (startPos - 1 - k) x)) (mk dec 0)) (\<lambda>dec.
        Ok (cd\<lparr>cd_extraCb := ci, cd_extraGain := gi, cd_decresidual := sdata dec\<rparr>, mem)))))))"

definition encode_forward ::
  "encoderState \<Rightarrow> analysis \<Rightarrow> int \<Rightarrow> int \<Rightarrow> coding \<times> float32 list \<times> int \<Rightarrow>
   (coding \<times> float32 list \<times> int) res" where
  "encode_forward encoder an st subframe = (\<lambda>(cd, mem, subcount).
     let pos = (st + 1 + subframe) * 40 in
     bnd (idx memLfTbl subcount) (\<lambda>l.
     bnd (searchCodebook encoder (mk (cd_cbIndex cd) (subcount * 3)) (mk (cd_gainIndex cd) (subcount * 3))
       (mk (an_residual an) pos) (codebook_mem mem l) l 40 3
       (mk (an_weightdenum an) ((st + 1 + subframe) * 11)) (mk (replicate 10 0) 0) (subcount + 1)) (\<lambda>(ci, gi).
     bnd (constructCodebook (mk (cd_decresidual cd) pos) (mk ci (subcount * 3)) (mk gi (subcount * 3))
       (codebook_mem mem l) l 40 3) (\<lambda>dec.
     bnd (sub dec pos (pos + 40)) (\<lambda>xs.
     bnd (mem_shift mem xs) (\<lambda>mem.
     Ok (cd\<lparr>cd_cbIndex := ci, cd_gainIndex := gi, cd_decresidual := dec\<rparr>, mem, subcount + 1)))))))"

definition encode_backward ::
  "encoderState \<Rightarrow> analysis \<Rightarrow> float32 list \<Rightarrow> int \<Rightarrow> int \<Rightarrow>
   coding \<times> float32 list \<times> float32 list \<times> int \<Rightarrow>
   (coding \<times> float32 list \<times> float32 list \<times> int) res" where
  "encode_backward encoder an reverseResidual st subframe = (\<lambda>(cd, reverseDecresidual, mem, subcount).
     bnd (idx memLfTbl subcount) (\<lambda>l.
     bnd (searchCodebook encoder (mk (cd_cbIndex cd) (subcount * 3)) (mk (cd_gainIndex cd) (subcount * 3))
       (mk reverseResidual (subframe * 40)) (codebook_mem mem l) l 40 3
       (mk (an_weightdenum an) ((st - 2 - subframe) * 11)) (mk (replicate 10 0) 0) (subcount + 1)) (\<lambda>(ci, gi).
     bnd (constructCodebook (mk reverseDecresidual (subframe * 40)) (mk ci (subcount * 3)) (mk gi (subcount * 3))
       (codebook_mem mem l) l 40 3) (\<lambda>reverseDecresidual.
     bnd (sub reverseDecresidual (subframe * 40) (subframe * 40 + 40)) (\<lambda>xs.
     bnd (mem_shift mem xs) (\<lambda>mem.
     Ok (cd\<lparr>cd_cbIndex := ci, cd_gainIndex := gi\<rparr>, reverseDecresidual, mem, subcount + 1)))))))"

text \<open>The time-reversed residuals before the start state.\<close>

definition encode_reverse ::
  "float32 list \<Rightarrow> float32 list \<Rightarrow> int \<Rightarrow> int \<Rightarrow> (float32 list \<times> float32 list) res" where
  "encode_reverse res dec st nback =
     for_up 0 nback (\<lambda>n. for_up 0 40 (\<lambda>k (rr, rd).
       bnd (idx res ((st - 1) * 40 - 1 - n * 40 - k)) (\<lambda>x.
       bnd (upd rr (n * 40 + k) x) (\<lambda>rr.
       bnd (idx dec ((st - 1) * 40 - 1 - n * 40 - k)) (\<lambda>y.
       bnd (upd rd (n * 40 + k) y) (\<lambda>rd.
       Ok (rr, rd))))))) (replicate 240 0, replicate 240 0)"

definition encode_rest ::
  "encoderState \<Rightarrow> analysis \<Rightarrow> int \<Rightarrow> coding \<times> float32 list \<Rightarrow> coding res" where
  "encode_rest encoder an st = (\<lambda>(cd, mem).
     let nfor = e_subframes encoder - st - 1; nback = st - 1 in
     bnd (if 0 < nfor then
            bnd (clear_sub mem 0 67) (\<lambda>mem.
            bnd (sub (cd_decresidual cd) ((st - 1) * 40) ((st - 1) * 40 + 80)) (\<lambda>xs.
            bnd (copy_sub mem 67 147 xs) (\<lambda>mem.
            for_up 0 nfor (encode_forward encoder an st) (cd, mem, 0))))
          else Ok (cd, mem, 0)) (\<lambda>(cd, mem, subcount).
     if 0 < nback then
       bnd (encode_reverse (an_residual an) (cd_decresidual cd) st nback) (\<lambda>(rr, rd).
       let memlGotten = 40 * (e_subframes encoder + 1 - st);
           memlGotten = (if 147 < memlGotten then 147 else memlGotten) in
       bnd (mem_reverse mem (mk (cd_decresidual cd) 0) ((st - 1) * 40) memlGotten) (\<lambda>mem.
       bnd (for_up 0 nback (encode_backward encoder an rr st) (cd, rd, mem, subcount))
         (\<lambda>(cd, rd, mem, subcount).
       bnd (for_up 0 (40 * nback) (\<lambda>i dec.
         bnd (idx rd i) (\<lambda>x. upd dec (40 * nback - i - 1) x)) (cd_decresidual cd)) (\<lambda>dec.
       Ok (cd\<lparr>cd_decresidual := dec\<rparr>)))))
     else Ok cd))"

section \<open>encodeFrame\<close>

text \<open>Everything up to the packing: the frame of indices and the decoded residual the encoder
  has followed.\<close>

definition encode_indices ::
  "platform \<Rightarrow> float32 span \<Rightarrow> encoderState \<Rightarrow> (frame \<times> float32 list \<times> encoderState) res" where
  "encode_indices P block encoder =
     bnd (encode_analysis P block encoder) (\<lambda>(an, encoder).
     bnd (frameClassify encoder (mk (an_residual an) 0)) (\<lambda>st.
     bnd (state_position encoder (an_residual an) st) (\<lambda>(stateF, startPos).
     let ns = e_shortStateSamples encoder; synt = mk (an_syntdenum an) ((st - 1) * 11) in
     bnd (stateSearchW P encoder (mk (an_residual an) startPos) synt
       (mk (an_weightdenum an) ((st - 1) * 11)) (mk [0] 0) (mk (replicate 80 0) 0) ns stateF) (\<lambda>(im, iv).
     bnd (stateConstructW P (im ! 0) (mk iv 0) synt (mk (replicate 240 0) startPos) ns) (\<lambda>dec.
     bnd (encode_boundary encoder an st stateF startPos
       \<lparr>cd_cbIndex = replicate 12 0, cd_gainIndex = replicate 12 0, cd_extraCb = replicate 3 0,
        cd_extraGain = replicate 3 0, cd_decresidual = dec\<rparr>) (\<lambda>s.
     bnd (encode_rest encoder an st s) (\<lambda>cd.
     bnd (convertEncoderIndices (mk (cd_cbIndex cd) 0)) (\<lambda>ci.
     Ok (\<lparr>lsfI = an_lsfI an, start = st, stateFirst = stateF, idxForMax = im ! 0, idxVec = iv,
          extraCbIndex = cd_extraCb cd, extraGainIndex = cd_extraGain cd, cbIndex = ci,
          gainIndex = cd_gainIndex cd\<rparr>, cd_decresidual cd, encoder)))))))))"

definition encodeFrame ::
  "platform \<Rightarrow> byte list \<Rightarrow> float32 span \<Rightarrow> encoderState \<Rightarrow> (byte list \<times> encoderState) res" where
  "encodeFrame P bytes block encoder =
     bnd (encode_indices P block encoder) (\<lambda>(fr, dec, encoder).
     bnd (packFrame (e_ulp encoder) (e_lpcAnalyses encoder) (e_shortStateSamples encoder)
       (e_adaptiveSubframes encoder) fr bytes) (\<lambda>bytes.
     Ok (bytes, encoder)))"

end
