(* ===== verification/Codec.thy ===== *)
theory Codec
  imports Encoder
begin

text \<open>
  codec.go: the public API.  An \<open>Encoder\<close> or \<open>Decoder\<close> is its state; an operation returns the
  error, the destination buffer and the state.
\<close>

datatype api_error = ErrInvalidMode | ErrUninitialized | ErrPCMSize | ErrPacketSize | ErrShortBuffer

type_synonym int16 = "16 word"

section \<open>Encoder\<close>

definition NewEncoder :: "int \<Rightarrow> (api_error + encoderState) res" where
  "NewEncoder mode =
     (if mode \<noteq> 20 \<and> mode \<noteq> 30 then Ok (Inl ErrInvalidMode)
      else bnd (initEncode zero_encoder mode) (\<lambda>(_, e). Ok (Inr e)))"

definition Encoder_FrameSamples :: "encoderState \<Rightarrow> int" where
  "Encoder_FrameSamples e = e_frameSamples e"

definition Encoder_FrameBytes :: "encoderState \<Rightarrow> int" where
  "Encoder_FrameBytes e = e_frameBytes e"

definition pcm_block :: "int16 list \<Rightarrow> float32 list res" where
  "pcm_block pcm =
     for_up 0 (int (length pcm)) (\<lambda>i block.
       bnd (idx pcm i) (\<lambda>sample. upd block i (int32 (sint sample)))) (replicate 240 0)"

definition Encode ::
  "platform \<Rightarrow> encoderState \<Rightarrow> byte list \<Rightarrow> int16 list \<Rightarrow>
   (api_error option \<times> byte list \<times> encoderState) res" where
  "Encode P e dst pcm =
     (if e_mode e = 0 then Ok (Some ErrUninitialized, dst, e)
      else if int (length pcm) \<noteq> e_frameSamples e then Ok (Some ErrPCMSize, dst, e)
      else if int (length dst) < e_frameBytes e then Ok (Some ErrShortBuffer, dst, e)
      else
        bnd (pcm_block pcm) (\<lambda>block.
        bnd (sub dst 0 (e_frameBytes e)) (\<lambda>bytes.
        bnd (encodeFrame P bytes (mk block 0) e) (\<lambda>(bytes, e').
        Ok (None, blit dst 0 bytes, e')))))"

definition Encoder_Reset :: "encoderState \<Rightarrow> (api_error option \<times> encoderState) res" where
  "Encoder_Reset e =
     (if e_mode e = 0 then Ok (Some ErrUninitialized, e)
      else bnd (initEncode e (e_mode e)) (\<lambda>(_, e). Ok (None, e)))"

section \<open>Decoder\<close>

definition NewDecoder :: "int \<Rightarrow> bool \<Rightarrow> (api_error + decoderState) res" where
  "NewDecoder mode enhance =
     (if mode \<noteq> 20 \<and> mode \<noteq> 30 then Ok (Inl ErrInvalidMode)
      else bnd (initDecode zero_decoder mode (if enhance then 1 else 0)) (\<lambda>(_, d). Ok (Inr d)))"

definition Decoder_FrameSamples :: "decoderState \<Rightarrow> int" where
  "Decoder_FrameSamples d = d_frameSamples d"

definition Decoder_FrameBytes :: "decoderState \<Rightarrow> int" where
  "Decoder_FrameBytes d = d_frameBytes d"

definition clip_sample :: "float32 \<Rightarrow> float32" where
  "clip_sample sample =
     (if sample < int32 (- 32768) then int32 (- 32768)
      else if int32 32767 < sample then int32 32767 else sample)"

definition decoder_decode ::
  "platform \<Rightarrow> decoderState \<Rightarrow> int16 list \<Rightarrow> byte list \<Rightarrow> int \<Rightarrow> (int16 list \<times> decoderState) res" where
  "decoder_decode P d dst packet received =
     (let d = d\<lparr>syntMem := flushSubnormalHistory (syntMem d), hpomem := flushSubnormalHistory (hpomem d)\<rparr> in
      bnd (decodeFrame P (mk (replicate 240 0) 0) packet d received) (\<lambda>(block, d).
      bnd (for_up 0 (d_frameSamples d) (\<lambda>i dst.
        bnd (idx block i) (\<lambda>sample. upd dst i (go_int16 P (clip_sample sample)))) dst) (\<lambda>dst.
      Ok (dst, d))))"

definition Decode ::
  "platform \<Rightarrow> decoderState \<Rightarrow> int16 list \<Rightarrow> byte list \<Rightarrow>
   (api_error option \<times> int16 list \<times> decoderState) res" where
  "Decode P d dst packet =
     (if d_mode d = 0 then Ok (Some ErrUninitialized, dst, d)
      else if int (length packet) \<noteq> d_frameBytes d then Ok (Some ErrPacketSize, dst, d)
      else if int (length dst) < d_frameSamples d then Ok (Some ErrShortBuffer, dst, d)
      else bnd (decoder_decode P d dst packet 1) (\<lambda>(dst, d). Ok (None, dst, d)))"

definition Conceal ::
  "platform \<Rightarrow> decoderState \<Rightarrow> int16 list \<Rightarrow> (api_error option \<times> int16 list \<times> decoderState) res" where
  "Conceal P d dst =
     (if d_mode d = 0 then Ok (Some ErrUninitialized, dst, d)
      else if int (length dst) < d_frameSamples d then Ok (Some ErrShortBuffer, dst, d)
      else bnd (decoder_decode P d dst [] 0) (\<lambda>(dst, d). Ok (None, dst, d)))"

definition Decoder_Reset :: "decoderState \<Rightarrow> (api_error option \<times> decoderState) res" where
  "Decoder_Reset d =
     (if d_mode d = 0 then Ok (Some ErrUninitialized, d)
      else bnd (initDecode d (d_mode d) (enhancement d)) (\<lambda>(_, d). Ok (None, d)))"

end
