(* ===== verification/Roundtrip.thy ===== *)
theory Roundtrip
  imports Bitstream
begin

text \<open>
  The three passes of the packer and of the unpacker are inverse to each other.  The pass
  lemmas are proved once over the interfaces \<open>bit_writer\<close> and \<open>bit_reader\<close>, for any list of
  distinct slots; the results about frames instantiate them with \<open>dopack\<close>, \<open>unpack\<close> and the
  slots of a layout.
\<close>

section \<open>Operations on one index over an abstract bit channel\<close>

definition emit_op :: "('w \<Rightarrow> int \<Rightarrow> int \<Rightarrow> 'w res) \<Rightarrow> 'w index_op" where
  "emit_op wr v bits ulp st =
     bnd (idx bits ulp) (\<lambda>a.
     bnd (idx bits (ulp + 1)) (\<lambda>b.
     bnd (idx bits (ulp + 2)) (\<lambda>c.
     let (firstpart, rest) = packsplit v a (a + b + c) in
     bnd (wr st firstpart a) (\<lambda>st.
     Ok (rest, st)))))"

definition fetch_op :: "('r \<Rightarrow> int \<Rightarrow> ('r \<times> int) res) \<Rightarrow> 'r index_op" where
  "fetch_op get v bits ulp st =
     bnd (idx bits ulp) (\<lambda>a.
     bnd (get st a) (\<lambda>(st, lastpart).
     Ok (packcombine v lastpart a, st)))"

lemma emit_eq: "emit = emit_op pack_bits"
  by (intro ext) (simp add: emit_def emit_op_def case_prod_unfold)

lemma fetch_eq: "fetch = fetch_op unpack_bits"
  by (intro ext) (simp add: fetch_def fetch_op_def unpack_bits_def case_prod_unfold bnd_assoc)

section \<open>Bit counts\<close>

definition bits_ok :: "int list \<Rightarrow> bool" where
  "bits_ok ws \<longleftrightarrow> (\<exists>a b c. ws = [a, b, c, 0, 0] \<and> 0 \<le> a \<and> 0 \<le> b \<and> 0 \<le> c)"

text \<open>The bits that classes \<open>u\<close> and later still carry.\<close>

definition rem_bits :: "int list \<Rightarrow> int \<Rightarrow> nat" where
  "rem_bits ws u = nat (sum_list (drop (nat u) ws))"

abbreviation class_bits :: "int list \<Rightarrow> int \<Rightarrow> nat" where
  "class_bits ws u \<equiv> nat (ws ! nat u)"

lemma class_cases: "0 \<le> u \<Longrightarrow> u < 3 \<Longrightarrow> u = 0 \<or> u = 1 \<or> u = (2 :: int)"
  by auto

lemma bits_ok_idx:
  assumes "bits_ok ws" "0 \<le> u" "u < 3"
  shows "idx ws u = Ok (ws ! nat u)" "0 \<le> ws ! nat u"
    "idx ws (u + 1) = Ok (ws ! nat (u + 1))" "idx ws (u + 2) = Ok (ws ! nat (u + 2))"
    "rem_bits ws u = class_bits ws u + rem_bits ws (u + 1)"
    "nat (ws ! nat (u + 1) + ws ! nat (u + 2)) = rem_bits ws (u + 1)"
    "0 \<le> ws ! nat (u + 1) + ws ! nat (u + 2)"
  using assms class_cases[OF assms(2,3)]
  by (auto simp: bits_ok_def rem_bits_def nat_add_distrib numeral_2_eq_2 numeral_3_eq_3)

lemma rem_bits_3: "bits_ok ws \<Longrightarrow> rem_bits ws 3 = 0"
  by (auto simp: bits_ok_def rem_bits_def numeral_3_eq_3)

section \<open>One pass\<close>

definition slots_ok :: "slot list \<Rightarrow> bool" where
  "slots_ok sl \<longleftrightarrow> distinct (map fst sl) \<and> (\<forall>(x, ws) \<in> set sl. fvalid x \<and> bits_ok ws)"

definition slot_bits :: "frame \<Rightarrow> int \<Rightarrow> slot \<Rightarrow> bool list" where
  "slot_bits fr u = (\<lambda>(x, ws).
     to_bits (class_bits ws u) (drop_bit (rem_bits ws (u + 1)) (fget fr x)))"

definition pass_bits :: "frame \<Rightarrow> slot list \<Rightarrow> int \<Rightarrow> bool list" where
  "pass_bits fr sl u = concat (map (slot_bits fr u) sl)"

definition in_range :: "frame \<Rightarrow> slot list \<Rightarrow> int \<Rightarrow> bool" where
  "in_range fr sl u \<longleftrightarrow> (\<forall>(x, ws) \<in> set sl. 0 \<le> fget fr x \<and> fget fr x < 2 ^ rem_bits ws u)"

lemma slots_ok_Cons:
  "slots_ok ((x, ws) # sl) \<longleftrightarrow>
     fvalid x \<and> bits_ok ws \<and> x \<notin> fst ` set sl \<and> slots_ok sl"
  by (auto simp: slots_ok_def)

lemma slot_bits_cong: "fget fr x = fget fr' x \<Longrightarrow> slot_bits fr u (x, ws) = slot_bits fr' u (x, ws)"
  by (simp add: slot_bits_def)

lemma pass_bits_cong:
  "(\<And>x ws. (x, ws) \<in> set sl \<Longrightarrow> fget fr x = fget fr' x) \<Longrightarrow> pass_bits fr sl u = pass_bits fr' sl u"
  unfolding pass_bits_def
  by (rule arg_cong[where f = concat], rule map_cong) (auto intro: slot_bits_cong)

lemma length_slot_bits [simp]: "length (slot_bits fr u (x, ws)) = class_bits ws u"
  by (simp add: slot_bits_def)

context bit_writer
begin

lemma emit_op_ok:
  assumes ws: "bits_ok ws" and u: "0 \<le> u" "u < 3" and w: "winv w"
    and v: "0 \<le> v" "v < 2 ^ rem_bits ws u" and room: "length (out w) + class_bits ws u \<le> cap w"
  shows "\<exists>w'. emit_op put_bits v ws u w = Ok (take_bit (rem_bits ws (u + 1)) v, w') \<and>
     winv w' \<and> cap w' = cap w \<and>
     out w' = out w @ to_bits (class_bits ws u) (drop_bit (rem_bits ws (u + 1)) v)"
proof -
  note k = bits_ok_idx[OF ws u]
  let ?r = "rem_bits ws (u + 1)"
  have "packsplit v (ws ! nat u) (ws ! nat u + ws ! nat (u + 1) + ws ! nat (u + 2)) =
      (drop_bit ?r v, take_bit ?r v)"
    using packsplit_eq[of "ws ! nat u" "ws ! nat u + (ws ! nat (u + 1) + ws ! nat (u + 2))" v] k
    by (simp add: add.assoc)
  moreover have "drop_bit ?r v < 2 ^ class_bits ws u"
    using v(2) unfolding k(5) drop_bit_eq_div by (intro int_div_less) (simp_all add: power_add)
  ultimately show ?thesis
    using put_bits[OF w, of "drop_bit ?r v" "ws ! nat u"] k v(1) room
    by (auto simp: emit_op_def)
qed

lemma emit_slots:
  assumes "slots_ok sl" "0 \<le> u" "u < 3" "winv w" "frame_shape fr" "in_range fr sl u"
    and "length (out w) + length (pass_bits fr sl u) \<le> cap w"
  shows "\<exists>fr' w'. foldM (slot_step (emit_op put_bits) u) sl (fr, w) = Ok (fr', w') \<and>
     winv w' \<and> cap w' = cap w \<and> frame_shape fr' \<and> out w' = out w @ pass_bits fr sl u \<and>
     (\<forall>(x, ws) \<in> set sl. fget fr' x = take_bit (rem_bits ws (u + 1)) (fget fr x)) \<and>
     (\<forall>x. fvalid x \<longrightarrow> x \<notin> fst ` set sl \<longrightarrow> fget fr' x = fget fr x)"
  using assms
proof (induction sl arbitrary: fr w)
  case Nil
  then show ?case by (simp add: pass_bits_def)
next
  case (Cons s sl)
  obtain x ws where s: "s = (x, ws)" by (cases s)
  from Cons.prems s have ok: "fvalid x" "bits_ok ws" "x \<notin> fst ` set sl" "slots_ok sl"
    by (auto simp: slots_ok_Cons)
  let ?r = "rem_bits ws (u + 1)" and ?v = "fget fr x"
  have v: "0 \<le> ?v" "?v < 2 ^ rem_bits ws u" using Cons.prems(6) s by (auto simp: in_range_def)
  have room: "length (out w) + class_bits ws u \<le> cap w"
    using Cons.prems(7) s by (simp add: pass_bits_def)
  obtain w1 where w1: "emit_op put_bits ?v ws u w = Ok (take_bit ?r ?v, w1)" "winv w1"
      "cap w1 = cap w" "out w1 = out w @ slot_bits fr u s"
    using emit_op_ok[OF ok(2) Cons.prems(2,3,4) v room] s by (auto simp: slot_bits_def)
  let ?fr = "fset fr x (take_bit ?r ?v)"
  have get: "fget ?fr y = (if x = y then take_bit ?r ?v else fget fr y)" if "fvalid y" for y
    by (rule fget_fset[OF Cons.prems(5) ok(1) that])
  have same: "fget ?fr y = fget fr y" if "(y, ws') \<in> set sl" for y ws'
  proof -
    have "fvalid y" using that ok(4) by (auto simp: slots_ok_def)
    moreover have "x \<noteq> y" using that ok(3) by force
    ultimately show ?thesis by (simp add: get)
  qed
  have pb: "pass_bits ?fr sl u = pass_bits fr sl u"
    using same by (rule pass_bits_cong)
  have "in_range ?fr sl u"
    using Cons.prems(6) same by (fastforce simp: in_range_def)
  moreover have "length (out w1) + length (pass_bits ?fr sl u) \<le> cap w1"
    using Cons.prems(7) w1(3,4) unfolding pb by (simp add: pass_bits_def)
  ultimately obtain fr' w' where IH: "foldM (slot_step (emit_op put_bits) u) sl (?fr, w1) = Ok (fr', w')"
     "winv w'" "cap w' = cap w1" "frame_shape fr'" "out w' = out w1 @ pass_bits fr sl u"
     "\<forall>(x, ws) \<in> set sl. fget fr' x = take_bit (rem_bits ws (u + 1)) (fget ?fr x)"
     "\<forall>x. fvalid x \<longrightarrow> x \<notin> fst ` set sl \<longrightarrow> fget fr' x = fget ?fr x"
    using Cons.IH[OF ok(4) Cons.prems(2,3) w1(2), of ?fr] Cons.prems(5) unfolding pb by auto
  have "fget fr' x = take_bit ?r ?v" using IH(7) ok(1,3) get by simp
  moreover have "\<forall>(y, ws') \<in> set sl. fget fr' y = take_bit (rem_bits ws' (u + 1)) (fget fr y)"
    using IH(6) same by fastforce
  moreover have "\<forall>y. fvalid y \<longrightarrow> y \<notin> fst ` set (s # sl) \<longrightarrow> fget fr' y = fget fr y"
    using IH(7) get s by auto
  moreover have "slot_step (emit_op put_bits) u s (fr, w) = Ok (?fr, w1)"
    using w1(1) s by (simp add: slot_step_def)
  ultimately show ?case
    using IH(1-5) w1(2-4) s by (auto simp: pass_bits_def)
qed

end

context bit_reader
begin

lemma fetch_op_ok:
  assumes ws: "bits_ok ws" and u: "0 \<le> u" "u < 3" and r: "rinv r"
    and b: "rest r = bs @ rs" "length bs = class_bits ws u"
  shows "\<exists>r'. fetch_op get_bits v ws u r = Ok (packcombine v (of_bits bs) (ws ! nat u), r') \<and>
     rinv r' \<and> rest r' = rs"
  using get_bits[OF r, of "ws ! nat u"] bits_ok_idx(1,2)[OF ws u] b
  by (auto simp: fetch_op_def)

lemma fetch_slots:
  assumes "slots_ok sl" "0 \<le> u" "u < 3" "rinv r" "frame_shape fr"
    and "rest r = pass_bits f0 sl u @ rs"
    and "\<forall>(x, ws) \<in> set sl. fget fr x = drop_bit (rem_bits ws u) (fget f0 x)"
  shows "\<exists>fr' r'. foldM (slot_step (fetch_op get_bits) u) sl (fr, r) = Ok (fr', r') \<and>
     rinv r' \<and> frame_shape fr' \<and> rest r' = rs \<and>
     (\<forall>(x, ws) \<in> set sl. fget fr' x = drop_bit (rem_bits ws (u + 1)) (fget f0 x)) \<and>
     (\<forall>x. fvalid x \<longrightarrow> x \<notin> fst ` set sl \<longrightarrow> fget fr' x = fget fr x)"
  using assms
proof (induction sl arbitrary: fr r)
  case Nil
  then show ?case by (simp add: pass_bits_def)
next
  case (Cons s sl)
  obtain x ws where s: "s = (x, ws)" by (cases s)
  from Cons.prems s have ok: "fvalid x" "bits_ok ws" "x \<notin> fst ` set sl" "slots_ok sl"
    by (auto simp: slots_ok_Cons)
  let ?k = "rem_bits ws (u + 1)" and ?v = "fget f0 x"
  have "rest r = slot_bits f0 u s @ (pass_bits f0 sl u @ rs)"
    using Cons.prems(6) by (simp add: pass_bits_def)
  then obtain r1 where r1: "rinv r1" "rest r1 = pass_bits f0 sl u @ rs"
      "fetch_op get_bits (fget fr x) ws u r =
         Ok (packcombine (fget fr x) (of_bits (slot_bits f0 u s)) (ws ! nat u), r1)"
    using fetch_op_ok[OF ok(2) Cons.prems(2,3,4), of "slot_bits f0 u s"] s by fastforce
  have "packcombine (fget fr x) (of_bits (slot_bits f0 u s)) (ws ! nat u) = drop_bit ?k ?v"
  proof -
    have "fget fr x = drop_bit (class_bits ws u) (drop_bit ?k ?v)"
      using Cons.prems(7) s bits_ok_idx(5)[OF ok(2) Cons.prems(2,3)] by (simp add: add.commute)
    moreover have "of_bits (slot_bits f0 u s) = take_bit (class_bits ws u) (drop_bit ?k ?v)"
      using s by (simp add: slot_bits_def of_bits_to_bits)
    ultimately show ?thesis
      using bits_ident[of "class_bits ws u" "drop_bit ?k ?v"]
      by (simp only: packcombine_def)
  qed
  note v' = this
  let ?fr = "fset fr x (drop_bit ?k ?v)"
  have get: "fget ?fr y = (if x = y then drop_bit ?k ?v else fget fr y)" if "fvalid y" for y
    by (rule fget_fset[OF Cons.prems(5) ok(1) that])
  have same: "fget ?fr y = fget fr y" if "(y, ws') \<in> set sl" for y ws'
  proof -
    have "fvalid y" using that ok(4) by (auto simp: slots_ok_def)
    moreover have "x \<noteq> y" using that ok(3) by force
    ultimately show ?thesis by (simp add: get)
  qed
  have "\<forall>(x, ws) \<in> set sl. fget ?fr x = drop_bit (rem_bits ws u) (fget f0 x)"
    using Cons.prems(7) same by fastforce
  then obtain fr' r' where IH: "foldM (slot_step (fetch_op get_bits) u) sl (?fr, r1) = Ok (fr', r')"
     "rinv r'" "frame_shape fr'" "rest r' = rs"
     "\<forall>(x, ws) \<in> set sl. fget fr' x = drop_bit (rem_bits ws (u + 1)) (fget f0 x)"
     "\<forall>x. fvalid x \<longrightarrow> x \<notin> fst ` set sl \<longrightarrow> fget fr' x = fget ?fr x"
    using Cons.IH[OF ok(4) Cons.prems(2,3) r1(1), of ?fr] Cons.prems(5) r1(2) by auto
  have "fget fr' x = drop_bit ?k ?v" using IH(6) ok(1,3) get by simp
  moreover have "\<forall>y. fvalid y \<longrightarrow> y \<notin> fst ` set (s # sl) \<longrightarrow> fget fr' y = fget fr y"
    using IH(6) get s by auto
  moreover have "slot_step (fetch_op get_bits) u s (fr, r) = Ok (?fr, r1)"
    using r1(3) v' s by (simp add: slot_step_def)
  ultimately show ?case
    using IH(1-5) s by auto
qed

end

section \<open>The three passes of a frame\<close>

definition frame_bits :: "frame \<Rightarrow> slot list \<Rightarrow> bool list" where
  "frame_bits fr sl = pass_bits fr sl 0 @ pass_bits fr sl 1 @ pass_bits fr sl 2"

lemma slots_okD: "slots_ok sl \<Longrightarrow> (x, ws) \<in> set sl \<Longrightarrow> fvalid x \<and> bits_ok ws"
  by (auto simp: slots_ok_def)

lemma three_passes:
  "for_up 0 3 f s = bnd (f 0 s) (\<lambda>s. bnd (f 1 s) (f (2 :: int)))"
proof -
  have "for_up 3 3 f = Inr" by (rule ext) simp
  then have "for_up 1 3 f = (\<lambda>s. bnd (f 1 s) (f 2))"
    by (intro ext) (simp add: for_up_step, rule bnd_cong, simp_all add: for_up_step)
  then show ?thesis by (simp add: for_up_step)
qed

text \<open>What a pass keeps of the value, seen by the pass that follows.\<close>

lemma pass_bits_take:
  assumes "slots_ok sl" "0 \<le> u" "u < 3"
    and "\<forall>(x, ws) \<in> set sl. fget fr x = take_bit (rem_bits ws u) (fget f0 x)"
  shows "pass_bits fr sl u = pass_bits f0 sl u"
  unfolding pass_bits_def
proof (rule arg_cong[where f = concat], rule map_cong[OF refl])
  fix s assume s: "s \<in> set sl"
  obtain x ws where xw: "s = (x, ws)" by (cases s)
  have "rem_bits ws u = class_bits ws u + rem_bits ws (u + 1)"
    using bits_ok_idx(5)[of ws u] slots_okD[OF assms(1)] s xw assms(2,3) by simp
  then have "drop_bit (rem_bits ws (u + 1)) (take_bit (rem_bits ws u) (fget f0 x)) =
      take_bit (class_bits ws u) (drop_bit (rem_bits ws (u + 1)) (fget f0 x))"
    by (simp add: drop_bit_take_bit)
  then show "slot_bits fr u s = slot_bits f0 u s"
    using assms(4) s xw by (auto simp: slot_bits_def)
qed

lemma in_range_take:
  assumes "\<forall>(x, ws) \<in> set sl. fget fr x = take_bit (rem_bits ws u) (fget f0 x)"
  shows "in_range fr sl u"
  using assms by (auto simp: in_range_def)

context bit_writer
begin

lemma emit_frame:
  assumes sl: "slots_ok sl" and w: "winv w" and fr: "frame_shape fr" and r: "in_range fr sl 0"
    and room: "length (out w) + length (frame_bits fr sl) \<le> cap w"
  shows "\<exists>fr' w'. for_up 0 3 (\<lambda>u. foldM (slot_step (emit_op put_bits) u) sl) (fr, w) = Ok (fr', w') \<and>
     winv w' \<and> cap w' = cap w \<and> out w' = out w @ frame_bits fr sl"
proof -
  let ?T = "\<lambda>g u. \<forall>(x, ws) \<in> set sl. fget g x = take_bit (rem_bits ws u) (fget fr x)"
  have step: "\<exists>g' w'. foldM (slot_step (emit_op put_bits) u) sl (g, w1) = Ok (g', w') \<and>
     winv w' \<and> cap w' = cap w1 \<and> frame_shape g' \<and> out w' = out w1 @ pass_bits fr sl u \<and> ?T g' (u + 1)"
    if u: "0 \<le> u" "u < 3" and g: "winv w1" "frame_shape g" "?T g u"
      and rm: "length (out w1) + length (pass_bits fr sl u) \<le> cap w1" for u g w1
  proof -
    have pb: "pass_bits g sl u = pass_bits fr sl u"
      by (rule pass_bits_take[OF sl u g(3)])
    have "take_bit (rem_bits ws (u + 1)) (take_bit (rem_bits ws u) v) = take_bit (rem_bits ws (u + 1)) v"
      if "(x, ws) \<in> set sl" for x ws and v :: int
      using bits_ok_idx(5)[of ws u] slots_okD[OF sl that] u by simp
    then have "?T g' (u + 1)"
      if "\<forall>(x, ws) \<in> set sl. fget g' x = take_bit (rem_bits ws (u + 1)) (fget g x)" for g'
      using that g(3) by fastforce
    then show ?thesis
      using emit_slots[OF sl u g(1,2) in_range_take[OF g(3)]] rm unfolding pb by blast
  qed
  have "?T fr 0"
    using r by (auto simp: in_range_def take_bit_int_eq_self)
  then obtain g1 w1 where 1: "foldM (slot_step (emit_op put_bits) 0) sl (fr, w) = Ok (g1, w1)"
     "winv w1" "cap w1 = cap w" "frame_shape g1" "out w1 = out w @ pass_bits fr sl 0" "?T g1 1"
    using step[of 0 w fr] w fr room by (auto simp: frame_bits_def)
  then obtain g2 w2 where 2: "foldM (slot_step (emit_op put_bits) 1) sl (g1, w1) = Ok (g2, w2)"
     "winv w2" "cap w2 = cap w" "frame_shape g2" "out w2 = out w1 @ pass_bits fr sl 1" "?T g2 2"
    using step[of 1 w1 g1] room by (auto simp: frame_bits_def)
  then obtain g3 w3 where 3: "foldM (slot_step (emit_op put_bits) 2) sl (g2, w2) = Ok (g3, w3)"
     "winv w3" "cap w3 = cap w" "out w3 = out w2 @ pass_bits fr sl 2"
    using step[of 2 w2 g2] room 1(5) by (auto simp: frame_bits_def)
  show ?thesis
    using 1(1,5) 2(1,5) 3 by (auto simp: three_passes frame_bits_def)
qed

end

context bit_reader
begin

lemma fetch_frame:
  assumes sl: "slots_ok sl" and r: "rinv r" and rng: "in_range f0 sl 0"
    and bs: "rest r = frame_bits f0 sl @ rs"
  shows "\<exists>fr' r'. for_up 0 3 (\<lambda>u. foldM (slot_step (fetch_op get_bits) u) sl) (zero_frame, r) =
       Ok (fr', r') \<and> rinv r' \<and> rest r' = rs \<and> frame_shape fr' \<and>
     (\<forall>(x, ws) \<in> set sl. fget fr' x = fget f0 x) \<and>
     (\<forall>x. fvalid x \<longrightarrow> x \<notin> fst ` set sl \<longrightarrow> fget fr' x = 0)"
proof -
  let ?T = "\<lambda>g u. \<forall>(x, ws) \<in> set sl. fget g x = drop_bit (rem_bits ws u) (fget f0 x)"
  let ?O = "\<lambda>g. \<forall>x. fvalid x \<longrightarrow> x \<notin> fst ` set sl \<longrightarrow> fget g x = 0"
  have "?T zero_frame 0"
    using rng sl by (force simp: in_range_def slots_ok_def drop_bit_eq_div)
  then obtain g1 r1 where 1: "foldM (slot_step (fetch_op get_bits) 0) sl (zero_frame, r) = Ok (g1, r1)"
     "rinv r1" "frame_shape g1" "rest r1 = pass_bits f0 sl 1 @ pass_bits f0 sl 2 @ rs" "?T g1 1" "?O g1"
    using fetch_slots[OF sl _ _ r, of 0 zero_frame f0] bs by (auto simp: frame_bits_def)
  then obtain g2 r2 where 2: "foldM (slot_step (fetch_op get_bits) 1) sl (g1, r1) = Ok (g2, r2)"
     "rinv r2" "frame_shape g2" "rest r2 = pass_bits f0 sl 2 @ rs" "?T g2 2" "?O g2"
    using fetch_slots[OF sl _ _ 1(2,3), of 1 f0] by auto
  then obtain g3 r3 where 3: "foldM (slot_step (fetch_op get_bits) 2) sl (g2, r2) = Ok (g3, r3)"
     "rinv r3" "frame_shape g3" "rest r3 = rs" "?T g3 3" "?O g3"
    using fetch_slots[OF sl _ _ 2(2,3), of 2 f0] by auto
  have "\<forall>(x, ws) \<in> set sl. fget g3 x = fget f0 x"
    using 3(5) sl by (fastforce simp: rem_bits_3 slots_ok_def)
  then show ?thesis
    using 1(1) 2(1) 3 by (auto simp: three_passes)
qed

end

section \<open>The frame on the byte buffer\<close>

lemma dopack_out_prefix:
  assumes "dopack_inv st"
  shows "stream_bits (sdata (fst st)) =
    dopack_out st @ drop (length (dopack_out st)) (stream_bits (sdata (fst st)))"
proof -
  obtain bs pos where st: "st = (bs, pos)" by (cases st)
  from assms have w: "0 \<le> soff bs" "soff bs < int (length (sdata bs))" "0 \<le> pos" "pos \<le> 8"
    by (auto simp: st dopack_inv_def written_def)
  let ?o = "nat (soff bs)" and ?p = "nat pos"
  have "stream_bits (sdata bs) =
      stream_bits (take ?o (sdata bs)) @ byte_bits (sdata bs ! ?o) @ stream_bits (drop (Suc ?o) (sdata bs))"
    by (rule stream_bits_split) (use w in simp)
  then have "take (8 * ?o + ?p) (stream_bits (sdata bs)) = dopack_out st"
    using w by (simp add: st dopack_out_def min_def)
  moreover have "length (dopack_out st) = 8 * ?o + ?p"
    using w by (auto simp: st dopack_out_def min_def)
  ultimately show ?thesis by (metis append_take_drop_id fst_conv st)
qed

definition mode_of :: "int \<Rightarrow> (ulpLayout \<times> int \<times> int \<times> int \<times> nat) option" where
  "mode_of m = (if m = 30 then Some (ulp30Table, 2, 58, 4, 50)
     else if m = 20 then Some (ulp20Table, 1, 57, 2, 38) else None)"

text \<open>
  \<open>mode_of m\<close> collects what \<open>initEncode\<close> and \<open>initDecode\<close> store for mode \<open>m\<close>: the layout,
  \<open>lpcAnalyses\<close>, \<open>shortStateSamples\<close>, \<open>adaptiveSubframes\<close> and \<open>frameBytes\<close>.
\<close>

lemma length_frame_bits:
  assumes "slots_ok sl"
  shows "length (frame_bits fr sl) = sum_list (map (\<lambda>(x, ws). rem_bits ws 0) sl)"
proof -
  have "length (pass_bits fr sl u) = sum_list (map (\<lambda>(x, ws). class_bits ws u) sl)" for u
    by (simp add: pass_bits_def length_concat comp_def case_prod_unfold slot_bits_def)
  moreover have "sum_list (map (\<lambda>(x, ws). class_bits ws 0) sl) + sum_list (map (\<lambda>(x, ws). class_bits ws 1) sl) +
     sum_list (map (\<lambda>(x, ws). class_bits ws 2) sl) = sum_list (map (\<lambda>(x, ws). rem_bits ws 0) sl)"
    using assms
  proof (induction sl)
    case (Cons s sl)
    obtain x ws where s: "s = (x, ws)" by (cases s)
    then have ok: "bits_ok ws" "slots_ok sl" using Cons.prems by (auto simp: slots_ok_Cons)
    have "rem_bits ws 0 = class_bits ws 0 + class_bits ws 1 + class_bits ws 2"
      using bits_ok_idx(5)[OF ok(1), of 0] bits_ok_idx(5)[OF ok(1), of 1]
        bits_ok_idx(5)[OF ok(1), of 2] rem_bits_3[OF ok(1)] by simp
    then show ?case using Cons.IH[OF ok(2)] s by simp
  qed simp
  ultimately show ?thesis by (simp add: frame_bits_def)
qed

text \<open>The layouts of the two modes, evaluated.\<close>

definition slots_check :: "slot list \<Rightarrow> bool" where
  "slots_check sl \<longleftrightarrow> distinct (map fst sl) \<and>
     list_all (\<lambda>(x, ws). fvalid x \<and> length ws = 5 \<and> list_all (\<lambda>w. 0 \<le> w) ws \<and>
       ws ! 3 = 0 \<and> ws ! 4 = 0) sl"

lemma slots_check_ok: "slots_check sl \<Longrightarrow> slots_ok sl"
  by (fastforce simp: slots_check_def slots_ok_def bits_ok_def list_all_iff length_Suc_conv
      eval_nat_numeral)

lemma slots20_check: "slots_check (slots ulp20Table 1 57 2)"
  by code_simp

lemma slots30_check: "slots_check (slots ulp30Table 2 58 4)"
  by code_simp

lemma slots20_bits: "sum_list (map (\<lambda>(x, ws). rem_bits ws 0) (slots ulp20Table 1 57 2)) = 303"
  by code_simp

lemma slots30_bits: "sum_list (map (\<lambda>(x, ws). rem_bits ws 0) (slots ulp30Table 2 58 4)) = 399"
  by code_simp

lemma layout_shapes: "layout_shape ulp20Table 2" "layout_shape ulp30Table 4"
  by (auto simp: layout_shape_def ulp20Table_def ulp30Table_def)

lemma mode_slots:
  assumes "mode_of m = Some (L, nl, ns, na, n)"
  shows "slots_ok (slots L nl ns na)" "layout_shape L na" "nl \<le> 2" "ns \<le> 80" "na \<le> 4"
    "length (frame_bits fr (slots L nl ns na)) + 1 = 8 * n"
  using assms slots_check_ok[OF slots20_check] slots_check_ok[OF slots30_check] layout_shapes
  by (auto simp: mode_of_def length_frame_bits slots20_bits slots30_bits split: if_splits)

section \<open>Frames that a layout can carry\<close>

definition all_fields :: "field list" where
  "all_fields = map FLsf [0..5] @ [FStart, FStateFirst, FScale] @ map FState [0..79] @
     map FExtraCb [0..2] @ map FExtraGain [0..2] @ map FCb [0..11] @ map FGain [0..11]"

lemma set_all_fields: "x \<in> set all_fields \<longleftrightarrow> fvalid x"
  by (cases x) (auto simp: all_fields_def)

text \<open>
  Every index fits the bits its slot has, and the entries of the arrays that the mode does
  not use are zero (as \<open>decodeFrame\<close> leaves them).
\<close>

definition frame_ok :: "slot list \<Rightarrow> frame \<Rightarrow> bool" where
  "frame_ok sl fr \<longleftrightarrow> frame_shape fr \<and>
     list_all (\<lambda>(x, ws). 0 \<le> fget fr x \<and> fget fr x < 2 ^ rem_bits ws 0) sl \<and>
     list_all (\<lambda>x. x \<in> fst ` set sl \<or> fget fr x = 0) all_fields"

lemma frame_okD:
  assumes "frame_ok sl fr"
  shows "frame_shape fr" "in_range fr sl 0" "fvalid x \<Longrightarrow> x \<notin> fst ` set sl \<Longrightarrow> fget fr x = 0"
  using assms set_all_fields[of x] unfolding frame_ok_def list_all_iff in_range_def by auto

lemma frame_okI:
  assumes "frame_shape fr" "in_range fr sl 0"
    and "\<And>x. fvalid x \<Longrightarrow> x \<notin> fst ` set sl \<Longrightarrow> fget fr x = 0"
  shows "frame_ok sl fr"
  using assms set_all_fields unfolding frame_ok_def list_all_iff in_range_def by auto

text \<open>Every bit string of the right length is the bits of such a frame.\<close>

lemma of_bits3:
  assumes "length a = k" "length b = l" "length c = m"
  shows "to_bits k (drop_bit (l + m) (of_bits (a @ b @ c))) = a"
    "to_bits l (drop_bit m (of_bits (a @ b @ c))) = b"
    "to_bits m (of_bits (a @ b @ c)) = c"
proof -
  have "to_bits (k + (l + m)) (of_bits (a @ b @ c)) = a @ b @ c"
    using to_bits_of_bits[of "a @ b @ c"] assms by simp
  then show "to_bits k (drop_bit (l + m) (of_bits (a @ b @ c))) = a"
    "to_bits l (drop_bit m (of_bits (a @ b @ c))) = b"
    "to_bits m (of_bits (a @ b @ c)) = c"
    using assms by (simp_all add: to_bits_append)
qed

lemma pass_bits_surj:
  assumes "slots_ok sl"
    and "\<And>u. 0 \<le> u \<Longrightarrow> u < 3 \<Longrightarrow> length (B u) = sum_list (map (\<lambda>(x, ws). class_bits ws u) sl)"
  shows "\<exists>fr. frame_ok sl fr \<and> (\<forall>u. 0 \<le> u \<and> u < 3 \<longrightarrow> pass_bits fr sl u = B u)"
  using assms
proof (induction sl arbitrary: B)
  case Nil
  have "frame_ok [] zero_frame" by (rule frame_okI) (auto simp: in_range_def)
  then show ?case using Nil by (auto simp: pass_bits_def)
next
  case (Cons s sl)
  obtain x ws where s: "s = (x, ws)" by (cases s)
  from Cons.prems(1) s have ok: "fvalid x" "bits_ok ws" "x \<notin> fst ` set sl" "slots_ok sl"
    by (auto simp: slots_ok_Cons)
  let ?b = "\<lambda>u. take (class_bits ws u) (B u)"
  have "\<exists>fr. frame_ok sl fr \<and> (\<forall>u. 0 \<le> u \<and> u < 3 \<longrightarrow> pass_bits fr sl u = drop (class_bits ws u) (B u))"
    by (rule Cons.IH[OF ok(4)]) (use Cons.prems(2) s in auto)
  then obtain g where g: "frame_ok sl g"
      "\<And>u. 0 \<le> u \<Longrightarrow> u < 3 \<Longrightarrow> pass_bits g sl u = drop (class_bits ws u) (B u)"
    by auto
  define v where "v = of_bits (?b 0 @ ?b 1 @ ?b 2)"
  let ?fr = "fset g x v"
  have len: "length (?b u) = class_bits ws u" if "0 \<le> u" "u < 3" for u
    using Cons.prems(2)[OF that] s by simp
  note k = bits_ok_idx(5)[OF ok(2), of 0] bits_ok_idx(5)[OF ok(2), of 1]
    bits_ok_idx(5)[OF ok(2), of 2] rem_bits_3[OF ok(2)]
  have get: "fget ?fr y = (if x = y then v else fget g y)" if "fvalid y" for y
    by (rule fget_fset[OF frame_okD(1)[OF g(1)] ok(1) that])
  have same: "fget ?fr y = fget g y" if "(y, ws') \<in> set sl" for y ws'
  proof -
    have "fvalid y" using that ok(4) by (auto simp: slots_ok_def)
    moreover have "x \<noteq> y" using that ok(3) by force
    ultimately show ?thesis by (simp add: get)
  qed
  have "length (?b 0 @ ?b 1 @ ?b 2) = rem_bits ws 0"
    using len[of 0] len[of 1] len[of 2] k by simp
  then have "0 \<le> v" "v < 2 ^ rem_bits ws 0"
    unfolding v_def using of_bits_bounds[of "?b 0 @ ?b 1 @ ?b 2"] by simp_all
  then have "in_range ?fr (s # sl) 0"
    using frame_okD(2)[OF g(1)] same s get[OF ok(1)] by (fastforce simp: in_range_def)
  then have "frame_ok (s # sl) ?fr"
    by (intro frame_okI) (use frame_okD[OF g(1)] get s in auto)
  moreover have "pass_bits ?fr (s # sl) u = B u" if u: "0 \<le> u" "u < 3" for u
  proof -
    have "slot_bits ?fr u s = ?b u"
      using of_bits3[OF len[of 0] len[of 1] len[of 2], folded v_def] k class_cases[OF u] get[OF ok(1)] s
      by (auto simp: slot_bits_def)
    moreover have "pass_bits ?fr sl u = drop (class_bits ws u) (B u)"
      using pass_bits_cong[of sl ?fr g u] same g(2)[OF u] by simp
    ultimately show ?thesis by (simp add: pass_bits_def)
  qed
  ultimately show ?case by blast
qed

lemma frame_bits_surj:
  assumes sl: "slots_ok sl" and n: "length bs = length (frame_bits zero_frame sl)"
  shows "\<exists>fr. frame_ok sl fr \<and> frame_bits fr sl = bs"
proof -
  let ?n = "\<lambda>u. sum_list (map (\<lambda>(x, ws). class_bits ws u) sl)"
  have "length (pass_bits f sl u) = ?n u" for f u
    by (simp add: pass_bits_def length_concat comp_def case_prod_unfold slot_bits_def)
  then have l: "length bs = ?n 0 + ?n 1 + ?n 2"
    using n by (simp add: frame_bits_def)
  let ?B = "\<lambda>u :: int. if u = 0 then take (?n 0) bs else if u = 1 then take (?n 1) (drop (?n 0) bs)
     else drop (?n 0 + ?n 1) bs"
  have "\<exists>fr. frame_ok sl fr \<and> (\<forall>u. 0 \<le> u \<and> u < 3 \<longrightarrow> pass_bits fr sl u = ?B u)"
    by (rule pass_bits_surj[OF sl], drule (1) class_cases) (use l in auto)
  then obtain fr where "frame_ok sl fr" "pass_bits fr sl 0 = ?B 0" "pass_bits fr sl 1 = ?B 1"
      "pass_bits fr sl 2 = ?B 2"
    by auto
  moreover have "?B 0 @ ?B 1 @ ?B 2 = bs"
    by (simp add: take_add[symmetric] flip: append_assoc)
  ultimately show ?thesis by (auto simp: frame_bits_def)
qed

section \<open>Packing and unpacking a frame\<close>

lemma frame_loop_slots:
  assumes "mode_of m = Some (L, nl, ns, na, n)" "frame_shape fr"
  shows "for_up 0 3 (frame_pass f L nl ns na) (fr, st) =
    for_up 0 3 (\<lambda>u. foldM (slot_step f u) (slots L nl ns na)) (fr, st)"
proof -
  note m = mode_slots[OF assms(1)]
  have p: "frame_pass f L nl ns na u s = foldM (slot_step f u) (slots L nl ns na) s"
    if "frame_shape (fst s)" for s u
    by (rule frame_pass_slots[OF that m(2-5)])
  note sh = foldM_slots_shape
  show ?thesis
    unfolding three_passes
    by (subst p, simp add: assms(2), rule bnd_cong[OF refl], subst p, rule sh[rotated],
        assumption, simp add: assms(2), rule bnd_cong[OF refl], rule p)
      (use assms(2) in \<open>auto dest!: sh[rotated]\<close>)
qed

lemma pack_frame_bits:
  assumes m: "mode_of m = Some (L, nl, ns, na, n)" and fr: "frame_ok (slots L nl ns na) fr"
    and b: "length bytes = n"
  shows "\<exists>out. packFrame L nl ns na fr bytes = Ok out \<and> length out = n \<and>
    stream_bits out = frame_bits fr (slots L nl ns na) @ [False]"
proof -
  let ?sl = "slots L nl ns na"
  note s = mode_slots[OF m]
  have n: "0 < n" using s(6)[of fr] by simp
  have init: "dopack_inv (mk bytes 0, 0)" "dopack_out (mk bytes 0, 0) = []"
      "dopack_cap (mk bytes 0, 0) = 8 * n"
    using b n by (auto simp: dopack_inv_def written_def dopack_out_def dopack_cap_def)
  obtain fr' st where 1: "for_up 0 3 (\<lambda>u. foldM (slot_step emit u) ?sl) (fr, (mk bytes 0, 0)) = Ok (fr', st)"
      "dopack_inv st" "dopack_cap st = 8 * n" "dopack_out st = frame_bits fr ?sl"
    using packer.emit_frame[OF s(1) init(1) frame_okD(1,2)[OF fr]] init(2,3) s(6)[of fr]
    unfolding emit_eq by auto
  obtain st' where 2: "pack_bits st 0 1 = Ok st'" "dopack_inv st'"
      "dopack_out st' = frame_bits fr ?sl @ [False]" "dopack_cap st' = 8 * n"
    using packer.put_bits[OF 1(2), of 0 1] 1(3,4) s(6)[of fr] by (auto simp: to_bits_def)
  have "length (sdata (fst st')) = n" using 2(4) by (simp add: dopack_cap_def)
  moreover from this have "stream_bits (sdata (fst st')) = frame_bits fr ?sl @ [False]"
    using dopack_out_prefix[OF 2(2)] 2(3) s(6)[of fr] by simp
  ultimately show ?thesis
    using 1(1) 2(1) frame_okD(1)[OF fr]
    by (auto simp: packFrame_def frame_loop_slots[OF m] case_prod_unfold)
qed

lemma unpack_frame_bits:
  assumes m: "mode_of m = Some (L, nl, ns, na, n)" and fr: "frame_ok (slots L nl ns na) fr"
    and b: "stream_bits bytes = frame_bits fr (slots L nl ns na) @ [fin]"
  shows "unpackFrame L nl ns na bytes = Ok (fr, of_bool fin)"
proof -
  let ?sl = "slots L nl ns na"
  note s = mode_slots[OF m]
  have "8 * length bytes = 8 * n"
    using arg_cong[OF b, of length] s(6)[of fr] by simp
  then have init: "unpack_inv (mk bytes 0, 0)" "unpack_rest (mk bytes 0, 0) = frame_bits fr ?sl @ [fin]"
    using b s(6)[of fr] by (auto simp: unpack_inv_def readable_def unpack_rest_def bitpos_def)
  obtain fr' st where 1: "for_up 0 3 (\<lambda>u. foldM (slot_step fetch u) ?sl) (zero_frame, (mk bytes 0, 0)) = Ok (fr', st)"
      "unpack_inv st" "unpack_rest st = [fin]" "frame_shape fr'"
      "\<forall>(x, ws) \<in> set ?sl. fget fr' x = fget fr x"
      "\<forall>x. fvalid x \<longrightarrow> x \<notin> fst ` set ?sl \<longrightarrow> fget fr' x = 0"
    using unpacker.fetch_frame[OF s(1) init(1) frame_okD(2)[OF fr] init(2)] unfolding fetch_eq by auto
  have "fr' = fr"
  proof (rule frame_eqI[OF 1(4) frame_okD(1)[OF fr]])
    fix x assume "fvalid x"
    then show "fget fr' x = fget fr x"
      using 1(5,6) frame_okD(3)[OF fr] by (cases "x \<in> fst ` set ?sl") fastforce+
  qed
  moreover obtain st' where "unpack_bits st 1 = Ok (st', of_bits [fin])"
    using unpacker.get_bits[OF 1(2), of 1] 1(3) by auto
  ultimately show ?thesis
    using 1(1)
    by (auto simp: unpackFrame_def frame_loop_slots[OF m] unpack_bits_def bnd_eq_Ok case_prod_unfold of_bits_def)
qed

lemma stream_bits_length: "stream_bits xs = ys \<Longrightarrow> 8 * length xs = length ys"
  by (metis length_stream_bits)

lemma unpack_frame_exists:
  assumes m: "mode_of m = Some (L, nl, ns, na, n)" and len: "length bytes = n"
  shows "\<exists>fr fin. frame_ok (slots L nl ns na) fr \<and>
    stream_bits bytes = frame_bits fr (slots L nl ns na) @ [fin]"
proof -
  let ?sl = "slots L nl ns na" and ?b = "stream_bits bytes"
  note s = mode_slots[OF m]
  have "?b \<noteq> []" using len s(6)[of zero_frame] by (auto dest!: stream_bits_length)
  then have b: "?b = butlast ?b @ [List.last ?b]" by simp
  have "length (butlast ?b) = length (frame_bits zero_frame ?sl)"
    using len s(6)[of zero_frame] by simp
  from frame_bits_surj[OF s(1) this] b show ?thesis by metis
qed

text \<open>C12: Every index that fits the bits its layout gives it survives the bit stream: the packet
  that \<open>encodeFrame\<close> writes has exactly \<open>frameBytes\<close> bytes, whatever the buffer held before, and
  \<open>decodeFrame\<close> reads the same indices back from it, with a last bit of zero.\<close>
theorem pack_unpack_frame:
  assumes "mode_of m = Some (L, nl, ns, na, n)" and "frame_ok (slots L nl ns na) fr"
    and "length buf = n"
  shows "\<exists>out. packFrame L nl ns na fr buf = Ok out \<and> length out = n \<and>
    unpackFrame L nl ns na out = Ok (fr, 0)"
  using pack_frame_bits[OF assms] unpack_frame_bits[OF assms(1,2), of _ False] by auto

definition sample_frame :: frame where
  "sample_frame = \<lparr>lsfI = [63, 1, 127, 0, 0, 0], start = 3, stateFirst = 1, idxForMax = 42,
     idxVec = replicate 56 5 @ [7] @ replicate 23 0, extraCbIndex = [127, 64, 1],
     extraGainIndex = [31, 15, 7],
     cbIndex = [255, 3, 77, 200, 0, 254, 0, 0, 0, 0, 0, 0],
     gainIndex = [31, 9, 7, 30, 15, 0, 0, 0, 0, 0, 0, 0]\<rparr>"

lemma sample_frame_ok: "frame_ok (slots ulp20Table 1 57 2) sample_frame"
  by code_simp

theorem pack_unpack_frame_witness:
  "mode_of 20 = Some (ulp20Table, 1, 57, 2, 38) \<and> frame_ok (slots ulp20Table 1 57 2) sample_frame \<and>
   (\<exists>out. packFrame ulp20Table 1 57 2 sample_frame (replicate 38 255) = Ok out \<and> length out = 38 \<and>
     unpackFrame ulp20Table 1 57 2 out = Ok (sample_frame, 0))"
  using pack_unpack_frame[of 20 ulp20Table 1 57 2 38 sample_frame "replicate 38 255"] sample_frame_ok
  by (simp add: mode_of_def)

lemma byte_bits_last: "byte_bits x = butlast (byte_bits x) @ [bit x 0]"
  by (simp add: byte_bits_def eval_nat_numeral)

lemma byte_bits_unset: "byte_bits (unset_bit 0 x) = butlast (byte_bits x) @ [False]"
  by (simp add: byte_bits_def eval_nat_numeral bit_unset_bit_iff)

lemma stream_bits_last:
  assumes "stream_bits bytes = ys @ [fin]"
  shows "fin = bit (List.last bytes) 0"
    and "stream_bits (butlast bytes @ [unset_bit 0 (List.last bytes)]) = ys @ [False]"
proof -
  have "bytes \<noteq> []" using assms by auto
  then obtain bs x where b: "bytes = bs @ [x]" by (metis rev_exhaust)
  have "ys @ [fin] = (stream_bits bs @ butlast (byte_bits x)) @ [bit x 0]"
    using assms byte_bits_last[of x] by (simp add: b stream_bits_def)
  then have "fin = bit x 0" "ys = stream_bits bs @ butlast (byte_bits x)" by (simp_all only: append1_eq_conv)
  then show "fin = bit (List.last bytes) 0"
    "stream_bits (butlast bytes @ [unset_bit 0 (List.last bytes)]) = ys @ [False]"
    by (simp_all add: b byte_bits_unset stream_bits_def)
qed

text \<open>C13: Reading is total and the format has no slack but its last bit: \<open>decodeFrame\<close> reads every
  packet of \<open>frameBytes\<close> bytes without a panic, the mode flag it reads is the last bit of the
  packet, all indices fit their bit counts, and packing these indices again gives back the packet
  with its last bit cleared, hence the very same packet when that bit is zero as in every packet
  of an encoder.\<close>
theorem unpack_pack_frame:
  assumes "mode_of m = Some (L, nl, ns, na, n)" and "length bytes = n"
  shows "\<exists>fr. unpackFrame L nl ns na bytes = Ok (fr, of_bool (bit (List.last bytes) 0)) \<and>
    frame_ok (slots L nl ns na) fr \<and>
    (\<forall>buf. length buf = n \<longrightarrow>
      packFrame L nl ns na fr buf = Ok (butlast bytes @ [unset_bit 0 (List.last bytes)]))"
proof -
  let ?sl = "slots L nl ns na"
  obtain fr fin where fr: "frame_ok ?sl fr" "stream_bits bytes = frame_bits fr ?sl @ [fin]"
    using unpack_frame_exists[OF assms] by auto
  note b = stream_bits_last[OF fr(2)]
  have "packFrame L nl ns na fr buf = Ok (butlast bytes @ [unset_bit 0 (List.last bytes)])"
    if buf: "length buf = n" for buf
  proof -
    obtain out where out: "packFrame L nl ns na fr buf = Ok out" "stream_bits out = frame_bits fr ?sl @ [False]"
      using pack_frame_bits[OF assms(1) fr(1) buf] by blast
    moreover have "out = butlast bytes @ [unset_bit 0 (List.last bytes)]"
    proof (rule stream_bits_inject)
      show eq: "stream_bits out = stream_bits (butlast bytes @ [unset_bit 0 (List.last bytes)])" by (simp only: out(2) b(2))
      from arg_cong[OF eq, of length] show "length out = length (butlast bytes @ [unset_bit 0 (List.last bytes)])"
        unfolding length_stream_bits by simp
    qed
    ultimately show ?thesis by simp
  qed
  then show ?thesis
    using unpack_frame_bits[OF assms(1) fr] fr(1) b(1) by blast
qed

text \<open>Two packets, one of which has its last bit set.\<close>

theorem unpack_pack_frame_witness:
  "mode_of 30 = Some (ulp30Table, 2, 58, 4, 50) \<and>
   (\<exists>fr. unpackFrame ulp30Table 2 58 4 (replicate 50 165) = Ok (fr, 1) \<and>
     packFrame ulp30Table 2 58 4 fr (replicate 50 0) = Ok (replicate 49 165 @ [164])) \<and>
   (\<exists>fr. unpackFrame ulp30Table 2 58 4 (replicate 50 164) = Ok (fr, 0) \<and>
     packFrame ulp30Table 2 58 4 fr (replicate 50 0) = Ok (replicate 50 164))"
proof -
  have r: "butlast (replicate 50 x) = replicate 49 x" "replicate 49 x @ [x] = replicate 50 x"
      "List.last (replicate 50 x) = x" for x :: byte
    by (simp_all add: eval_nat_numeral)
  have u: "unset_bit 0 (165 :: byte) = 164" "unset_bit 0 (164 :: byte) = 164" "bit (165 :: byte) 0" "\<not> bit (164 :: byte) 0"
    by code_simp+
  have m: "mode_of 30 = Some (ulp30Table, 2, 58, 4, 50)" by (simp add: mode_of_def)
  have a: "\<exists>fr. unpackFrame ulp30Table 2 58 4 (replicate 50 165) = Ok (fr, 1) \<and>
     packFrame ulp30Table 2 58 4 fr (replicate 50 0) = Ok (replicate 49 165 @ [164])"
    using unpack_pack_frame[OF m, of "replicate 50 165"] unfolding r u using u(3) by fastforce
  have b: "\<exists>fr. unpackFrame ulp30Table 2 58 4 (replicate 50 164) = Ok (fr, 0) \<and>
     packFrame ulp30Table 2 58 4 fr (replicate 50 0) = Ok (replicate 50 164)"
    using unpack_pack_frame[OF m, of "replicate 50 164"] unfolding r u using u(4) by fastforce
  show ?thesis using m a b by blast
qed

end
