(* ===== verification/DecoderSafe.thy ===== *)
theory DecoderSafe
  imports Decoder Roundtrip
begin

text \<open>
  The decoder never panics.  \<open>dec_ok m en d\<close> is the invariant of a decoder state in mode \<open>m\<close>:
  the sizes of its arrays, the constants of the mode, and the ranges of the lags and periods
  with which it indexes its history.  Whatever bytes arrive, the indices of a frame are
  bounded by the bits they are read from, so every table and buffer access of \<open>decodeFrame\<close>
  is in bounds.
\<close>

section \<open>Bounds of the indices of a frame\<close>

fun field_limit :: "field \<Rightarrow> int" where
  "field_limit (FLsf k) = lsf_ranges ! nat k"
| "field_limit FStart = 8"
| "field_limit FStateFirst = 2"
| "field_limit FScale = 64"
| "field_limit (FState k) = 8"
| "field_limit (FExtraCb k) = 128"
| "field_limit (FExtraGain k) = 2 ^ nat (5 - k)"
| "field_limit (FCb k) = (if k = 1 \<or> k = 2 then 128 else 256)"
| "field_limit (FGain k) = 2 ^ nat (5 - k mod 3)"

definition frame_bounded :: "frame \<Rightarrow> bool" where
  "frame_bounded fr \<longleftrightarrow> frame_shape fr \<and>
     list_all (\<lambda>x. 0 \<le> fget fr x \<and> fget fr x < field_limit x) all_fields"

lemma frame_boundedD: "frame_bounded fr \<Longrightarrow> fvalid x \<Longrightarrow> 0 \<le> fget fr x \<and> fget fr x < field_limit x"
  using set_all_fields[of x] by (auto simp: frame_bounded_def list_all_iff)

definition slots_limited :: "slot list \<Rightarrow> bool" where
  "slots_limited sl = list_all (\<lambda>(x, ws). 2 ^ rem_bits ws 0 \<le> field_limit x) sl"

lemma slots20_limited: "slots_limited (slots ulp20Table 1 57 2)"
  by code_simp

lemma slots30_limited: "slots_limited (slots ulp30Table 2 58 4)"
  by code_simp

lemma field_limit_pos: "fvalid x \<Longrightarrow> 0 < field_limit x"
proof (cases x)
  case (FLsf k)
  moreover assume "fvalid x"
  ultimately have "k \<in> {0, 1, 2, 3, 4, 5}" by auto
  then show ?thesis using FLsf by (auto simp: lsf_ranges_def)
qed auto

lemma frame_ok_bounded:
  assumes m: "mode_of m = Some (L, nl, ns, na, n)" and fr: "frame_ok (slots L nl ns na) fr"
  shows "frame_bounded fr"
proof -
  have lim: "slots_limited (slots L nl ns na)"
    using m slots20_limited slots30_limited by (auto simp: mode_of_def split: if_splits)
  have "0 \<le> fget fr x \<and> fget fr x < field_limit x" if x: "x \<in> set all_fields" for x
  proof (cases "x \<in> fst ` set (slots L nl ns na)")
    case True
    then obtain ws where ws: "(x, ws) \<in> set (slots L nl ns na)" by auto
    then have "0 \<le> fget fr x" "fget fr x < 2 ^ rem_bits ws 0"
      using fr by (auto simp: frame_ok_def list_all_iff)
    moreover have "2 ^ rem_bits ws 0 \<le> field_limit x"
      using lim ws by (auto simp: slots_limited_def list_all_iff)
    ultimately show ?thesis by linarith
  next
    case False
    then have "fget fr x = 0" using fr x by (auto simp: frame_ok_def list_all_iff)
    then show ?thesis using field_limit_pos x set_all_fields by auto
  qed
  then show ?thesis using fr by (simp add: frame_bounded_def list_all_iff frame_ok_def)
qed

text \<open>In the 20 ms mode the start index has two bits.\<close>

lemma frame_ok_start20: "frame_ok (slots ulp20Table 1 57 2) fr \<Longrightarrow> start fr < 4"
proof -
  assume fr: "frame_ok (slots ulp20Table 1 57 2) fr"
  have "(FStart, [2, 0, 0, 0, 0]) \<in> set (slots ulp20Table 1 57 2)"
    by (simp add: slots_def ulp20Table_def)
  then have "start fr < 2 ^ rem_bits [2, 0, 0, 0, 0] 0"
    using fr by (force simp: frame_ok_def list_all_iff)
  then show ?thesis by (simp add: rem_bits_def)
qed

section \<open>The decoding of the residual\<close>

definition cb_ok :: "int list \<Rightarrow> bool" where
  "cb_ok ix \<longleftrightarrow> length ix = 12 \<and> (\<forall>k < 12. 0 \<le> ix ! k \<and> ix ! k < 256)"

definition gains_ok :: "int list \<Rightarrow> bool" where
  "gains_ok ix \<longleftrightarrow> length ix = 12 \<and> (\<forall>k < 12. 0 \<le> ix ! k \<and> ix ! k < 2 ^ (5 - k mod 3))"

text \<open>One subframe of forty samples.\<close>

lemma subframe_codebook_wp:
  assumes "0 \<le> soff p" "soff p + 40 \<le> int (length (sdata p))" "length mem = 147"
    and "cb_ok cbI" "gains_ok gI" "0 \<le> j" "j < 4" "\<And>d. length d = length (sdata p) \<Longrightarrow> Q d"
  shows "spec E Q (constructCodebook p (mk cbI (j * 3)) (mk gI (j * 3)) (codebook_mem mem 147) 147 40 3)"
proof -
  have j: "nat (j * 3) = 3 * nat j" by (simp add: nat_mult_distrib)
  have 1: "0 \<le> cbI ! (3 * nat j + k) \<and> cbI ! (3 * nat j + k) < 256" if "k < 3" for k
    using assms(4) that assms(6,7) unfolding cb_ok_def by (elim conjE allE[of _ "3 * nat j + k"]) linarith
  have 2: "0 \<le> gI ! (3 * nat j + k) \<and> gI ! (3 * nat j + k) < 2 ^ (5 - k)" if "k < 3" for k
  proof -
    have "(3 * nat j + k) mod 3 = k" "3 * nat j + k < 12" using that assms(6,7) by (simp, linarith)
    then show ?thesis using assms(5) unfolding gains_ok_def by metis
  qed
  show ?thesis
    by (intro constructCodebook_wp) (use assms j 1 2 in \<open>auto simp: cb_ok_def gains_ok_def\<close>)
qed

lemma mem_shift_wp [wp]:
  assumes "length mem = 147" "\<And>m. length m = 147 \<Longrightarrow> Q m"
  shows "spec E Q (mem_shift mem xs)"
  unfolding mem_shift_def by (intro wp) (use assms in auto)

lemma mem_reverse_wp [wp]:
  assumes "length mem = 147" "0 \<le> soff p + base" "soff p + base + n \<le> int (length (sdata p))" "n \<le> 147"
    and "\<And>m. length m = 147 \<Longrightarrow> Q m"
  shows "spec E Q (mem_reverse mem p base n)"
  unfolding mem_reverse_def
  by (intro wp for_up_inv[where I = "\<lambda>m :: float32 list. length m = 147"]) (use assms in auto)

lemma decode_forward_wp:
  assumes "soff p = 0" "length (sdata p) = 240" "length mem = 147" "cb_ok cbI" "gains_ok gI"
    and "0 \<le> j" "j < 4" "0 \<le> i" "(st + 1 + i) * 40 + 40 \<le> 240" "0 \<le> st"
    and "\<And>q m. similar p q \<Longrightarrow> length m = 147 \<Longrightarrow> Q (q, m, j + 1)"
  shows "spec E Q (decode_forward st (mk cbI 0) (mk gI 0) i (p, mem, j))"
proof -
  have "idx memLfTbl j = Ok 147"
    using assms(6,7) by (auto simp: idx_def memLfTbl_def less_Suc_eq numeral_eq_Suc nth_Cons' nat_less_iff)
  then show ?thesis
    unfolding decode_forward_def prod.case Let_def add_def
    by (simp only: bnd.simps span.simps add_0)
      (intro wp subframe_codebook_wp; use assms in \<open>auto simp: similar_def\<close>)
qed

lemma decode_backward_wp:
  assumes "length r = 240" "length mem = 147" "cb_ok cbI" "gains_ok gI"
    and "0 \<le> j" "j < 4" "0 \<le> i" "i * 40 + 40 \<le> 240"
    and "\<And>q m. length q = 240 \<Longrightarrow> length m = 147 \<Longrightarrow> Q (q, m, j + 1)"
  shows "spec E Q (decode_backward (mk cbI 0) (mk gI 0) i (r, mem, j))"
proof -
  have "idx memLfTbl j = Ok 147"
    using assms(5,6) by (auto simp: idx_def memLfTbl_def less_Suc_eq numeral_eq_Suc nth_Cons' nat_less_iff)
  then show ?thesis
    unfolding decode_backward_def prod.case Let_def add_def
    by (simp only: bnd.simps span.simps add_0)
      (intro wp subframe_codebook_wp; use assms in auto)
qed

lemma decode_rest_wp [wp]:
  assumes p: "soff p = 0" "length (sdata p) = 240" and mem: "length mem = 147"
    and ix: "cb_ok cbI" "gains_ok gI" and d: "mode_frame d" and st: "1 \<le> st" "st < d_subframes d"
    and Q: "\<And>q. similar p q \<Longrightarrow> Q q"
  shows "spec E Q (decode_rest d p st (mk cbI 0) (mk gI 0) mem)"
proof -
  have n: "d_subframes d = 4 \<or> d_subframes d = 6" using d by (auto simp: mode_frame_def)
  define F where "F i t = (case t of (q, m, j) \<Rightarrow> similar p q \<and> length m = 147 \<and> j = i)"
    for i :: int and t :: "float32 span \<times> float32 list \<times> int"
  define B where "B b i t = (case t of (r, m, j) \<Rightarrow> length r = 240 \<and> length m = 147 \<and> j = b + i)"
    for b i :: int and t :: "float32 list \<times> float32 list \<times> int"
  have fwd: "spec E (F (i + 1)) (decode_forward st (mk cbI 0) (mk gI 0) i t)"
    if "F i t" "0 \<le> i" "i < d_subframes d - st - 1" for i t
    using that p ix st n by (cases t) (auto simp: F_def similar_def intro!: decode_forward_wp)
  have bwd: "spec E (B b (i + 1)) (decode_backward (mk cbI 0) (mk gI 0) i t)"
    if "B b i t" "0 \<le> i" "i < st - 1" "0 \<le> b" "b + i < 4" for b i t
    using that ix st n by (cases t) (auto simp: B_def intro!: decode_backward_wp)
  have back_part: "spec E Q (if 0 < st - 1 then
        bnd (mem_reverse m q ((st - 1) * 40) (if 147 < 40 * (d_subframes d + 1 - st) then 147 else 40 * (d_subframes d + 1 - st))) (\<lambda>mem.
        bnd (for_up 0 (st - 1) (decode_backward (mk cbI 0) (mk gI 0)) (replicate 240 0, mem, j)) (\<lambda>(r, mem, j).
        for_up 0 (40 * (st - 1)) (\<lambda>i q. bnd (idx r i) (\<lambda>x. store q (40 * (st - 1) - i - 1) x)) q))
      else Ok q)"
    if "similar p q" "length m = 147" "j = max 0 (d_subframes d - st - 1)" for q m j
    by (intro wp for_up_idx[where I = "B j"] bwd for_up_inv[where I = "similar p"])
      (use that p st n Q in \<open>auto simp: B_def similar_def\<close>)
  show ?thesis
    unfolding decode_rest_def Let_def
    by (intro spec_bndI spec_ifI spec_clear_sub spec_slice spec_copy_sub spec_case_prod spec_OkI
          for_up_idx[where I = F] fwd back_part)
      (use p mem st n in \<open>auto simp: F_def\<close>)
qed

definition short_state :: "decoderState \<Rightarrow> bool" where
  "short_state d \<longleftrightarrow> d_shortStateSamples d = 57 \<or> d_shortStateSamples d = 58"

definition extra_ok :: "int list \<Rightarrow> int list \<Rightarrow> bool" where
  "extra_ok ix gi \<longleftrightarrow> length ix = 3 \<and> length gi = 3 \<and>
     (\<forall>k < 3. 0 \<le> ix ! k \<and> ix ! k < 128 \<and> 0 \<le> gi ! k \<and> gi ! k < 2 ^ (5 - k))"

lemma boundary_codebook_wp:
  assumes "0 \<le> soff p" "soff p + n \<le> int (length (sdata p))" "length mem = 147" "n = 22 \<or> n = 23"
    and "extra_ok ix gi" "\<And>d. length d = length (sdata p) \<Longrightarrow> Q d"
  shows "spec E Q (constructCodebook p (mk ix 0) (mk gi 0) (codebook_mem mem stMemLTbl) stMemLTbl n 3)"
  unfolding stMemLTbl_def
  by (rule constructCodebook_wp) (use assms in \<open>auto simp: extra_ok_def\<close>)

lemma decode_boundary_wp [wp]:
  assumes p: "soff p = 0" "length (sdata p) = 240" and mem: "length mem = 147" and d: "short_state d"
    and ix: "extra_ok ix gi" and st: "1 \<le> st" "st < 6"
    and sp: "startPos = (if sf \<noteq> 0 then (st - 1) * 40 else (st - 1) * 40 + 80 - d_shortStateSamples d)"
    and Q: "\<And>q m. similar p q \<Longrightarrow> length m = 147 \<Longrightarrow> Q (q, m)"
  shows "spec E Q (decode_boundary d p st sf startPos (mk ix 0) (mk gi 0) mem)"
  unfolding decode_boundary_def Let_def
  by (intro wp boundary_codebook_wp for_up_inv[where I = "similar p"]
      for_up_inv[where I = "\<lambda>r :: float32 list. length r = 240"])
    (use assms in \<open>auto simp: short_state_def similar_def split: if_splits\<close>)

lemma decode_wp [wp]:
  assumes p: "soff p = 0" "length (sdata p) = 240" and d: "mode_frame d" "short_state d"
    and st: "1 \<le> st" "st < d_subframes d" and ix: "extra_ok ix gi" "cb_ok cbI" "gains_ok gI"
    and sc: "0 \<le> idxMax" "idxMax < 64" "length iv = 80" "\<And>k. k \<in> set iv \<Longrightarrow> 0 \<le> k \<and> k < 8"
    and sy: "soff sy = 0" "length (sdata sy) = 66" and sf: "sf = 0 \<or> sf = 1"
    and Q: "\<And>r. length r = 240 \<Longrightarrow> Q r"
  shows "spec E Q (decode P d p st idxMax (mk iv 0) sy (mk cbI 0) (mk gI 0) (mk ix 0) (mk gi 0) sf)"
proof -
  have n: "st < 6" "d_shortStateSamples d \<in> {57, 58}"
    using d st by (auto simp: mode_frame_def short_state_def)
  show ?thesis
    unfolding decode_def Let_def
    by (intro wp) (use assms n in \<open>auto simp: similar_def split: if_splits\<close>)
qed

section \<open>Frames\<close>

definition mode_consts :: "int \<Rightarrow> decoderState \<Rightarrow> bool" where
  "mode_consts m d \<longleftrightarrow> d_mode d = m \<and>
     mode_of m = Some (d_ulp d, d_lpcAnalyses d, d_shortStateSamples d, d_adaptiveSubframes d, nat (d_frameBytes d)) \<and>
     0 \<le> d_frameBytes d \<and> mode_frame d"

definition dec_ok :: "int \<Rightarrow> int \<Rightarrow> decoderState \<Rightarrow> bool" where
  "dec_ok m en d \<longleftrightarrow> mode_consts m d \<and> enhancement d = en \<and> plc_ok d \<and> 20 \<le> lastLag d \<and> lastLag d \<le> 119 \<and>
     length (syntMem d) = 10 \<and> length (d_lsfdeqold d) = 10 \<and> length (oldSyntdenum d) = 66 \<and>
     length (hpomem d) = 4 \<and> length (enhBuf d) = 640 \<and> period_ok (enhPeriod d)"

lemma mode_constsD:
  assumes "mode_consts m d"
  shows "mode_frame d" "short_state d" "d_lpcAnalyses d = 1 \<or> d_lpcAnalyses d = 2"
  using assms by (auto simp: mode_consts_def mode_of_def short_state_def split: if_splits)

text \<open>Concealment keeps the fields it does not own.\<close>

lemma plc_frameD:
  assumes "plc_frame d d'"
  shows "d_mode d' = d_mode d" "d_frameSamples d' = d_frameSamples d" "d_subframes d' = d_subframes d"
    "d_adaptiveSubframes d' = d_adaptiveSubframes d" "d_frameBytes d' = d_frameBytes d"
    "d_frameWords d' = d_frameWords d" "d_lpcAnalyses d' = d_lpcAnalyses d"
    "d_shortStateSamples d' = d_shortStateSamples d" "d_ulp d' = d_ulp d" "syntMem d' = syntMem d"
    "d_lsfdeqold d' = d_lsfdeqold d" "lastLag d' = lastLag d" "prevEnhPl d' = prevEnhPl d"
    "oldSyntdenum d' = oldSyntdenum d" "hpomem d' = hpomem d" "enhancement d' = enhancement d"
    "enhBuf d' = enhBuf d" "enhPeriod d' = enhPeriod d"
  using assms by (cases d; cases d'; simp add: plc_frame_def)+

lemma plc_frame_ok: "dec_ok m en d \<Longrightarrow> plc_frame d d' \<Longrightarrow> plc_ok d' \<Longrightarrow> dec_ok m en d'"
  by (auto simp: dec_ok_def mode_consts_def mode_frame_def plc_frameD)

text \<open>What a bounded frame gives the operations that use its indices.\<close>

lemma frame_lists:
  assumes "frame_bounded fr"
  shows "lsf_indices_ok 3 (lsfI fr)" "lsf_indices_ok 6 (lsfI fr)"
    "extra_ok (extraCbIndex fr) (extraGainIndex fr)" "gains_ok (gainIndex fr)"
    "length (idxVec fr) = 80" "k \<in> set (idxVec fr) \<Longrightarrow> 0 \<le> k \<and> k < 8"
    "0 \<le> idxForMax fr" "idxForMax fr < 64" "stateFirst fr = 0 \<or> stateFirst fr = 1"
proof -
  have sh: "frame_shape fr" using assms by (simp add: frame_bounded_def)
  note b = frame_boundedD[OF assms]
  show "lsf_indices_ok 3 (lsfI fr)" "lsf_indices_ok 6 (lsfI fr)"
    using b[of "FLsf k" for k] sh by (auto simp: lsf_indices_ok_def frame_shape_def)
  show "extra_ok (extraCbIndex fr) (extraGainIndex fr)"
    using b[of "FExtraCb (int k)" for k] b[of "FExtraGain (int k)" for k] sh
    by (auto simp: extra_ok_def frame_shape_def nat_diff_distrib')
  show "gains_ok (gainIndex fr)"
    unfolding gains_ok_def
  proof (intro conjI allI impI)
    fix k :: nat assume k: "k < 12"
    have "nat (5 - int k mod 3) = 5 - k mod 3"
      by (simp add: nat_diff_distrib' flip: zmod_int[of k 3, simplified])
    then show "0 \<le> gainIndex fr ! k" "gainIndex fr ! k < 2 ^ (5 - k mod 3)"
      using b[of "FGain (int k)"] k by auto
  qed (use sh in \<open>simp add: frame_shape_def\<close>)
  show "length (idxVec fr) = 80" using sh by (simp add: frame_shape_def)
  show "0 \<le> k \<and> k < 8" if "k \<in> set (idxVec fr)"
    using that b[of "FState (int i)" for i] sh by (fastforce simp: in_set_conv_nth frame_shape_def)
  show "0 \<le> idxForMax fr" "idxForMax fr < 64" "stateFirst fr = 0 \<or> stateFirst fr = 1"
    using b[of FScale] b[of FStateFirst] by auto
qed

lemma converted_cb:
  assumes "frame_bounded fr"
  obtains ix where "convertDecoderIndices (mk (cbIndex fr) 0) = Ok ix" "cb_ok ix"
proof
  have sh: "length (cbIndex fr) = 12" using assms by (simp add: frame_bounded_def frame_shape_def)
  have b: "0 \<le> cbIndex fr ! k" "cbIndex fr ! k < (if k = 1 \<or> k = 2 then 128 else 256)" if "k < 12" for k
    using frame_boundedD[OF assms, of "FCb (int k)"] that by (auto split: if_splits)
  show "convertDecoderIndices (mk (cbIndex fr) 0) =
      Ok ((cbIndex fr)[1 := dec_conv (cbIndex fr ! 1), 2 := dec_conv (cbIndex fr ! 2)])"
    by (rule convertDecoder_eq) (simp add: sh)
  have "cbIndex fr ! k < 256" if "k < 12" for k using b(2)[OF that] by (auto split: if_splits)
  moreover have "0 \<le> dec_conv (cbIndex fr ! k) \<and> dec_conv (cbIndex fr ! k) < 256" if "k = 1 \<or> k = 2" for k
    using b[of k] that by (auto simp: dec_conv_def)
  ultimately show "cb_ok ((cbIndex fr)[1 := dec_conv (cbIndex fr ! 1), 2 := dec_conv (cbIndex fr ! 2)])"
    using b(1) sh by (auto simp: cb_ok_def nth_list_update)
qed

lemma decode_received_wp:
  assumes d: "dec_ok m en d" and fr: "frame_bounded fr" "1 \<le> start fr" "start fr < d_subframes d"
    and Q: "\<And>r s d'. length r = 240 \<Longrightarrow> length s = 66 \<Longrightarrow> dec_ok m en d' \<Longrightarrow> Q (r, s, d')"
  shows "spec E Q (decode_received P fr d)"
proof -
  obtain cbI where cb: "convertDecoderIndices (mk (cbIndex fr) 0) = Ok cbI" "cb_ok cbI"
    using converted_cb[OF fr(1)] by auto
  have c: "mode_consts m d" and plc: "plc_ok d" and lag: "20 \<le> lastLag d" "lastLag d \<le> 119" and
    old: "length (d_lsfdeqold d) = 10" using d by (simp_all add: dec_ok_def)
  note cD = mode_constsD[OF c]
  have fin: "dec_ok m en d'" if "plc_frame (d\<lparr>d_lsfdeqold := l\<rparr>) d'" "plc_ok d'" "length l = 10" for d' l
  proof -
    have "dec_ok m en (d\<lparr>d_lsfdeqold := l\<rparr>)"
      using d that(3) by (auto simp: dec_ok_def mode_consts_def mode_frame_def plc_ok_def)
    then show ?thesis using that(1,2) by (rule plc_frame_ok)
  qed
  have pf: "plc_ok (d\<lparr>d_lsfdeqold := l\<rparr>)" for l using plc by (simp add: plc_ok_def)
  have mf: "mode_frame (d\<lparr>d_lsfdeqold := l\<rparr>)" "short_state (d\<lparr>d_lsfdeqold := l\<rparr>)" for l
    using cD(1,2) by (simp_all add: mode_frame_def short_state_def)
  have n: "d_frameSamples d \<le> 240" "0 \<le> d_frameSamples d" "d_subframes d \<le> 6" "1 \<le> d_subframes d"
    using cD(1) by (auto simp: mode_frame_def)
  have lsf: "lsf_indices_ok (3 * d_lpcAnalyses d) (lsfI fr)"
    using cD(3) frame_lists(1,2)[OF fr(1)] by auto
  show ?thesis
    unfolding decode_received_def cb(1) bnd.simps
    by (intro wp)
      (use cD(1,3) n old lsf lag cb(2) fr pf mf frame_lists[OF fr(1)] Q fin in
        \<open>auto simp: plc_frameD mode_frame_def\<close>)
qed

lemma decode_lost_wp:
  assumes d: "dec_ok m en d" and l: "length r = 240" "length s = 66"
    and Q: "\<And>r s d'. length r = 240 \<Longrightarrow> length s = 66 \<Longrightarrow> dec_ok m en d' \<Longrightarrow> Q (r, s, d')"
  shows "spec E Q (decode_lost (r, s, d))"
proof -
  have c: "mode_consts m d" and plc: "plc_ok d" and lag: "20 \<le> lastLag d" "lastLag d \<le> 119"
    using d by (simp_all add: dec_ok_def)
  have n: "d_frameSamples d \<le> 240" "0 \<le> d_frameSamples d" "d_subframes d \<le> 6"
    using mode_constsD(1)[OF c] by (auto simp: mode_frame_def)
  show ?thesis
    unfolding decode_lost_def prod.case
    by (intro wp for_up_inv[where I = "\<lambda>s :: float32 list. length s = 66"])
      (use d l n plc lag Q plc_frame_ok[OF d] in \<open>auto simp: plc_frameD\<close>)
qed

lemma synthesize_wp:
  assumes "0 \<le> lo" "hi * 40 \<le> 240" "length data = 240" "length mem = 10"
    and "\<And>i. lo \<le> i \<Longrightarrow> i < hi \<Longrightarrow> 0 \<le> soff (coef i) \<and> soff (coef i) + 11 \<le> int (length (sdata (coef i)))"
    and "\<And>data mem. length data = 240 \<Longrightarrow> length mem = 10 \<Longrightarrow> Q (data, mem)"
  shows "spec E Q (synthesize coef lo hi (data, mem))"
  unfolding synthesize_def
  by (intro wp for_up_inv[where I = "\<lambda>(data, mem). length data = 240 \<and> length mem = 10"])
    (use assms in auto)

lemma dec_ok_updates:
  assumes "dec_ok m en d"
  shows "20 \<le> l \<Longrightarrow> l \<le> 119 \<Longrightarrow> length sm = 10 \<Longrightarrow> dec_ok m en (d\<lparr>lastLag := l, syntMem := sm\<rparr>)"
    "20 \<le> l \<Longrightarrow> l \<le> 119 \<Longrightarrow> length sm = 10 \<Longrightarrow> length b = 640 \<Longrightarrow> period_ok ps \<Longrightarrow>
       dec_ok m en (d\<lparr>enhBuf := b, enhPeriod := ps, lastLag := l, syntMem := sm\<rparr>)"
    "length hm = 4 \<Longrightarrow> length os = 66 \<Longrightarrow> dec_ok m en (d\<lparr>hpomem := hm, oldSyntdenum := os, prevEnhPl := e\<rparr>)"
    "length sm = 10 \<Longrightarrow> length hm = 4 \<Longrightarrow> dec_ok m en (d\<lparr>syntMem := sm, hpomem := hm\<rparr>)"
  using assms by (auto simp: dec_ok_def mode_consts_def mode_frame_def plc_ok_def)

lemma decode_output_wp:
  assumes d: "dec_ok m en d" and l: "length r = 240" "length s = 66"
    and Q: "\<And>x d'. length x = 240 \<Longrightarrow> dec_ok m en d' \<Longrightarrow> Q (x, d')"
  shows "spec E Q (decode_output P r s d)"
proof -
  have mf: "mode_frame d" using d mode_constsD by (auto simp: dec_ok_def)
  have len: "length (syntMem d) = 10" "length (oldSyntdenum d) = 66" "length (enhBuf d) = 640"
    "period_ok (enhPeriod d)" using d by (simp_all add: dec_ok_def)
  have syn: "spec E R (synthesize coef lo hi t)"
    if "case t of (x, sm) \<Rightarrow> length x = 240 \<and> length sm = 10" "0 \<le> lo" "hi * 40 \<le> 240"
      "\<And>i. lo \<le> i \<Longrightarrow> i < hi \<Longrightarrow> 0 \<le> soff (coef i) \<and> soff (coef i) + 11 \<le> int (length (sdata (coef i)))"
      "\<And>x sm. length x = 240 \<Longrightarrow> length sm = 10 \<Longrightarrow> R (x, sm)" for R coef lo hi t
    using that by (cases t) (auto intro: synthesize_wp)
  show ?thesis
    unfolding decode_output_def Let_def
    by (intro wp best_lag_wp syn)
      (use l mf len Q dec_ok_updates[OF d] in \<open>auto simp: mode_frame_def\<close>)
qed

text \<open>
  The main result: for every packet of the size of the mode, or a lost packet, \<open>decodeFrame\<close>
  fills its block and keeps the invariant.
\<close>

lemma decodeFrame_wp:
  assumes d: "dec_ok m en d" and b: "soff b = 0" "length (sdata b) = 240"
    and r: "received = 0 \<or> received = 1 \<and> int (length bytes) = d_frameBytes d"
    and Q: "\<And>x d'. length x = 240 \<Longrightarrow> dec_ok m en d' \<Longrightarrow> Q (x, d')"
  shows "spec E Q (decodeFrame P b bytes d received)"
proof -
  have c: "mode_consts m d" using d by (simp add: dec_ok_def)
  have mf: "mode_frame d" using mode_constsD[OF c] by simp
  define step where "step = (if 0 < received then
      bnd (unpackFrame (d_ulp d) (d_lpcAnalyses d) (d_shortStateSamples d) (d_adaptiveSubframes d) bytes)
        (\<lambda>(fr, lastBit). let mode = frame_mode d fr lastBit received in
          if mode = 1 then bnd (decode_received P fr d) (\<lambda>s. Ok (mode, s))
          else Ok (mode, replicate 240 0, replicate 66 0, d))
      else Ok (received, replicate 240 0, replicate 66 0, d))"
  define good where "good s = (case s of (r, sy, d') \<Rightarrow> length r = 240 \<and> length sy = 66 \<and> dec_ok m en d')"
    for s :: "float32 list \<times> float32 list \<times> decoderState"
  have 1: "spec E (\<lambda>(k, s). good s) step"
  proof (cases "received = 1")
    case True
    then have "length bytes = nat (d_frameBytes d)" using r by auto
    moreover have m: "mode_of m = Some (d_ulp d, d_lpcAnalyses d, d_shortStateSamples d,
        d_adaptiveSubframes d, nat (d_frameBytes d))" using c by (simp add: mode_consts_def)
    ultimately obtain fr fin where fr: "unpackFrame (d_ulp d) (d_lpcAnalyses d) (d_shortStateSamples d)
        (d_adaptiveSubframes d) bytes = Ok (fr, of_bool fin)"
      "frame_ok (slots (d_ulp d) (d_lpcAnalyses d) (d_shortStateSamples d) (d_adaptiveSubframes d)) fr"
      using unpack_frame_exists[OF m] unpack_frame_bits[OF m] by blast
    have bd: "frame_bounded fr" by (rule frame_ok_bounded[OF m fr(2)])
    have st: "1 \<le> start fr \<and> start fr < d_subframes d" if "frame_mode d fr (of_bool fin) 1 = 1"
    proof -
      have "start fr < 4" if "d_mode d = 20"
        using frame_ok_start20 fr(2) m c that by (auto simp: mode_of_def mode_consts_def split: if_splits)
      then show ?thesis using that mf by (auto simp: frame_mode_def mode_frame_def Let_def split: if_splits)
    qed
    show ?thesis
      using True fr(1) st d bd
      by (auto simp: step_def Let_def good_def intro!: decode_received_wp)
  next
    case False
    then show ?thesis using r d by (auto simp: step_def good_def)
  qed
  have 2: "spec E good (if k = 0 then decode_lost s else Ok s)" if "good s" for k :: int and s
    using that by (cases s) (auto simp: good_def intro!: decode_lost_wp)
  have n: "d_frameSamples d' \<le> 240" "0 \<le> d_subframes d'" "d_subframes d' \<le> 6" "length (hpomem d') = 4"
    "length (oldSyntdenum d') = 66" if "dec_ok m en d'" for d'
  proof -
    have "mode_frame d'" using that mode_constsD(1) by (auto simp: dec_ok_def)
    then show "d_frameSamples d' \<le> 240" "0 \<le> d_subframes d'" "d_subframes d' \<le> 6"
      by (auto simp: mode_frame_def)
    show "length (hpomem d') = 4" "length (oldSyntdenum d') = 66" using that by (auto simp: dec_ok_def)
  qed
  have out: "spec E Q (bnd (decode_output P r sy d') (\<lambda>(data, d').
      bnd (hpOutput (mk data 0) (d_frameSamples d') b (mk (hpomem d') 0)) (\<lambda>(block, hm).
      let n = d_subframes d' in
      bnd (sub sy 0 (n * 11)) (\<lambda>xs.
      bnd (copy_sub (oldSyntdenum d') 0 (n * 11) xs) (\<lambda>os.
      Ok (block, d'\<lparr>hpomem := hm, oldSyntdenum := os, prevEnhPl := if k = 0 then 1 else 0\<rparr>))))))"
    if "good (r, sy, d')" for r sy d' and k :: int
    using that unfolding good_def prod.case
    by (intro wp decode_output_wp[of m en]) (auto simp: n b intro!: Q dec_ok_updates(3))
  show ?thesis
    unfolding decodeFrame_def step_def[symmetric]
    by (rule spec_bndI, rule spec_mono[OF 1], clarify, rule spec_bndI, rule spec_mono[OF 2], assumption,
        clarify, rule out, assumption)
qed

section \<open>Initialisation\<close>

text \<open>The sizes of the arrays of a decoder, which Go fixes by their types.\<close>

definition dec_arrays :: "decoderState \<Rightarrow> bool" where
  "dec_arrays d \<longleftrightarrow> length (syntMem d) = 10 \<and> length (d_lsfdeqold d) = 10 \<and> length (prevLpc d) = 11 \<and>
     length (prevResidual d) = 240 \<and> length (oldSyntdenum d) = 66 \<and> length (hpomem d) = 4 \<and>
     length (enhBuf d) = 640 \<and> length (enhPeriod d) = 8"

lemma dec_ok_arrays: "dec_ok m en d \<Longrightarrow> dec_arrays d"
  by (simp add: dec_ok_def dec_arrays_def plc_ok_def period_ok_def)

lemma zero_decoder_arrays: "dec_arrays zero_decoder"
  by (simp add: dec_arrays_def zero_decoder_def)

lemma fill_eight: "length xs = 8 \<Longrightarrow> for_up 0 8 (\<lambda>i xs. upd xs i v) xs = Ok (replicate 8 v)"
  by (auto simp: eval_nat_numeral length_Suc_conv for_up_step upd_def)

lemma fresh_prevLpc:
  "length xs = 11 \<Longrightarrow> bnd (upd xs 0 1) (\<lambda>pl. clear_sub pl 1 11) = Ok (1 # replicate 10 (0 :: float32))"
  by (auto simp: eval_nat_numeral length_Suc_conv blit_def)

text \<open>
  \<open>initDecode\<close> overwrites every field, so what it leaves depends only on the mode and the
  enhancement flag.
\<close>

lemma initDecode_eq:
  assumes "dec_arrays d"
  shows "initDecode d m en = bnd (if m = 30 then Ok (240, 6, 4, 2, 50, 25, 58, ulp30Table)
      else if m = 20 then Ok (160, 4, 2, 1, 38, 19, 57, ulp20Table)
      else Panic (ExplicitPanic ''ilbc: invalid internal mode''))
      (\<lambda>(fs, nsub, na, nl, nb, nw, ns, L). bnd (for_up 0 6 (\<lambda>i os. upd os (i * 11) 1) (replicate 66 0)) (\<lambda>os.
       Ok (word_of_int fs, \<lparr>d_mode = m, d_frameSamples = fs, d_subframes = nsub, d_adaptiveSubframes = na,
         d_frameBytes = nb, d_frameWords = nw, d_lpcAnalyses = nl, d_shortStateSamples = ns, d_ulp = L,
         syntMem = replicate 10 0, d_lsfdeqold = lsfmeanTbl, lastLag = 20, prevLag = 120,
         consPLICount = 0, prevPLI = 0, prevEnhPl = 0, prevLpc = 1 # replicate 10 0,
         prevResidual = replicate 240 0, per = 0, seed = 777, oldSyntdenum = os,
         hpomem = replicate 4 0, enhancement = en, enhBuf = replicate 640 0,
         enhPeriod = replicate 8 (int32 40)\<rparr>)))"
  using assms fill_eight[of "enhPeriod d" "int32 40"] fresh_prevLpc[of "prevLpc d"]
  unfolding initDecode_def dec_arrays_def by (cases d) simp

lemma initDecode_fresh: "dec_arrays d \<Longrightarrow> initDecode d m en = initDecode zero_decoder m en"
  by (simp only: initDecode_eq zero_decoder_arrays)

lemma initDecode_wp:
  assumes "dec_arrays d" "m = 20 \<or> m = 30" "\<And>w d'. dec_ok m en d' \<Longrightarrow> w = word_of_int (d_frameSamples d') \<Longrightarrow> Q (w, d')"
  shows "spec E Q (initDecode d m en)"
proof -
  have "period_ok (replicate 8 (int32 40))" using qf_int32[of 40] by (auto simp: period_ok_def intro!: exI[of _ 40])
  then show ?thesis
    unfolding initDecode_eq[OF assms(1)]
    by (intro wp for_up_inv[where I = "\<lambda>os :: float32 list. length os = 66"] assms(3))
      (use assms(2) in \<open>auto simp: dec_ok_def mode_consts_def mode_of_def mode_frame_def plc_ok_def
         split: if_splits\<close>)
qed

end
