(* ===== verification/DecoderStream.thy ===== *)
theory DecoderStream
  imports Codec DecoderSafe
begin

text \<open>
  A decoder over its lifetime: the states that a program can bring a decoder into by calling
  \<open>NewDecoder\<close>, \<open>Decode\<close>, \<open>Conceal\<close> and \<open>Reset\<close> in any order with any arguments, and what
  every such call returns.
\<close>

section \<open>Conversion to 16-bit samples\<close>

lemma val32_limits:
  "val32 (int32 (- 32768)) = FFin True (2 ^ 23) (- 8)"
  "val32 (int32 32767) = FFin False 16776704 (- 9)"
  by (simp_all add: int32_def val32_rnd32 fp_of_int_def bitlen_pos Let_def round_mag_def rne_def
      sign_bit_def unpack_fp_def emin32)

lemma below_limit:
  "fp_less (FFin s m e) (FFin True (2 ^ 23) (- 8)) \<longleftrightarrow>
     (if 0 \<le> e then signed s m * 2 ^ nat e < - 32768 else signed s m < - 32768 * 2 ^ nat (- e))"
  and above_limit:
  "fp_less (FFin False 16776704 (- 9)) (FFin s m e) \<longleftrightarrow>
     (if 0 \<le> e then 32767 < signed s m * 2 ^ nat e else 32767 * 2 ^ nat (- e) < signed s m)"
proof -
  have pos: "fp_less (FFin s m e) (FFin True (2 ^ 23) (- 8)) \<longleftrightarrow> signed s m * 2 ^ nat e < - 32768"
    "fp_less (FFin False 16776704 (- 9)) (FFin s m e) \<longleftrightarrow> 32767 < signed s m * 2 ^ nat e" if "0 \<le> e"
  proof -
    have p: "nat (e + 8) = nat e + 8" "nat (e + 9) = nat e + 9" using that by auto
    show "fp_less (FFin s m e) (FFin True (2 ^ 23) (- 8)) \<longleftrightarrow> signed s m * 2 ^ nat e < - 32768"
      "fp_less (FFin False 16776704 (- 9)) (FFin s m e) \<longleftrightarrow> 32767 < signed s m * 2 ^ nat e"
      using that p by (auto simp: min_def signed_def power_add mult.commute)
  qed
  have neg: "fp_less (FFin s m e) (FFin True (2 ^ 23) (- 8)) \<longleftrightarrow> signed s m < - 32768 * 2 ^ nat (- e)"
    "fp_less (FFin False 16776704 (- 9)) (FFin s m e) \<longleftrightarrow> 32767 * 2 ^ nat (- e) < signed s m" if "e < 0"
  proof -
    define a where "a = nat (- e)"
    have e: "e = - int a" "1 \<le> a" using that by (auto simp: a_def)
    have "(fp_less (FFin s m e) (FFin True (2 ^ 23) (- 8)) \<longleftrightarrow> signed s m < - 32768 * 2 ^ a) \<and>
      (fp_less (FFin False 16776704 (- 9)) (FFin s m e) \<longleftrightarrow> 32767 * 2 ^ a < signed s m)"
    proof (cases "a \<le> 8")
      case True
      then have "a \<in> {1, 2, 3, 4, 5, 6, 7, 8}" using e(2) by auto
      then show ?thesis by (auto simp: e(1) signed_def)
    next
      case False
      define b where "b = a - 9"
      have b: "a = b + 9" using False by (simp add: b_def)
      have n: "nat (int a - 8) = b + 1" "nat (int a - 9) = b" by (auto simp: b)
      have "min (- int a) (- 8) = - int a" "min (- int a) (- 9) = - int a" "min (- 9) (- int a) = - int a"
        using b by auto
      then show ?thesis using n by (auto simp: e(1) b signed_def power_add)
    qed
    then show "fp_less (FFin s m e) (FFin True (2 ^ 23) (- 8)) \<longleftrightarrow> signed s m < - 32768 * 2 ^ nat (- e)"
      "fp_less (FFin False 16776704 (- 9)) (FFin s m e) \<longleftrightarrow> 32767 * 2 ^ nat (- e) < signed s m"
      by (simp_all add: a_def)
  qed
  show "fp_less (FFin s m e) (FFin True (2 ^ 23) (- 8)) \<longleftrightarrow>
     (if 0 \<le> e then signed s m * 2 ^ nat e < - 32768 else signed s m < - 32768 * 2 ^ nat (- e))"
    "fp_less (FFin False 16776704 (- 9)) (FFin s m e) \<longleftrightarrow>
     (if 0 \<le> e then 32767 < signed s m * 2 ^ nat e else 32767 * 2 ^ nat (- e) < signed s m)"
    using pos neg by auto
qed

lemma limits_trunc:
  "fp_trunc (val32 (int32 (- 32768))) = Some (- 32768)" "fp_trunc (val32 (int32 32767)) = Some 32767"
  by (simp_all add: val32_limits signed_def)

text \<open>The integer part of a value, with infinities beyond every integer of 16 bits.\<close>

fun int_part :: "fp \<Rightarrow> int" where
  "int_part FNaN = 0"
| "int_part (FInf s) = (if s then - 100000 else 100000)"
| "int_part (FFin s m e) = signed s (if 0 \<le> e then m * 2 ^ nat e else m div 2 ^ nat (- e))"

lemma clip_arith:
  fixes D K M :: int
  assumes "32768 * K \<le> M \<longrightarrow> 32768 \<le> D" "M \<le> 32768 * K \<longrightarrow> D \<le> 32768"
    "32767 * K \<le> M \<longrightarrow> 32767 \<le> D" "M \<le> 32767 * K \<longrightarrow> D \<le> 32767" "0 \<le> D" "0 < K" "0 \<le> M"
  shows "(if s then - M else M) < - 32768 * K \<Longrightarrow> (if s then - D else D) \<le> - 32768"
    "\<not> (if s then - M else M) < - 32768 * K \<Longrightarrow> - 32768 \<le> (if s then - D else D)"
    "32767 * K < (if s then - M else M) \<Longrightarrow> 32767 \<le> (if s then - D else D)"
    "\<not> 32767 * K < (if s then - M else M) \<Longrightarrow> (if s then - D else D) \<le> 32767"
  using assms by (cases s; simp; linarith)+

lemma int_part_limits:
  "fp_less (FFin s m e) (FFin True (2 ^ 23) (- 8)) \<Longrightarrow> int_part (FFin s m e) \<le> - 32768"
  "\<not> fp_less (FFin s m e) (FFin True (2 ^ 23) (- 8)) \<Longrightarrow> - 32768 \<le> int_part (FFin s m e)"
  "fp_less (FFin False 16776704 (- 9)) (FFin s m e) \<Longrightarrow> 32767 \<le> int_part (FFin s m e)"
  "\<not> fp_less (FFin False 16776704 (- 9)) (FFin s m e) \<Longrightarrow> int_part (FFin s m e) \<le> 32767"
proof -
  have sg: "signed s (m * k) = signed s m * int k" for k by (simp add: signed_def)
  define k where "k = nat (- e)"
  have dv: "(c :: nat) * 2 ^ k \<le> m \<Longrightarrow> c \<le> m div 2 ^ k" "m \<le> c * 2 ^ k \<Longrightarrow> m div 2 ^ k \<le> c" for c
    using div_le_mono[of "c * 2 ^ k" m "2 ^ k"] div_le_mono[of m "c * 2 ^ k" "2 ^ k"] by simp_all
  define D K M where "D = int (m div 2 ^ k)" and "K = (2 :: int) ^ k" and "M = int m"
  have K: "int c * K = int (c * 2 ^ k)" for c by (simp add: K_def)
  have f1: "int c * K \<le> M \<Longrightarrow> int c \<le> D" "M \<le> int c * K \<Longrightarrow> D \<le> int c" for c
    unfolding K D_def M_def of_nat_le_iff by (rule dv, assumption)+
  have f: "32768 * K \<le> M \<longrightarrow> 32768 \<le> D" "M \<le> 32768 * K \<longrightarrow> D \<le> 32768" "32767 * K \<le> M \<longrightarrow> 32767 \<le> D"
    "M \<le> 32767 * K \<longrightarrow> D \<le> 32767" "0 \<le> D" "0 < K" "0 \<le> M"
    using f1[of 32768] f1[of 32767] by (simp_all add: D_def K_def M_def)
  have "(fp_less (FFin s m e) (FFin True (2 ^ 23) (- 8)) \<longrightarrow> int_part (FFin s m e) \<le> - 32768) \<and>
    (\<not> fp_less (FFin s m e) (FFin True (2 ^ 23) (- 8)) \<longrightarrow> - 32768 \<le> int_part (FFin s m e)) \<and>
    (fp_less (FFin False 16776704 (- 9)) (FFin s m e) \<longrightarrow> 32767 \<le> int_part (FFin s m e)) \<and>
    (\<not> fp_less (FFin False 16776704 (- 9)) (FFin s m e) \<longrightarrow> int_part (FFin s m e) \<le> 32767)"
  proof (cases "0 \<le> e")
    case True
    then show ?thesis unfolding below_limit above_limit by (auto simp: sg)
  next
    case False
    have sgk: "int_part (FFin s m e) = (if s then - D else D)" "signed s m = (if s then - M else M)"
      using False by (simp_all add: signed_def D_def M_def k_def)
    show ?thesis
      unfolding below_limit above_limit k_def[symmetric] sgk K_def[symmetric]
      using clip_arith[OF f, of s] False by (simp only: if_False) blast
  qed
  then show "fp_less (FFin s m e) (FFin True (2 ^ 23) (- 8)) \<Longrightarrow> int_part (FFin s m e) \<le> - 32768"
    "\<not> fp_less (FFin s m e) (FFin True (2 ^ 23) (- 8)) \<Longrightarrow> - 32768 \<le> int_part (FFin s m e)"
    "fp_less (FFin False 16776704 (- 9)) (FFin s m e) \<Longrightarrow> 32767 \<le> int_part (FFin s m e)"
    "\<not> fp_less (FFin False 16776704 (- 9)) (FFin s m e) \<Longrightarrow> int_part (FFin s m e) \<le> 32767"
    by blast+
qed

text \<open>C9: A sample that is not NaN is converted to the 16-bit integer nearest to its integer
  part: \<open>decode\<close> saturates, and the result is the same on every platform although Go leaves
  the conversion of an out-of-range float to the implementation.\<close>

theorem clip_saturates:
  assumes "\<not> is_nan32 x"
  shows "go_int16 P (clip_sample x) = word_of_int (max (- 32768) (min 32767 (int_part (val32 x))))"
proof (cases "val32 x")
  case FNaN
  then show ?thesis using assms by (simp add: is_nan32_def)
next
  case (FInf s)
  then show ?thesis
    by (cases s) (simp_all add: clip_sample_def less_float32_def val32_limits go_int16_def signed_def)
next
  case (FFin s m e)
  note lim = int_part_limits[of s m e]
  have t: "fp_trunc (val32 x) = Some (int_part (val32 x))" by (simp add: FFin)
  show ?thesis
    unfolding clip_sample_def less_float32_def val32_limits FFin
    using lim t by (auto simp: go_int16_def limits_trunc FFin simp del: fp_less.simps int_part.simps)
qed

theorem clip_saturates_witness:
  "\<forall>P. go_int16 P (clip_sample (int32 40000)) = 32767 \<and> go_int16 P (clip_sample (int32 (- 7))) = - 7"
proof
  fix P
  have v: "val32 (int32 40000) = FFin False 10240000 (- 8)" "val32 (int32 (- 7)) = FFin True 14680064 (- 21)"
    by (simp_all add: int32_def val32_rnd32 fp_of_int_def bitlen_pos Let_def round_mag_def rne_def
        sign_bit_def unpack_fp_def emin32)
  show "go_int16 P (clip_sample (int32 40000)) = 32767 \<and> go_int16 P (clip_sample (int32 (- 7))) = - 7"
    using clip_saturates[of "int32 40000" P] clip_saturates[of "int32 (- 7)" P]
    by (simp add: is_nan32_def v signed_def)
qed

section \<open>One call\<close>

lemma mode_consts_sizes:
  assumes "mode_consts m d"
  shows "d_mode d \<noteq> 0" "0 \<le> d_frameSamples d" "d_frameSamples d \<le> 240"
    "m = 20 \<and> d_frameSamples d = 160 \<and> d_frameBytes d = 38 \<or> m = 30 \<and> d_frameSamples d = 240 \<and> d_frameBytes d = 50"
  using assms by (auto simp: mode_consts_def mode_of_def mode_frame_def split: if_splits)

lemma decoder_decode_wp:
  assumes d: "dec_ok m en d" and n: "d_frameSamples d \<le> int (length dst)"
    and r: "received = 0 \<or> received = 1 \<and> int (length packet) = d_frameBytes d"
    and Q: "\<And>dst' d'. dec_ok m en d' \<Longrightarrow> length dst' = length dst \<Longrightarrow>
      drop (nat (d_frameSamples d)) dst' = drop (nat (d_frameSamples d)) dst \<Longrightarrow> Q (dst', d')"
  shows "spec E Q (decoder_decode P d dst packet received)"
proof -
  have len: "length (syntMem d) = 10" "length (hpomem d) = 4" using d by (simp_all add: dec_ok_def)
  have d': "dec_ok m en (d\<lparr>syntMem := flushSubnormalHistory (syntMem d), hpomem := flushSubnormalHistory (hpomem d)\<rparr>)"
    by (rule dec_ok_updates(4)[OF d]) (simp_all add: len)
  have fs: "d_frameSamples e = d_frameSamples d" if "dec_ok m en e" for e
    using mode_consts_sizes(4)[of m d] mode_consts_sizes(4)[of m e] that d by (auto simp: dec_ok_def)
  have keep: "drop k (xs[nat i := v]) = drop k xs" if "i < int k" "0 \<le> i" for k i and xs :: "int16 list" and v
    using that by (simp add: drop_update_cancel nat_less_iff)
  have fs0: "d_frameSamples d \<le> 240" "0 \<le> d_frameSamples d"
    using d mode_consts_sizes[of m d] by (simp_all add: dec_ok_def)
  have fill: "spec E (\<lambda>ys. length ys = length dst \<and> drop (nat (d_frameSamples d)) ys = drop (nat (d_frameSamples d)) dst)
      (for_up 0 (d_frameSamples d) (\<lambda>i dst. bnd (idx block i) (\<lambda>x. upd dst i (f x))) dst)"
    if "length block = 240" for block :: "float32 list" and f
    by (rule for_up_inv[where I = "\<lambda>ys. length ys = length dst \<and>
          drop (nat (d_frameSamples d)) ys = drop (nat (d_frameSamples d)) dst"])
      (use that n fs0 keep in auto)
  show ?thesis
    unfolding decoder_decode_def Let_def
    by (rule spec_bndI, rule decodeFrame_wp[OF d'])
      (use r in \<open>auto simp: fs intro!: spec_mono[OF fill] Q\<close>)
qed

definition frame_samples :: "int \<Rightarrow> nat" where
  "frame_samples m = (if m = 20 then 160 else 240)"

definition frame_bytes :: "int \<Rightarrow> nat" where
  "frame_bytes m = (if m = 20 then 38 else 50)"

lemma dec_ok_sizes:
  assumes "dec_ok m en d"
  shows "d_mode d = m" "d_mode d \<noteq> 0" "d_frameSamples d = int (frame_samples m)"
    "d_frameBytes d = int (frame_bytes m)" "m = 20 \<or> m = 30"
  using assms mode_consts_sizes[of m d]
  by (auto simp: dec_ok_def mode_consts_def frame_samples_def frame_bytes_def)

text \<open>What an accepted call leaves behind the frame it wrote.\<close>

definition same_tail :: "nat \<Rightarrow> 'a list \<Rightarrow> 'a list \<Rightarrow> bool" where
  "same_tail n xs ys \<longleftrightarrow> length ys = length xs \<and> drop n ys = drop n xs"

lemma accepted_call:
  assumes d: "dec_ok m en d" and n: "frame_samples m \<le> length dst"
    and r: "received = 0 \<or> received = 1 \<and> length packet = frame_bytes m"
  shows "\<exists>dst' d'. decoder_decode P d dst packet received = Ok (dst', d') \<and> same_tail (frame_samples m) dst dst' \<and>
    dec_ok m en d'"
proof -
  note sz = dec_ok_sizes[OF d]
  have "safe (\<lambda>(dst', d'). same_tail (frame_samples m) dst dst' \<and> dec_ok m en d') (decoder_decode P d dst packet received)"
    by (rule decoder_decode_wp[OF d]) (use n r sz in \<open>auto simp: same_tail_def\<close>)
  then show ?thesis by (auto simp: safe_iff)
qed

section \<open>All calls\<close>

text \<open>The states of a decoder made by \<open>NewDecoder(m, enhance)\<close>.\<close>

inductive dec_reach :: "platform \<Rightarrow> int \<Rightarrow> bool \<Rightarrow> decoderState \<Rightarrow> bool" for P m enhance where
  new: "NewDecoder m enhance = Ok (Inr d) \<Longrightarrow> dec_reach P m enhance d"
| decode: "dec_reach P m enhance d \<Longrightarrow> Decode P d dst packet = Ok (err, dst', d') \<Longrightarrow> dec_reach P m enhance d'"
| conceal: "dec_reach P m enhance d \<Longrightarrow> Conceal P d dst = Ok (err, dst', d') \<Longrightarrow> dec_reach P m enhance d'"
| reset: "dec_reach P m enhance d \<Longrightarrow> Decoder_Reset d = Ok (err, d') \<Longrightarrow> dec_reach P m enhance d'"

lemma NewDecoder_ok:
  assumes "m = 20 \<or> m = 30"
  shows "\<exists>d. NewDecoder m enhance = Ok (Inr d) \<and> dec_ok m (of_bool enhance) d"
proof -
  have "safe (\<lambda>(w, d). dec_ok m (of_bool enhance) d) (initDecode zero_decoder m (of_bool enhance))"
    by (rule initDecode_wp[OF zero_decoder_arrays assms]) simp
  then show ?thesis using assms by (auto simp: NewDecoder_def safe_iff of_bool_def)
qed

lemma Decode_cases:
  assumes d: "dec_ok m en d"
  shows "if length packet \<noteq> frame_bytes m then Decode P d dst packet = Ok (Some ErrPacketSize, dst, d)
    else if length dst < frame_samples m then Decode P d dst packet = Ok (Some ErrShortBuffer, dst, d)
    else \<exists>dst' d'. Decode P d dst packet = Ok (None, dst', d') \<and> same_tail (frame_samples m) dst dst' \<and> dec_ok m en d'"
  using dec_ok_sizes[OF d] accepted_call[OF d, of dst 1 packet P] by (auto simp: Decode_def)

lemma Conceal_cases:
  assumes d: "dec_ok m en d"
  shows "if length dst < frame_samples m then Conceal P d dst = Ok (Some ErrShortBuffer, dst, d)
    else \<exists>dst' d'. Conceal P d dst = Ok (None, dst', d') \<and> same_tail (frame_samples m) dst dst' \<and> dec_ok m en d'"
  using dec_ok_sizes[OF d] accepted_call[OF d, of dst 0 "[]" P] by (auto simp: Conceal_def)

lemma Reset_fresh:
  assumes d: "dec_ok m (of_bool enhance) d"
  shows "\<exists>d0. NewDecoder m enhance = Ok (Inr d0) \<and> Decoder_Reset d = Ok (None, d0)"
proof -
  have e: "enhancement d = of_bool enhance" using d by (simp add: dec_ok_def)
  have "initDecode d m (of_bool enhance) = initDecode zero_decoder m (of_bool enhance)"
    by (rule initDecode_fresh[OF dec_ok_arrays[OF d]])
  then show ?thesis
    using NewDecoder_ok[of m enhance] dec_ok_sizes[OF d] e
    by (auto simp: NewDecoder_def Decoder_Reset_def of_bool_def bnd_eq_Ok split: if_splits)
qed

lemma dec_reach_mode: "dec_reach P m enhance d \<Longrightarrow> m = 20 \<or> m = 30"
  by (induction rule: dec_reach.induct) (auto simp: NewDecoder_def split: if_splits)

lemma dec_reach_ok: "dec_reach P m enhance d \<Longrightarrow> dec_ok m (of_bool enhance) d"
proof (induction rule: dec_reach.induct)
  case (new d)
  then have "m = 20 \<or> m = 30" by (auto simp: NewDecoder_def split: if_splits)
  then show ?case using NewDecoder_ok[of m enhance] new by auto
next
  case (decode d dst packet err dst' d')
  then show ?case using Decode_cases[OF decode.IH, of packet P dst] by (auto split: if_splits)
next
  case (conceal d dst err dst' d')
  then show ?case using Conceal_cases[OF conceal.IH, of dst P] by (auto split: if_splits)
next
  case (reset d err d')
  have "m = 20 \<or> m = 30" using dec_ok_sizes[OF reset.IH] by simp
  then show ?case using NewDecoder_ok[of m enhance] Reset_fresh[OF reset.IH] reset.hyps by auto
qed

section \<open>The properties\<close>

text \<open>C5: Whatever sequence of calls a decoder has seen, its arrays have their sizes, its mode
  constants are those of its mode, and its lags and pitch periods lie in the ranges with which
  they index the history.\<close>

theorem decoder_invariant:
  assumes "dec_reach P m enhance d"
  shows "dec_ok m (of_bool enhance) d"
  using assms by (rule dec_reach_ok)

theorem decoder_invariant_witness:
  "\<forall>P. \<exists>d. NewDecoder 30 True = Ok (Inr d) \<and> dec_ok 30 1 d"
proof
  fix P
  obtain d where d: "NewDecoder 30 True = Ok (Inr d)" using NewDecoder_ok[of 30 True] by auto
  then show "\<exists>d. NewDecoder 30 True = Ok (Inr d) \<and> dec_ok 30 1 d"
    using decoder_invariant[OF dec_reach.new[OF d]] by auto
qed

text \<open>C1: \<open>Decode\<close> never panics, whatever bytes the packet holds: it rejects a packet of the wrong
  size or a short buffer with the right error and leaves buffer and state unchanged, and
  otherwise it succeeds and writes at most one frame of samples.\<close>

theorem decode_never_panics:
  assumes "dec_reach P m enhance d"
  shows "\<exists>err dst' d'. Decode P d dst packet = Ok (err, dst', d') \<and>
    err = (if length packet \<noteq> frame_bytes m then Some ErrPacketSize
           else if length dst < frame_samples m then Some ErrShortBuffer else None) \<and>
    (err = None \<or> dst' = dst \<and> d' = d) \<and> same_tail (frame_samples m) dst dst' \<and>
    dec_reach P m enhance d'"
proof -
  note ok = dec_reach_ok[OF assms]
  have st: "same_tail k dst dst" for k by (simp add: same_tail_def)
  show ?thesis
    using Decode_cases[OF ok, of packet P dst] assms st
    by (auto split: if_splits intro: dec_reach.decode)
qed

theorem decode_never_panics_witness:
  "\<forall>P. \<exists>d dst' d'. NewDecoder 20 False = Ok (Inr d) \<and>
     Decode P d (replicate 161 7) (replicate 38 255) = Ok (None, dst', d') \<and> dst' ! 160 = 7"
proof
  fix P
  obtain d where d: "NewDecoder 20 False = Ok (Inr d)" using NewDecoder_ok[of 20 False] by auto
  obtain dst' d' where r: "Decode P d (replicate 161 7) (replicate 38 255) = Ok (None, dst', d')"
      "same_tail 160 (replicate 161 7) dst'"
    using decode_never_panics[OF dec_reach.new[OF d], of P "replicate 161 7" "replicate 38 255"]
    by (auto simp: frame_bytes_def frame_samples_def)
  then have "drop 160 dst' ! 0 = 7" "length dst' = 161" by (simp_all add: same_tail_def)
  then have "dst' ! 160 = 7" by simp
  then show "\<exists>d dst' d'. NewDecoder 20 False = Ok (Inr d) \<and>
     Decode P d (replicate 161 7) (replicate 38 255) = Ok (None, dst', d') \<and> dst' ! 160 = 7"
    using d r by blast
qed

text \<open>C6: \<open>Conceal\<close> never panics either, however many frames in a row are lost.\<close>

theorem conceal_never_panics:
  assumes "dec_reach P m enhance d"
  shows "\<exists>err dst' d'. Conceal P d dst = Ok (err, dst', d') \<and>
    err = (if length dst < frame_samples m then Some ErrShortBuffer else None) \<and>
    (err = None \<or> dst' = dst \<and> d' = d) \<and> same_tail (frame_samples m) dst dst' \<and>
    dec_reach P m enhance d'"
proof -
  note ok = dec_reach_ok[OF assms]
  have st: "same_tail k dst dst" for k by (simp add: same_tail_def)
  show ?thesis
    using Conceal_cases[OF ok, of dst P] assms st by (auto split: if_splits intro: dec_reach.conceal)
qed

theorem conceal_never_panics_witness:
  "\<forall>P. \<exists>d dst' d'. NewDecoder 30 True = Ok (Inr d) \<and> Conceal P d (replicate 240 0) = Ok (None, dst', d')"
proof
  fix P
  obtain d where d: "NewDecoder 30 True = Ok (Inr d)" using NewDecoder_ok[of 30 True] by auto
  then show "\<exists>d dst' d'. NewDecoder 30 True = Ok (Inr d) \<and> Conceal P d (replicate 240 0) = Ok (None, dst', d')"
    using conceal_never_panics[OF dec_reach.new[OF d], of P "replicate 240 0"]
    by (auto simp: frame_samples_def)
qed

text \<open>C8: \<open>Reset\<close> discards the whole history: the state it leaves is the one \<open>NewDecoder\<close> makes for the
  same mode and enhancement setting.\<close>

theorem reset_is_new:
  assumes "dec_reach P m enhance d"
  shows "\<exists>d0. NewDecoder m enhance = Ok (Inr d0) \<and> Decoder_Reset d = Ok (None, d0)"
  using dec_reach_ok[OF assms] by (rule Reset_fresh)

theorem reset_is_new_witness:
  "\<forall>P :: platform. \<exists>d dst' d' d0. NewDecoder 20 True = Ok (Inr d) \<and>
     Conceal P d (replicate 160 0) = Ok (None, dst', d') \<and> Decoder_Reset d' = Ok (None, d0) \<and> d0 = d"
proof
  fix P :: platform
  obtain d where d: "NewDecoder 20 True = Ok (Inr d)" using NewDecoder_ok[of 20 True] by auto
  have ok: "dec_reach P 20 True d" by (rule dec_reach.new[OF d])
  obtain dst' d' where r: "Conceal P d (replicate 160 0) = Ok (None, dst', d')"
    using Conceal_cases[OF dec_reach_ok[OF ok], of "replicate 160 0" P] by (auto simp: frame_samples_def)
  show "\<exists>d dst' d' d0. NewDecoder 20 True = Ok (Inr d) \<and>
     Conceal P d (replicate 160 0) = Ok (None, dst', d') \<and> Decoder_Reset d' = Ok (None, d0) \<and> d0 = d"
    using reset_is_new[OF dec_reach.conceal[OF ok r]] d r by auto
qed

text \<open>C7: A packet that is marked empty (its last bit is set) or whose start index is invalid is
  treated exactly as a lost packet: \<open>Decode\<close> returns what \<open>Conceal\<close> returns, in every state.\<close>

theorem damaged_is_lost:
  assumes "dec_reach P m enhance d" and "length packet = frame_bytes m"
    and "unpackFrame (d_ulp d) (d_lpcAnalyses d) (d_shortStateSamples d) (d_adaptiveSubframes d) packet = Ok (fr, b)"
    and "b = 1 \<or> start fr < 1 \<or> m = 30 \<and> 5 < start fr"
  shows "Decode P d dst packet = Conceal P d dst"
proof -
  have ok: "dec_ok m (of_bool enhance) d" by (rule dec_reach_ok[OF assms(1)])
  note sz = dec_ok_sizes[OF ok]
  define d1 where "d1 = d\<lparr>syntMem := flushSubnormalHistory (syntMem d), hpomem := flushSubnormalHistory (hpomem d)\<rparr>"
  have "frame_mode d1 fr b 1 = 0" using assms(4) sz(1) by (auto simp: frame_mode_def d1_def Let_def)
  moreover have "unpackFrame (d_ulp d1) (d_lpcAnalyses d1) (d_shortStateSamples d1) (d_adaptiveSubframes d1) packet = Ok (fr, b)"
    using assms(3) by (simp add: d1_def)
  ultimately have "decodeFrame P blk packet d1 1 = decodeFrame P blk [] d1 0" for blk
    by (simp add: decodeFrame_def Let_def)
  then have "decoder_decode P d dst packet 1 = decoder_decode P d dst [] 0"
    by (simp add: decoder_decode_def Let_def flip: d1_def)
  then show ?thesis using sz assms(2) by (simp add: Decode_def Conceal_def)
qed

lemma empty_packet:
  "unpackFrame ulp20Table 1 57 2 (replicate 38 255) = Ok (fr, b) \<Longrightarrow> b = 1" for fr b
proof -
  assume u: "unpackFrame ulp20Table 1 57 2 (replicate 38 255) = Ok (fr, b)"
  have "map_sum id snd (unpackFrame ulp20Table 1 57 2 (replicate 38 255)) = Ok 1"
    by code_simp
  then show "b = 1" using u by simp
qed

theorem damaged_is_lost_witness:
  "\<forall>P. \<exists>d. NewDecoder 20 True = Ok (Inr d) \<and>
     Decode P d (replicate 160 0) (replicate 38 255) = Conceal P d (replicate 160 0)"
proof
  fix P
  obtain d where d: "NewDecoder 20 True = Ok (Inr d)" using NewDecoder_ok[of 20 True] by auto
  have r: "dec_reach P 20 True d" by (rule dec_reach.new[OF d])
  have m: "mode_of 20 = Some (d_ulp d, d_lpcAnalyses d, d_shortStateSamples d, d_adaptiveSubframes d, nat (d_frameBytes d))"
    using dec_reach_ok[OF r] by (simp add: dec_ok_def mode_consts_def)
  then have L: "d_ulp d = ulp20Table" "d_lpcAnalyses d = 1" "d_shortStateSamples d = 57" "d_adaptiveSubframes d = 2"
    by (simp_all add: mode_of_def)
  obtain fr fin where u: "unpackFrame ulp20Table 1 57 2 (replicate 38 255) = Ok (fr, of_bool fin)"
    using unpack_frame_exists[of 20 ulp20Table 1 57 2 38 "replicate 38 255"]
      unpack_frame_bits[of 20 ulp20Table 1 57 2 38] by (auto simp: mode_of_def)
  have "Decode P d (replicate 160 0) (replicate 38 255) = Conceal P d (replicate 160 0)"
    by (rule damaged_is_lost[OF r, of _ fr "of_bool fin"])
      (use u empty_packet[OF u] in \<open>auto simp: L frame_bytes_def\<close>)
  then show "\<exists>d. NewDecoder 20 True = Ok (Inr d) \<and>
     Decode P d (replicate 160 0) (replicate 38 255) = Conceal P d (replicate 160 0)" using d by blast
qed

end
