(* ===== verification/Rounding.thy ===== *)
theory Rounding
  imports Exact
begin

text \<open>
  The error of a float32 addition or subtraction whose result is below 1: at most half a unit
  in the last place, \<open>2 ^ -25\<close>.  A finite value is written as a multiple of the smallest
  positive float32, \<open>2 ^ -149\<close>.  Used where a loop advances a float and has to be shown to end.
\<close>

section \<open>Rounding to the nearest\<close>

lemma rne_pos: "0 < d \<Longrightarrow> rne m (int d) =
    (if 2 ^ (d - 1) < m mod 2 ^ d \<or> m mod 2 ^ d = 2 ^ (d - 1) \<and> odd (m div 2 ^ d)
     then m div 2 ^ d + 1 else m div 2 ^ d)"
  by (simp add: rne_def Let_def)

lemma rne_shift: "rne m (int d - int g) = rne (m * 2 ^ g) (int d)"
proof (cases "d \<le> g")
  case True
  then have "m * 2 ^ g = m * 2 ^ (g - d) * 2 ^ d" by (simp add: mult.assoc flip: power_add)
  then have "2 ^ d dvd m * 2 ^ g" "m * 2 ^ g div 2 ^ d = m * 2 ^ (g - d)" by (simp_all only: dvd_triv_right) simp
  then have "rne (m * 2 ^ g) (int d) = m * 2 ^ (g - d)" by (simp add: rne_exact)
  then show ?thesis using True by (simp add: rne_def nat_diff_distrib')
next
  case False
  define k where "k = d - g"
  have d: "d = k + g" "0 < k" using False by (simp_all add: k_def)
  have d0: "0 < d" using d by simp
  have p: "(2 :: nat) ^ d = 2 ^ k * 2 ^ g" by (simp add: d power_add)
  have h: "(2 :: nat) ^ (d - 1) = 2 ^ (k - 1) * 2 ^ g" using d by (simp flip: power_add)
  have dm: "m * 2 ^ g div 2 ^ d = m div 2 ^ k" "m * 2 ^ g mod 2 ^ d = (m mod 2 ^ k) * 2 ^ g"
    unfolding p by (simp_all add: mod_mult_mult2)
  have "rne (m * 2 ^ g) (int d) = rne m (int k)"
    unfolding rne_pos[OF d(2)] rne_pos[OF d0] h dm
    by simp
  moreover have "int d - int g = int k" using d(1) by simp
  ultimately show ?thesis by (simp only:)
qed

lemma rne_error: "2 * \<bar>int (rne M (int d)) * 2 ^ d - int M\<bar> \<le> 2 ^ d"
proof (cases "d = 0")
  case False
  define h where "h = M div 2 ^ d"
  define r where "r = M mod 2 ^ d"
  have M: "M = h * 2 ^ d + r" "r < 2 ^ d" unfolding h_def r_def by (rule div_mult_mod_eq[symmetric], simp)
  have half: "(2 :: nat) ^ d = 2 * 2 ^ (d - 1)" using False by (cases d) simp_all
  have "rne M (int d) = (if 2 ^ (d - 1) < r \<or> r = 2 ^ (d - 1) \<and> odd h then h + 1 else h)"
    using False by (simp add: rne_def Let_def h_def r_def)
  moreover have "int M = int h * 2 ^ d + int r" "int r < 2 ^ d" using M by (simp_all add: of_nat_less_iff[symmetric] del: of_nat_less_iff)
  moreover have "(2 :: int) ^ d = 2 * 2 ^ (d - 1)" using half by (metis of_nat_mult of_nat_numeral of_nat_power)
  moreover have "2 ^ (d - 1) < r \<longleftrightarrow> 2 ^ (d - 1) < int r" "r = 2 ^ (d - 1) \<longleftrightarrow> int r = 2 ^ (d - 1)"
    by (metis of_nat_less_iff of_nat_numeral of_nat_power, metis of_nat_eq_iff of_nat_numeral of_nat_power)
  ultimately show ?thesis by (auto simp: algebra_simps)
qed (simp add: rne_def)

section \<open>Multiples of the smallest value\<close>

definition units :: "nat \<Rightarrow> nat \<Rightarrow> int \<Rightarrow> fp \<Rightarrow> bool" where
  "units t w n v \<longleftrightarrow> (\<exists>s m e. v = FFin s m e \<and> emin t w \<le> e \<and> signed s m * 2 ^ nat (e - emin t w) = n)"

lemma units_neg: "units t w n v \<Longrightarrow> units t w (- n) (fp_neg v)"
  unfolding units_def signed_def by (fastforce split: if_splits)

lemma units_add:
  assumes "units t w a x" "units t w b y"
  shows "units t w (a + b) (fp_add x y)"
proof -
  obtain s m e where x: "x = FFin s m e" "emin t w \<le> e" "signed s m * 2 ^ nat (e - emin t w) = a"
    using assms(1) by (auto simp: units_def)
  obtain s' m' e' where y: "y = FFin s' m' e'" "emin t w \<le> e'" "signed s' m' * 2 ^ nat (e' - emin t w) = b"
    using assms(2) by (auto simp: units_def)
  define q where "q = min e e'"
  define v where "v = signed s m * 2 ^ nat (e - q) + signed s' m' * 2 ^ nat (e' - q)"
  have q: "q \<le> e" "q \<le> e'" "emin t w \<le> q" using x y by (auto simp: q_def)
  have v: "v * 2 ^ nat (q - emin t w) = a + b"
    by (simp only: v_def distrib_right scale_signed[OF q(1,3)] scale_signed[OF q(2,3)] x(3) y(3))
  have "fp_add x y = (if v = 0 then FFin (s \<and> s') 0 q else FFin (v < 0) (nat \<bar>v\<bar>) q)"
    by (simp add: x(1) y(1) Let_def flip: q_def v_def)
  moreover have "signed (v < 0) (nat \<bar>v\<bar>) = v" by (simp add: signed_def)
  ultimately show ?thesis using v q(3) by (auto simp: units_def signed_def)
qed

lemma units_compare:
  assumes "units t w a x" "units t w b y"
  shows "fp_less x y \<longleftrightarrow> a < b" "fp_le x y \<longleftrightarrow> a \<le> b"
proof -
  obtain s m e where x: "x = FFin s m e" "emin t w \<le> e" "signed s m * 2 ^ nat (e - emin t w) = a"
    using assms(1) by (auto simp: units_def)
  obtain s' m' e' where y: "y = FFin s' m' e'" "emin t w \<le> e'" "signed s' m' * 2 ^ nat (e' - emin t w) = b"
    using assms(2) by (auto simp: units_def)
  define q where "q = min e e'"
  have q: "q \<le> e" "q \<le> e'" "emin t w \<le> q" using x y by (auto simp: q_def)
  have "0 < (2 :: int) ^ nat (q - emin t w)" by simp
  then have "signed s m * 2 ^ nat (e - q) < signed s' m' * 2 ^ nat (e' - q) \<longleftrightarrow> a < b"
    "signed s m * 2 ^ nat (e - q) \<le> signed s' m' * 2 ^ nat (e' - q) \<longleftrightarrow> a \<le> b"
    unfolding x(3)[symmetric] y(3)[symmetric] scale_signed[OF q(1,3), symmetric] scale_signed[OF q(2,3), symmetric]
    by (simp_all only: mult_less_cancel_right_pos mult_le_cancel_right_pos)
  then show "fp_less x y \<longleftrightarrow> a < b" "fp_le x y \<longleftrightarrow> a \<le> b"
    by (simp_all add: x(1) y(1) flip: q_def)
qed

text \<open>Rounding a magnitude: the error is at most half of the unit \<open>2 ^ d\<close> of the result.\<close>

lemma rne_near: "rne M (int d) = M div 2 ^ d \<or> rne M (int d) = M div 2 ^ d + 1"
  by (simp add: rne_def Let_def)

lemma unpack_round_near:
  assumes e: "emin t w \<le> e" and M: "M = mag_units t w m e" and d: "d = bitlen M - (t + 1)" "d + 3 < 2 ^ w"
  obtains m' e' where "unpack_fp t w (sign_bit t w s + round_mag t w m e) = FFin s m' e'"
    "emin t w \<le> e'" "2 * \<bar>int (mag_units t w m' e') - int M\<bar> \<le> 2 ^ d"
proof (cases "m = 0")
  case True
  then have "unpack_fp t w (sign_bit t w s + round_mag t w m e) = FFin s 0 (emin t w)"
    using unpack_fields[of 0 t 0 w s] d(2) by (simp add: round_mag_def)
  then show ?thesis using True that[of 0 "emin t w"] by (simp add: mag_units_def M)
next
  case False
  define g where "g = nat (e - emin t w)"
  have M': "M = m * 2 ^ g" "0 < M" using False by (simp_all add: M mag_units_def g_def)
  have B: "bitlen M = bitlen m + g" using bitlen_mult_pow[of m g] False by (simp add: M')
  have q: "max (e + int (bitlen m) - int (t + 1)) (emin t w) = emin t w + int d"
    using B e by (auto simp: d g_def max_def)
  define r where "r = rne M (int d)"
  have "emin t w + int d - e = int d - int g" using e by (simp add: g_def)
  then have "rne m (emin t w + int d - e) = r" unfolding r_def M'(1) by (simp only: rne_shift)
  then have res: "round_mag t w m e = min (d * 2 ^ t + r) ((2 ^ w - 1) * 2 ^ t)"
    unfolding round_mag_def Let_def q using False by simp
  have r_le: "r \<le> 2 ^ (t + 1)"
  proof -
    have "M < 2 ^ (t + 1) * 2 ^ d"
    proof -
      have "M < 2 ^ bitlen M" by (rule less_bitlen)
      also have "(2 :: nat) ^ bitlen M \<le> 2 ^ (t + 1 + d)" by (rule power_increasing) (auto simp: d)
      finally show ?thesis by (simp add: power_add)
    qed
    then have "M div 2 ^ d < 2 ^ (t + 1)" by (simp add: less_mult_imp_div_less)
    then show ?thesis using rne_near[of M d] by (auto simp: r_def)
  qed
  have r_ge: "2 ^ t \<le> r" if "0 < d"
  proof -
    have "bitlen M - 1 = t + d" using that by (simp add: d)
    then have "2 ^ t * 2 ^ d \<le> M" using bitlen_le[OF M'(2)] by (simp add: power_add)
    then have "2 ^ t \<le> M div 2 ^ d" by (simp add: less_eq_div_iff_mult_less_eq)
    then show ?thesis using rne_near[of M d] by (auto simp: r_def)
  qed
  have "d * 2 ^ t + r \<le> (2 ^ w - 1) * 2 ^ t"
  proof -
    have "d * 2 ^ t + r \<le> (d + 2) * 2 ^ t" using r_le by (simp add: algebra_simps)
    also have "\<dots> \<le> (2 ^ w - 1) * 2 ^ t" by (rule mult_right_mono) (use d(2) in auto)
    finally show ?thesis .
  qed
  then have res: "round_mag t w m e = d * 2 ^ t + r" using res by simp
  have err: "2 * \<bar>int r * 2 ^ d - int M\<bar> \<le> 2 ^ d" unfolding r_def by (rule rne_error)
  consider "r < 2 ^ t" | "2 ^ t \<le> r" "r < 2 ^ (t + 1)" | "r = 2 ^ (t + 1)" using r_le by linarith
  then show ?thesis
  proof cases
    case 1
    then have "d = 0" using r_ge by fastforce
    then show ?thesis using unpack_fields[of r t 0 w s] 1 d(2) res err
      by (intro that[of r "emin t w"]) (simp_all add: mag_units_def)
  next
    case 2
    have "d * 2 ^ t + r = (d + 1) * 2 ^ t + (r - 2 ^ t)" using 2 by (simp add: algebra_simps)
    moreover have "r - 2 ^ t < 2 ^ t" using 2 by simp
    ultimately have "unpack_fp t w (sign_bit t w s + round_mag t w m e) = FFin s r (emin t w + int d)"
      using unpack_fields[of "r - 2 ^ t" t "d + 1" w s] d(2) res 2 by simp
    then show ?thesis using err by (intro that[of r "emin t w + int d"]) (simp_all add: mag_units_def)
  next
    case 3
    have "d * 2 ^ t + r = (d + 2) * 2 ^ t + 0" using 3 by (simp add: algebra_simps)
    then have "unpack_fp t w (sign_bit t w s + round_mag t w m e) = unpack_fp t w (sign_bit t w s + ((d + 2) * 2 ^ t + 0))"
      by (simp only: res)
    also have "\<dots> = FFin s (2 ^ t) (emin t w + int d + 1)"
      by (subst unpack_fields) (use d(2) in auto)
    finally have "unpack_fp t w (sign_bit t w s + round_mag t w m e) = FFin s (2 ^ t) (emin t w + int d + 1)" .
    moreover have "mag_units t w (2 ^ t) (emin t w + int d + 1) = r * 2 ^ d"
      by (simp add: mag_units_def 3 nat_add_distrib)
    ultimately show ?thesis using err by (intro that[of "2 ^ t" "emin t w + int d + 1"]) simp_all
  qed
qed

lemma units_round:
  assumes "units t w n v" "\<bar>n\<bar> < 2 ^ (t + 1 + d)" "d + 3 < 2 ^ w"
  obtains n' where "units t w n' (unpack_fp t w (pack_fp t w v))" "2 * \<bar>n' - n\<bar> \<le> 2 ^ d"
proof -
  obtain s m e where v: "v = FFin s m e" "emin t w \<le> e" "signed s m * 2 ^ nat (e - emin t w) = n"
    using assms(1) by (auto simp: units_def)
  define M where "M = mag_units t w m e"
  have M: "int M = \<bar>n\<bar>" using v(3) by (auto simp: M_def mag_units_def signed_def abs_mult)
  then have "int M < 2 ^ (t + 1 + d)" using assms(2) by simp
  then have "M < 2 ^ (t + 1 + d)" by (metis of_nat_less_iff of_nat_numeral of_nat_power)
  then have "bitlen M \<le> t + 1 + d" by (rule bitlen_leI)
  then have c: "bitlen M - (t + 1) \<le> d" by simp
  then have "bitlen M - (t + 1) + 3 < 2 ^ w" using assms(3) by simp
  from unpack_round_near[OF v(2) M_def refl this, of s] obtain m' e' where
    r: "unpack_fp t w (sign_bit t w s + round_mag t w m e) = FFin s m' e'" "emin t w \<le> e'"
      "2 * \<bar>int (mag_units t w m' e') - int M\<bar> \<le> 2 ^ (bitlen M - (t + 1))" by blast
  have "(2 :: int) ^ (bitlen M - (t + 1)) \<le> 2 ^ d" by (rule power_increasing) (use c in auto)
  then have err: "2 * \<bar>int (mag_units t w m' e') - int M\<bar> \<le> 2 ^ d" using r(3) by linarith
  define n' where "n' = signed s m' * 2 ^ nat (e' - emin t w)"
  have "\<bar>n' - n\<bar> = \<bar>int (mag_units t w m' e') - int M\<bar>"
    using v(3) by (auto simp: n'_def M_def mag_units_def signed_def)
  then have "2 * \<bar>n' - n\<bar> \<le> 2 ^ d" using err by simp
  moreover have "units t w n' (unpack_fp t w (pack_fp t w v))"
    using r by (auto simp: v(1) units_def n'_def)
  ultimately show ?thesis by (rule that[rotated])
qed

section \<open>float32\<close>

text \<open>\<open>fl n x\<close>: the float is the number \<open>n * 2 ^ -149\<close>.\<close>

definition fl :: "int \<Rightarrow> float32 \<Rightarrow> bool" where
  "fl n x \<longleftrightarrow> units 23 8 n (val32 x)"

lemma fl_round:
  assumes "units 23 8 n v" "\<bar>n\<bar> < 2 ^ 149"
  obtains n' where "fl n' (rnd32 v)" "\<bar>n' - n\<bar> \<le> 2 ^ 124"
proof -
  obtain n' where "units 23 8 n' (unpack_fp 23 8 (pack_fp 23 8 v))" "2 * \<bar>n' - n\<bar> \<le> 2 ^ 125"
    by (rule units_round[OF assms(1), of 125]) (use assms(2) in auto)
  then show ?thesis by (intro that[of n']) (simp_all add: fl_def val32_rnd32)
qed

lemma fl_add:
  assumes "fl a x" "fl b y" "\<bar>a + b\<bar> < 2 ^ 149"
  obtains c where "fl c (x + y)" "\<bar>c - (a + b)\<bar> \<le> 2 ^ 124"
  using assms by (auto simp: fl_def plus_float32_def intro: fl_round[OF units_add])

lemma fl_diff:
  assumes "fl a x" "fl b y" "\<bar>a - b\<bar> < 2 ^ 149"
  obtains c where "fl c (x - y)" "\<bar>c - (a - b)\<bar> \<le> 2 ^ 124"
  using assms units_add[OF _ units_neg, of 23 8 a "val32 x" b "val32 y"]
  by (auto simp: fl_def minus_float32_def elim!: fl_round[of "a - b"])

end
