(* ===== verification/Lsfgrid.thy ===== *)
theory Lsfgrid
  imports Lsf Rounding
begin

text \<open>
  The grid search of \<open>a2lsf\<close> ends.  Its loop has no bound of its own: it leaves when the
  polynomial changes sign or when the frequency \<open>omega\<close> has reached 1/2.  Here \<open>omega\<close> is
  followed in units of \<open>2 ^ -149\<close>: every step that does not leave moves it up by at least 13 of
  8192 parts of 1/2, whatever the rounding does, and a refinement moves it down by at most
  94 parts in all.  So 642 steps suffice for every filter, also for one that is not a number, and
  the fuel of 2000 is never used up.
\<close>

section \<open>The steps\<close>

definition grid :: int where "grid = 2 ^ 135"

lemma decode_step:
  "val32 (dec32 635 5) = FFin False 13636521 (- 31)"
  "val32 (dec32 3175 6) = FFin False 13636521 (- 32)"
  "val32 (dec32 15875 7) = FFin False 13636521 (- 33)"
  "val32 (dec32 79375 8) = FFin False 13636521 (- 34)"
  by (simp_all add: dec32_def fp_decimal_def val32_rnd32 bitlen_pos Let_def round_mag_def rne_def
      sign_bit_def unpack_fp_def emin32)

definition step_units :: "nat \<Rightarrow> int" where
  "step_units k = 13636521 * 2 ^ (118 - k)"

lemma four_cases: "k < 4 \<Longrightarrow> k = 0 \<or> k = 1 \<or> k = 2 \<or> k = (3 :: nat)"
  by linarith

lemma fl_step: "k < 4 \<Longrightarrow> fl (step_units k) (lsf_steps ! k)"
  using four_cases[of k]
  by (auto simp: lsf_steps_def step_units_def fl_def decode_step units_def emin32 signed_def ex_bool_eq)

text \<open>What the refinements from level \<open>k\<close> on may take back, in units of \<open>grid\<close>.\<close>

definition take_back :: "nat \<Rightarrow> int" where
  "take_back k = [94, 41, 14, 0] ! k"

lemma step_bounds:
  assumes "k < 4"
  shows "13 * grid + 2 ^ 124 \<le> step_units k" "step_units k + 2 ^ 124 \<le> 2 ^ 143"
    "0 < k \<Longrightarrow> step_units k + 2 ^ 124 \<le> (take_back (k - 1) - take_back k) * grid"
  using four_cases[OF assms] by (auto simp: step_units_def grid_def take_back_def)

section \<open>The end of the search range\<close>

lemma half_units: "units 52 11 (2 ^ 148 * 2 ^ 925) (val64 (dec64 5 1))"
  using qf64_half by (auto simp: qf64_def quarters_def units_def quarter_units_def emin64)

lemma fl_f64:
  assumes "fl n x"
  shows "units 52 11 (n * 2 ^ 925) (val64 (f64 x))"
proof -
  obtain s m e where v: "val32 x = FFin s m e" "- 149 \<le> e" "signed s m * 2 ^ nat (e + 149) = n"
    using assms by (auto simp: fl_def units_def emin32)
  have b: "m < 2 ^ 24" "e \<le> 104"
    using v(1) by (auto simp: val32_def unpack_fp_def Let_def emin32 split: if_splits)
  have "emin 52 11 \<le> e" "mag_units 52 11 m e = m * 2 ^ nat (e + 1074)" "m < 2 ^ (52 + 1)" "nat (e + 1074) + 3 \<le> 2 ^ 11"
    using v(2) b by (auto simp: emin64 mag_units_def)
  from unpack_round_mag[OF this, of s] obtain m' e' where
    r: "unpack_fp 52 11 (sign_bit 52 11 s + round_mag 52 11 m e) = FFin s m' e'" "emin 52 11 \<le> e'"
      "mag_units 52 11 m' e' = mag_units 52 11 m e" by metis
  define j :: nat where "j = 925"
  have e: "nat (e - emin 52 11) = nat (e + 149) + j" using v(2) by (simp add: j_def emin64)
  have "int (m' * 2 ^ nat (e' - emin 52 11)) = int (m * 2 ^ (nat (e + 149) + j))"
    using r(3) by (simp only: mag_units_def e)
  then have "int m' * 2 ^ nat (e' - emin 52 11) = int m * 2 ^ nat (e + 149) * 2 ^ j"
    by (simp add: power_add)
  then have "signed s m' * 2 ^ nat (e' - emin 52 11) = n * 2 ^ j"
    unfolding v(3)[symmetric] by (simp add: signed_def)
  then show ?thesis using r(1,2) unfolding j_def by (auto simp: f64_def val64_rnd64 v(1) units_def)
qed

lemma half_le: "fl n x \<Longrightarrow> dec64 5 1 \<le> f64 x \<longleftrightarrow> 2 ^ 148 \<le> n"
  unfolding less_eq_float64_def using units_compare(2)[OF half_units fl_f64] by simp

section \<open>One search\<close>

definition fuel_need :: "nat \<Rightarrow> int \<Rightarrow> nat" where
  "fuel_need k n = nat ((max 0 (2 ^ 148 + take_back k * grid - n) + 13 * grid - 1) div (13 * grid)) + (4 - k)"

definition omega_max :: int where "omega_max = 2 ^ 148 + 2 ^ 143"

lemma ceil_step: "0 < D \<Longrightarrow> 0 < X \<Longrightarrow> Y \<le> X - D \<Longrightarrow>
    nat ((max 0 Y + D - 1) div D) + 1 \<le> nat ((max 0 X + D - 1) div D)" for D X Y :: int
proof -
  assume a: "0 < D" "0 < X" "Y \<le> X - D"
  have p: "0 \<le> (X - 1) div D" using a by (simp add: pos_imp_zdiv_nonneg_iff)
  have "(max 0 Y + D - 1) div D \<le> (X - 1) div D"
  proof (cases "0 < Y")
    case True
    then show ?thesis by (intro zdiv_mono1) (use a in auto)
  next
    case False
    then show ?thesis using p a by simp
  qed
  moreover have "max 0 X + D - 1 = (X - 1) + D" using a by simp
  then have "(max 0 X + D - 1) div D = (X - 1) div D + 1" using a by (simp only: div_add_self2)
  moreover have "0 \<le> (max 0 Y + D - 1) div D" using a by (simp add: pos_imp_zdiv_nonneg_iff)
  ultimately show ?thesis using p by linarith
qed

lemma fuel_up:
  assumes "n < 2 ^ 148" "n + 13 * grid \<le> n'" "k < 4"
  shows "fuel_need k n' + 1 \<le> fuel_need k n"
proof -
  have t: "0 \<le> take_back k * grid" using four_cases[OF assms(3)] by (auto simp: take_back_def grid_def)
  have "0 < 13 * grid" by (simp add: grid_def)
  then show ?thesis
    unfolding fuel_need_def using ceil_step[of "13 * grid" "2 ^ 148 + take_back k * grid - n" "2 ^ 148 + take_back k * grid - n'"] assms t
    by linarith
qed

lemma fuel_refine:
  assumes "n - (take_back k - take_back (Suc k)) * grid \<le> n'" "k < 3"
  shows "fuel_need (Suc k) n' + 1 \<le> fuel_need k n"
proof -
  have "max 0 (2 ^ 148 + take_back (Suc k) * grid - n') + 13 * grid - 1 \<le> max 0 (2 ^ 148 + take_back k * grid - n) + 13 * grid - 1"
    using assms(1) by (simp add: algebra_simps)
  then have "(max 0 (2 ^ 148 + take_back (Suc k) * grid - n') + 13 * grid - 1) div (13 * grid) \<le>
      (max 0 (2 ^ 148 + take_back k * grid - n) + 13 * grid - 1) div (13 * grid)"
    by (rule zdiv_mono1) (simp add: grid_def)
  then show ?thesis unfolding fuel_need_def using assms(2) by linarith
qed

text \<open>Level by level: with enough fuel a search returns a frequency and a place to go on from.\<close>

lemma lsf_scan_returns:
  assumes "fuel_need k n \<le> fuel" "k < 4" "fl n omega" "- (94 - take_back k) * grid \<le> n" "n \<le> omega_max"
    and "0 < k \<Longrightarrow> fl n0 oldOmega \<and> 0 \<le> n0 \<and> n0 \<le> omega_max" "k = 0 \<Longrightarrow> 0 \<le> n"
  shows "\<exists>f om old'. lsf_scan P pq fuel k omega oldOmega old = Ok (f, om, om, old') \<and>
    (\<exists>a. fl a om \<and> 0 \<le> a \<and> a \<le> omega_max)"
  using assms
proof (induction fuel arbitrary: k n omega n0 oldOmega old)
  case 0
  then show ?case by (simp add: fuel_need_def)
next
  case (Suc fuel)
  define stop where "stop \<longleftrightarrow> f64 (lsf_poly P pq omega * old) \<le> 0 \<or> dec64 5 1 \<le> f64 omega"
  have g: "0 < grid" "94 * grid < 2 ^ 142" by (simp_all add: grid_def)
  have tb: "0 \<le> take_back k" "take_back k \<le> 94" using four_cases[OF Suc.prems(2)] by (auto simp: take_back_def)
  have lo: "- (94 * grid) \<le> n"
  proof -
    have "0 \<le> take_back k * grid" using tb g by simp
    then show ?thesis using Suc.prems(4) by (simp add: left_diff_distrib)
  qed
  show ?case
  proof (cases stop)
    case False
    then have n: "n < 2 ^ 148" using half_le[OF Suc.prems(3)] by (simp add: stop_def)
    note b = step_bounds(1,2)[OF Suc.prems(2)]
    have "\<bar>n + step_units k\<bar> < 2 ^ 149" using n lo b g by (simp add: abs_less_iff)
    then obtain c where c: "fl c (omega + lsf_steps ! k)" "\<bar>c - (n + step_units k)\<bar> \<le> 2 ^ 124"
      using fl_add[OF Suc.prems(3) fl_step[OF Suc.prems(2)]] by blast
    have c2: "n + 13 * grid \<le> c" "c \<le> omega_max" using c(2) b n by (auto simp: omega_max_def abs_le_iff)
    have f: "fuel_need k c \<le> fuel" using fuel_up[OF n c2(1) Suc.prems(2)] Suc.prems(1) by simp
    have "lsf_scan P pq (Suc fuel) k omega oldOmega old =
        lsf_scan P pq fuel k (omega + lsf_steps ! k) oldOmega (lsf_poly P pq omega)"
      using False by (simp add: stop_def Let_def)
    moreover have "- (94 - take_back k) * grid \<le> c" using Suc.prems(4) c2(1) g by simp
    moreover have "0 \<le> c" if "k = 0" using Suc.prems(7)[OF that] c2(1) g by simp
    ultimately show ?thesis
      using Suc.IH[OF f Suc.prems(2) c(1) _ c2(2) Suc.prems(6), of "lsf_poly P pq omega"] by simp
  next
    case True
    show ?thesis
    proof (cases "k = 3")
      case True
      then show ?thesis using \<open>stop\<close> Suc.prems(6) by (auto simp: stop_def Let_def)
    next
      case False
      then have k: "Suc k < 4" "k < 3" using Suc.prems(2) by simp_all
      note b = step_bounds(1,2)[OF k(1)] step_bounds(3)[OF k(1), simplified]
      have "\<bar>n - step_units (Suc k)\<bar> < 2 ^ 149" using Suc.prems(5) lo b(1,2) g by (simp add: abs_less_iff omega_max_def)
      then obtain c where c: "fl c (omega - lsf_steps ! Suc k)" "\<bar>c - (n - step_units (Suc k))\<bar> \<le> 2 ^ 124"
        using fl_diff[OF Suc.prems(3) fl_step[OF k(1)]] by blast
      have c2: "n - (take_back k - take_back (Suc k)) * grid \<le> c" "c \<le> omega_max"
        using c(2) b g Suc.prems(5) by (auto simp: abs_le_iff)
      have f: "fuel_need (Suc k) c \<le> fuel" using fuel_refine[OF c2(1) k(2)] Suc.prems(1) by simp
      have lo': "- (94 - take_back (Suc k)) * grid \<le> c" using c2(1) Suc.prems(4) by (simp add: left_diff_distrib)
      define om where "om = (if k = 0 then omega else oldOmega)"
      have om: "\<exists>n1. fl n1 om \<and> 0 \<le> n1 \<and> n1 \<le> omega_max" using Suc.prems by (auto simp: om_def)
      then obtain n1 where n1: "fl n1 om \<and> 0 \<le> n1 \<and> n1 \<le> omega_max" by blast
      have "lsf_scan P pq (Suc fuel) k omega oldOmega old =
          lsf_scan P pq fuel (Suc k) (omega - lsf_steps ! Suc k) om old"
        using \<open>stop\<close> False by (simp add: stop_def Let_def om_def)
      then show ?thesis
        using Suc.IH[OF f k(1) c(1) lo' c2(2), of n1 om] n1 by simp
    qed
  qed
qed

text \<open>The fuel that \<open>a2lsf\<close> gives to each of its searches is enough.\<close>

lemma fuel_need_0: "0 \<le> n \<Longrightarrow> fuel_need 0 n \<le> 642"
proof -
  assume n: "0 \<le> n"
  have "(max 0 (2 ^ 148 + take_back 0 * grid - n) + 13 * grid - 1) div (13 * grid) \<le>
      (2 ^ 148 + take_back 0 * grid + 13 * grid - 1) div (13 * grid)"
    by (rule zdiv_mono1) (use n in \<open>auto simp: grid_def take_back_def\<close>)
  also have "\<dots> = 638" by (simp add: grid_def take_back_def)
  finally show ?thesis by (simp add: fuel_need_def)
qed

lemma fuel_enough: "0 \<le> n \<Longrightarrow> fuel_need 0 n \<le> a2lsf_fuel"
  using fuel_need_0[of n] by (simp add: a2lsf_fuel_def)

text \<open>A place to start a search from: a float between 0 and a little above 1/2.\<close>

definition grid_start :: "float32 \<Rightarrow> bool" where
  "grid_start x \<longleftrightarrow> (\<exists>n. fl n x \<and> 0 \<le> n \<and> n \<le> omega_max)"

lemma grid_start_0: "grid_start 0"
proof -
  have "fl 0 0" by (auto simp: fl_def units_def zero_float32_def val32_def unpack_fp_def emin32 signed_def)
  then show ?thesis by (auto simp: grid_start_def omega_max_def)
qed

lemma lsf_search:
  assumes "grid_start omega"
  shows "\<exists>f om old'. lsf_scan P pq a2lsf_fuel 0 omega oldOmega old = Ok (f, om, om, old') \<and> grid_start om"
proof -
  obtain n where n: "fl n omega" "0 \<le> n" "n \<le> omega_max" using assms by (auto simp: grid_start_def)
  have "- (94 - take_back 0) * grid \<le> n" using n(2) by (simp add: take_back_def)
  then show ?thesis
    using lsf_scan_returns[OF fuel_enough[OF n(2)] _ n(1) _ n(3), of 0 oldOmega P pq old] n(2)
    by (auto simp: grid_start_def)
qed

lemma a2lsf_index_wp:
  assumes "grid_start om" "0 \<le> i" "i < 10" "similar fr freq" "0 \<le> soff fr" "soff fr + 10 \<le> int (length (sdata fr))"
  shows "spec E (\<lambda>(freq, om, _). similar fr freq \<and> grid_start om) (a2lsf_index P p q i (freq, om, oldOm, oP, oQ))"
proof -
  have s: "soff freq = soff fr" "length (sdata freq) = length (sdata fr)" using assms(4) by (simp_all add: similar_def)
  obtain f om' old' where 1: "lsf_scan P p a2lsf_fuel 0 om oldOm oP = Ok (f, om', om', old')" "grid_start om'"
    using lsf_search[OF assms(1)] by metis
  obtain f2 om2 old2 where 2: "lsf_scan P q a2lsf_fuel 0 om oldOm oQ = Ok (f2, om2, om2, old2)" "grid_start om2"
    using lsf_search[OF assms(1)] by metis
  show ?thesis
    using 1 2 assms s by (simp add: a2lsf_index_def similar_def)
qed

lemma a2lsf_wp [wp]:
  assumes "0 \<le> soff fr" "soff fr + 10 \<le> int (length (sdata fr))"
    and "0 \<le> soff a" "soff a + 11 \<le> int (length (sdata a))"
    and "\<And>d. length d = length (sdata fr) \<Longrightarrow> Q d"
  shows "spec E Q (a2lsf P fr a)"
proof -
  have step: "spec E (\<lambda>(freq, om, _). similar fr freq \<and> grid_start om) (a2lsf_index P p q i s)"
    if "0 \<le> i" "i < 10" "case s of (freq, om, _) \<Rightarrow> similar fr freq \<and> grid_start om" for p q i s
  proof -
    obtain f om oo oP oQ where s: "s = (f, om, oo, oP, oQ)" by (cases s)
    show ?thesis unfolding s by (rule a2lsf_index_wp) (use that s assms in auto)
  qed
  show ?thesis
    unfolding a2lsf_def
    by (intro wp for_up_inv[where I = "\<lambda>(p :: float32 list, q :: float32 list). length p = 5 \<and> length q = 5"]
        for_up_inv[where I = "\<lambda>(freq, om, _). similar fr freq \<and> grid_start om"] for_up_inv[where I = "similar fr"] step)
      (use assms grid_start_0 in \<open>auto simp: similar_def\<close>)
qed

text \<open>C23: the conversion to line spectral frequencies terminates: for every filter, even one whose
  coefficients are infinite or not numbers, and whatever values the platform's cosine
  returns, \<open>a2lsf\<close> returns, and no search needs more than 642 steps of its loop.\<close>

theorem a2lsf_terminates:
  assumes "length freq = 10" "length a = 11"
  shows "(\<exists>d. a2lsf P (mk freq 0) (mk a 0) = Ok d \<and> length d = 10) \<and>
    (\<forall>pq omega oldOmega old. grid_start omega \<longrightarrow> lsf_scan P pq 642 0 omega oldOmega old \<noteq> Panic Diverges)"
proof
  have "safe (\<lambda>d. length d = 10) (a2lsf P (mk freq 0) (mk a 0))"
    by (rule a2lsf_wp) (use assms in simp_all)
  then show "\<exists>d. a2lsf P (mk freq 0) (mk a 0) = Ok d \<and> length d = 10"
    unfolding safe_iff .
  show "\<forall>pq omega oldOmega old. grid_start omega \<longrightarrow> lsf_scan P pq 642 0 omega oldOmega old \<noteq> Panic Diverges"
  proof (intro allI impI)
    fix pq omega oldOmega old assume "grid_start omega"
    then obtain n where n: "fl n omega" "0 \<le> n" "n \<le> omega_max" by (auto simp: grid_start_def)
    have need: "fuel_need 0 n \<le> 642" using n(2) by (rule fuel_need_0)
    have low: "- (94 - take_back 0) * grid \<le> n" using n(2) by (simp add: take_back_def)
    have "\<exists>f om old'. lsf_scan P pq 642 0 omega oldOmega old = Ok (f, om, om, old') \<and>
        (\<exists>a. fl a om \<and> 0 \<le> a \<and> a \<le> omega_max)"
      by (rule lsf_scan_returns[OF need _ n(1) low n(3)]) (use n(2) in simp_all)
    then obtain r where "lsf_scan P pq 642 0 omega oldOmega old = Ok r" by blast
    then show "lsf_scan P pq 642 0 omega oldOmega old \<noteq> Panic Diverges" by (simp only: sum.distinct not_False_eq_True)
  qed
qed

theorem a2lsf_terminates_witness:
  "\<forall>P. \<exists>d. a2lsf P (mk (replicate 10 0) 0) (mk (replicate 11 (0 / 0)) 0) = Ok d \<and> length d = 10"
  using a2lsf_terminates[of "replicate 10 0" "replicate 11 (0 / 0)"] by (simp only: length_replicate) blast

end
