(* ===== verification/FloatOrder.thy ===== *)
theory FloatOrder
  imports Rounding Constants
begin

text \<open>
  The order of \<open>float32\<close>: transitive, irreflexive, and total on the values that are numbers; and the
  roundings that never give a NaN.
\<close>

section \<open>The order of floats\<close>

lemma fp_compare_scaled:
  assumes "q \<le> e" "q \<le> e'"
  shows "fp_less (FFin s m e) (FFin s' m' e') \<longleftrightarrow> signed s m * 2 ^ nat (e - q) < signed s' m' * 2 ^ nat (e' - q)"
    "fp_le (FFin s m e) (FFin s' m' e') \<longleftrightarrow> signed s m * 2 ^ nat (e - q) \<le> signed s' m' * 2 ^ nat (e' - q)"
proof -
  define r where "r = min e e'"
  have r: "r \<le> e" "r \<le> e'" "q \<le> r" using assms by (auto simp: r_def)
  have "0 < (2 :: int) ^ nat (r - q)" by simp
  then show "fp_less (FFin s m e) (FFin s' m' e') \<longleftrightarrow> signed s m * 2 ^ nat (e - q) < signed s' m' * 2 ^ nat (e' - q)"
    "fp_le (FFin s m e) (FFin s' m' e') \<longleftrightarrow> signed s m * 2 ^ nat (e - q) \<le> signed s' m' * 2 ^ nat (e' - q)"
    unfolding scale_signed[OF r(1,3), symmetric] scale_signed[OF r(2,3), symmetric] fp_less.simps fp_le.simps r_def[symmetric]
    by (simp_all only: mult_less_cancel_right_pos mult_le_cancel_right_pos)
qed

lemma fp_less_trans: "fp_less a b \<or> fp_le a b \<Longrightarrow> fp_less b c \<Longrightarrow> fp_less a c"
proof (cases "\<exists>s m e s' m' e' s'' m'' e''. a = FFin s m e \<and> b = FFin s' m' e' \<and> c = FFin s'' m'' e''")
  case True
  then obtain s m e s' m' e' s'' m'' e'' where f: "a = FFin s m e" "b = FFin s' m' e'" "c = FFin s'' m'' e''" by blast
  define q where "q = min e (min e' e'')"
  have q: "q \<le> e" "q \<le> e'" "q \<le> e''" by (auto simp: q_def)
  show "fp_less a b \<or> fp_le a b \<Longrightarrow> fp_less b c \<Longrightarrow> fp_less a c"
    unfolding f fp_compare_scaled[OF q(1,2)] fp_compare_scaled[OF q(2,3)] fp_compare_scaled[OF q(1,3)] by linarith
next
  case False
  then show "fp_less a b \<or> fp_le a b \<Longrightarrow> fp_less b c \<Longrightarrow> fp_less a c"
    by (cases a; cases b; cases c; simp; blast?)
qed

lemma float32_less_trans: "(x :: float32) < y \<or> x \<le> y \<Longrightarrow> y < z \<Longrightarrow> x < z"
  unfolding less_float32_def less_eq_float32_def by (rule fp_less_trans)

lemma float32_less_irrefl: "\<not> (x :: float32) < x"
  unfolding less_float32_def by (cases "val32 x") auto

text \<open>Of two numbers one is below the other or not above it.\<close>

lemma fp_linear: "a \<noteq> FNaN \<Longrightarrow> b \<noteq> FNaN \<Longrightarrow> fp_less a b \<longleftrightarrow> \<not> fp_le b a"
  by (cases a; cases b) (auto simp: min.commute)

lemma float32_not_le: "\<not> is_nan32 x \<Longrightarrow> \<not> is_nan32 y \<Longrightarrow> \<not> x \<le> y \<longleftrightarrow> y < (x :: float32)"
  using fp_linear[of "val32 y" "val32 x"] by (simp add: is_nan32_def less_float32_def less_eq_float32_def)

lemma float32_le_refl: "\<not> is_nan32 x \<Longrightarrow> x \<le> (x :: float32)"
  unfolding is_nan32_def less_eq_float32_def by (cases "val32 x") auto

section \<open>Results that are numbers\<close>

lemma unpack_pack_FFin: "unpack_fp 23 8 (pack_fp 23 8 (FFin s m e)) \<noteq> FNaN"
proof -
  let ?r = "round_mag 23 8 m e"
  have r: "?r \<le> 255 * 2 ^ 23" using round_mag_le[of 23 8 m e] by simp
  show ?thesis
  proof (cases "?r = 255 * 2 ^ 23")
    case True
    then show ?thesis by (simp add: unpack_fp_def sign_bit_def Let_def)
  next
    case False
    have "?r div 2 ^ 23 < 2 ^ 8 - 1" "?r mod 2 ^ 23 < 2 ^ 23" "?r = ?r div 2 ^ 23 * 2 ^ 23 + ?r mod 2 ^ 23"
      using r False by (simp_all add: less_mult_imp_div_less)
    then show ?thesis using unpack_fields[of "?r mod 2 ^ 23" 23 "?r div 2 ^ 23" 8 s] by simp
  qed
qed

lemma dec32_is_number: "\<not> is_nan32 (dec32 m k)"
  using unpack_pack_FFin by (simp add: is_nan32_def dec32_def val32_rnd32 fp_decimal_def Let_def)

lemma micro_is_number: "x \<in> set (micro ms) \<Longrightarrow> \<not> is_nan32 x"
  by (auto simp: micro_def dec32_is_number)

end
