(* ===== verification/AnalysisSafe.thy ===== *)
theory AnalysisSafe
  imports Lpc Classify StateCoding Codebook Lsfgrid FloatOrder
begin

text \<open>
  The first half of the encoder stays in bounds: LPC analysis and quantisation, the choice of
  the start state and its quantisation.  The indices it produces are in the ranges of their
  fields.  The only possible panic is that of \<open>sortSq\<close> on an input that is not a number.
\<close>

section \<open>Split vector quantisation of the LSFs\<close>

lemma three_up: "for_up 0 3 f s = bnd (f 0 s) (\<lambda>s. bnd (f 1 s) (f (2 :: int)))"
  by (simp add: for_up_step[of 0] two_up) (rule bnd_cong, simp_all add: two_up)

lemma splitVQ_lsf:
  assumes "0 \<le> soff q" "soff q + 10 \<le> int (length (sdata q))"
    and "0 \<le> soff ix" "soff ix + 3 \<le> int (length (sdata ix))"
    and "0 \<le> soff x" "soff x + 10 \<le> int (length (sdata x))"
    and Q: "\<And>d a b c. length d = length (sdata q) \<Longrightarrow> 0 \<le> a \<Longrightarrow> a < 64 \<Longrightarrow> 0 \<le> b \<Longrightarrow> b < 128 \<Longrightarrow> 0 \<le> c \<Longrightarrow> c < 128 \<Longrightarrow>
      Q (d, (sdata ix)[nat (soff ix) := a, nat (soff ix) + 1 := b, nat (soff ix) + 2 := c])"
  shows "spec E Q (splitVQ q ix x (mk lsfCbTbl 0) 3 (mk dimLsfCbTbl 0) (mk sizeLsfCbTbl 0))"
  unfolding splitVQ_def three_up
  by (intro wp) (use assms in \<open>auto simp: dimLsfCbTbl_def sizeLsfCbTbl_def nat_add_distrib intro!: Q\<close>)

lemma quantizeLSF_wp:
  assumes "soff q = 0" "length (sdata q) = 20" "soff ix = 0" "length (sdata ix) = 6" "soff x = 0" "length (sdata x) = 20"
    and n: "n = 1 \<or> n = 2"
    and Q: "\<And>d ys. length d = 20 \<Longrightarrow> length ys = 6 \<Longrightarrow> lsf_indices_ok (3 * n) ys \<Longrightarrow>
      drop (nat (3 * n)) ys = drop (nat (3 * n)) (sdata ix) \<Longrightarrow> Q (d, ys)"
  shows "spec E Q (quantizeLSF q ix x n)"
proof -
  have int3: "(\<forall>i. 0 \<le> i \<and> i < 3 \<longrightarrow> R i) \<longleftrightarrow> R 0 \<and> R 1 \<and> R (2 :: int)" for R
    by (auto, smt (verit) )
  have int6: "(\<forall>i. 0 \<le> i \<and> i < 6 \<longrightarrow> R i) \<longleftrightarrow> R 0 \<and> R 1 \<and> R 2 \<and> R 3 \<and> R 4 \<and> R (5 :: int)" for R
    by (auto, smt (verit) )
  obtain i0 i1 i2 i3 i4 i5 where ix: "sdata ix = [i0, i1, i2, i3, i4, i5]"
    using assms(4) by (auto simp: length_Suc_conv numeral_eq_Suc)
  show ?thesis
    unfolding quantizeLSF_def
    by (intro wp splitVQ_lsf) (use assms in \<open>auto simp: ix lsf_indices_ok_def lsf_ranges_def int3 int6 intro!: Q\<close>)
qed

section \<open>LPC analysis and interpolation\<close>

lemma simpleAnalysis_pass_wp:
  assumes "length (lpcBuffer e) = 300" "soff l = 0" "length (sdata l) = 20" "0 \<le> k" "k < 2"
    and "length temp = 240" "length lp = 11" "length lp2 = 11" "length r = 11"
    and Q: "\<And>l' t a b c. similar l l' \<Longrightarrow> length t = 240 \<Longrightarrow> length a = 11 \<Longrightarrow> length b = 11 \<Longrightarrow> length c = 11 \<Longrightarrow>
      Q (l', t, a, b, c)"
  shows "spec E Q (simpleAnalysis_pass P e k (l, temp, lp, lp2, r))"
  unfolding simpleAnalysis_pass_def Let_def prod.case
  by (intro wp) (use assms in \<open>auto simp: similar_def\<close>)

lemma simpleAnalysis_wp:
  assumes "length (lpcBuffer e) = 300" "soff l = 0" "length (sdata l) = 20" "0 \<le> e_lpcAnalyses e" "e_lpcAnalyses e \<le> 2"
    and "0 \<le> e_frameSamples e" "e_frameSamples e \<le> 240" "0 \<le> soff x" "soff x + e_frameSamples e \<le> int (length (sdata x))"
    and Q: "\<And>d b. length d = 20 \<Longrightarrow> length b = 300 \<Longrightarrow> Q (d, e\<lparr>lpcBuffer := b\<rparr>)"
  shows "spec E Q (simpleAnalysis P l x e)"
proof -
  have step: "spec E (\<lambda>(l', t, a, b, c). similar l l' \<and> length t = 240 \<and> length a = 11 \<and> length b = 11 \<and> length c = 11)
      (simpleAnalysis_pass P (e\<lparr>lpcBuffer := buf\<rparr>) k s)"
    if k: "0 \<le> k" "k < e_lpcAnalyses e" and b: "length buf = 300"
      and s: "case s of (l', t, a, b, c) \<Rightarrow> similar l l' \<and> length t = 240 \<and> length a = 11 \<and> length b = 11 \<and> length c = 11" for k s buf
  proof -
    obtain l' t a b c where s': "s = (l', t, a, b, c)" by (cases s)
    show ?thesis unfolding s'
      by (rule simpleAnalysis_pass_wp) (use s s' k b assms in \<open>auto simp: similar_def\<close>)
  qed
  show ?thesis
    unfolding simpleAnalysis_def Let_def
    by (intro wp for_up_inv[where I = "\<lambda>(l', t, a, b, c). similar l l' \<and> length t = 240 \<and> length a = 11 \<and> length b = 11 \<and> length c = 11"] step)
      (use assms in \<open>auto simp: similar_def\<close>)
qed

lemma interpolateEncoderLSF_wp [wp]:
  assumes "0 \<le> soff z" "soff z + 11 \<le> int (length (sdata z))"
    and "0 \<le> soff x" "soff x + 10 \<le> int (length (sdata x))"
    and "0 \<le> soff y" "soff y + 10 \<le> int (length (sdata y))"
    and "\<And>d. length d = length (sdata z) \<Longrightarrow> Q d"
  shows "spec E Q (interpolateEncoderLSF P z x y c 10)"
  unfolding interpolateEncoderLSF_def by (intro wp) (use assms in auto)

lemma encoder_subframe_lpc_wp:
  assumes "soff x = 0" "10 \<le> length (sdata x)" "0 \<le> soff y" "soff y + 10 \<le> int (length (sdata y))"
    and "soff x' = 0" "10 \<le> length (sdata x')" "0 \<le> soff y'" "soff y' + 10 \<le> int (length (sdata y'))"
    and "soff s = 0" "length (sdata s) = 66" "soff w = 0" "length (sdata w) = 66" "length lp = 11"
    and "0 \<le> pos" "pos \<le> 55"
    and "\<And>s' w' lp. similar s s' \<Longrightarrow> similar w w' \<Longrightarrow> length lp = 11 \<Longrightarrow> Q (s', w', lp)"
  shows "spec E Q (encoder_subframe_lpc P x y x' y' c 10 pos (s, w, lp))"
  unfolding encoder_subframe_lpc_def Let_def prod.case
  by (intro wp) (use assms in \<open>auto simp: similar_def\<close>)

lemma simpleInterpolateLSF_wp:
  assumes m: "e_mode d = 20 \<and> e_subframes d = 4 \<or> e_mode d = 30 \<and> e_subframes d = 6"
    and l: "soff lsf = 0" "length (sdata lsf) = 20" "soff deq = 0" "length (sdata deq) = 20"
      "length (lsfold d) = 10" "length (e_lsfdeqold d) = 10"
    and s: "soff s = 0" "length (sdata s) = 66" "soff w = 0" "length (sdata w) = 66"
    and Q: "\<And>xs ys o1 o2. length xs = 66 \<Longrightarrow> length ys = 66 \<Longrightarrow> length o1 = 10 \<Longrightarrow> length o2 = 10 \<Longrightarrow>
      Q (xs, ys, d\<lparr>lsfold := o1, e_lsfdeqold := o2\<rparr>)"
  shows "spec E Q (simpleInterpolateLSF P s w lsf deq 10 d)"
proof -
  define J where "J = (\<lambda>(s', w', lp :: float32 list). similar s s' \<and> similar w w' \<and> length lp = 11)"
  have sub: "spec E J (encoder_subframe_lpc P x y x' y' c 10 pos t)"
    if "soff x = 0" "10 \<le> length (sdata x)" "0 \<le> soff y" "soff y + 10 \<le> int (length (sdata y))"
      "soff x' = 0" "10 \<le> length (sdata x')" "0 \<le> soff y'" "soff y' + 10 \<le> int (length (sdata y'))"
      "0 \<le> pos" "pos \<le> 55" "J t" for x y x' y' c pos t
    using that s by (cases t) (auto simp: J_def similar_def intro!: encoder_subframe_lpc_wp)
  show ?thesis
    unfolding simpleInterpolateLSF_def Let_def
    by (intro wp sub[THEN spec_mono] for_up_idx[where I = "\<lambda>i (t, pos). J t \<and> pos = 11 * i"])
      (use m l s Q in \<open>auto simp: J_def similar_def\<close>)
qed

section \<open>The invariant of the encoder\<close>

text \<open>The constants of the mode and the sizes of the arrays.\<close>

definition enc_consts :: "int \<Rightarrow> encoderState \<Rightarrow> bool" where
  "enc_consts m e \<longleftrightarrow> e_mode e = m \<and>
     (m = 20 \<and> e_frameSamples e = 160 \<and> e_subframes e = 4 \<and> e_adaptiveSubframes e = 2 \<and>
        e_frameBytes e = 38 \<and> e_lpcAnalyses e = 1 \<and> e_shortStateSamples e = 57 \<and> e_ulp e = ulp20Table \<or>
      m = 30 \<and> e_frameSamples e = 240 \<and> e_subframes e = 6 \<and> e_adaptiveSubframes e = 4 \<and>
        e_frameBytes e = 50 \<and> e_lpcAnalyses e = 2 \<and> e_shortStateSamples e = 58 \<and> e_ulp e = ulp30Table)"

definition enc_ok :: "int \<Rightarrow> encoderState \<Rightarrow> bool" where
  "enc_ok m e \<longleftrightarrow> enc_consts m e \<and> length (anaMem e) = 10 \<and> length (lsfold e) = 10 \<and>
     length (e_lsfdeqold e) = 10 \<and> length (lpcBuffer e) = 300 \<and> length (hpimem e) = 4"

lemma enc_ok_cases:
  assumes "enc_ok m e"
  shows "e_mode e = 20 \<and> e_subframes e = 4 \<or> e_mode e = 30 \<and> e_subframes e = 6"
    "e_lpcAnalyses e = 1 \<or> e_lpcAnalyses e = 2" "0 \<le> e_frameSamples e" "e_frameSamples e \<le> 240"
    "e_frameSamples e = 40 * e_subframes e" "4 \<le> e_subframes e" "e_subframes e \<le> 6"
    "e_shortStateSamples e = 57 \<or> e_shortStateSamples e = 58"
  using assms by (auto simp: enc_ok_def enc_consts_def)

lemma encodeLPC_wp:
  assumes e: "enc_ok m e" and s: "soff s = 0" "length (sdata s) = 66" "soff w = 0" "length (sdata w) = 66"
    and x: "0 \<le> soff x" "soff x + e_frameSamples e \<le> int (length (sdata x))"
    and Q: "\<And>xs ys ix e'. length xs = 66 \<Longrightarrow> length ys = 66 \<Longrightarrow> length ix = 6 \<Longrightarrow>
      lsf_indices_ok (3 * e_lpcAnalyses e) ix \<Longrightarrow> (\<forall>k < 6. 3 * e_lpcAnalyses e \<le> int k \<longrightarrow> ix ! k = 0) \<Longrightarrow>
      enc_ok m e' \<Longrightarrow> hpimem e' = hpimem e \<Longrightarrow> anaMem e' = anaMem e \<Longrightarrow> Q (xs, ys, ix, e')"
  shows "spec E Q (encodeLPC P s w (mk (replicate 6 0) 0) x e)"
proof -
  note c = enc_ok_cases[OF e]
  have z: "ys ! k = 0" if "length ys = 6" "drop 3 ys = replicate 3 0" "k < 6" "3 \<le> k" for ys :: "int list" and k
  proof -
    have "ys ! k = drop 3 ys ! (k - 3)" using that(1,4) by simp
    also have "\<dots> = 0" unfolding that(2) using that(3,4) by simp
    finally show ?thesis .
  qed
  have fin: "enc_ok m (e\<lparr>lpcBuffer := b, lsfold := o1, e_lsfdeqold := o2\<rparr>)"
    if "length b = 300" "length o1 = 10" "length o2 = 10" for b o1 o2
    using e that by (simp add: enc_ok_def enc_consts_def)
  show ?thesis
    unfolding encodeLPC_def
    by (intro wp simpleAnalysis_wp quantizeLSF_wp simpleInterpolateLSF_wp)
      (use e c s x fin in \<open>auto simp: enc_ok_def intro!: Q fin z\<close>)
qed

section \<open>Classification\<close>

lemma accumulate_wp [wp]:
  "0 \<le> n \<Longrightarrow> n < int (length xs) \<Longrightarrow> (\<And>ys. length ys = length xs \<Longrightarrow> Q ys) \<Longrightarrow> spec E Q (accumulate xs n v)"
  by (simp add: accumulate_def)

lemma add_energy_wp [wp]:
  assumes "0 \<le> soff p + lo" "soff p + hi \<le> int (length (sdata p))" "0 \<le> n" "n < int (length acc)"
    and "\<And>ys. length ys = length acc \<Longrightarrow> Q ys"
  shows "spec E Q (add_energy p n lo hi acc)"
  unfolding add_energy_def
  by (intro for_up_inv[where I = "\<lambda>ys. length ys = length acc"] wp) (use assms in auto)

lemma add_weighted_wp [wp]:
  assumes "0 \<le> soff p + lo" "soff p + hi \<le> int (length (sdata p))" "0 \<le> n" "n < int (length acc)"
    and "\<And>l. lo \<le> l \<Longrightarrow> l < hi \<Longrightarrow> 0 \<le> w l \<and> w l < 5"
    and "\<And>ys. length ys = length acc \<Longrightarrow> Q ys"
  shows "spec E Q (add_weighted p n lo hi w acc)"
proof -
  have "length sampEnWin = 5" by (simp add: sampEnWin_def)
  then show ?thesis
    unfolding add_weighted_def
    by (intro for_up_inv[where I = "\<lambda>ys. length ys = length acc"] wp) (use assms in auto)
qed

lemma ssq_candidate_wp [wp]:
  assumes "1 \<le> n" "n < 6" "length f = 6" "length b = 6" "0 \<le> l" "l < 5" "\<And>x. Q x"
  shows "spec E Q (ssq_candidate f b n l)"
proof -
  have "length ssqEnWin = 5" by (simp add: ssqEnWin_def)
  then show ?thesis unfolding ssq_candidate_def by (intro wp) (use assms in auto)
qed

text \<open>The start state is never in the first subframe alone and never past the last two.\<close>

lemma frameClassify_wp:
  assumes e: "enc_ok m e" and r: "length res = 240"
    and Q: "\<And>n. 1 \<le> n \<Longrightarrow> n < e_subframes e \<Longrightarrow> Q n"
  shows "spec E Q (frameClassify e (mk res 0))"
proof -
  have c: "e_mode e = 20 \<and> e_subframes e = 4 \<or> e_mode e = 30 \<and> e_subframes e = 6"
    using enc_ok_cases(1)[OF e] .
  show ?thesis
    unfolding frameClassify_def Let_def
    by (intro wp for_up_inv[where I = "\<lambda>(f :: float32 list, b :: float32 list). length f = 6 \<and> length b = 6"]
        for_up_idx[where I = "\<lambda>i (l, c :: float32, n). 1 \<le> n \<and> n < e_subframes e \<and>
          l = i - 2 + (if e_mode e = 20 then 1 else 0)"])
      (use c r Q in \<open>auto split: if_splits\<close>)
qed

section \<open>The start state\<close>

text \<open>The panic of \<open>sortSq\<close> when its input is not a number: the index before its table.  The traceback
  shows the call and its input.\<close>

definition nan_panic :: "panic \<Rightarrow> bool" where
  "nan_panic p \<longleftrightarrow> (\<exists>x n. p = InCall ''sortSq'' (float32bits x) (IndexPanic (- 1) n) \<and> is_nan32 x)"

lemma nan_panicI:
  assumes "\<not> x \<le> c" "\<not> c < x" "\<not> is_nan32 c"
  shows "nan_panic (InCall ''sortSq'' (float32bits x) (IndexPanic (- 1) n))"
  using float32_not_le[of x c] assms by (auto simp: nan_panic_def)

lemma tables_start_with_numbers: "\<not> is_nan32 (stateSq3Tbl ! 0)" "\<not> is_nan32 (stateFrgqTbl ! 0)"
  by (simp_all add: stateSq3Tbl_def stateFrgqTbl_def micro_def dec32_is_number)

text \<open>Where the weighting filter moves to the next subframe.\<close>

definition crossing :: "int \<Rightarrow> int \<Rightarrow> int" where
  "crossing f n = (if f \<noteq> 0 then 40 else n - 40)"

lemma crossing_cond: "(f \<noteq> 0 \<and> k = 40 \<or> f = 0 \<and> k = n - 40) \<longleftrightarrow> k = crossing f n"
  by (auto simp: crossing_def)

lemma quantised_sample_wp:
  assumes c: "0 \<le> c" "c < 8" and k: "0 \<le> k" "k < 58"
    and s: "soff s = 10" "length (sdata s) = 68" and v: "soff v = 0" "length (sdata v) = 80"
    and w: "0 \<le> soff w" "soff w + 11 \<le> int (length (sdata w))"
    and Q: "\<And>d. length d = 68 \<Longrightarrow> Q (i, s\<lparr>sdata := d\<rparr>, v\<lparr>sdata := (sdata v)[nat k := c]\<rparr>, w)"
  shows "spec E Q (bnd (store v k c) (\<lambda>out.
     bnd (at out k) (\<lambda>v.
     bnd (idx stateSq3Tbl v) (\<lambda>x.
     bnd (store s k x) (\<lambda>syntOut.
     bnd (allPoleFilter (add syntOut k) w 1 10) (\<lambda>d.
     Ok (i, syntOut\<lparr>sdata := d\<rparr>, out, w)))))))"
proof -
  have 1: "store v k c = Ok (v\<lparr>sdata := (sdata v)[nat k := c]\<rparr>)"
    "at (v\<lparr>sdata := (sdata v)[nat k := c]\<rparr>) k = Ok c" using k v by simp_all
  have 2: "store s k x = Ok (s\<lparr>sdata := (sdata s)[nat (10 + k) := x]\<rparr>)" for x
    using k s by simp
  show ?thesis
    unfolding 1 bnd.simps 2 by (intro wp) (use c k s w Q in \<open>auto simp:\<close>)
qed

lemma absQuantW_sample_wp:
  assumes ns: "e_shortStateSamples e = n" "n = 57 \<or> n = 58" and k: "0 \<le> k" "k < n"
    and i: "soff i = 10" "length (sdata i) = 126" and s: "soff s = 10" "length (sdata s) = 68"
    and v: "soff v = 0" "length (sdata v) = 80"
    and w: "0 \<le> soff w" "soff w + (if k = crossing f n then 22 else 11) \<le> int (length (sdata w))"
    and Q: "\<And>i' s' c. similar i i' \<Longrightarrow> similar s s' \<Longrightarrow> 0 \<le> c \<Longrightarrow> c < 8 \<Longrightarrow>
      Q (i', s', v\<lparr>sdata := (sdata v)[nat k := c]\<rparr>, if k = crossing f n then add w 11 else w)"
  shows "spec nan_panic Q (absQuantW_sample e n f k (i, s, v, w))"
proof -
  define w' where "w' = (if k = crossing f n then add w 11 else w)"
  have w': "0 \<le> soff w'" "soff w' + 11 \<le> int (length (sdata w'))" using w by (auto simp: w'_def)
  have first: "spec nan_panic (\<lambda>(i', u). similar i i' \<and> u = w')
      (if k = crossing f n then
         let weightDenum = add w 11 in
         bnd (allPoleFilter (add i k) weightDenum (n - k) 10) (\<lambda>d. Ok (i\<lparr>sdata := d\<rparr>, weightDenum))
       else Ok (i, w))"
    unfolding Let_def by (intro wp) (use w k i ns in \<open>auto simp: w'_def\<close>)
  show ?thesis
    unfolding absQuantW_sample_def prod.case crossing_cond ns(1)
  proof (rule spec_bndI, rule spec_mono[OF first], clarify)
    fix i' assume i': "similar i i'"
    show "spec nan_panic Q (bnd (store s k 0) (\<lambda>syntOut.
       bnd (allPoleFilter (add syntOut k) w' 1 10) (\<lambda>d.
       let syntOut = syntOut\<lparr>sdata := d\<rparr> in
       bnd (at i' k) (\<lambda>x.
       bnd (at syntOut k) (\<lambda>y.
       let toQ = x - y in
       bnd (sortSq (mk [0] 0) (mk [0] 0) toQ (mk stateSq3Tbl 0) 8) (\<lambda>(xq, index).
       bnd (store v k (index ! 0)) (\<lambda>out.
       bnd (at out k) (\<lambda>v.
       bnd (idx stateSq3Tbl v) (\<lambda>x.
       bnd (store syntOut k x) (\<lambda>syntOut.
       bnd (allPoleFilter (add syntOut k) w' 1 10) (\<lambda>d.
       Ok (i', syntOut\<lparr>sdata := d\<rparr>, out, w'))))))))))))"
      unfolding Let_def
      by (intro wp sortSq_wp quantised_sample_wp)
        (use k ns i i' s v w' Q[OF i'] tables_start_with_numbers in \<open>auto simp: similar_def w'_def intro: nan_panicI\<close>)
  qed
qed

text \<open>The indices of the start state: \<open>n\<close> values of three bits, the rest as before.\<close>

definition state_indices :: "int \<Rightarrow> int list \<Rightarrow> int list \<Rightarrow> bool" where
  "state_indices n old ix \<longleftrightarrow> length ix = 80 \<and>
     (\<forall>j < 80. if int j < n then 0 \<le> ix ! j \<and> ix ! j < 8 else ix ! j = old ! j)"

lemma state_indices_step:
  "state_indices k old ix \<Longrightarrow> 0 \<le> k \<Longrightarrow> k < 80 \<Longrightarrow> 0 \<le> c \<Longrightarrow> c < 8 \<Longrightarrow> state_indices (k + 1) old (ix[nat k := c])"
  by (auto simp: state_indices_def nth_list_update)

lemma absQuantW_wp:
  assumes ns: "e_shortStateSamples e = n" "n = 57 \<or> n = 58"
    and i: "soff i = 10" "length (sdata i) = 126" and v: "soff v = 0" "length (sdata v) = 80"
    and w: "0 \<le> soff w" "soff w + 22 \<le> int (length (sdata w))"
    and Q: "\<And>ix. state_indices n (sdata v) ix \<Longrightarrow> Q ix"
  shows "spec nan_panic Q (absQuantW e i w v n f)"
proof -
  define I where "I k s = (case s of (i', s' :: float32 span, v' :: int span, w') \<Rightarrow> similar i i' \<and> soff s' = 10 \<and> length (sdata s') = 68 \<and>
    soff v' = 0 \<and> state_indices k (sdata v) (sdata v') \<and> w' = (if crossing f n < k then add w 11 else w))" for k s
  have step: "spec nan_panic (I (k + 1)) (absQuantW_sample e n f k s)" if k: "0 \<le> k" "k < n" "I k s" for k s
  proof -
    obtain i' s' v' w' where s: "s = (i', s', v', w')" by (cases s)
    have f: "similar i i'" "soff s' = 10" "length (sdata s') = 68" "soff v' = 0" "state_indices k (sdata v) (sdata v')"
      "w' = (if crossing f n < k then add w 11 else w)" using k(3) by (auto simp: I_def s)
    have l: "length (sdata v') = 80" using f(5) by (simp add: state_indices_def)
    have st: "state_indices (k + 1) (sdata v) ((sdata v')[nat k := c])" if "0 \<le> c" "c < 8" for c
      using state_indices_step[OF f(5) k(1) _ that] k ns by auto
    show ?thesis unfolding s
    proof (rule absQuantW_sample_wp)
      fix i2 s2 c assume "similar i' i2" "similar s' s2" "0 \<le> c" "(c :: int) < 8"
      then show "I (k + 1) (i2, s2, v'\<lparr>sdata := (sdata v')[nat k := c]\<rparr>, if k = crossing f n then add w' 11 else w')"
        using f st similar_trans[OF f(1)] by (auto simp: I_def similar_def)
    qed (use ns k f l w i in \<open>auto simp: similar_def\<close>)
  qed
  show ?thesis
    unfolding absQuantW_def
    by (intro wp for_up_idx[where I = I] step)
      (use ns i v w Q in \<open>auto simp: I_def similar_def state_indices_def crossing_def\<close>)
qed

lemma state_peak_wp [wp]:
  "0 \<le> soff p \<Longrightarrow> 1 \<le> n \<Longrightarrow> soff p + n \<le> int (length (sdata p)) \<Longrightarrow> (\<And>x. Q x) \<Longrightarrow> spec E Q (state_peak P p n)"
  unfolding state_peak_def Let_def by (intro wp for_up_inv[where I = "\<lambda>_. True"]) auto

lemma stateSearchW_wp:
  assumes ns: "e_shortStateSamples e = n" "n = 57 \<or> n = 58"
    and r: "0 \<le> soff r" "soff r + n \<le> int (length (sdata r))"
    and sd: "0 \<le> soff sd" "soff sd + 11 \<le> int (length (sdata sd))"
    and w: "0 \<le> soff w" "soff w + 22 \<le> int (length (sdata w))"
    and Q: "\<And>k ix. 0 \<le> k \<Longrightarrow> k < 64 \<Longrightarrow> state_indices n (replicate 80 0) ix \<Longrightarrow> Q ([k], ix)"
  shows "spec nan_panic Q (stateSearchW P e r sd w (mk [0] 0) (mk (replicate 80 0) 0) n f)"
  unfolding stateSearchW_def Let_def
  by (intro wp sortSq_wp absQuantW_wp[OF ns] for_up_inv[where I = "\<lambda>p. soff p = 10 \<and> length (sdata p) = 126"])
    (use assms tables_start_with_numbers in \<open>auto simp: similar_def intro: nan_panicI\<close>)

end
