(* ===== verification/SearchSafe.thy ===== *)
theory SearchSafe
  imports Cbsearch
begin

text \<open>
  The codebook search stays in bounds, whatever the samples are: \<open>searchCodebook\<close> never
  panics, it returns indices of the codebook it has searched, and in the first block, whose
  search range is restricted, only indices that survive the conversion to seven bits.
\<close>

section \<open>Inner products and energies\<close>

lemma codebookDotProduct_wp:
  "length l \<le> length r \<Longrightarrow> (\<And>x. Q x) \<Longrightarrow> spec E Q (codebookDotProduct l r)"
  unfolding codebookDotProduct_def by simp

lemma cb_cross_wp [wp]:
  assumes "0 \<le> n" "n \<le> int (length t)" "0 \<le> soff p" "soff p + n \<le> int (length (sdata p))" "\<And>x. Q x"
  shows "spec E Q (cb_cross t n p)"
  unfolding cb_cross_def by (intro wp codebookDotProduct_wp) (use assms in auto)

lemma sum_squares_wp [wp]:
  assumes "0 \<le> soff p" "soff p + n \<le> int (length (sdata p))" "0 \<le> i" "i < int (length en)"
    and "\<And>ys. length ys = length en \<Longrightarrow> Q ys"
  shows "spec E Q (sum_squares p n en i)"
  unfolding sum_squares_def
  by (intro wp for_up_inv[where I = "\<lambda>ys. length ys = length en"]) (use assms in auto)

lemma vec_energy_wp [wp]:
  "n \<le> int (length xs) \<Longrightarrow> (\<And>x. Q x) \<Longrightarrow> spec E Q (vec_energy xs n)"
  unfolding vec_energy_def by (intro wp for_up_inv[where I = "\<lambda>_. True"]) auto

section \<open>One stage\<close>

text \<open>The energies are two arrays of 256; a result's index satisfies \<open>R\<close>.\<close>

definition search_state :: "(int \<Rightarrow> bool) \<Rightarrow> cb_best \<times> cb_energies \<Rightarrow> bool" where
  "search_state R = (\<lambda>(best, en, iv). R (bestIndex best) \<and> length en = 256 \<and> length iv = 256)"

lemma search_stateI: "R (bestIndex b) \<Longrightarrow> length en = 256 \<Longrightarrow> length iv = 256 \<Longrightarrow> search_state R (b, en, iv)"
  by (simp add: search_state_def)

lemma cb_update_index: "R (bestIndex best) \<Longrightarrow> R i \<Longrightarrow> R (bestIndex (cb_update i c f best))"
  by (simp add: cb_update_def)

lemma cb_try_index: "R (bestIndex best) \<Longrightarrow> R i \<Longrightarrow> R (bestIndex (cb_try s i c f best))"
  by (simp add: cb_try_def cb_update_index)

text \<open>The sizes in use: forty samples on a memory of 147, or 22 or 23 on a memory of 85.\<close>

definition search_sizes :: "cb_search \<Rightarrow> bool" where
  "search_sizes S \<longleftrightarrow> (cs_lTarget S = 40 \<and> cs_lMem S = 147 \<and> cs_baseSize S = 128 \<and> 34 \<le> cs_range S \<and> cs_range S \<le> 108 \<or>
     (cs_lTarget S = 22 \<or> cs_lTarget S = 23) \<and> cs_lMem S = 85 \<and> cs_baseSize S = 86 - cs_lTarget S \<and> cs_range S = 58) \<and>
     length (cs_buf S) = 207 \<and> length (cs_cbvectors S) = 147"

lemma search_sizes_cases:
  assumes "search_sizes S"
  obtains "cs_lTarget S = 40" "cs_lMem S = 147" "cs_baseSize S = 128" "34 \<le> cs_range S" "cs_range S \<le> 108"
      "length (cs_buf S) = 207" "length (cs_cbvectors S) = 147"
  | "22 \<le> cs_lTarget S" "cs_lTarget S \<le> 23" "cs_lMem S = 85" "cs_baseSize S = 86 - cs_lTarget S" "cs_range S = 58"
      "length (cs_buf S) = 207" "length (cs_cbvectors S) = 147"
  using assms unfolding search_sizes_def by fastforce

text \<open>The bounds of the unfiltered vectors, for both sizes at once.\<close>

lemma search_sizes_base:
  assumes "search_sizes S"
  shows "0 \<le> cs_lTarget S" "cs_lTarget S \<le> 40" "34 \<le> cs_range S" "cs_range S \<le> 108"
    "cs_range S + cs_lTarget S \<le> 10 + cs_lMem S" "10 + cs_lMem S \<le> 157" "length (cs_buf S) = 207"
    "cs_range S + cs_lTarget S \<le> cs_lMem S + 1" "cs_lMem S \<le> 147" "length (cs_cbvectors S) = 147"
    "0 \<le> cs_baseSize S" "cs_baseSize S + cs_range S \<le> 256"
  using assms by (auto elim!: search_sizes_cases)

lemma search_base_step:
  assumes b: "0 \<le> lt" "lt \<le> 40" "1 \<le> ic" "ic + lt \<le> 10 + lm" "10 + lm \<le> 157" "ic < 256" "length buf = 207"
    and t: "length target = 40" and s: "search_state R s" and R: "R ic"
  shows "spec E (search_state R) ((\<lambda>(best, energy, invenergy).
       bnd (cb_cross target lt (mk buf (10 + lm - lt - ic))) (\<lambda>crossDot.
       bnd (if stage = (0 :: int) then
              bnd (idx energy (ic - 1)) (\<lambda>e.
              bnd (at (mk buf (10 + lm - lt - 1)) (- (ic - 1))) (\<lambda>x.
              bnd (at (mk buf (10 + lm - 1)) (- (ic - 1))) (\<lambda>y.
              bnd (upd energy ic (e + x * x - y * y)) (\<lambda>energy.
              bnd (idx energy ic) (\<lambda>e.
              bnd (upd invenergy ic (inv_energy e)) (\<lambda>invenergy.
              Ok (energy, invenergy)))))))
            else Ok (energy, invenergy)) (\<lambda>(energy, invenergy).
       bnd (idx invenergy ic) (\<lambda>inve.
       Ok (cb_try stage ic crossDot inve best, energy, invenergy))))) s)"
proof -
  obtain best en iv where s': "s = (best, en, iv)" "R (bestIndex best)" "length en = 256" "length iv = 256"
    using s by (cases s) (auto simp: search_state_def)
  show ?thesis
    unfolding s'(1) prod.case
    by (intro wp) (use b t s' R in \<open>auto intro!: search_stateI cb_try_index[where R = R]\<close>)
qed

lemma search_base_wp:
  assumes S: "search_sizes S" and t: "length target = 40" and s: "search_state R s"
    and R: "\<And>i. 0 \<le> i \<Longrightarrow> i < cs_range S \<Longrightarrow> R i"
    and Q: "\<And>s. search_state R s \<Longrightarrow> Q s"
  shows "spec E Q (search_base S target s)"
proof -
  obtain best en iv where s': "s = (best, en, iv)" "R (bestIndex best)" "length en = 256" "length iv = 256"
    using s by (cases s) (auto simp: search_state_def)
  note b = search_sizes_base[OF S]
  show ?thesis
    unfolding search_base_def s'(1) Let_def prod.case
    by (intro search_base_step for_up_inv[where I = "search_state R"] wp)
      (use b t s'(2-4) Q R in \<open>auto intro!: search_stateI cb_try_index[where R = R]\<close>)
qed

lemma searchAugmentedCB_wp:
  assumes lh: "20 \<le> low" "low \<le> 40" "high \<le> 39" and st: "0 \<le> startI" "startI + 20 \<le> 256"
    and t: "soff t = 0" "length (sdata t) = 40" and bf: "43 \<le> soff bf" "soff bf \<le> int (length (sdata bf))"
    and en: "soff en = 0" "length (sdata en) = 256" "soff iv = 0" "length (sdata iv) = 256"
    and best: "R (bestIndex best)" and R: "\<And>i. low \<le> i \<Longrightarrow> i \<le> high \<Longrightarrow> R (startI + i - 20)"
    and Q: "\<And>s. search_state R s \<Longrightarrow> Q s"
  shows "spec E Q (searchAugmentedCB low high stage startI t bf best en iv)"
proof -
  define I where "I = (\<lambda>(b :: cb_best, e, v, nrj :: float32). R (bestIndex b) \<and> similar en e \<and> similar iv v)"
  show ?thesis
    unfolding searchAugmentedCB_def Let_def
    by (intro wp for_up_inv[where I = "\<lambda>x :: float32. True"] for_up_inv[where I = I]
        for_up_inv[where I = "\<lambda>(e, c :: float32, a :: float32). similar en e"]
        for_up_inv[where I = "\<lambda>(e, c :: float32). similar en e"])
      (use assms in \<open>auto simp: I_def similar_def intro!: search_stateI cb_update_index[where R = R]\<close>)
qed

lemma search_augmented_wp:
  assumes lh: "20 \<le> low" "low \<le> 40" "high \<le> 39" and st: "0 \<le> startI" "startI + 20 \<le> 256"
    and t: "length t = 40" and bf: "43 \<le> soff bf" "soff bf \<le> int (length (sdata bf))"
    and s: "search_state R s" and R: "\<And>i. low \<le> i \<Longrightarrow> i \<le> high \<Longrightarrow> R (startI + i - 20)"
    and Q: "\<And>s. search_state R s \<Longrightarrow> Q s"
  shows "spec E Q (search_augmented S t low high startI bf s)"
proof -
  obtain best en iv where s': "s = (best, en, iv)" "R (bestIndex best)" "length en = 256" "length iv = 256"
    using s by (cases s) (auto simp: search_state_def)
  show ?thesis
    unfolding search_augmented_def s'(1) prod.case
    by (rule searchAugmentedCB_wp[where R = R]) (use assms s' in simp_all)
qed

lemma filtered_energies_wp:
  assumes S: "search_sizes S" and "length en = 256" "\<And>ys. length ys = 256 \<Longrightarrow> Q ys"
  shows "spec E Q (filtered_energies S en)"
proof -
  note b = search_sizes_base[OF S]
  show ?thesis
    unfolding filtered_energies_def Let_def
    by (intro wp for_up_inv[where I = "\<lambda>ys. length ys = 256"]) (use assms(2,3) b in auto)
qed

lemma search_filtered_wp:
  assumes S: "search_sizes S" and t: "length target = 40" and s: "search_state R s"
    and r: "0 \<le> sInd" "eInd \<le> cs_range S"
    and R: "\<And>i. cs_baseSize S \<le> i \<Longrightarrow> i < cs_baseSize S + cs_range S \<Longrightarrow> R i"
    and Q: "\<And>s. search_state R s \<Longrightarrow> Q s"
  shows "spec E Q (search_filtered S target sInd eInd s)"
proof -
  obtain best en iv where s': "s = (best, en, iv)" "R (bestIndex best)" "length en = 256" "length iv = 256"
    using s by (cases s) (auto simp: search_state_def)
  note b = search_sizes_base[OF S]
  have step: "spec E (search_state R) ((\<lambda>(best, energy, invenergy).
       let counter = icount - cs_baseSize S in
       bnd (cb_cross target (cs_lTarget S)
         (mk (cs_cbvectors S) (cs_lMem S - counter - cs_lTarget S))) (\<lambda>crossDot.
       bnd (idx energy icount) (\<lambda>e.
       bnd (upd invenergy icount (inv_energy e)) (\<lambda>invenergy.
       Ok (cb_try (cs_stage S) icount crossDot (inv_energy e) best, energy, invenergy))))) s)"
    if h: "sInd + cs_baseSize S \<le> icount" "icount < eInd + cs_baseSize S" "search_state R s" for icount s
  proof -
    obtain best en iv where s': "s = (best, en, iv)" "R (bestIndex best)" "length en = 256" "length iv = 256"
      using h(3) by (cases s) (auto simp: search_state_def)
    have "R icount" by (rule R) (use h r in auto)
    then show ?thesis
      unfolding s'(1) prod.case Let_def
      by (intro wp) (use h b r t s'(2-4) in \<open>auto intro!: search_stateI cb_try_index[where R = R]\<close>)
  qed
  show ?thesis
    unfolding search_filtered_def s'(1) prod.case
    by (intro spec_bndI spec_ifI filtered_energies_wp[OF S] spec_OkI for_up_inv[where I = "search_state R"] step)
      (use s'(2-4) Q in \<open>auto intro!: search_stateI\<close>)
qed

text \<open>The window around the best unfiltered vector stays inside the filtered half.\<close>

lemma cb_ranges_bounds:
  assumes "cb_ranges lT i b r = (s, e, sa, ea)" "0 \<le> i" "i < b"
    and "lT = 40 \<and> b = 128 \<and> 34 \<le> r \<and> r \<le> 108 \<or> lT \<noteq> 40 \<and> b \<le> 64 \<and> r = 58"
  shows "0 \<le> s \<and> e \<le> r \<and> (lT = 40 \<and> sa \<noteq> 0 \<longrightarrow> 20 \<le> sa \<and> sa \<le> 40 \<and> ea \<le> 39)"
  using assms by (auto simp: cb_ranges_def Let_def split: if_splits)

text \<open>The indices a stage may return.\<close>

definition cb_index :: "cb_search \<Rightarrow> int \<Rightarrow> bool" where
  "cb_index S i \<longleftrightarrow> 0 \<le> i \<and> i < cs_range S \<or> cs_baseSize S \<le> i \<and> i < cs_baseSize S + cs_range S \<or>
     cs_lTarget S = 40 \<and> (108 \<le> i \<and> i < 128 \<or> 236 \<le> i \<and> i < 256)"

lemma search_stage_wp:
  assumes S: "search_sizes S" and t: "length target = 40" and es: "length (fst es) = 256" "length (snd es) = 256"
    and Q: "\<And>s. search_state (cb_index S) s \<Longrightarrow> Q s"
  shows "spec E Q (search_stage S target es)"
proof -
  note b = search_sizes_base[OF S]
  define R where "R i \<longleftrightarrow> cb_index S i \<and> 0 \<le> i \<and> i < cs_baseSize S" for i
  have R: "R i" if "0 \<le> i" "i < cs_range S" for i
    using that S by (auto simp: R_def cb_index_def elim!: search_sizes_cases)
  have aug: "R (cs_baseSize S - cs_lTarget S div 2 + i - 20)" if "cs_lTarget S = 40" "20 \<le> i" "i \<le> 39" for i
    using that S by (auto simp: R_def cb_index_def elim!: search_sizes_cases)
  have start: "search_state R (\<lparr>maxMeasure = dec32 (- (10 ^ 7)) 0, bestIndex = 0, gain = 0\<rparr>, es)"
    using R[of 0] b es by (cases es) (auto simp: search_state_def)
  have weaken: "search_state (cb_index S) s" if "search_state R s" for s
    using that by (cases s) (auto simp: search_state_def R_def)
  have 1: "spec E (search_state R) (if cs_lTarget S = 40
       then search_augmented S target 20 39 (cs_baseSize S - cs_lTarget S div 2) (mk (cs_buf S) (10 + cs_lMem S)) s
       else Ok s)" if "search_state R s" for s
  proof (rule spec_ifI)
    assume l: "cs_lTarget S = 40"
    show "spec E (search_state R) (search_augmented S target 20 39 (cs_baseSize S - cs_lTarget S div 2) (mk (cs_buf S) (10 + cs_lMem S)) s)"
      by (rule search_augmented_wp[where R = R]) (use l t that S aug in \<open>auto elim!: search_sizes_cases\<close>)
  qed (use that in simp)
  have 2: "spec E (search_state (cb_index S)) (case cb_ranges (cs_lTarget S) (bestIndex (fst s)) (cs_baseSize S) (cs_range S) of
      (sInd, eInd, sIndAug, eIndAug) \<Rightarrow>
      bnd (search_filtered S target sInd eInd s) (\<lambda>s.
      if cs_lTarget S = 40 \<and> sIndAug \<noteq> 0
      then search_augmented S target sIndAug eIndAug (2 * cs_baseSize S - 20) (mk (cs_cbvectors S) (cs_lMem S)) s
      else Ok s))" if s: "search_state R s" for s
  proof -
    obtain si ei sa ea where r: "cb_ranges (cs_lTarget S) (bestIndex (fst s)) (cs_baseSize S) (cs_range S) = (si, ei, sa, ea)"
      by (metis prod_cases4)
    have i: "0 \<le> bestIndex (fst s)" "bestIndex (fst s) < cs_baseSize S" using s by (cases s; auto simp: search_state_def R_def)+
    have c: "0 \<le> si \<and> ei \<le> cs_range S \<and> (cs_lTarget S = 40 \<and> sa \<noteq> 0 \<longrightarrow> 20 \<le> sa \<and> sa \<le> 40 \<and> ea \<le> 39)"
      by (rule cb_ranges_bounds[OF r i]) (use S in \<open>auto elim!: search_sizes_cases\<close>)
    show ?thesis
      unfolding r prod.case
    proof (rule spec_bndI, rule search_filtered_wp[OF S t weaken[OF s]])
      fix s assume s: "search_state (cb_index S) s"
      show "spec E (search_state (cb_index S)) (if cs_lTarget S = 40 \<and> sa \<noteq> 0
          then search_augmented S target sa ea (2 * cs_baseSize S - 20) (mk (cs_cbvectors S) (cs_lMem S)) s else Ok s)"
      proof (rule spec_ifI)
        assume l: "cs_lTarget S = 40 \<and> sa \<noteq> 0"
        show "spec E (search_state (cb_index S)) (search_augmented S target sa ea (2 * cs_baseSize S - 20) (mk (cs_cbvectors S) (cs_lMem S)) s)"
          by (rule search_augmented_wp[where R = "cb_index S"]) (use l c t s S in \<open>auto simp: cb_index_def elim!: search_sizes_cases\<close>)
      qed (use s in simp)
    qed (use c in \<open>auto simp: cb_index_def\<close>)
  qed
  show ?thesis
    unfolding search_stage_def Let_def
    by (rule spec_bndI, rule search_base_wp[OF S t start R], assumption+, rule spec_bndI,
        rule spec_mono[OF 1], assumption, rule spec_mono[OF 2], assumption, rule Q)
qed

section \<open>The vector and the gain of a stage\<close>

lemma createAugmentedVec_wp:
  assumes "20 \<le> i" "i < 40" "44 \<le> soff bf" "soff bf \<le> int (length (sdata bf))" "soff v = 0" "length (sdata v) = 40"
    and "\<And>d. length d = 40 \<Longrightarrow> Q d"
  shows "spec E Q (createAugmentedVec i bf v)"
  unfolding createAugmentedVec_def Let_def
  by (intro wp) (use assms in \<open>auto simp: similar_def\<close>)

definition readable :: "int \<Rightarrow> 'a span \<Rightarrow> bool" where
  "readable n p \<longleftrightarrow> 0 \<le> soff p \<and> soff p + n \<le> int (length (sdata p))"

text \<open>The search is the one of a subframe, or of the part of the two subframes that the start state
  leaves open.\<close>

definition search_fits :: "encoderState \<Rightarrow> cb_search \<Rightarrow> bool" where
  "search_fits e S \<longleftrightarrow> search_sizes S \<and> e_shortStateSamples e \<in> {57, 58} \<and>
     (cs_lTarget S = 40 \<or> cs_lTarget S = 80 - e_shortStateSamples e)"

lemma chosen_vector_wp:
  assumes S: "search_fits e S" and i: "cb_index S i" and av: "length av = 40"
    and Q: "\<And>p av. readable (cs_lTarget S) p \<Longrightarrow> length av = 40 \<Longrightarrow> Q (p, av)"
  shows "spec E Q (chosen_vector e S i av)"
proof -
  have s: "search_sizes S" "e_shortStateSamples e = 57 \<or> e_shortStateSamples e = 58"
    "cs_lTarget S = 40 \<or> cs_lTarget S = 80 - e_shortStateSamples e" using S by (auto simp: search_fits_def)
  from s(1) show ?thesis
  proof (cases rule: search_sizes_cases)
    case 1
    have ne: "cs_lTarget S \<noteq> 80 - e_shortStateSamples e" using s(2) 1 by auto
    have i': "0 \<le> i" "i < 256" "i < 108 \<or> 108 \<le> i \<and> i < 128 \<or> 128 \<le> i \<and> i < 236 \<or> 236 \<le> i"
      using i 1 by (auto simp: cb_index_def)
    have d: "i div 128 = 1" if "128 \<le> i"
    proof -
      have "1 \<le> i div 128" "i div 128 < 2" using that i'(2) by (auto intro: int_div_less)
      then show ?thesis by simp
    qed
    show ?thesis
      unfolding chosen_vector_def Let_def
      by (intro wp createAugmentedVec_wp)
        (use 1 ne i' d av in \<open>auto simp: readable_def intro!: Q\<close>)
  next
    case 2
    have eq: "cs_lTarget S = 80 - e_shortStateSamples e" using s(3) 2 by auto
    have i': "0 \<le> i" "i < cs_baseSize S + 58" "i < 58 \<or> cs_baseSize S \<le> i" using i 2 by (auto simp: cb_index_def)
    show ?thesis
      unfolding chosen_vector_def Let_def
      by (intro wp createAugmentedVec_wp)
        (use 2 eq i' av in \<open>auto simp: readable_def intro!: Q\<close>)
  qed
qed

lemma stage_gain_wp:
  assumes "0 \<le> k" "k < 3" "length gains = 3" "0 \<le> soff gx" "soff gx + 3 \<le> int (length (sdata gx))"
    and Q: "\<And>g c. 0 \<le> c \<Longrightarrow> c < 2 ^ nat (5 - k) \<Longrightarrow> Q (g, (sdata gx)[nat (soff gx + k) := c])"
  shows "spec E Q (stage_gain k gains g gx)"
proof -
  have "k = 0 \<or> k = 1 \<or> k = 2" using assms(1,2) by linarith
  then show ?thesis
    unfolding stage_gain_def
    by (elim disjE) (intro wp; use assms in \<open>auto intro!: Q\<close>)+
qed

lemma adjust_gain_wp:
  assumes "0 \<le> j" "j < 32" "\<And>k. 0 \<le> k \<Longrightarrow> k < 32 \<Longrightarrow> Q k"
  shows "spec E Q (adjust_gain a b c j)"
proof -
  have "length gainSq5Tbl = 32" by (simp add: gainSq5Tbl_def)
  then show ?thesis
    unfolding adjust_gain_def
    by (intro for_up_inv[where I = "\<lambda>k. 0 \<le> k \<and> k < 32"] wp) (use assms in auto)
qed

section \<open>The whole search\<close>

text \<open>\<open>patched o n R xs ys\<close>: the array \<open>ys\<close> is \<open>xs\<close> but for \<open>n\<close> entries from \<open>o\<close> on, of which
  entry \<open>k\<close> satisfies \<open>R k\<close>.\<close>

definition patched :: "int \<Rightarrow> int \<Rightarrow> (int \<Rightarrow> 'a \<Rightarrow> bool) \<Rightarrow> 'a list \<Rightarrow> 'a list \<Rightarrow> bool" where
  "patched b n R xs ys \<longleftrightarrow> length ys = length xs \<and>
     (\<forall>j. 0 \<le> j \<and> j < int (length xs) \<longrightarrow>
        (if b \<le> j \<and> j < b + n then R (j - b) (ys ! nat j) else ys ! nat j = xs ! nat j))"

lemma patched_0 [simp]: "patched b 0 R xs xs"
  unfolding patched_def by auto

lemma patched_length: "patched b n R xs ys \<Longrightarrow> length ys = length xs"
  by (simp add: patched_def)

lemma nth_update_int: "0 \<le> b \<Longrightarrow> 0 \<le> j \<Longrightarrow> j < int (length ys) \<Longrightarrow> ys[nat b := v] ! nat j = (if j = b then v else ys ! nat j)"
  by (cases "j = b") (auto simp: eq_nat_nat_iff)

lemma patched_step:
  assumes "patched b n R xs ys" "0 \<le> b" "0 \<le> n" "b + n < int (length xs)" "R n v"
  shows "patched b (n + 1) R xs (ys[nat (b + n) := v])"
proof -
  have "if b \<le> j \<and> j < b + (n + 1) then R (j - b) (ys[nat (b + n) := v] ! nat j) else ys[nat (b + n) := v] ! nat j = xs ! nat j"
    if "0 \<le> j" "j < int (length xs)" for j
    using that assms nth_update_int[of "b + n" j ys v] by (cases "j = b + n") (auto simp: patched_def)
  then show ?thesis using assms(1) by (simp add: patched_def)
qed

lemma patched_first:
  assumes "patched b n R xs ys" "0 \<le> b" "1 \<le> n" "b + n \<le> int (length xs)" "R 0 v"
  shows "patched b n R xs (ys[nat b := v])"
proof -
  have "if b \<le> j \<and> j < b + n then R (j - b) (ys[nat b := v] ! nat j) else ys[nat b := v] ! nat j = xs ! nat j"
    if "0 \<le> j" "j < int (length xs)" for j
    using that assms nth_update_int[of b j ys v] by (cases "j = b") (auto simp: patched_def)
  then show ?thesis using assms(1) by (simp add: patched_def)
qed

lemma patched_at: "patched b n R xs ys \<Longrightarrow> 0 \<le> b \<Longrightarrow> 0 \<le> k \<Longrightarrow> k < n \<Longrightarrow> b + k < int (length xs) \<Longrightarrow> R k (ys ! nat (b + k))"
  unfolding patched_def by (elim conjE allE[of _ "b + k"]) simp

definition gain_range :: "int \<Rightarrow> int \<Rightarrow> bool" where
  "gain_range k v \<longleftrightarrow> 0 \<le> v \<and> v < 2 ^ nat (5 - k)"

text \<open>What the stages share, before stage \<open>k\<close>.\<close>

definition stages_ok :: "(int \<Rightarrow> int \<Rightarrow> bool) \<Rightarrow> int span \<Rightarrow> int span \<Rightarrow> int \<Rightarrow> cb_stages \<Rightarrow> bool" where
  "stages_ok R ix gx k st \<longleftrightarrow>
     soff (st_index st) = soff ix \<and> patched (soff ix) k R (sdata ix) (sdata (st_index st)) \<and>
     soff (st_gainIndex st) = soff gx \<and>
     patched (soff gx) k gain_range (sdata gx) (sdata (st_gainIndex st)) \<and>
     length (st_target st) = 40 \<and> length (st_cvec st) = 40 \<and> length (st_gains st) = 3 \<and>
     length (st_augVec st) = 40 \<and> length (fst (st_energies st)) = 256 \<and> length (snd (st_energies st)) = 256"

lemma update_target_wp:
  assumes "readable n p" "n \<le> 40" "length cv = 40" "length tg = 40"
    and "\<And>c t. length c = 40 \<Longrightarrow> length t = 40 \<Longrightarrow> Q (c, t)"
  shows "spec E Q (for_up 0 n (\<lambda>j (cvec, target).
        bnd (at p j) (\<lambda>x.
        bnd (idx cvec j) (\<lambda>c.
        bnd (upd cvec j (c + g * x)) (\<lambda>cvec.
        bnd (idx target j) (\<lambda>t.
        bnd (upd target j (t - g * x)) (\<lambda>target.
        Ok (cvec, target))))))) (cv, tg))"
  by (intro for_up_inv[where I = "\<lambda>(c, t). length c = 40 \<and> length t = 40"] wp)
    (use assms in \<open>auto simp: readable_def\<close>)

lemma run_stage_wp:
  assumes S: "search_fits e S" and k: "cs_stage S = k" "0 \<le> k" "k < 3"
    and ix: "0 \<le> soff ix" "soff ix + 3 \<le> int (length (sdata ix))" and gx: "0 \<le> soff gx" "soff gx + 3 \<le> int (length (sdata gx))"
    and st: "stages_ok R ix gx k st" and R: "\<And>i. cb_index S i \<Longrightarrow> R k i"
    and Q: "\<And>st. stages_ok R ix gx (k + 1) st \<Longrightarrow> Q st"
  shows "spec E Q (run_stage e S st)"
proof -
  have s: "search_sizes S" using S by (simp add: search_fits_def)
  note sD = st[unfolded stages_ok_def]
  have lt: "cs_lTarget S \<le> 40" using search_sizes_base[OF s] by simp
  have li: "length (sdata (st_index st)) = length (sdata ix)" "length (sdata (st_gainIndex st)) = length (sdata gx)"
    using sD by (auto dest: patched_length)
  have fin: "Q \<lparr>st_index = (st_index st)\<lparr>sdata := (sdata (st_index st))[nat (soff ix + k) := i]\<rparr>,
      st_gainIndex = (st_gainIndex st)\<lparr>sdata := (sdata (st_gainIndex st))[nat (soff gx + k) := c]\<rparr>,
      st_target = tg, st_cvec = cv, st_gains = gs, st_augVec = av, st_energies = (en, iv)\<rparr>"
    if "cb_index S i" "0 \<le> c" "c < 2 ^ nat (5 - k)" "length tg = 40" "length cv = 40" "length gs = 3" "length av = 40"
      "length en = 256" "length iv = 256" for i c tg cv gs av en iv
    by (rule Q) (use that sD k ix gx R in \<open>auto simp: stages_ok_def gain_range_def intro!: patched_step\<close>)
  have chosen: "at ((st_index st)\<lparr>sdata := (sdata (st_index st))[nat (soff ix + k) := i]\<rparr>) k = Ok i" for i
    using sD li ix k by (auto simp: at_def idx_def)
  have storeI: "store (st_index st) k i = Ok ((st_index st)\<lparr>sdata := (sdata (st_index st))[nat (soff ix + k) := i]\<rparr>)" for i
    using sD li ix k by (simp add: stages_ok_def)
  show ?thesis
    unfolding run_stage_def Let_def k(1)
    apply (rule spec_bndI, rule search_stage_wp[OF s])
    subgoal using sD by simp
    subgoal using sD by simp
    subgoal using sD by simp
    subgoal for r
      apply (cases r, clarsimp simp only: prod.case storeI bnd.simps chosen search_state_def)
      apply (intro wp stage_gain_wp chosen_vector_wp[OF S] update_target_wp)
                     apply (use k ix gx li lt sD in \<open>simp_all add: fin\<close>)
      done
    done
qed

text \<open>What the index of stage \<open>k\<close> may be.\<close>

definition stage_index :: "int \<Rightarrow> int \<Rightarrow> int \<Rightarrow> int \<Rightarrow> bool" where
  "stage_index lT block k i \<longleftrightarrow> 0 \<le> i \<and>
     (if lT = 40 then i < 256 \<and> (block = 1 \<and> k \<noteq> 0 \<longrightarrow> restricted_index i) else i < 128)"

definition block_fits :: "encoderState \<Rightarrow> int \<Rightarrow> int \<Rightarrow> int \<Rightarrow> bool" where
  "block_fits e lMem lT block \<longleftrightarrow> e_shortStateSamples e \<in> {57, 58} \<and>
     (lMem = 147 \<and> lT = 40 \<and> 1 \<le> block \<and> block \<le> 4 \<or>
      lMem = 85 \<and> lT = 80 - e_shortStateSamples e \<and> block = 0)"

lemma block_search:
  assumes b: "block_fits e lMem lT block" and k: "0 \<le> k" "k < 3" and l: "length buf = 207" "length cbv = 147"
    and S: "S = \<lparr>cs_lMem = lMem, cs_lTarget = lT,
      cs_baseSize = (if lT = 40 then lMem - lT + 1 + lT div 2 else lMem - lT + 1),
      cs_stage = k, cs_range = searchRangeTbl ! nat block ! nat k, cs_buf = buf, cs_cbvectors = cbv\<rparr>"
  shows "search_fits e S" "cb_index S i \<Longrightarrow> stage_index lT block k i"
proof -
  define r where "r = searchRangeTbl ! nat block ! nat k"
  have kk: "k = 0 \<or> k = 1 \<or> k = 2" using k by linarith
  have n: "e_shortStateSamples e = 57 \<or> e_shortStateSamples e = 58" using b by (auto simp: block_fits_def)
  consider (sub) "lMem = 147" "lT = 40" "1 \<le> block" "block \<le> 4" | (rest) "lMem = 85" "lT = 80 - e_shortStateSamples e" "block = 0"
    using b by (auto simp: block_fits_def)
  then have "search_fits e S \<and> (cb_index S i \<longrightarrow> stage_index lT block k i)"
  proof cases
    case sub
    then have "block = 1 \<or> block = 2 \<or> block = 3 \<or> block = 4" by linarith
    then have r: "34 \<le> r" "r \<le> 108" "block = 1 \<and> k \<noteq> 0 \<longrightarrow> r = 44"
      using kk by (auto simp: r_def searchRangeTbl_def)
    show ?thesis
      using sub(1,2) r n l unfolding S r_def[symmetric]
      by (auto simp: search_fits_def search_sizes_def cb_index_def stage_index_def restricted_index_def)
  next
    case rest
    then have "r = 58" using kk by (auto simp: r_def searchRangeTbl_def)
    then show ?thesis
      using rest n l unfolding S r_def[symmetric]
      by (auto simp: search_fits_def search_sizes_def cb_index_def stage_index_def)
  qed
  then show "search_fits e S" "cb_index S i \<Longrightarrow> stage_index lT block k i" by auto
qed

lemma filteredCBvecs_wp:
  assumes "n = 147 \<or> n = 85" "soff p = 0" "length (sdata p) = 147" "0 \<le> soff mem" "soff mem + n \<le> int (length (sdata mem))"
    and "\<And>d. length d = 147 \<Longrightarrow> Q d"
  shows "spec E Q (filteredCBvecs p mem n)"
  unfolding filteredCBvecs_def by (intro wp) (use assms in \<open>auto simp: similar_def\<close>)

lemma searchCodebook_wp:
  assumes b: "block_fits e lMem lT block"
    and ix: "0 \<le> soff ix" "soff ix + 3 \<le> int (length (sdata ix))" and gx: "0 \<le> soff gx" "soff gx + 3 \<le> int (length (sdata gx))"
    and t: "0 \<le> soff t" "soff t + lT \<le> int (length (sdata t))" and m: "0 \<le> soff m" "soff m + lMem \<le> int (length (sdata m))"
    and w: "0 \<le> soff w" "soff w + 11 \<le> int (length (sdata w))" and ws: "soff ws = 0" "length (sdata ws) = 10"
    and Q: "\<And>xs ys. patched (soff ix) 3 (stage_index lT block) (sdata ix) xs \<Longrightarrow>
      patched (soff gx) 3 gain_range (sdata gx) ys \<Longrightarrow> Q (xs, ys)"
  shows "spec E Q (searchCodebook e ix gx t m lMem lT 3 w ws block)"
proof -
  have c: "0 \<le> lT" "lT \<le> 40" "lMem = 147 \<or> lMem = 85" "10 + lMem + lT \<le> 207" "0 \<le> block" "block < 5"
    using b by (auto simp: block_fits_def)
  define bs where "bs = (if lT = 40 then lMem - lT + 1 + lT div 2 else lMem - lT + 1)"
  have row: "0 \<le> k \<Longrightarrow> k < 3 \<Longrightarrow> k < int (length (searchRangeTbl ! nat block))" for k
  proof -
    have "block = 0 \<or> block = 1 \<or> block = 2 \<or> block = 3 \<or> block = 4" using c by linarith
    then show "k < 3 \<Longrightarrow> k < int (length (searchRangeTbl ! nat block))" by (auto simp: searchRangeTbl_def)
  qed
  have rows: "block < int (length searchRangeTbl)" using c by (simp add: searchRangeTbl_def)
  have stage: "spec E (stages_ok (stage_index lT block) ix gx (k + 1)) (bnd (idx searchRangeTbl block) (\<lambda>row.
        bnd (idx row k) (\<lambda>valueRange.
        run_stage e \<lparr>cs_lMem = lMem, cs_lTarget = lT, cs_baseSize = bs,
          cs_stage = k, cs_range = valueRange, cs_buf = buf, cs_cbvectors = cbv\<rparr> st)))"
    if "0 \<le> k" "k < 3" "length buf = 207" "length cbv = 147" "stages_ok (stage_index lT block) ix gx k st" for k buf cbv st
    using rows row[OF that(1,2)] c that
      run_stage_wp[OF block_search(1)[OF b that(1-4) refl] _ that(1,2) ix gx that(5), OF _ block_search(2)[OF b that(1-4) refl],
        of "stages_ok (stage_index lT block) ix gx (k + 1)" E]
    by (simp add: bs_def)
  have fin: "spec E Q (bnd (vec_energy (st_cvec st) lT) (\<lambda>cene.
      bnd (at (st_gainIndex st) 0) (\<lambda>first.
      bnd (adjust_gain cene tene (st_gains st ! 0) first) (\<lambda>j.
      bnd (store (st_gainIndex st) 0 j) (\<lambda>gi.
      Ok (sdata (st_index st), sdata gi))))))"
    if st: "stages_ok (stage_index lT block) ix gx 3 st" for st tene
  proof -
    note sD = st[unfolded stages_ok_def]
    have l: "length (sdata (st_gainIndex st)) = length (sdata gx)" using sD patched_length by blast
    have at0: "at (st_gainIndex st) 0 = Ok (sdata (st_gainIndex st) ! nat (soff gx))" using sD l gx by simp
    have r: "gain_range 0 (sdata (st_gainIndex st) ! nat (soff gx + 0))"
      using sD gx by (intro patched_at[of "soff gx" 3 gain_range "sdata gx"]) auto
    have st0: "store (st_gainIndex st) 0 j = Ok ((st_gainIndex st)\<lparr>sdata := (sdata (st_gainIndex st))[nat (soff gx) := j]\<rparr>)" for j
      using sD l gx by simp
    have p0: "patched (soff gx) 3 gain_range (sdata gx) ((sdata (st_gainIndex st))[nat (soff gx) := j])"
      if "0 \<le> j" "j < 32" for j
      by (rule patched_first) (use sD gx that in \<open>auto simp: gain_range_def\<close>)
    show ?thesis
      unfolding at0 bnd.simps st0
      by (intro wp adjust_gain_wp Q) (use sD r c p0 in \<open>auto simp: gain_range_def\<close>)
  qed
  show ?thesis
    unfolding searchCodebook_def Let_def bs_def[symmetric]
    by (intro stage fin for_up_idx[where I = "stages_ok (stage_index lT block) ix gx"] filteredCBvecs_wp wp)
      (use c t m w ws in \<open>auto simp: stages_ok_def\<close>)
qed

end
