(* ===== verification/EncoderSafe.thy ===== *)
theory EncoderSafe
  imports Codec DecoderSafe AnalysisSafe SearchSafe
begin

text \<open>
  The encoder never reads or writes out of bounds.  \<open>enc_ok m e\<close> (theory AnalysisSafe) is the
  invariant of an encoder in mode \<open>m\<close>.  The only way \<open>encodeFrame\<close> can panic is \<open>nan_panic\<close>, the
  scalar quantiser on an input that is not a number; otherwise the indices it packs fit the
  fields of the bitstream, the start state is inside the frame and the last bit is clear, so
  that the decoder takes the packet for an intact frame.
\<close>

section \<open>The codebook indices of the blocks\<close>

text \<open>The entries of the first \<open>j\<close> blocks satisfy \<open>R\<close>, the others are still zero.\<close>

definition blocks_ok :: "(int \<Rightarrow> int \<Rightarrow> bool) \<Rightarrow> int \<Rightarrow> int list \<Rightarrow> bool" where
  "blocks_ok R j xs \<longleftrightarrow> length xs = 12 \<and>
     (\<forall>k. 0 \<le> k \<and> k < 12 \<longrightarrow> (if k < 3 * j then R k (xs ! nat k) else xs ! nat k = 0))"

lemma blocks_ok_step:
  assumes "blocks_ok R j xs" "patched (j * 3) 3 T xs ys" "\<And>k v. 0 \<le> k \<Longrightarrow> k < 3 \<Longrightarrow> T k v \<Longrightarrow> R (j * 3 + k) v"
  shows "blocks_ok R (j + 1) ys"
proof -
  have l: "length xs = 12" "length ys = 12" using assms(1,2) by (auto simp: blocks_ok_def patched_def)
  have "if k < 3 * (j + 1) then R k (ys ! nat k) else ys ! nat k = 0" if k: "0 \<le> k" "k < 12" for k
  proof (cases "j * 3 \<le> k \<and> k < j * 3 + 3")
    case True
    then have "T (k - j * 3) (ys ! nat k)" using assms(2) k l by (auto simp: patched_def)
    then have "R k (ys ! nat k)" using assms(3)[of "k - j * 3"] True by simp
    then show ?thesis using True by simp
  next
    case False
    then have "ys ! nat k = xs ! nat k" using assms(2) k l by (auto simp: patched_def)
    then show ?thesis using assms(1) k False by (auto simp: blocks_ok_def)
  qed
  then show ?thesis using l by (simp add: blocks_ok_def)
qed

definition cb_entry :: "int \<Rightarrow> int \<Rightarrow> bool" where
  "cb_entry k v \<longleftrightarrow> 0 \<le> v \<and> v < 256 \<and> (k = 1 \<or> k = 2 \<longrightarrow> restricted_index v)"

definition gain_entry :: "int \<Rightarrow> int \<Rightarrow> bool" where
  "gain_entry k v \<longleftrightarrow> gain_range (k mod 3) v"

definition coding_ok :: "int \<Rightarrow> coding \<Rightarrow> bool" where
  "coding_ok j cd \<longleftrightarrow> blocks_ok cb_entry j (cd_cbIndex cd) \<and> blocks_ok gain_entry j (cd_gainIndex cd) \<and>
     extra_ok (cd_extraCb cd) (cd_extraGain cd) \<and> length (cd_decresidual cd) = 240"

lemma stage_entries:
  assumes "0 \<le> j" "0 \<le> k" "k < 3"
  shows "stage_index 40 (j + 1) k v \<Longrightarrow> cb_entry (j * 3 + k) v" "gain_range k v \<Longrightarrow> gain_entry (j * 3 + k) v"
proof -
  have "j * 3 + k = 1 \<or> j * 3 + k = 2 \<Longrightarrow> j = 0 \<and> k \<noteq> 0" using assms by presburger
  then show "stage_index 40 (j + 1) k v \<Longrightarrow> cb_entry (j * 3 + k) v"
    by (auto simp: stage_index_def cb_entry_def)
  show "gain_range k v \<Longrightarrow> gain_entry (j * 3 + k) v"
    using assms by (simp add: gain_entry_def)
qed

text \<open>Search and reconstruction of one subframe.\<close>

lemma patched_values:
  assumes "patched b 3 R xs ys" "0 \<le> b" "b + 3 \<le> int (length xs)" "k < 3"
  shows "R (int k) (ys ! (nat b + k))"
  using patched_at[OF assms(1,2), of "int k"] assms(3,4) by (simp add: nat_add_distrib assms(2))

lemma construct_found_wp:
  assumes "patched (j * 3) 3 (stage_index 40 b) xs ci" "patched (j * 3) 3 gain_range ys gi"
    and "0 \<le> j" "j < 4" "length xs = 12" "length ys = 12" "length mem = 147"
    and "0 \<le> soff p" "soff p + 40 \<le> int (length (sdata p))" "\<And>d. length d = length (sdata p) \<Longrightarrow> Q d"
  shows "spec E Q (constructCodebook p (mk ci (j * 3)) (mk gi (j * 3)) (codebook_mem mem 147) 147 40 3)"
proof -
  have l: "length ci = 12" "length gi = 12" using assms by (auto dest: patched_length)
  have i: "stage_index 40 b (int k) (ci ! (nat (j * 3) + k))" "gain_range (int k) (gi ! (nat (j * 3) + k))" if "k < 3" for k
    using patched_values[OF assms(1) _ _ that] patched_values[OF assms(2) _ _ that] assms by auto
  have g: "nat (5 - int k) = 5 - k" for k by (simp add: nat_diff_distrib')
  show ?thesis
    by (rule constructCodebook_wp) (use assms l i g in \<open>auto simp: stage_index_def gain_range_def\<close>)
qed

text \<open>The lengths of an analysis.\<close>

definition analysis_ok :: "encoderState \<Rightarrow> analysis \<Rightarrow> bool" where
  "analysis_ok e an \<longleftrightarrow> length (an_syntdenum an) = 66 \<and> length (an_weightdenum an) = 66 \<and>
     length (an_residual an) = 240 \<and> length (an_lsfI an) = 6 \<and> lsf_indices_ok (3 * e_lpcAnalyses e) (an_lsfI an) \<and>
     (\<forall>k < 6. 3 * e_lpcAnalyses e \<le> int k \<longrightarrow> an_lsfI an ! k = 0)"

lemma encode_forward_wp:
  assumes e: "enc_ok m e" and an: "analysis_ok e an" and cd: "coding_ok j cd" and mem: "length mem = 147"
    and j: "0 \<le> j" "j < 4" and i: "0 \<le> i" "1 \<le> st" "st + 1 + i < e_subframes e"
    and Q: "\<And>cd m. coding_ok (j + 1) cd \<Longrightarrow> length m = 147 \<Longrightarrow> Q (cd, m, j + 1)"
  shows "spec E Q (encode_forward e an st i (cd, mem, j))"
proof -
  note c = enc_ok_cases[OF e]
  have l: "idx memLfTbl j = Ok 147"
    using j by (auto simp: idx_def memLfTbl_def less_Suc_eq numeral_eq_Suc nth_Cons' nat_less_iff)
  have bf: "block_fits e 147 40 (j + 1)" using c j by (auto simp: block_fits_def)
  have len: "length (cd_cbIndex cd) = 12" "length (cd_gainIndex cd) = 12" "length (cd_decresidual cd) = 240"
    using cd by (auto simp: coding_ok_def blocks_ok_def)
  show ?thesis
    unfolding encode_forward_def prod.case Let_def l bnd.simps
  proof (rule spec_bndI, rule searchCodebook_wp[OF bf])
    fix ci gi
    assume p: "patched (soff (mk (cd_cbIndex cd) (j * 3))) 3 (stage_index 40 (j + 1)) (sdata (mk (cd_cbIndex cd) (j * 3))) ci"
      "patched (soff (mk (cd_gainIndex cd) (j * 3))) 3 gain_range (sdata (mk (cd_gainIndex cd) (j * 3))) gi"
    have ok: "coding_ok (j + 1) (cd\<lparr>cd_cbIndex := ci, cd_gainIndex := gi, cd_decresidual := d\<rparr>)" if "length d = 240" for d
      using cd p that stage_entries[OF j(1)] by (auto simp: coding_ok_def intro: blocks_ok_step)
    show "spec E Q (case (ci, gi) of (ci, gi) \<Rightarrow>
       bnd (constructCodebook (mk (cd_decresidual cd) ((st + 1 + i) * 40)) (mk ci (j * 3)) (mk gi (j * 3))
         (codebook_mem mem 147) 147 40 3) (\<lambda>dec.
       bnd (sub dec ((st + 1 + i) * 40) ((st + 1 + i) * 40 + 40)) (\<lambda>xs.
       bnd (mem_shift mem xs) (\<lambda>mem.
       Ok (cd\<lparr>cd_cbIndex := ci, cd_gainIndex := gi, cd_decresidual := dec\<rparr>, mem, j + 1)))))"
      unfolding prod.case
      by (intro wp construct_found_wp[OF p[simplified]]) (use len mem j i c ok Q in auto)
  qed (use an c i j len mem in \<open>auto simp: analysis_ok_def\<close>)
qed

text \<open>The samples the start state leaves open.\<close>

lemma extra_found:
  assumes "patched 0 3 (stage_index lT 0) xs ix" "patched 0 3 gain_range ys gi" "length xs = 3" "length ys = 3" "lT \<noteq> 40"
  shows "extra_ok ix gi"
proof -
  have l: "length ix = 3" "length gi = 3" using assms by (auto dest: patched_length)
  have "0 \<le> ix ! k \<and> ix ! k < 128 \<and> 0 \<le> gi ! k \<and> gi ! k < 2 ^ (5 - k)" if k: "k < 3" for k
    using patched_values[OF assms(1) _ _ k] patched_values[OF assms(2) _ _ k] assms(3-5)
    by (auto simp: stage_index_def gain_range_def nat_diff_distrib')
  then show ?thesis using l by (simp add: extra_ok_def)
qed

lemma encode_boundary_wp:
  assumes e: "enc_ok m e" and an: "analysis_ok e an" and st: "1 \<le> st" "st < e_subframes e"
    and cd: "length (cd_extraCb cd) = 3" "length (cd_extraGain cd) = 3" "length (cd_decresidual cd) = 240"
      "blocks_ok cb_entry 0 (cd_cbIndex cd)" "blocks_ok gain_entry 0 (cd_gainIndex cd)"
    and sp: "startPos = (if sf \<noteq> 0 then (st - 1) * 40 else (st - 1) * 40 + (80 - e_shortStateSamples e))"
    and Q: "\<And>cd m. coding_ok 0 cd \<Longrightarrow> length m = 147 \<Longrightarrow> Q (cd, m)"
  shows "spec E Q (encode_boundary e an st sf startPos cd)"
proof -
  note c = enc_ok_cases[OF e]
  define n where "n = 80 - e_shortStateSamples e"
  have n: "n = 22 \<or> n = 23" and ns: "e_shortStateSamples e = 80 - n" using c by (auto simp: n_def)
  have bf: "block_fits e 85 n 0" using n by (auto simp: block_fits_def ns)
  have ok: "coding_ok 0 (cd\<lparr>cd_extraCb := ci, cd_extraGain := gi, cd_decresidual := d\<rparr>)"
    if "patched 0 3 (stage_index n 0) (cd_extraCb cd) ci" "patched 0 3 gain_range (cd_extraGain cd) gi" "length d = 240" for ci gi d
    using extra_found[OF that(1,2)] that(3) cd n by (auto simp: coding_ok_def)
  have ex: "extra_ok ci gi"
    if "patched 0 3 (stage_index n 0) (cd_extraCb cd) ci" "patched 0 3 gain_range (cd_extraGain cd) gi" for ci gi
    using extra_found[OF that] cd n by auto
  have con: "spec E R (constructCodebook p (mk ci 0) (mk gi 0) (codebook_mem mem 85) 85 n 3)"
    if "extra_ok ci gi" "0 \<le> soff p" "soff p + n \<le> int (length (sdata p))" "length mem = 147"
      "\<And>d. length d = length (sdata p) \<Longrightarrow> R d" for R p ci gi mem
    using boundary_codebook_wp[OF that(2,3,4) n that(1), where Q = R] that(5) by (simp add: stMemLTbl_def)
  have an': "length (an_residual an) = 240" "length (an_weightdenum an) = 66" using an by (simp_all add: analysis_ok_def)
  have diff: "80 - (80 - n) = n" by simp
  note h = an' st cd sp n c ns
  show ?thesis
  proof (cases "sf = 0")
    case False
    show ?thesis
      unfolding encode_boundary_def Let_def ns stMemLTbl_def diff if_P[OF False]
      by (intro wp searchCodebook_wp[OF bf] con; use h False in \<open>auto intro!: Q ok ex\<close>)
  next
    case True
    then have nz: "\<not> sf \<noteq> 0" by simp
    show ?thesis
      unfolding encode_boundary_def Let_def ns stMemLTbl_def diff if_not_P[OF nz]
      by (intro wp searchCodebook_wp[OF bf] con for_up_inv[where I = "\<lambda>r :: float32 list. length r = 240"]
         for_up_inv[where I = "\<lambda>q. soff q = 0 \<and> length (sdata q) = 240"]; use h True in \<open>auto simp: similar_def intro!: Q ok ex\<close>)
  qed
qed

lemma encode_backward_wp:
  assumes e: "enc_ok m e" and an: "analysis_ok e an" and cd: "coding_ok j cd" and mem: "length mem = 147"
    and j: "0 \<le> j" "j < 4" and i: "0 \<le> i" "st < 6" "i < st - 1" and l: "length rr = 240" "length rd = 240"
    and Q: "\<And>cd r m. coding_ok (j + 1) cd \<Longrightarrow> length r = 240 \<Longrightarrow> length m = 147 \<Longrightarrow> Q (cd, r, m, j + 1)"
  shows "spec E Q (encode_backward e an rr st i (cd, rd, mem, j))"
proof -
  note c = enc_ok_cases[OF e]
  have lt: "idx memLfTbl j = Ok 147"
    using j by (auto simp: idx_def memLfTbl_def less_Suc_eq numeral_eq_Suc nth_Cons' nat_less_iff)
  have bf: "block_fits e 147 40 (j + 1)" using c j by (auto simp: block_fits_def)
  have len: "length (cd_cbIndex cd) = 12" "length (cd_gainIndex cd) = 12"
    using cd by (auto simp: coding_ok_def blocks_ok_def)
  show ?thesis
    unfolding encode_backward_def prod.case Let_def lt bnd.simps
  proof (rule spec_bndI, rule searchCodebook_wp[OF bf])
    fix ci gi
    assume p: "patched (soff (mk (cd_cbIndex cd) (j * 3))) 3 (stage_index 40 (j + 1)) (sdata (mk (cd_cbIndex cd) (j * 3))) ci"
      "patched (soff (mk (cd_gainIndex cd) (j * 3))) 3 gain_range (sdata (mk (cd_gainIndex cd) (j * 3))) gi"
    have ok: "coding_ok (j + 1) (cd\<lparr>cd_cbIndex := ci, cd_gainIndex := gi\<rparr>)"
      using cd p stage_entries[OF j(1)] by (auto simp: coding_ok_def intro: blocks_ok_step)
    show "spec E Q (case (ci, gi) of (ci, gi) \<Rightarrow>
       bnd (constructCodebook (mk rd (i * 40)) (mk ci (j * 3)) (mk gi (j * 3)) (codebook_mem mem 147) 147 40 3) (\<lambda>rd.
       bnd (sub rd (i * 40) (i * 40 + 40)) (\<lambda>xs.
       bnd (mem_shift mem xs) (\<lambda>mem.
       Ok (cd\<lparr>cd_cbIndex := ci, cd_gainIndex := gi\<rparr>, rd, mem, j + 1)))))"
      unfolding prod.case
      by (intro wp construct_found_wp[OF p[simplified]]) (use len mem j i c ok Q l in auto)
  qed (use an c i j len mem l in \<open>auto simp: analysis_ok_def\<close>)
qed

lemma encode_reverse_wp [wp]:
  assumes "length res = 240" "length dec = 240" "0 \<le> nback" "nback < st" "st < 6"
    and "\<And>a b. length a = 240 \<Longrightarrow> length b = 240 \<Longrightarrow> Q (a, b)"
  shows "spec E Q (encode_reverse res dec st nback)"
  unfolding encode_reverse_def
  by (intro wp for_up_inv[where I = "\<lambda>(a :: float32 list, b :: float32 list). length a = 240 \<and> length b = 240"])
    (use assms in auto)

lemma encode_rest_wp:
  assumes e: "enc_ok m e" and an: "analysis_ok e an" and cd: "coding_ok 0 cd" and mem: "length mem = 147"
    and st: "1 \<le> st" "st < e_subframes e"
    and Q: "\<And>cd. coding_ok (e_subframes e - 2) cd \<Longrightarrow> Q cd"
  shows "spec E Q (encode_rest e an st (cd, mem))"
proof -
  note c = enc_ok_cases[OF e]
  define F where "F i t = (case t of (cd, m, j) \<Rightarrow> coding_ok j cd \<and> length m = 147 \<and> j = i)"
    for i :: int and t :: "coding \<times> float32 list \<times> int"
  define B where "B b i t = (case t of (cd, r, m, j) \<Rightarrow> coding_ok j cd \<and> length r = 240 \<and> length m = 147 \<and> j = b + i)"
    for b i :: int and t :: "coding \<times> float32 list \<times> float32 list \<times> int"
  have fwd: "spec E (F (i + 1)) (encode_forward e an st i t)"
    if "F i t" "0 \<le> i" "i < e_subframes e - st - 1" for i t
    using that st c by (cases t) (auto simp: F_def intro!: encode_forward_wp[OF e an])
  have bwd: "spec E (B b (i + 1)) (encode_backward e an rr st i t)"
    if "B b i t" "0 \<le> i" "i < st - 1" "0 \<le> b" "b + i < 4" "length rr = 240" for b i t rr
    using that st c by (cases t) (auto simp: B_def intro!: encode_backward_wp[OF e an])
  have len: "length (cd_decresidual cd) = 240" if "coding_ok j cd" for j cd using that by (simp add: coding_ok_def)
  have upd_dec: "coding_ok j (cd\<lparr>cd_decresidual := d\<rparr>)" if "coding_ok j cd" "length d = 240" for j cd d
    using that by (simp add: coding_ok_def)
  have res: "length (an_residual an) = 240" using an by (simp add: analysis_ok_def)
  have back_part: "spec E Q (if 0 < st - 1 then
       bnd (encode_reverse (an_residual an) (cd_decresidual cd) st (st - 1)) (\<lambda>(rr, rd).
       bnd (mem_reverse mem (mk (cd_decresidual cd) 0) ((st - 1) * 40)
         (if 147 < 40 * (e_subframes e + 1 - st) then 147 else 40 * (e_subframes e + 1 - st))) (\<lambda>mem.
       bnd (for_up 0 (st - 1) (encode_backward e an rr st) (cd, rd, mem, j))
         (\<lambda>(cd, rd, mem, subcount).
       bnd (for_up 0 (40 * (st - 1)) (\<lambda>i dec.
         bnd (idx rd i) (\<lambda>x. upd dec (40 * (st - 1) - i - 1) x)) (cd_decresidual cd)) (\<lambda>dec.
       Ok (cd\<lparr>cd_decresidual := dec\<rparr>)))))
      else Ok cd)"
    if "coding_ok j cd" "length mem = 147" "j = max 0 (e_subframes e - st - 1)" for cd mem j
    by (intro wp for_up_idx[where I = "B j"] bwd for_up_inv[where I = "\<lambda>d :: float32 list. length d = 240"])
      (use that st c len[OF that(1)] len res Q upd_dec in \<open>auto simp: B_def\<close>)
  have front: "spec E (\<lambda>(cd', m, j). coding_ok j cd' \<and> length m = 147 \<and> j = max 0 (e_subframes e - st - 1))
      (if 0 < e_subframes e - st - 1 then
         bnd (clear_sub mem 0 67) (\<lambda>mem.
         bnd (sub (cd_decresidual cd) ((st - 1) * 40) ((st - 1) * 40 + 80)) (\<lambda>xs.
         bnd (copy_sub mem 67 147 xs) (\<lambda>mem.
         for_up 0 (e_subframes e - st - 1) (encode_forward e an st) (cd, mem, 0))))
       else Ok (cd, mem, 0))"
    by (intro wp for_up_idx[where I = F] fwd) (use cd len[OF cd] mem st c in \<open>auto simp: F_def\<close>)
  show ?thesis
    unfolding encode_rest_def Let_def prod.case
    by (rule spec_bndI, rule spec_mono[OF front], clarify, rule back_part) auto
qed

section \<open>The start state\<close>

lemma state_energy_wp [wp]:
  "0 \<le> p \<Longrightarrow> p + n \<le> int (length r) \<Longrightarrow> (\<And>x. Q x) \<Longrightarrow> spec E Q (state_energy r p n)"
  unfolding state_energy_def by (intro wp for_up_inv[where I = "\<lambda>_. True"]) auto

lemma state_position_wp:
  assumes "enc_ok m e" "length r = 240" "1 \<le> st" "st < e_subframes e"
    and "\<And>sf. sf = 0 \<or> sf = 1 \<Longrightarrow> Q (sf, if sf \<noteq> 0 then (st - 1) * 40 else (st - 1) * 40 + (80 - e_shortStateSamples e))"
  shows "spec E Q (state_position e r st)"
  unfolding state_position_def Let_def
  by (intro wp) (use assms enc_ok_cases[OF assms(1)] assms(5)[of 0] assms(5)[of 1] in \<open>auto\<close>)

end
