(* ===== verification/EncoderFrame.thy ===== *)
theory EncoderFrame
  imports Codec EncoderSafe
begin

text \<open>
  \<open>encodeFrame\<close> as a whole: the indices it computes fit the fields of the bitstream, the start
  state is inside the frame and the last bit is clear, so that the decoder takes the packet for
  an intact frame and reads back the very indices the encoder chose.
\<close>

section \<open>The indices fit their fields\<close>

text \<open>The entries of the arrays that the mode does not use.\<close>

fun unused :: "int \<Rightarrow> int \<Rightarrow> int \<Rightarrow> field \<Rightarrow> bool" where
  "unused nl ns na (FLsf k) = (3 * nl \<le> k)"
| "unused nl ns na (FState k) = (ns \<le> k)"
| "unused nl ns na (FCb k) = (3 * na \<le> k)"
| "unused nl ns na (FGain k) = (3 * na \<le> k)"
| "unused nl ns na _ = False"

text \<open>The bounds of the others; the start index is one of the subframes.\<close>

definition written_limit :: "int \<Rightarrow> field \<Rightarrow> int" where
  "written_limit na x = (if x = FStart then (if na = 2 then 4 else 6) else field_limit x)"

definition slots_hold :: "int \<Rightarrow> int \<Rightarrow> int \<Rightarrow> slot list \<Rightarrow> bool" where
  "slots_hold nl ns na sl \<longleftrightarrow> list_all (\<lambda>(x, ws). \<not> unused nl ns na x \<and> written_limit na x \<le> 2 ^ rem_bits ws 0) sl \<and>
     list_all (\<lambda>x. unused nl ns na x \<or> x \<in> fst ` set sl) all_fields"

lemma slots20_hold: "slots_hold 1 57 2 (slots ulp20Table 1 57 2)"
  by code_simp

lemma slots30_hold: "slots_hold 2 58 4 (slots ulp30Table 2 58 4)"
  by code_simp

definition indices_fit :: "int \<Rightarrow> int \<Rightarrow> int \<Rightarrow> frame \<Rightarrow> bool" where
  "indices_fit nl ns na fr \<longleftrightarrow> frame_shape fr \<and>
     (\<forall>x. fvalid x \<longrightarrow> (if unused nl ns na x then fget fr x = 0 else 0 \<le> fget fr x \<and> fget fr x < written_limit na x))"

lemma indices_fit_frame_ok:
  assumes "slots_hold nl ns na sl" "slots_ok sl" "indices_fit nl ns na fr"
  shows "frame_ok sl fr"
proof (rule frame_okI)
  show "frame_shape fr" using assms(3) by (simp add: indices_fit_def)
  show "fget fr x = 0" if "fvalid x" "x \<notin> fst ` set sl" for x
    using that assms(1,3) set_all_fields[of x] by (auto simp: indices_fit_def slots_hold_def list_all_iff)
  show "in_range fr sl 0"
    unfolding in_range_def
  proof clarify
    fix x ws assume s: "(x, ws) \<in> set sl"
    have "\<not> unused nl ns na x" "written_limit na x \<le> 2 ^ rem_bits ws 0" "fvalid x"
      using s assms(1,2) by (auto simp: slots_hold_def list_all_iff slots_ok_def)
    then show "0 \<le> fget fr x \<and> fget fr x < 2 ^ rem_bits ws 0"
      using assms(3) by (fastforce simp: indices_fit_def)
  qed
qed

lemma blocks_okD:
  "blocks_ok R j xs \<Longrightarrow> 0 \<le> k \<Longrightarrow> k < 12 \<Longrightarrow> if k < 3 * j then R k (xs ! nat k) else xs ! nat k = 0"
  by (simp add: blocks_ok_def)

lemma found_fit:
  assumes lsf: "length ls = 6" "lsf_indices_ok (3 * nl) ls" "\<forall>k < 6. 3 * nl \<le> int k \<longrightarrow> ls ! k = 0"
    and st: "1 \<le> st" "st < (if na = 2 then 4 else 6)" and sf: "sf = 0 \<or> sf = 1" and k: "0 \<le> k" "k < 64"
    and iv: "state_indices ns (replicate 80 0) iv" and cd: "coding_ok na cd" and na: "1 \<le> na"
    and ci: "ci = (cd_cbIndex cd)[1 := enc_conv (cd_cbIndex cd ! 1), 2 := enc_conv (cd_cbIndex cd ! 2)]"
  shows "indices_fit nl ns na \<lparr>lsfI = ls, start = st, stateFirst = sf, idxForMax = k, idxVec = iv,
      extraCbIndex = cd_extraCb cd, extraGainIndex = cd_extraGain cd, cbIndex = ci, gainIndex = cd_gainIndex cd\<rparr>"
    (is "indices_fit nl ns na ?fr")
proof -
  have cb: "blocks_ok cb_entry na (cd_cbIndex cd)" "blocks_ok gain_entry na (cd_gainIndex cd)"
    "extra_ok (cd_extraCb cd) (cd_extraGain cd)" using cd by (simp_all add: coding_ok_def)
  have len: "length (cd_cbIndex cd) = 12" "length (cd_gainIndex cd) = 12" using cb by (simp_all add: blocks_ok_def)
  have ivj: "if j < ns then 0 \<le> iv ! nat j \<and> iv ! nat j < 8 else iv ! nat j = 0" if "0 \<le> j" "j < 80" for j
  proof -
    have "nat j < 80" "int (nat j) = j" using that by auto
    then show ?thesis using iv unfolding state_indices_def by (metis nth_replicate)
  qed
  have ex: "0 \<le> cd_extraCb cd ! nat j \<and> cd_extraCb cd ! nat j < 128 \<and> 0 \<le> cd_extraGain cd ! nat j \<and>
      cd_extraGain cd ! nat j < 2 ^ nat (5 - j)" if "0 \<le> j" "j < 3" for j
  proof -
    have "nat j < 3" "5 - nat j = nat (5 - j)" using that by auto
    then show ?thesis using cb(3) unfolding extra_ok_def by metis
  qed
  have "if unused nl ns na x then fget ?fr x = 0 else 0 \<le> fget ?fr x \<and> fget ?fr x < written_limit na x" if v: "fvalid x" for x
  proof (cases x)
    case (FLsf j)
    then have "3 * nl \<le> j \<Longrightarrow> ls ! nat j = 0" "j < 3 * nl \<Longrightarrow> 0 \<le> ls ! nat j \<and> ls ! nat j < lsf_ranges ! nat j"
      using v lsf(3)[rule_format, of "nat j"] lsf(2) by (simp_all add: lsf_indices_ok_def nat_less_iff)
    then show ?thesis using FLsf by (simp add: written_limit_def)
  next
    case (FState j)
    then show ?thesis using v ivj[of j] by (simp add: written_limit_def split: if_splits)
  next
    case (FExtraCb j)
    then show ?thesis using v ex[of j] by (simp add: written_limit_def)
  next
    case (FExtraGain j)
    then show ?thesis using v ex[of j] by (simp add: written_limit_def)
  next
    case (FCb j)
    have e: "if j < 3 * na then cb_entry j (cd_cbIndex cd ! nat j) else cd_cbIndex cd ! nat j = 0"
      using v FCb blocks_okD[OF cb(1), of j] by simp
    show ?thesis
    proof (cases "j = 1 \<or> j = 2")
      case True
      then have "fget ?fr x = enc_conv (cd_cbIndex cd ! nat j)" using FCb len by (auto simp: ci)
      then show ?thesis
        using True FCb e na dec_enc_conv[of "cd_cbIndex cd ! nat j"] by (auto simp: written_limit_def cb_entry_def)
    next
      case False
      then have "nat j \<noteq> 1" "nat j \<noteq> 2" by auto
      then have "fget ?fr x = cd_cbIndex cd ! nat j" using FCb by (simp add: ci)
      then show ?thesis using False FCb e by (auto simp: written_limit_def cb_entry_def split: if_splits)
    qed
  next
    case (FGain j)
    then show ?thesis
      using v blocks_okD[OF cb(2), of j] by (auto simp: written_limit_def gain_entry_def gain_range_def)
  qed (use st sf k in \<open>auto simp: written_limit_def\<close>)
  moreover have "frame_shape ?fr" using lsf iv cb len by (simp add: frame_shape_def ci state_indices_def extra_ok_def)
  ultimately show ?thesis unfolding indices_fit_def by blast
qed

section \<open>The indices of a frame\<close>

lemma encode_analysis_wp:
  assumes e: "enc_ok m e" and b: "soff b = 0" "length (sdata b) = 240"
    and Q: "\<And>an e'. analysis_ok e' an \<Longrightarrow> enc_ok m e' \<Longrightarrow> Q (an, e')"
  shows "spec E Q (encode_analysis P b e)"
proof -
  note c = enc_ok_cases[OF e]
  have upd1: "enc_ok m (e\<lparr>hpimem := hm\<rparr>)" if "length hm = 4" for hm using e that by (simp add: enc_ok_def enc_consts_def)
  have upd2: "enc_ok m (e'\<lparr>anaMem := am\<rparr>)" if "enc_ok m e'" "length am = 10" for e' am
    using that by (simp add: enc_ok_def enc_consts_def)
  have len: "length (hpimem e) = 4" using e by (simp add: enc_ok_def)
  have same: "e_lpcAnalyses e' = e_lpcAnalyses e" if "enc_ok m e'" for e'
    using that e by (auto simp: enc_ok_def enc_consts_def)
  have filt: "spec E R (for_up 0 (e_subframes e') (\<lambda>n (residual, mem).
       anaFilter (mk data (n * 40)) (mk synt (n * 11)) 40 (mk residual (n * 40)) (mk mem 0)) (replicate 240 0, anaMem e'))"
    if "enc_ok m e'" "length data = 240" "length synt = 66" "\<And>r am. length r = 240 \<Longrightarrow> length am = 10 \<Longrightarrow> R (r, am)"
    for e' data synt R
    using that(1)[THEN enc_ok_cases(1)] that
    by (intro wp for_up_inv[where I = "\<lambda>(r :: float32 list, am :: float32 list). length r = 240 \<and> length am = 10"])
      (auto simp: enc_ok_def)
  show ?thesis
    unfolding encode_analysis_def Let_def
    by (intro wp filt encodeLPC_wp[OF upd1])
      (use b c(3,4) len upd2 same in \<open>auto simp: analysis_ok_def intro!: Q\<close>)
qed

text \<open>What \<open>encode_indices\<close> guarantees about the indices.\<close>

definition indices_found :: "encoderState \<Rightarrow> frame \<Rightarrow> bool" where
  "indices_found e fr \<longleftrightarrow> 1 \<le> start fr \<and> start fr < e_subframes e \<and>
     indices_fit (e_lpcAnalyses e) (e_shortStateSamples e) (e_adaptiveSubframes e) fr"

lemma enc_ok_adaptive:
  "enc_ok m e \<Longrightarrow> e_adaptiveSubframes e = e_subframes e - 2 \<and> (if e_adaptiveSubframes e = 2 then 4 else 6) = e_subframes e \<and>
     1 \<le> e_adaptiveSubframes e"
  by (auto simp: enc_ok_def enc_consts_def)

lemma convertEncoderIndices_wp:
  assumes "3 \<le> length xs" "Q (xs[1 := enc_conv (xs ! 1), 2 := enc_conv (xs ! 2)])"
  shows "spec E Q (convertEncoderIndices (mk xs 0))"
  using assms by (simp add: convertEncoder_eq)

lemma state_indices_set:
  assumes "state_indices n (replicate 80 0) iv"
  shows "length iv = 80" "k \<in> set iv \<Longrightarrow> 0 \<le> k \<and> k < 8"
  using assms by (auto simp: state_indices_def in_set_conv_nth) (metis less_irrefl nth_replicate zero_less_numeral linorder_not_less order_refl)+

lemma blocks_ok_zero [simp]: "blocks_ok R 0 (replicate 12 0)"
  by (auto simp: blocks_ok_def nat_less_iff)

lemma enc_ok_sizes:
  "enc_ok m e \<Longrightarrow> e_subframes e = 4 \<and> e_shortStateSamples e = 57 \<or> e_subframes e = 6 \<and> e_shortStateSamples e = 58"
  by (auto simp: enc_ok_def enc_consts_def)

lemma encode_indices_wp:
  assumes e: "enc_ok m e" and b: "soff b = 0" "length (sdata b) = 240"
    and Q: "\<And>fr dec e'. indices_found e' fr \<Longrightarrow> length dec = 240 \<Longrightarrow> enc_ok m e' \<Longrightarrow> Q (fr, dec, e')"
  shows "spec nan_panic Q (encode_indices P b e)"
proof -
  have fin: "indices_found e' \<lparr>lsfI = an_lsfI an, start = st, stateFirst = sf, idxForMax = k, idxVec = iv,
          extraCbIndex = cd_extraCb cd, extraGainIndex = cd_extraGain cd,
          cbIndex = (cd_cbIndex cd)[1 := enc_conv (cd_cbIndex cd ! 1), 2 := enc_conv (cd_cbIndex cd ! 2)],
          gainIndex = cd_gainIndex cd\<rparr>"
    if "enc_ok m e'" "analysis_ok e' an" "1 \<le> st" "st < e_subframes e'" "sf = 0 \<or> sf = 1" "0 \<le> k" "k < 64"
      "state_indices (e_shortStateSamples e') (replicate 80 0) iv" "coding_ok (e_subframes e' - 2) cd" for e' an st sf k iv cd
    unfolding indices_found_def
  proof (intro conjI)
    show "indices_fit (e_lpcAnalyses e') (e_shortStateSamples e') (e_adaptiveSubframes e')
       \<lparr>lsfI = an_lsfI an, start = st, stateFirst = sf, idxForMax = k, idxVec = iv,
          extraCbIndex = cd_extraCb cd, extraGainIndex = cd_extraGain cd,
          cbIndex = (cd_cbIndex cd)[1 := enc_conv (cd_cbIndex cd ! 1), 2 := enc_conv (cd_cbIndex cd ! 2)],
          gainIndex = cd_gainIndex cd\<rparr>"
      by (rule found_fit) (use that enc_ok_adaptive[OF that(1)] in \<open>auto simp: analysis_ok_def\<close>)
  qed (use that in simp_all)
  have cbl: "length (cd_cbIndex cd) = 12" "length (cd_decresidual cd) = 240" if "coding_ok j cd" for j cd
    using that by (simp_all add: coding_ok_def blocks_ok_def)
  have adj: "length (an_residual an) = 240" "length (an_syntdenum an) = 66" "length (an_weightdenum an) = 66" if "analysis_ok e' an" for e' an
    using that by (simp_all add: analysis_ok_def)
  show ?thesis
    unfolding encode_indices_def Let_def
    by (intro spec_bndI spec_case_prod spec_OkI encode_analysis_wp[OF e b] frameClassify_wp[where m = m]
        state_position_wp[where m = m] stateSearchW_wp stateConstructW_wp encode_boundary_wp[where m = m]
        encode_rest_wp[where m = m] convertEncoderIndices_wp; (elim Pair_inject)?; (hypsubst)?;
       (use adj cbl state_indices_set fin Q in \<open>auto dest: enc_ok_sizes\<close>))
qed

section \<open>The packet\<close>

lemma enc_ok_mode:
  assumes "enc_ok m e"
  shows "mode_of m = Some (e_ulp e, e_lpcAnalyses e, e_shortStateSamples e, e_adaptiveSubframes e, nat (e_frameBytes e))"
    "slots_hold (e_lpcAnalyses e) (e_shortStateSamples e) (e_adaptiveSubframes e)
      (slots (e_ulp e) (e_lpcAnalyses e) (e_shortStateSamples e) (e_adaptiveSubframes e))"
  using assms slots20_hold slots30_hold by (auto simp: enc_ok_def enc_consts_def mode_of_def)

lemma enc_ok_frame_ok:
  assumes "enc_ok m e" "indices_found e fr"
  shows "frame_ok (slots (e_ulp e) (e_lpcAnalyses e) (e_shortStateSamples e) (e_adaptiveSubframes e)) fr"
  using indices_fit_frame_ok[OF enc_ok_mode(2) mode_slots(1)[OF enc_ok_mode(1)]] assms
  by (auto simp: indices_found_def)

text \<open>The packet reads back as the indices \<open>fr\<close>, with the last bit clear.\<close>

definition carries :: "int \<Rightarrow> byte list \<Rightarrow> frame \<Rightarrow> bool" where
  "carries m packet fr \<longleftrightarrow> (case mode_of m of None \<Rightarrow> False | Some (L, nl, ns, na, n) \<Rightarrow>
     length packet = n \<and> unpackFrame L nl ns na packet = Ok (fr, 0))"

lemma packFrame_wp:
  assumes e: "enc_ok m e" and fr: "indices_found e fr" and b: "int (length bytes) = e_frameBytes e"
    and Q: "\<And>out. carries m out fr \<Longrightarrow> Q out"
  shows "spec E Q (packFrame (e_ulp e) (e_lpcAnalyses e) (e_shortStateSamples e) (e_adaptiveSubframes e) fr bytes)"
proof -
  note m = enc_ok_mode(1)[OF e] note ok = enc_ok_frame_ok[OF e fr]
  obtain out where out: "packFrame (e_ulp e) (e_lpcAnalyses e) (e_shortStateSamples e) (e_adaptiveSubframes e) fr bytes = Ok out"
    "length out = nat (e_frameBytes e)" "stream_bits out = frame_bits fr (slots (e_ulp e) (e_lpcAnalyses e)
       (e_shortStateSamples e) (e_adaptiveSubframes e)) @ [False]"
    using pack_frame_bits[OF m ok] b by force
  have "carries m out fr" using unpack_frame_bits[OF m ok out(3)] out(2) m by (simp add: carries_def)
  then show ?thesis using out(1) Q by simp
qed

lemma encodeFrame_wp:
  assumes e: "enc_ok m e" and b: "soff b = 0" "length (sdata b) = 240" "int (length bytes) = e_frameBytes e"
    and Q: "\<And>out fr e'. carries m out fr \<Longrightarrow> indices_found e' fr \<Longrightarrow> enc_ok m e' \<Longrightarrow> Q (out, e')"
  shows "spec nan_panic Q (encodeFrame P bytes b e)"
proof -
  have same: "e_frameBytes e' = e_frameBytes e" if "enc_ok m e'" for e'
    using that e by (auto simp: enc_ok_def enc_consts_def)
  show ?thesis
    unfolding encodeFrame_def
    by (intro spec_bndI encode_indices_wp[OF e b(1,2)] spec_case_prod spec_OkI packFrame_wp[where m = m];
        (elim Pair_inject)?; (hypsubst)?; (use b(3) same Q in auto))
qed

section \<open>Initialisation\<close>

definition enc_arrays :: "encoderState \<Rightarrow> bool" where
  "enc_arrays e \<longleftrightarrow> length (anaMem e) = 10 \<and> length (lsfold e) = 10 \<and> length (e_lsfdeqold e) = 10 \<and>
     length (lpcBuffer e) = 300 \<and> length (hpimem e) = 4"

lemma enc_ok_arrays: "enc_ok m e \<Longrightarrow> enc_arrays e"
  by (simp add: enc_ok_def enc_arrays_def)

lemma zero_encoder_arrays: "enc_arrays zero_encoder"
  by (simp add: enc_arrays_def zero_encoder_def)

text \<open>\<open>initEncode\<close> overwrites every field, so what it leaves depends only on the mode.\<close>

lemma initEncode_eq:
  assumes "enc_arrays e"
  shows "initEncode e m = bnd (if m = 30 then Ok (240, 6, 4, 2, 50, 25, 58, ulp30Table)
      else if m = 20 then Ok (160, 4, 2, 1, 38, 19, 57, ulp20Table)
      else Panic (ExplicitPanic ''ilbc: invalid internal mode''))
      (\<lambda>(fs, nsub, na, nl, nb, nw, ns, L).
       Ok (word_of_int nb, \<lparr>e_mode = m, e_frameSamples = fs, e_subframes = nsub, e_adaptiveSubframes = na,
         e_frameBytes = nb, e_frameWords = nw, e_lpcAnalyses = nl, e_shortStateSamples = ns, e_ulp = L,
         anaMem = replicate 10 0, lsfold = lsfmeanTbl, e_lsfdeqold = lsfmeanTbl,
         lpcBuffer = replicate 300 0, hpimem = replicate 4 0\<rparr>))"
  using assms unfolding initEncode_def enc_arrays_def by (cases e) simp

lemma initEncode_fresh: "enc_arrays e \<Longrightarrow> initEncode e m = initEncode zero_encoder m"
  by (simp only: initEncode_eq zero_encoder_arrays)

lemma initEncode_ok:
  assumes "enc_arrays e" "m = 20 \<or> m = 30"
  shows "\<exists>w e'. initEncode e m = Ok (w, e') \<and> enc_ok m e'"
  using assms(2) unfolding initEncode_eq[OF assms(1)] by (auto simp: enc_ok_def enc_consts_def)

end
