(* ===== verification/EncoderStream.thy ===== *)
theory EncoderStream
  imports DecoderStream EncoderFrame
begin

text \<open>
  An encoder over its lifetime: the states that calls of \<open>NewEncoder\<close>, \<open>Encode\<close> and \<open>Reset\<close> can
  reach and what every such call returns.
\<close>

section \<open>Calls of an encoder\<close>

inductive enc_reach :: "platform \<Rightarrow> int \<Rightarrow> encoderState \<Rightarrow> bool" for P m where
  new: "NewEncoder m = Ok (Inr e) \<Longrightarrow> enc_reach P m e"
| encode: "enc_reach P m e \<Longrightarrow> Encode P e dst pcm = Ok (err, dst', e') \<Longrightarrow> enc_reach P m e'"
| reset: "enc_reach P m e \<Longrightarrow> Encoder_Reset e = Ok (err, e') \<Longrightarrow> enc_reach P m e'"

lemma enc_ok_api:
  assumes "enc_ok m e"
  shows "e_mode e = m" "e_mode e \<noteq> 0" "e_frameSamples e = int (frame_samples m)"
    "e_frameBytes e = int (frame_bytes m)" "m = 20 \<or> m = 30"
  using assms by (auto simp: enc_ok_def enc_consts_def frame_samples_def frame_bytes_def)

lemma NewEncoder_ok:
  assumes "m = 20 \<or> m = 30"
  shows "\<exists>e. NewEncoder m = Ok (Inr e) \<and> enc_ok m e"
  using initEncode_ok[OF zero_encoder_arrays assms] assms by (auto simp: NewEncoder_def)

lemma Encoder_Reset_fresh:
  assumes "enc_ok m e"
  shows "\<exists>e0. NewEncoder m = Ok (Inr e0) \<and> Encoder_Reset e = Ok (None, e0)"
  using NewEncoder_ok[of m] enc_ok_api[OF assms] initEncode_fresh[OF enc_ok_arrays[OF assms], of m]
  by (auto simp: NewEncoder_def Encoder_Reset_def bnd_eq_Ok split: if_splits)

lemma pcm_block_wp [wp]:
  "length pcm \<le> 240 \<Longrightarrow> (\<And>b. length b = 240 \<Longrightarrow> Q b) \<Longrightarrow> spec E Q (pcm_block pcm)"
  unfolding pcm_block_def
  by (intro wp for_up_inv[where I = "\<lambda>b :: float32 list. length b = 240"]) auto

lemma same_tail_blit:
  "length xs = n \<Longrightarrow> n \<le> length dst \<Longrightarrow> same_tail n dst (blit dst 0 xs) \<and> take n (blit dst 0 xs) = xs"
  by (auto simp: same_tail_def blit_def)

lemma accepted_encode:
  assumes e: "enc_ok m e" and n: "length pcm = frame_samples m" "frame_bytes m \<le> length dst"
  shows "spec nan_panic (\<lambda>(err, out, e'). err = None \<and> same_tail (frame_bytes m) dst out \<and>
    (\<exists>fr. carries m (take (frame_bytes m) out) fr \<and> indices_found e' fr) \<and> enc_ok m e') (Encode P e dst pcm)"
proof -
  note a = enc_ok_api[OF e]
  have l: "length out = frame_bytes m" if "carries m out fr" for out fr
    using that a(5) by (auto simp: carries_def mode_of_def frame_bytes_def split: if_splits)
  have p: "length pcm \<le> 240" using n(1) by (simp add: frame_samples_def)
  have "sub dst 0 (int (frame_bytes m)) = Ok (take (frame_bytes m) dst)" using n(2) by simp
  then have enc: "Encode P e dst pcm = bnd (pcm_block pcm) (\<lambda>block.
      bnd (encodeFrame P (take (frame_bytes m) dst) (mk block 0) e) (\<lambda>(bytes, e'). Ok (None, blit dst 0 bytes, e')))"
    using a n by (simp add: Encode_def)
  have fin: "\<exists>fr. carries m (take (frame_bytes m) (blit dst 0 out)) fr \<and> indices_found e' fr"
    "same_tail (frame_bytes m) dst (blit dst 0 out)" if "carries m out fr" "indices_found e' fr" for out fr e'
    using same_tail_blit[OF l[OF that(1)] n(2)] that by auto
  show ?thesis
    unfolding enc
    by (intro spec_bndI pcm_block_wp[OF p] encodeFrame_wp[OF e]) (use a n fin in auto)
qed

lemma Encode_spec:
  assumes e: "enc_ok m e"
  shows "spec nan_panic (\<lambda>(err, out, e'). enc_ok m e' \<and> same_tail (frame_bytes m) dst out \<and>
    err = (if length pcm \<noteq> frame_samples m then Some ErrPCMSize
           else if length dst < frame_bytes m then Some ErrShortBuffer else None) \<and>
    (case err of Some _ \<Rightarrow> out = dst \<and> e' = e
     | None \<Rightarrow> \<exists>fr. carries m (take (frame_bytes m) out) fr \<and> indices_found e' fr)) (Encode P e dst pcm)"
proof (cases "length pcm = frame_samples m \<and> frame_bytes m \<le> length dst")
  case True
  then show ?thesis by (intro spec_mono[OF accepted_encode[OF e]]) auto
next
  case False
  have "same_tail k dst dst" for k by (simp add: same_tail_def)
  then show ?thesis using False enc_ok_api[OF e] e by (auto simp: Encode_def)
qed

lemma enc_reach_ok: "enc_reach P m e \<Longrightarrow> enc_ok m e"
proof (induction rule: enc_reach.induct)
  case (new e)
  then have "m = 20 \<or> m = 30" by (auto simp: NewEncoder_def split: if_splits)
  then show ?case using NewEncoder_ok[of m] new by auto
next
  case (encode e dst pcm err dst' e')
  then show ?case using Encode_spec[OF encode.IH, of dst pcm P] by auto
next
  case (reset e err e')
  then show ?case using NewEncoder_ok[of m] Encoder_Reset_fresh[OF reset.IH] enc_ok_api[OF reset.IH] by auto
qed

text \<open>A packet the encoder wrote is an intact frame for every decoder of the mode.\<close>

lemma carries_accepted:
  assumes d: "dec_ok m en d" and c: "carries m packet fr" and fr: "indices_found e fr" "enc_ok m e"
  shows "length packet = frame_bytes m \<and> frame_mode d fr 0 1 = 1 \<and>
    unpackFrame (d_ulp d) (d_lpcAnalyses d) (d_shortStateSamples d) (d_adaptiveSubframes d) packet = Ok (fr, 0)"
proof -
  note z = dec_ok_sizes[OF d]
  have m: "mode_of m = Some (d_ulp d, d_lpcAnalyses d, d_shortStateSamples d, d_adaptiveSubframes d, nat (d_frameBytes d))"
    using d by (simp add: dec_ok_def mode_consts_def)
  have "start fr \<le> 5" "1 \<le> start fr" using fr enc_ok_sizes[OF fr(2)] by (auto simp: indices_found_def)
  then show ?thesis using c m z by (auto simp: carries_def frame_mode_def Let_def)
qed

section \<open>The properties\<close>

text \<open>C19: \<open>Encode\<close> in every reachable state, for every input: a frame of the wrong size or a short
  buffer gives the right error and changes nothing.  Otherwise it succeeds, writes exactly one
  packet, and the packet carries indices that fit its fields, with the start state inside the
  frame and the last bit clear.  The only possible panic is the index -1 in a run of the
  start-state quantiser \<open>sortSq\<close> whose argument is not a number (the panic carries the argument);
  no other access is ever out of bounds.\<close>

theorem encode_outcome:
  assumes "enc_reach P m e"
  shows "spec nan_panic (\<lambda>(err, out, e'). enc_reach P m e' \<and> same_tail (frame_bytes m) dst out \<and>
    err = (if length pcm \<noteq> frame_samples m then Some ErrPCMSize
           else if length dst < frame_bytes m then Some ErrShortBuffer else None) \<and>
    (case err of Some _ \<Rightarrow> out = dst \<and> e' = e
     | None \<Rightarrow> \<exists>fr. carries m (take (frame_bytes m) out) fr \<and> indices_found e' fr)) (Encode P e dst pcm)"
  using Encode_spec[OF enc_reach_ok[OF assms], of dst pcm P] enc_reach.encode[OF assms, of dst pcm]
  by (cases "Encode P e dst pcm") auto

theorem encode_outcome_witness:
  "\<forall>P. \<exists>e. NewEncoder 20 = Ok (Inr e) \<and>
     spec nan_panic (\<lambda>(err, out, e'). err = None \<and> same_tail 38 (replicate 40 7) out \<and>
       (\<exists>fr. carries 20 (take 38 out) fr)) (Encode P e (replicate 40 7) (replicate 160 1000))"
proof
  fix P
  obtain e where e: "NewEncoder 20 = Ok (Inr e)" using NewEncoder_ok[of 20] by auto
  have "spec nan_panic (\<lambda>(err, out, e'). err = None \<and> same_tail 38 (replicate 40 7) out \<and>
       (\<exists>fr. carries 20 (take 38 out) fr)) (Encode P e (replicate 40 7) (replicate 160 1000))"
    by (rule spec_mono[OF encode_outcome[OF enc_reach.new[OF e]]]) (auto simp: frame_bytes_def frame_samples_def)
  then show "\<exists>e. NewEncoder 20 = Ok (Inr e) \<and>
     spec nan_panic (\<lambda>(err, out, e'). err = None \<and> same_tail 38 (replicate 40 7) out \<and>
       (\<exists>fr. carries 20 (take 38 out) fr)) (Encode P e (replicate 40 7) (replicate 160 1000))"
    using e by blast
qed

text \<open>A call with a frame of the wrong size or a buffer shorter than a packet never reaches the
  encoder: it returns the error, the buffer and the state untouched.\<close>

lemma encode_rejects:
  assumes "enc_reach P m e" and "length pcm \<noteq> frame_samples m \<or> length dst < frame_bytes m"
  shows "Encode P e dst pcm = Ok (Some (if length pcm \<noteq> frame_samples m then ErrPCMSize else ErrShortBuffer), dst, e)"
  using enc_ok_api[OF enc_reach_ok[OF assms(1)]] assms(2) by (auto simp: Encode_def)

text \<open>C22: \<open>Encoder.Reset\<close> discards the whole history: the state it leaves is the one \<open>NewEncoder\<close>
  makes for the same mode.\<close>

theorem encoder_reset_is_new:
  assumes "enc_reach P m e"
  shows "\<exists>e0. NewEncoder m = Ok (Inr e0) \<and> Encoder_Reset e = Ok (None, e0)"
  using enc_reach_ok[OF assms] by (rule Encoder_Reset_fresh)

theorem encoder_reset_is_new_witness:
  "\<forall>P :: platform. \<exists>e. NewEncoder 20 = Ok (Inr e) \<and> Encoder_Reset e = Ok (None, e)"
proof
  fix P :: platform
  obtain e where e: "NewEncoder 20 = Ok (Inr e)" using NewEncoder_ok[of 20] by auto
  then show "\<exists>e. NewEncoder 20 = Ok (Inr e) \<and> Encoder_Reset e = Ok (None, e)"
    using encoder_reset_is_new[OF enc_reach.new[OF e]] by auto
qed

end
