(* ===== verification/Lockstep.thy ===== *)
theory Lockstep
  imports Lpc Codebook AnalysisSafe
begin

text \<open>
  Two computations in lockstep.  \<open>sync R m n\<close>: whenever \<open>m\<close> returns, so does \<open>n\<close>, with results
  related by \<open>R\<close>.  The rules compose such statements along the structure of the two programs, and
  the decoder's LSF path follows the encoder's by them: it dequantises the very LSFs the encoder
  quantised to and interpolates the same synthesis filters.
\<close>

section \<open>Rules\<close>

definition sync :: "('a \<Rightarrow> 'b \<Rightarrow> bool) \<Rightarrow> 'a res \<Rightarrow> 'b res \<Rightarrow> bool" where
  "sync R m n \<longleftrightarrow> (\<forall>x. m = Ok x \<longrightarrow> (\<exists>y. n = Ok y \<and> R x y))"

lemma sync_OkD: "sync R m n \<Longrightarrow> m = Ok x \<Longrightarrow> \<exists>y. n = Ok y \<and> R x y"
  by (simp add: sync_def)

lemma sync_Ok [simp]: "sync R (Ok x) (Ok y) \<longleftrightarrow> R x y"
  by (simp add: sync_def)

lemma sync_mono: "sync R m n \<Longrightarrow> (\<And>x y. R x y \<Longrightarrow> S x y) \<Longrightarrow> sync S m n"
  by (auto simp: sync_def)

lemma sync_bnd: "sync R m n \<Longrightarrow> (\<And>x y. m = Ok x \<Longrightarrow> R x y \<Longrightarrow> sync S (f x) (g y)) \<Longrightarrow> sync S (bnd m f) (bnd n g)"
  by (cases m; cases n) (auto simp: sync_def)

lemma sync_same: "(\<And>x. m = Ok x \<Longrightarrow> sync S (f x) (g x)) \<Longrightarrow> sync S (bnd m f) (bnd m g)"
  by (cases m) (auto simp: sync_def)

text \<open>A step that only the first program takes, and one that only the second takes and that
  cannot fail.\<close>

lemma sync_left: "(\<And>x. m = Ok x \<Longrightarrow> sync S (f x) n) \<Longrightarrow> sync S (bnd m f) n"
  by (cases m) (auto simp: sync_def)

lemma sync_right: "safe Q n \<Longrightarrow> (\<And>y. Q y \<Longrightarrow> sync S m (g y)) \<Longrightarrow> sync S m (bnd n g)"
  by (cases n) auto

text \<open>What is known of the first result may be used.\<close>

lemma sync_spec: "sync R m n \<Longrightarrow> spec E Q m \<Longrightarrow> sync (\<lambda>x y. R x y \<and> Q x) m n"
  by (cases m) (auto simp: sync_def)

lemma sync_for_up:
  assumes "\<And>i s t. lo \<le> i \<Longrightarrow> i < hi \<Longrightarrow> R i s t \<Longrightarrow> sync (R (i + 1)) (f i s) (g i t)" "R lo s t" "lo \<le> hi"
  shows "sync (R hi) (for_up lo hi f s) (for_up lo hi g t)"
  using assms
proof (induction lo hi f s arbitrary: t rule: for_up.induct)
  case (1 i n body s)
  show ?case
  proof (cases "i < n")
    case True
    show ?thesis
      unfolding for_up_step[OF True]
    proof (rule sync_bnd[OF "1.prems"(1)[OF _ True "1.prems"(2)]])
      fix x y assume "body i s = Ok x" "R (i + 1) x y"
      then show "sync (R n) (for_up (i + 1) n body x) (for_up (i + 1) n g y)"
        using True "1.prems"(1) by (intro "1.IH"[OF True]) auto
    qed simp
  next
    case False
    then show ?thesis using "1.prems" by simp
  qed
qed

section \<open>Interpolation\<close>

text \<open>\<open>lsf2a\<close> overwrites its output, so that the encoder and the decoder get the same filter although
  the encoder uses the same array for its weighting filter.\<close>

definition same_upto :: "int \<Rightarrow> 'a span \<Rightarrow> 'a span \<Rightarrow> bool" where
  "same_upto n p q \<longleftrightarrow> soff p = 0 \<and> soff q = 0 \<and> length (sdata p) = 11 \<and> length (sdata q) = 11 \<and>
     (\<forall>k. 1 \<le> k \<and> k \<le> n \<longrightarrow> sdata p ! nat k = sdata q ! nat k)"

lemma same_upto_store:
  assumes "same_upto j p q" "0 \<le> j" "j < 10"
  shows "sync (same_upto (j + 1)) (store p (j + 1) v) (store q (j + 1) v)"
proof -
  have "same_upto (j + 1) (p\<lparr>sdata := (sdata p)[nat (j + 1) := v]\<rparr>) (q\<lparr>sdata := (sdata q)[nat (j + 1) := v]\<rparr>)"
    using assms by (auto simp: same_upto_def nth_list_update nat_add_distrib)
  then show ?thesis using assms by (simp add: same_upto_def)
qed

lemma same_upto_all:
  assumes "same_upto 10 p q"
  shows "sync (\<lambda>p q. sdata p = sdata q) (store p 0 v) (store q 0 v)"
proof -
  have "(sdata p)[0 := v] = (sdata q)[0 := v]"
  proof (rule nth_equalityI)
    show "(sdata p)[0 := v] ! k = (sdata q)[0 := v] ! k" if "k < length ((sdata p)[0 := v])" for k
    proof (cases k)
      case (Suc m)
      then have "1 \<le> int k" "int k \<le> 10" using that assms by (auto simp: same_upto_def)
      then have "sdata p ! nat (int k) = sdata q ! nat (int k)" using assms unfolding same_upto_def by blast
      then show ?thesis using Suc by (simp only: nat_int nth_list_update_neq)
    qed (use assms in \<open>simp add: same_upto_def\<close>)
  qed (use assms in \<open>simp add: same_upto_def\<close>)
  then show ?thesis using assms by (simp add: same_upto_def)
qed

lemma lsf2a_fresh:
  assumes "length a = 11" "length b = 11"
  shows "sync (=) (lsf2a P (mk a 0) freq) (lsf2a P (mk b 0) freq)"
  unfolding lsf2a_def Let_def
proof (rule sync_same, rule sync_same, rule sync_same, clarify, rule sync_same)
  fix freq p q s
  define f where "f = (\<lambda>j :: int. \<lambda>((sa, sb), aCoef).
        bnd (lsf2a_sections p q (feed_section (if j = 0 then dec32 25 2 else 0) sa, feed_section (if j = 0 then dec32 (- 25) 2 else 0) sb)) (\<lambda>(sa, sb).
        bnd (store aCoef (j + 1) (int32 2 * (fst sa ! 5 + fst sb ! 5))) (\<lambda>aCoef.
        Ok ((sa, sb), aCoef))))"
  define R where "R = (\<lambda>j (s, p) (t, q). s = (t :: lsf_section \<times> lsf_section) \<and> same_upto j p (q :: float32 span))"
  have step: "sync (R (j + 1)) (f j x) (f j y)" if r: "0 \<le> j" "j < 10" "R j x y" for j x y
  proof -
    obtain sa sb p q where x: "x = ((sa, sb), p)" "y = ((sa, sb), q)" "same_upto j p q" using r(3) by (auto simp: R_def)
    show ?thesis
      unfolding x f_def prod.case
      by (rule sync_same, clarify, rule sync_bnd[OF same_upto_store[OF x(3) r(1,2)]]) (simp add: R_def)
  qed
  show "sync (=)
     (bnd (for_up 0 10 (\<lambda>j ((sa, sb), aCoef).
        bnd (lsf2a_sections p q (feed_section (if j = 0 then dec32 25 2 else 0) sa, feed_section (if j = 0 then dec32 (- 25) 2 else 0) sb)) (\<lambda>(sa, sb).
        bnd (store aCoef (j + 1) (int32 2 * (fst sa ! 5 + fst sb ! 5))) (\<lambda>aCoef.
        Ok ((sa, sb), aCoef)))) (s, mk a 0)) (\<lambda>(_, aCoef).
      bnd (store aCoef 0 1) (\<lambda>aCoef. Ok (sdata aCoef, sdata freq))))
     (bnd (for_up 0 10 (\<lambda>j ((sa, sb), aCoef).
        bnd (lsf2a_sections p q (feed_section (if j = 0 then dec32 25 2 else 0) sa, feed_section (if j = 0 then dec32 (- 25) 2 else 0) sb)) (\<lambda>(sa, sb).
        bnd (store aCoef (j + 1) (int32 2 * (fst sa ! 5 + fst sb ! 5))) (\<lambda>aCoef.
        Ok ((sa, sb), aCoef)))) (s, mk b 0)) (\<lambda>(_, aCoef).
      bnd (store aCoef 0 1) (\<lambda>aCoef. Ok (sdata aCoef, sdata freq))))"
    unfolding f_def[symmetric]
    by (rule sync_bnd[OF sync_for_up[where R = R]], rule step, assumption+)
      (use assms in \<open>auto simp: R_def same_upto_def intro!: sync_bnd[OF same_upto_all, unfolded same_upto_def]\<close>)
qed

section \<open>Quantised LSFs\<close>

lemma blit_update: "length ys = n \<Longrightarrow> i + n < length xs \<Longrightarrow> (blit xs i ys)[i + n := y] = blit xs i (ys @ [y])"
  by (auto simp: blit_def list_update_append upd_conv_take_nth_drop Cons_nth_drop_Suc[symmetric] min_def)

lemma blit_append: "i + length ys + length zs \<le> length xs \<Longrightarrow> blit (blit xs i ys) (i + length ys) zs = blit xs i (ys @ zs)"
  by (simp add: blit_def ac_simps)

text \<open>A loop that copies \<open>n\<close> entries of a table.\<close>

lemma copy_loop:
  assumes "0 \<le> b" "b + n \<le> int (length xs)" "0 \<le> soff p + a" "soff p + a + n \<le> int (length (sdata p))" "0 \<le> n"
  shows "for_up 0 n (\<lambda>i q. bnd (idx xs (b + i)) (store q (a + i))) p =
    Ok (p\<lparr>sdata := blit (sdata p) (nat (soff p + a)) (take (nat n) (drop (nat b) xs))\<rparr>)"
proof -
  define C where "C i = take (nat i) (drop (nat b) xs)" for i
  define I where "I i q \<longleftrightarrow> q = p\<lparr>sdata := blit (sdata p) (nat (soff p + a)) (C i)\<rparr>" for i and q :: "'a span"
  have "safe (I n) (for_up 0 n (\<lambda>i q. bnd (idx xs (b + i)) (store q (a + i))) p)"
  proof (rule for_up_spec)
    fix i q assume i: "0 \<le> i" "i < n" "I i q"
    have l: "length (C i) = nat i" using i assms by (simp add: C_def)
    have "C (i + 1) = C i @ [xs ! nat (b + i)]"
      using i assms by (simp add: C_def nat_add_distrib take_Suc_conv_app_nth)
    moreover have "nat (soff p + (a + i)) = nat (soff p + a) + nat i" using i assms by simp
    ultimately show "safe (I (i + 1)) (bnd (idx xs (b + i)) (store q (a + i)))"
      using i assms l by (simp add: I_def blit_update)
  qed (use assms in \<open>simp_all add: I_def C_def\<close>)
  then show ?thesis by (auto simp: safe_iff I_def C_def)
qed

text \<open>\<open>vq\<close> copies the entry whose index it returns.\<close>

lemma vq_exact:
  assumes "0 \<le> soff xq" "soff xq + dim \<le> int (length (sdata xq))"
    and "0 \<le> soff ix" "soff ix < int (length (sdata ix))"
    and "0 \<le> c" "c + n * dim \<le> int (length tbl)"
    and "0 \<le> soff x" "soff x + dim \<le> int (length (sdata x))" "1 \<le> dim" "1 \<le> n"
    and Q: "\<And>k. 0 \<le> k \<Longrightarrow> k < n \<Longrightarrow>
      Q (blit (sdata xq) (nat (soff xq)) (take (nat dim) (drop (nat (c + k * dim)) tbl)), (sdata ix)[nat (soff ix) := k])"
  shows "spec E Q (vq xq ix (mk tbl c) x n dim)"
proof -
  have room: "j * dim + dim \<le> n * dim" if "j < n" for j
  proof -
    have "(j + 1) * dim \<le> n * dim" by (rule mult_right_mono) (use that assms in auto)
    then show ?thesis by (simp add: algebra_simps)
  qed
  have nn: "0 \<le> j * dim" if "0 \<le> j" for j using that assms by simp
  show ?thesis
    unfolding vq_def
  proof (rule spec_bndI, rule spec_mono[OF for_up_spec[where I = "\<lambda>j (pos, md, mi). pos = j * dim \<and> 0 \<le> mi \<and> mi < n"]])
    fix j and s :: "int \<times> float32 \<times> int" assume j: "0 \<le> j" "j < n" "case s of (pos, md, mi) \<Rightarrow> pos = j * dim \<and> 0 \<le> mi \<and> mi < n"
    then show "spec E (\<lambda>(pos, md, mi). pos = (j + 1) * dim \<and> 0 \<le> mi \<and> mi < n)
        (case s of (pos, mindist, minindex) \<Rightarrow> bnd (vq_dist (mk tbl c) x pos dim) (\<lambda>dist.
          Ok (pos + dim, if dist < mindist then (dist, j) else (mindist, minindex))))"
      using room[of j] nn[of j] assms by (intro wp) (auto simp: algebra_simps)
  next
    fix s :: "int \<times> float32 \<times> int" assume s: "case s of (pos, md, mi) \<Rightarrow> pos = n * dim \<and> 0 \<le> mi \<and> mi < n"
    obtain pos md k where e: "s = (pos, md, k)" by (cases s)
    have k: "0 \<le> k" "k < n" using s by (simp_all add: e)
    have r: "c + k * dim + dim \<le> int (length tbl)" "0 \<le> c + k * dim"
      using room[OF k(2)] nn[OF k(1)] assms by linarith+
    have "for_up 0 dim (\<lambda>i xq. bnd (at (mk tbl c) (k * dim + i)) (store xq i)) xq =
        Ok (xq\<lparr>sdata := blit (sdata xq) (nat (soff xq)) (take (nat dim) (drop (nat (c + k * dim)) tbl))\<rparr>)"
      using copy_loop[OF r(2,1), of xq 0] assms by (simp add: add.assoc)
    then show "spec E Q (case s of (pos, mindist, minindex) \<Rightarrow>
        bnd (for_up 0 dim (\<lambda>i xq. bnd (at (mk tbl c) (minindex * dim + i)) (store xq i)) xq) (\<lambda>xq.
        bnd (store ix 0 minindex) (\<lambda>index. Ok (sdata xq, sdata index))))"
      using assms k by (simp add: e)
  qed (use assms in simp_all)
qed

text \<open>The entry \<open>v\<close> of the split codebook \<open>i\<close>.\<close>

definition lsf_entry :: "int \<Rightarrow> int \<Rightarrow> float32 list" where
  "lsf_entry i v = (let dim = [3, 3, 4] ! nat i; pos = [0, 192, 576] ! nat i in
     take (nat dim) (drop (nat (pos + v * dim)) lsfCbTbl))"

definition lsf_vector :: "int \<Rightarrow> int \<Rightarrow> int \<Rightarrow> float32 list" where
  "lsf_vector a b c = lsf_entry 0 a @ lsf_entry 1 b @ lsf_entry 2 c"

lemma length_lsf_entry:
  "0 \<le> v \<Longrightarrow> v < 64 \<Longrightarrow> length (lsf_entry 0 v) = 3"
  "0 \<le> v \<Longrightarrow> v < 128 \<Longrightarrow> length (lsf_entry 1 v) = 3"
  "0 \<le> v \<Longrightarrow> v < 128 \<Longrightarrow> length (lsf_entry 2 v) = 4"
  by (auto simp: lsf_entry_def)

lemma lsf_vector_blit:
  assumes "n + 10 \<le> length xs" "0 \<le> a" "a < 64" "0 \<le> b" "b < 128" "0 \<le> c" "c < 128"
  shows "blit (blit (blit xs n (lsf_entry 0 a)) (n + 3) (lsf_entry 1 b)) (n + 6) (lsf_entry 2 c) = blit xs n (lsf_vector a b c)"
  using assms blit_append[of n "lsf_entry 0 a" "lsf_entry 1 b" xs]
    blit_append[of n "lsf_entry 0 a @ lsf_entry 1 b" "lsf_entry 2 c" xs]
  by (simp add: length_lsf_entry lsf_vector_def add.assoc)

lemma splitVQ_exact:
  assumes "0 \<le> soff q" "soff q + 10 \<le> int (length (sdata q))"
    and "0 \<le> soff ix" "soff ix + 3 \<le> int (length (sdata ix))"
    and "0 \<le> soff x" "soff x + 10 \<le> int (length (sdata x))"
    and Q: "\<And>a b c. 0 \<le> a \<Longrightarrow> a < 64 \<Longrightarrow> 0 \<le> b \<Longrightarrow> b < 128 \<Longrightarrow> 0 \<le> c \<Longrightarrow> c < 128 \<Longrightarrow>
      Q (blit (sdata q) (nat (soff q)) (lsf_vector a b c),
         (sdata ix)[nat (soff ix) := a, nat (soff ix) + 1 := b, nat (soff ix) + 2 := c])"
  shows "spec E Q (splitVQ q ix x (mk lsfCbTbl 0) 3 (mk dimLsfCbTbl 0) (mk sizeLsfCbTbl 0))"
proof -
  have vq_found: "\<exists>v. 0 \<le> v \<and> v < n \<and> vq q' ix' (mk lsfCbTbl p) x' n dim =
      Ok (blit (sdata q') (nat (soff q')) (lsf_entry i v), (sdata ix')[nat (soff ix') := v])"
    if "(i, n, dim, p) \<in> {(0, 64, 3, 0), (1, 128, 3, 192), (2, 128, 4, 576)}"
      "0 \<le> soff q'" "soff q' + dim \<le> int (length (sdata q'))" "0 \<le> soff ix'" "soff ix' < int (length (sdata ix'))"
      "0 \<le> soff x'" "soff x' + dim \<le> int (length (sdata x'))" for i n dim p q' ix' x'
  proof -
    have "lsf_entry i v = take (nat dim) (drop (nat (p + v * dim)) lsfCbTbl)" for v
      using that(1) by (auto simp: lsf_entry_def)
    then have "safe (\<lambda>r. \<exists>v. 0 \<le> v \<and> v < n \<and> r = (blit (sdata q') (nat (soff q')) (lsf_entry i v), (sdata ix')[nat (soff ix') := v]))
        (vq q' ix' (mk lsfCbTbl p) x' n dim)"
      by (intro vq_exact) (use that in \<open>auto\<close>)
    then show ?thesis by (auto simp: safe_iff)
  qed
  have n: "nat (soff q + 3) = nat (soff q) + 3" "nat (soff q + 6) = nat (soff q) + 6"
    "nat (soff ix + 1) = nat (soff ix) + 1" "nat (soff ix + 2) = nat (soff ix) + 2" using assms by auto
  have t: "idx sizeLsfCbTbl 0 = Ok 64" "idx sizeLsfCbTbl 1 = Ok 128" "idx sizeLsfCbTbl 2 = Ok 128"
    "idx dimLsfCbTbl 0 = Ok 3" "idx dimLsfCbTbl 1 = Ok 3" "idx dimLsfCbTbl 2 = Ok 4"
    by (simp_all add: dimLsfCbTbl_def sizeLsfCbTbl_def)
  obtain a where a: "0 \<le> a" "a < 64" "vq q ix (mk lsfCbTbl 0) x 64 3 =
      Ok (blit (sdata q) (nat (soff q)) (lsf_entry 0 a), (sdata ix)[nat (soff ix) := a])"
    using vq_found[of 0 64 3 0 q ix x] assms by auto
  define q1 where "q1 = q\<lparr>sdata := blit (sdata q) (nat (soff q)) (lsf_entry 0 a)\<rparr>"
  define ix1 where "ix1 = ix\<lparr>sdata := (sdata ix)[nat (soff ix) := a]\<rparr>"
  have l1: "length (sdata q1) = length (sdata q)" "soff q1 = soff q" "length (sdata ix1) = length (sdata ix)" "soff ix1 = soff ix"
    using assms a length_lsf_entry(1) by (simp_all add: q1_def ix1_def)
  obtain b where b: "0 \<le> b" "b < 128" "vq (add q1 3) (add ix1 1) (mk lsfCbTbl 192) (add x 3) 128 3 =
      Ok (blit (sdata q1) (nat (soff q) + 3) (lsf_entry 1 b), (sdata ix1)[nat (soff ix) + 1 := b])"
    using vq_found[of 1 128 3 192 "add q1 3" "add ix1 1" "add x 3"] assms l1 n by auto
  define q2 where "q2 = q1\<lparr>sdata := blit (sdata q1) (nat (soff q) + 3) (lsf_entry 1 b)\<rparr>"
  define ix2 where "ix2 = ix1\<lparr>sdata := (sdata ix1)[Suc (nat (soff ix)) := b]\<rparr>"
  have l2: "length (sdata q2) = length (sdata q)" "soff q2 = soff q" "length (sdata ix2) = length (sdata ix)" "soff ix2 = soff ix"
    using assms b l1 length_lsf_entry(2) by (simp_all add: q2_def ix2_def)
  obtain c where c: "0 \<le> c" "c < 128" "vq (add q2 6) (add ix2 2) (mk lsfCbTbl 576) (add x 6) 128 4 =
      Ok (blit (sdata q2) (nat (soff q) + 6) (lsf_entry 2 c), (sdata ix2)[nat (soff ix) + 2 := c])"
    using vq_found[of 2 128 4 576 "add q2 6" "add ix2 2" "add x 6"] assms l2 n by auto
  have z: "add p 0 = p" for p :: "'b span" by (cases p) (simp add: add_def)
  have tb: "add (mk lsfCbTbl 0) p = mk lsfCbTbl p" for p by (simp add: add_def)
  have "splitVQ q ix x (mk lsfCbTbl 0) 3 (mk dimLsfCbTbl 0) (mk sizeLsfCbTbl 0) =
      Ok (blit (sdata q2) (nat (soff q) + 6) (lsf_entry 2 c), (sdata ix2)[nat (soff ix) + 2 := c])"
    unfolding splitVQ_def three_up
    by (simp add: t z tb a(3) b(3) c(3) flip: q1_def ix1_def q2_def ix2_def)
  moreover have "blit (sdata q2) (nat (soff q) + 6) (lsf_entry 2 c) = blit (sdata q) (nat (soff q)) (lsf_vector a b c)"
    using lsf_vector_blit[of "nat (soff q)" "sdata q" a b c] assms a b c by (simp add: q2_def q1_def)
  ultimately show ?thesis using Q[OF a(1,2) b(1,2) c(1,2)] by (simp add: ix1_def ix2_def)
qed

lemma dequantize_split_exact:
  assumes "0 \<le> soff p + base" "soff p + base + 10 \<le> int (length (sdata p))" "0 \<le> ib" "ib + 3 \<le> int (length ix)"
    and v: "0 \<le> ix ! nat ib" "ix ! nat ib < 64" "0 \<le> ix ! (nat ib + 1)" "ix ! (nat ib + 1) < 128"
      "0 \<le> ix ! (nat ib + 2)" "ix ! (nat ib + 2) < 128"
  shows "dequantize_split base ib (mk ix 0) p =
    Ok (p\<lparr>sdata := blit (sdata p) (nat (soff p + base)) (lsf_vector (ix ! nat ib) (ix ! (nat ib + 1)) (ix ! (nat ib + 2)))\<rparr>)"
proof -
  define a b c where "a = ix ! nat ib" and "b = ix ! (nat ib + 1)" and "c = ix ! (nat ib + 2)"
  have r: "0 \<le> a" "a < 64" "0 \<le> b" "b < 128" "0 \<le> c" "c < 128" using v by (simp_all add: a_def b_def c_def)
  have t: "idx sizeLsfCbTbl 0 = Ok 64" "idx sizeLsfCbTbl 1 = Ok 128" "idx sizeLsfCbTbl 2 = Ok 128"
    "idx dimLsfCbTbl 0 = Ok 3" "idx dimLsfCbTbl 1 = Ok 3" "idx dimLsfCbTbl 2 = Ok 4"
    by (simp_all add: dimLsfCbTbl_def sizeLsfCbTbl_def)
  have at: "idx ix ib = Ok a" "idx ix (ib + 1) = Ok b" "idx ix (ib + 2) = Ok c"
    using assms by (simp_all add: a_def b_def c_def nat_add_distrib)
  have s: "sint (word_of_int v :: 32 word) = v" if "0 \<le> v" "v < 128" for v
    using that by (intro sint_of_small) auto
  have copy: "for_up 0 dim (\<lambda>j q. bnd (idx lsfCbTbl (pos + v * dim + j)) (store q (base + o' + j))) q =
      Ok (q\<lparr>sdata := blit (sdata q) (nat (soff q + base + o')) (lsf_entry i v)\<rparr>)"
    if "(i, n, dim, pos, o') \<in> {(0, 64, 3, 0, 0), (1, 128, 3, 192, 3), (2, 128, 4, 576, 6)}" "0 \<le> v" "v < n"
      "soff q = soff p" "length (sdata q) = length (sdata p)" for i n dim pos o' v q
    using copy_loop[of "pos + v * dim" dim lsfCbTbl q "base + o'"] that assms(1,2)
    by (auto simp: lsf_entry_def add.assoc)
  define p1 where "p1 = p\<lparr>sdata := blit (sdata p) (nat (soff p + base)) (lsf_entry 0 a)\<rparr>"
  define p2 where "p2 = p1\<lparr>sdata := blit (sdata p1) (nat (soff p + base) + 3) (lsf_entry 1 b)\<rparr>"
  have n: "nat (soff p + base + 3) = nat (soff p + base) + 3" "nat (soff p + base + 6) = nat (soff p + base) + 6"
    using assms by auto
  have l: "length (sdata p1) = length (sdata p)" "soff p1 = soff p" "length (sdata p2) = length (sdata p)" "soff p2 = soff p"
    using assms r length_lsf_entry by (simp_all add: p1_def p2_def)
  have c1: "for_up 0 3 (\<lambda>j q. bnd (idx lsfCbTbl (a * 3 + j)) (store q (base + j))) p = Ok p1"
    using copy[of 0 64 3 0 0 a p] r by (simp add: p1_def)
  have c2: "for_up 0 3 (\<lambda>j q. bnd (idx lsfCbTbl (192 + b * 3 + j)) (store q (base + 3 + j))) p1 = Ok p2"
    using copy[of 1 128 3 192 3 b p1] r l n by (simp add: p2_def)
  have c3: "for_up 0 4 (\<lambda>j q. bnd (idx lsfCbTbl (576 + c * 4 + j)) (store q (base + 6 + j))) p2 =
      Ok (p2\<lparr>sdata := blit (sdata p2) (nat (soff p + base) + 6) (lsf_entry 2 c)\<rparr>)"
    using copy[of 2 128 4 576 6 c p2] r l n by simp
  have "dequantize_split base ib (mk ix 0) p =
      Ok (p2\<lparr>sdata := blit (sdata p2) (nat (soff p + base) + 6) (lsf_entry 2 c)\<rparr>)"
    unfolding dequantize_split_def three_up
    using r s[of a] s[of b] s[of c] c1 c2 c3 by (simp add: t at)
  moreover have "blit (sdata p2) (nat (soff p + base) + 6) (lsf_entry 2 c) = blit (sdata p) (nat (soff p + base)) (lsf_vector a b c)"
    using lsf_vector_blit[of "nat (soff p + base)" "sdata p" a b c] assms r by (simp add: p1_def p2_def)
  ultimately show ?thesis by (simp add: p1_def p2_def a_def b_def c_def)
qed

text \<open>The decoder reads back the LSFs the encoder quantised to.\<close>

lemma dequantize_quantized:
  assumes "length l = 20" "n = 1 \<or> n = 2"
  shows "safe (\<lambda>(q, ix). dequantizeLSF (mk (replicate 20 0) 0) (mk ix 0) n = Ok q)
    (quantizeLSF (mk (replicate 20 0) 0) (mk (replicate 6 0) 0) (mk l 0) n)"
proof -
  have six: "replicate 6 (0 :: int) = [0, 0, 0, 0, 0, 0]" by (simp add: eval_nat_numeral)
  show ?thesis
    unfolding quantizeLSF_def six
    by (intro wp splitVQ_exact)
      (use assms in \<open>auto simp: dequantizeLSF_def dequantize_split_exact lsf_vector_def length_lsf_entry\<close>)
qed

definition lpc_state :: "float32 span \<times> float32 span \<times> float32 list \<Rightarrow> float32 span \<times> float32 span \<times> float32 list \<Rightarrow> bool" where
  "lpc_state = (\<lambda>(s, w, lp) (s', w', lp'). s = s' \<and> soff s = 0 \<and> length (sdata s) = 66 \<and>
     soff w = 0 \<and> length (sdata w) = 66 \<and> soff w' = 0 \<and> length (sdata w') = 66 \<and> length lp = 11 \<and> length lp' = 11)"

definition ten_at :: "float32 span \<Rightarrow> bool" where
  "ten_at p \<longleftrightarrow> 0 \<le> soff p \<and> soff p + 10 \<le> int (length (sdata p))"

lemma interpolate_sync:
  assumes "length a = 11" "length b = 11" "ten_at x" "ten_at y"
  shows "sync (\<lambda>p q. p = q \<and> length p = 11) (interpolateEncoderLSF P (mk a 0) x y c 10) (interpolateDecoderLSF P (mk b 0) x y c 10)"
proof (rule sync_spec)
  show "sync (=) (interpolateEncoderLSF P (mk a 0) x y c 10) (interpolateDecoderLSF P (mk b 0) x y c 10)"
    unfolding interpolateEncoderLSF_def interpolateDecoderLSF_def
    by (rule sync_same, rule sync_bnd[OF lsf2a_fresh[OF assms(1,2)]]) auto
  show "spec E (\<lambda>p. length p = 11) (interpolateEncoderLSF P (mk a 0) x y c 10)" for E
    by (rule interpolateEncoderLSF_wp) (use assms in \<open>auto simp: ten_at_def\<close>)
qed

lemma specD: "spec E Q m \<Longrightarrow> m = Ok x \<Longrightarrow> Q x"
  by simp

lemma subframe_sync:
  assumes "lpc_state x y" "ten_at d1" "ten_at d2" "ten_at l1" "ten_at l2" "0 \<le> pos" "pos \<le> 55"
  shows "sync lpc_state (encoder_subframe_lpc P d1 d2 l1 l2 c 10 pos x) (decoder_subframe_lpc P d1 d2 c 10 pos y)"
proof -
  obtain s w lp w' lp' where xy: "x = (s, w, lp)" "y = (s, w', lp')" "soff s = 0" "length (sdata s) = 66"
      "soff w = 0" "length (sdata w) = 66" "soff w' = 0" "length (sdata w') = 66" "length lp = 11" "length lp' = 11"
    using assms(1) by (auto simp: lpc_state_def)
  have bw: "safe (\<lambda>d. length d = 66) (bwexpand (add v pos) (mk r 0) k 11)"
    if "soff v = 0" "length (sdata v) = 66" "length r = 11" for v r k
    by (intro wp) (use that assms(6,7) in auto)
  show ?thesis
    unfolding xy encoder_subframe_lpc_def decoder_subframe_lpc_def prod.case Let_def
  proof (rule sync_bnd[OF interpolate_sync[OF xy(9,10) assms(2,3)]], clarify, rule sync_same, rule sync_same, rule sync_left, rule sync_left)
    fix lp1 xs s1 lp2 w1 assume l: "length (lp1 :: float32 list) = 11" and s1: "copy_slice (add s pos) (10 + 1) xs = Ok s1"
      and lp2: "interpolateEncoderLSF P (mk lp1 0) l1 l2 c 10 = Ok lp2"
      and w1: "bwexpand (add w pos) (mk lp2 0) (dec32 4222 4) (10 + 1) = Ok w1"
    have "length lp2 = 11"
      by (rule specD[OF interpolateEncoderLSF_wp lp2]) (use l assms(4,5) in \<open>auto simp: ten_at_def\<close>)
    moreover have "length w1 = 66" using specD[OF bw[OF xy(5,6), of lp2 "dec32 4222 4"], of w1] w1 calculation by simp
    moreover have "length s1 = 66"
      by (rule specD[OF spec_copy_slice s1]) (use xy assms(6,7) in auto)
    ultimately show "sync lpc_state (Ok (s\<lparr>sdata := s1\<rparr>, w\<lparr>sdata := w1\<rparr>, lp2))
        (bnd (bwexpand (add w' pos) (mk lp1 0) (dec32 4222 4) (10 + 1)) (\<lambda>w. Ok (s\<lparr>sdata := s1\<rparr>, w'\<lparr>sdata := w\<rparr>, lp1)))"
      using xy l by (simp, intro sync_right[OF bw[OF xy(7,8) l, of "dec32 4222 4"]]) (simp add: lpc_state_def)
  qed
qed

lemma interpolateLSF_sync:
  assumes m: "e_mode e = 20 \<and> e_subframes e = 4 \<or> e_mode e = 30 \<and> e_subframes e = 6"
    and d: "d_mode d = e_mode e" "d_subframes d = e_subframes e" "d_lsfdeqold d = e_lsfdeqold e"
    and l: "length (lsfold e) = 10" "length (e_lsfdeqold e) = 10" "length lsf = 20" "length deq = 20"
  shows "sync (\<lambda>(s, w, e') (s', w', d'). s = s' \<and> d' = d\<lparr>d_lsfdeqold := e_lsfdeqold e'\<rparr>)
    (simpleInterpolateLSF P (mk (replicate 66 0) 0) (mk (replicate 66 0) 0) (mk lsf 0) (mk deq 0) 10 e)
    (decoderInterpolateLSF P (mk (replicate 66 0) 0) (mk (replicate 66 0) 0) (mk deq 0) 10 d)"
proof -
  have ten: "ten_at (mk (lsfold e) 0)" "ten_at (mk (e_lsfdeqold e) 0)" "ten_at (mk lsf 0)" "ten_at (mk deq 0)"
    "ten_at (add (mk lsf 0) 10)" "ten_at (add (mk deq 0) 10)" using l by (simp_all add: ten_at_def)
  have s0: "lpc_state (mk (replicate 66 0) 0, mk (replicate 66 0) 0, replicate 11 0) (mk (replicate 66 0) 0, mk (replicate 66 0) 0, replicate 11 0)"
    by (simp add: lpc_state_def)
  define R where "R i x y \<longleftrightarrow> lpc_state (fst x) (fst y) \<and> snd x = 11 * i \<and> snd y = 11 * i"
    for i :: int and x y :: "(float32 span \<times> float32 span \<times> float32 list) \<times> int"
  have step: "sync (R (i + 1))
      ((\<lambda>(s, pos). bnd (idx tbl i) (\<lambda>w. bnd (encoder_subframe_lpc P d1 d2 l1 l2 w 10 pos s) (\<lambda>s. Ok (s, pos + (10 + 1))))) x)
      ((\<lambda>(s, pos). bnd (idx tbl i) (\<lambda>w. bnd (decoder_subframe_lpc P d1 d2 w 10 pos s) (\<lambda>s. Ok (s, pos + (10 + 1))))) y)"
    if "ten_at d1" "ten_at d2" "ten_at l1" "ten_at l2" "0 \<le> i" "i < 6" "R i x y" for tbl d1 d2 l1 l2 i x y
    using that by (cases x; cases y) (auto simp: R_def intro!: sync_same sync_bnd[OF subframe_sync])
  have fin: "sync (\<lambda>(s, w, e') (s', w', d'). s = s' \<and> d' = d\<lparr>d_lsfdeqold := e_lsfdeqold e'\<rparr>)
      ((\<lambda>(s, w, lp). bnd (slice a 10) (\<lambda>xs. bnd (copy_slice (mk (lsfold e) 0) 10 xs) (\<lambda>o'.
         bnd (slice q 10) (\<lambda>xs. bnd (copy_slice (mk (e_lsfdeqold e) 0) 10 xs) (\<lambda>d'.
         Ok (sdata s, sdata w, e\<lparr>lsfold := o', e_lsfdeqold := d'\<rparr>)))))) x)
      ((\<lambda>(s, w, lp). bnd (slice q 10) (\<lambda>xs. bnd (copy_sub (e_lsfdeqold e) 0 10 xs) (\<lambda>d'.
         Ok (sdata s, sdata w, d\<lparr>d_lsfdeqold := d'\<rparr>)))) y)"
    if "lpc_state x y" "ten_at a" "ten_at q" for x y a q
    using that l by (auto simp: lpc_state_def ten_at_def)
  have take: "sync lpc_state (case x of (s, pos) \<Rightarrow> Ok s) (case y of (s, pos) \<Rightarrow> Ok s)" if "R i x y" for i x y
    using that by (cases x; cases y) (simp add: R_def)
  show ?thesis
  proof (cases "e_mode e = 30")
    case True
    then have md: "d_mode d = 30" "e_subframes e = 6" using m d by auto
    show ?thesis
      unfolding simpleInterpolateLSF_def decoderInterpolateLSF_def Let_def d(3) if_P[OF True] if_P[OF md(1)] md(2) bnd_assoc
      by (rule sync_bnd[OF subframe_sync[OF s0 ten(2,4,1,3)]], simp, simp, rule sync_bnd[OF sync_for_up[where R = R]],
          rule step[OF ten(4,6,3,5)], simp, simp, assumption, simp add: R_def, simp,
          rule sync_bnd[OF take], assumption, rule fin, assumption, rule ten, rule ten)
  next
    case False
    then have md: "d_mode d \<noteq> 30" "e_subframes e = 4" using m d by auto
    show ?thesis
      unfolding simpleInterpolateLSF_def decoderInterpolateLSF_def Let_def d(2,3) if_not_P[OF False] if_not_P[OF md(1)] md(2) bnd_assoc
      by (rule sync_bnd[OF sync_for_up[where R = R]], rule step[OF ten(2,4,1,3)], simp, simp, assumption,
          simp add: R_def s0, simp, rule sync_bnd[OF take], assumption, rule fin, assumption, rule ten, rule ten)
  qed
qed

text \<open>
  From the same history the decoder computes the synthesis filters of the encoder, and both keep
  the same history for the next frame.
\<close>

lemma lpc_sync:
  assumes e: "enc_ok m e" and d: "d_mode d = e_mode e" "d_subframes d = e_subframes e" "d_lsfdeqold d = e_lsfdeqold e"
      "d_lpcAnalyses d = e_lpcAnalyses e"
    and x: "0 \<le> soff x" "soff x + e_frameSamples e \<le> int (length (sdata x))"
    and run: "encodeLPC P (mk (replicate 66 0) 0) (mk (replicate 66 0) 0) (mk (replicate 6 0) 0) x e = Ok (s, w, ix, e')"
  shows "\<exists>q q' u w'. dequantizeLSF (mk (replicate 20 0) 0) (mk ix 0) (d_lpcAnalyses d) = Ok q \<and>
    checkLSF (mk q 0) 10 (d_lpcAnalyses d) = Ok (q', u) \<and>
    decoderInterpolateLSF P (mk (replicate 66 0) 0) (mk (replicate 66 0) 0) (mk q' 0) 10 d =
      Ok (s, w', d\<lparr>d_lsfdeqold := e_lsfdeqold e'\<rparr>)"
proof -
  note c = enc_ok_cases[OF e]
  obtain lsf e1 q q' u where r: "simpleAnalysis P (mk (replicate 20 0) 0) x e = Ok (lsf, e1)"
      "quantizeLSF (mk (replicate 20 0) 0) (mk (replicate 6 0) 0) (mk lsf 0) (e_lpcAnalyses e1) = Ok (q, ix)"
      "checkLSF (mk q 0) 10 (e_lpcAnalyses e1) = Ok (q', u)"
      "simpleInterpolateLSF P (mk (replicate 66 0) 0) (mk (replicate 66 0) 0) (mk lsf 0) (mk q' 0) 10 e1 = Ok (s, w, e')"
    using run by (auto simp: encodeLPC_def bnd_eq_Ok)
  have a: "case (lsf, e1) of (lsf, e1) \<Rightarrow> length lsf = 20 \<and> (\<exists>b. length b = 300 \<and> e1 = e\<lparr>lpcBuffer := b\<rparr>)"
  proof (rule specD[OF simpleAnalysis_wp r(1)])
    show "length (lpcBuffer e) = 300" using e by (simp add: enc_ok_def)
    show "0 \<le> e_lpcAnalyses e" "e_lpcAnalyses e \<le> 2" using c(2) by auto
  qed (use c(3,4) x in auto)
  then obtain b where b: "length b = 300" "e1 = e\<lparr>lpcBuffer := b\<rparr>" by auto
  have "enc_ok m (e\<lparr>lpcBuffer := b\<rparr>)"
    using e b(1) unfolding enc_ok_def enc_consts_def by simp
  then have e1: "enc_ok m e1" "e_mode e1 = e_mode e" "e_subframes e1 = e_subframes e" "e_lsfdeqold e1 = e_lsfdeqold e"
      "e_lpcAnalyses e1 = e_lpcAnalyses e" using b(2) by simp_all
  have l: "length lsf = 20" using a by simp
  have n: "e_lpcAnalyses e1 = 1 \<or> e_lpcAnalyses e1 = 2" using enc_ok_cases(2)[OF e1(1)] .
  have q: "dequantizeLSF (mk (replicate 20 0) 0) (mk ix 0) (e_lpcAnalyses e1) = Ok q"
    using specD[OF dequantize_quantized[OF l n] r(2)] by simp
  have lq: "case (q, ix) of (q, ix) \<Rightarrow> length q = 20"
    by (rule specD[OF quantizeLSF_wp r(2)]) (use l n in simp_all)
  have lq': "case (q', u) of (q', u) \<Rightarrow> length q' = 20"
    by (rule specD[OF checkLSF_wp r(3)]) (use lq n in auto)
  note i = sync_OkD[OF interpolateLSF_sync[OF enc_ok_cases(1)[OF e1(1)]] r(4), of d]
  have h: "length (lsfold e1) = 10" "length (e_lsfdeqold e1) = 10" using e1(1) by (simp_all add: enc_ok_def)
  show ?thesis
    using i[OF _ _ _ h l, of] lq' e1 d q r(3) by auto
qed

end
