(* ===== verification/Synchrony.thy ===== *)
theory Synchrony
  imports Lockstep EncoderStream
begin

text \<open>
  The encoder and the decoder stay in step.  iLBC is analysis by synthesis: the encoder chooses
  each codebook vector against the residual that the decoder will have at that point, so its own
  reconstruction (\<open>encode_boundary\<close>, \<open>encode_rest\<close>) has to be exactly the decoder's
  (\<open>decode_boundary\<close>, \<open>decode_rest\<close>) although the two are written differently: the encoder
  interleaves search and reconstruction and knows only the indices found so far, the decoder has
  all of them; the time-reversed buffers hold different samples where neither reads; and the two
  interpolate the LSFs with different temporary arrays.
\<close>

section \<open>The codebook reconstruction\<close>

text \<open>\<open>constructCodebook\<close> reads three indices and three gains.\<close>

definition same_upto_index :: "int \<Rightarrow> 'a list \<Rightarrow> 'a list \<Rightarrow> bool" where
  "same_upto_index n xs ys \<longleftrightarrow> length xs = length ys \<and> (\<forall>k. 0 \<le> k \<and> k < n \<longrightarrow> xs ! nat k = ys ! nat k)"

lemma same_upto_index_refl [simp]: "same_upto_index n xs xs"
  by (simp add: same_upto_index_def)

lemma constructCodebook_same:
  assumes "same_upto_index (k + 3) xs xs'" "same_upto_index (k + 3) ys ys'" "0 \<le> k"
  shows "constructCodebook p (mk xs k) (mk ys k) mem l v 3 = constructCodebook p (mk xs' k) (mk ys' k) mem l v 3"
proof -
  have x: "at (mk xs k) i = at (mk xs' k) i" if "0 \<le> i" "i < 3" for i
    using assms that by (simp add: same_upto_index_def idx_def)
  have y: "at (mk ys k) i = at (mk ys' k) i" if "0 \<le> i" "i < 3" for i
    using assms that by (simp add: same_upto_index_def idx_def)
  have g: "stage_gains (mk ys k) 3 = stage_gains (mk ys' k) 3"
    unfolding stage_gains_def using y[of 0] y[of 1] y[of 2] by simp
  have loop: "for_up 1 3 (\<lambda>k' (decvector, cbvec). bnd (at (mk xs k) k') (h decvector cbvec k')) s =
      for_up 1 3 (\<lambda>k' (decvector, cbvec). bnd (at (mk xs' k) k') (h decvector cbvec k')) s" for h s
    by (rule for_up_cong) (simp add: x split: prod.split del: at_mk)
  show ?thesis
    unfolding constructCodebook_def g x[OF order.refl zero_less_numeral] loop ..
qed

text \<open>It overwrites the samples it constructs.\<close>

definition same_outside :: "int \<Rightarrow> int \<Rightarrow> 'a list \<Rightarrow> 'a list \<Rightarrow> bool" where
  "same_outside lo hi xs ys \<longleftrightarrow> length xs = length ys \<and>
     (\<forall>k < length xs. int k < lo \<or> hi \<le> int k \<longrightarrow> xs ! k = ys ! k)"

lemma same_outside_refl [simp]: "same_outside lo hi xs xs"
  by (simp add: same_outside_def)

lemma same_outside_all: "same_outside n n xs ys \<longleftrightarrow> xs = ys"
  by (auto simp: same_outside_def intro!: nth_equalityI)

lemma same_outside_update:
  assumes "same_outside lo hi xs ys" "0 \<le> lo" "lo < int (length xs)"
  shows "same_outside (lo + 1) hi (xs[nat lo := v]) (ys[nat lo := v])"
proof -
  have "xs[nat lo := v] ! k = ys[nat lo := v] ! k" if "k < length xs" "int k < lo + 1 \<or> hi \<le> int k" for k
    using assms that by (cases "k = nat lo") (auto simp: same_outside_def nth_list_update)
  then show ?thesis using assms by (simp add: same_outside_def)
qed

lemma same_outside_lengths: "same_outside lo hi xs ys \<Longrightarrow> length xs = length ys"
  by (simp add: same_outside_def)

lemma store_sync:
  assumes "soff p = a" "soff q = a" "same_outside lo hi (sdata p) (sdata q)" "a + j = lo \<or> a + j < lo" "v = w"
  shows "sync (\<lambda>p q. soff p = a \<and> soff q = a \<and> same_outside (if a + j = lo then lo + 1 else lo) hi (sdata p) (sdata q))
    (store p j v) (store q j w)"
proof (cases "0 \<le> a + j \<and> a + j < int (length (sdata p))")
  case True
  have "same_outside lo hi ((sdata p)[nat (a + j) := v]) ((sdata q)[nat (a + j) := v])" if "a + j < lo"
    using assms(3) that True by (auto simp: same_outside_def nth_list_update)
  then show ?thesis
    using True assms same_outside_lengths[OF assms(3)] same_outside_update[OF assms(3), of v] by auto
next
  case False
  then show ?thesis using assms same_outside_lengths[OF assms(3)] by (auto simp: store_def put_def upd_def sync_def)
qed

lemma same_outside_sub:
  assumes "same_outside lo hi xs ys" "b \<le> lo"
  shows "sub xs a b = sub ys a b"
proof (cases "0 \<le> a \<and> a \<le> b \<and> b \<le> int (length xs)")
  case True
  have "take (nat b) xs = take (nat b) ys"
    using assms True by (auto simp: same_outside_def intro!: nth_equalityI)
  then have "drop (nat a) (take (nat b) xs) = drop (nat a) (take (nat b) ys)" by simp
  then show ?thesis using True same_outside_lengths[OF assms(1)] by (simp add: sub_def drop_take nat_diff_distrib')
next
  case False
  then show ?thesis using same_outside_lengths[OF assms(1)] by (auto simp: sub_def)
qed

definition both_at :: "int \<Rightarrow> int \<Rightarrow> int \<Rightarrow> 'a span \<Rightarrow> 'a span \<Rightarrow> bool" where
  "both_at a lo hi p q \<longleftrightarrow> soff p = a \<and> soff q = a \<and> same_outside lo hi (sdata p) (sdata q)"

lemma overwrite_sync:
  assumes "both_at lo lo hi p q" "0 \<le> n"
  shows "sync (both_at lo (lo + n) hi) (for_up 0 n (\<lambda>j d. bnd (w j) (store d j)) p) (for_up 0 n (\<lambda>j d. bnd (w j) (store d j)) q)"
  by (rule sync_for_up[where R = "\<lambda>j. both_at lo (lo + j) hi"])
    (use assms in \<open>auto simp: both_at_def ac_simps intro!: sync_same store_sync[THEN sync_mono]\<close>)

lemma modify_sync:
  assumes "both_at a lo hi p q" "a + j < lo"
  shows "sync (both_at a lo hi) (modify p j f) (modify q j f)"
proof -
  have "at p j = at q j"
  proof (cases "0 \<le> a + j \<and> a + j < int (length (sdata p))")
    case True
    then have "nat (a + j) < length (sdata p)" "int (nat (a + j)) < lo" using assms(2) by auto
    then have "sdata p ! nat (a + j) = sdata q ! nat (a + j)" using assms(1) unfolding both_at_def same_outside_def by blast
    then show ?thesis using assms True by (simp add: both_at_def same_outside_def)
  next
    case False
    then show ?thesis using assms by (auto simp: both_at_def same_outside_def at_def idx_def)
  qed
  moreover have "sync (both_at a lo hi) (store p j v) (store q j v)" for v
    by (rule store_sync[where a = a and lo = lo and hi = hi, THEN sync_mono]) (use assms in \<open>auto simp: both_at_def\<close>)
  ultimately show ?thesis unfolding modify_def by (auto intro: sync_same)
qed

lemma constructCodebook_fresh:
  assumes "same_outside lo hi xs ys" "0 \<le> v" "1 < n"
  shows "sync (same_outside (lo + v) hi) (constructCodebook (mk xs lo) ix gi mem l v n) (constructCodebook (mk ys lo) ix gi mem l v n)"
proof -
  have s: "sync (both_at lo (lo + v) hi) (for_up 0 v (\<lambda>j decvector. bnd (idx cbvec j) (\<lambda>c. store decvector j (g * c))) (mk xs lo))
      (for_up 0 v (\<lambda>j decvector. bnd (idx cbvec j) (\<lambda>c. store decvector j (g * c))) (mk ys lo))" for cbvec g
    using overwrite_sync[of lo hi "mk xs lo" "mk ys lo" v "\<lambda>j. bnd (idx cbvec j) (\<lambda>c. Ok (g * c))"] assms
    by (simp add: bnd_assoc both_at_def)
  have add: "sync (both_at lo (lo + v) hi)
      (for_up 0 v (\<lambda>j decvector. bnd (g j) (\<lambda>x. bnd (c j) (\<lambda>y. modify decvector j (\<lambda>v. v + x * y)))) p)
      (for_up 0 v (\<lambda>j decvector. bnd (g j) (\<lambda>x. bnd (c j) (\<lambda>y. modify decvector j (\<lambda>v. v + x * y)))) q)"
    if "both_at lo (lo + v) hi p q" for g c and p q :: "float32 span"
    by (rule sync_for_up[where R = "\<lambda>_. both_at lo (lo + v) hi"])
      (use that assms(2) in \<open>auto intro!: sync_same modify_sync\<close>)
  define R where "R s t \<longleftrightarrow> both_at lo (lo + v) hi (fst s) (fst t) \<and> snd s = snd t"
    for s t :: "float32 span \<times> float32 list"
  have stages: "sync R (for_up 1 n (\<lambda>k (decvector, cbvec).
              bnd (at ix k) (\<lambda>ik.
              bnd (getCBvec (mk cbvec 0) mem ik l v) (\<lambda>cbvec.
              bnd (for_up 0 v (\<lambda>j decvector.
                bnd (idx gain k) (\<lambda>g.
                bnd (idx cbvec j) (\<lambda>c.
                modify decvector j (\<lambda>v. v + g * c)))) decvector) (\<lambda>decvector.
              Ok (decvector, cbvec))))) (p, cb))
      (for_up 1 n (\<lambda>k (decvector, cbvec).
              bnd (at ix k) (\<lambda>ik.
              bnd (getCBvec (mk cbvec 0) mem ik l v) (\<lambda>cbvec.
              bnd (for_up 0 v (\<lambda>j decvector.
                bnd (idx gain k) (\<lambda>g.
                bnd (idx cbvec j) (\<lambda>c.
                modify decvector j (\<lambda>v. v + g * c)))) decvector) (\<lambda>decvector.
              Ok (decvector, cbvec))))) (q, cb))"
    if "both_at lo (lo + v) hi p q" for gain p q cb
    by (rule sync_for_up[where R = "\<lambda>_. R"])
      (use that assms(3) in \<open>auto simp: R_def split: prod.split intro!: sync_same sync_bnd[OF add]\<close>)
  show ?thesis
    unfolding constructCodebook_def if_P[OF assms(3)]
    by (rule sync_same, rule sync_same, rule sync_same, rule sync_bnd[OF s], rule sync_bnd[OF stages], assumption)
      (auto simp: R_def both_at_def)
qed

section \<open>One subframe\<close>

text \<open>The decoder's step on the indices the encoder has just found.\<close>

lemma forward_follows:
  assumes "encode_forward e an st i (cd, mem, j) = Ok (cd', mem', j')"
  shows "decode_forward st (mk (cd_cbIndex cd') 0) (mk (cd_gainIndex cd') 0) i (mk (cd_decresidual cd) 0, mem, j) =
    Ok (mk (cd_decresidual cd') 0, mem', j')"
  using assms by (auto simp: encode_forward_def decode_forward_def Let_def bnd_eq_Ok add_def slice_def)

lemma backward_follows:
  assumes "encode_backward e an rr st i (cd, rd, mem, j) = Ok (cd', rd', mem', j')"
  shows "decode_backward (mk (cd_cbIndex cd') 0) (mk (cd_gainIndex cd') 0) i (rd, mem, j) = Ok (rd', mem', j')"
    "cd_decresidual cd' = cd_decresidual cd"
  using assms by (auto simp: encode_backward_def decode_backward_def bnd_eq_Ok add_def)

text \<open>The step of the encoder leaves the earlier indices as they are.\<close>

definition extends :: "int \<Rightarrow> coding \<Rightarrow> coding \<Rightarrow> bool" where
  "extends n cd cd' \<longleftrightarrow> same_upto_index n (cd_cbIndex cd) (cd_cbIndex cd') \<and>
     same_upto_index n (cd_gainIndex cd) (cd_gainIndex cd') \<and> cd_extraCb cd' = cd_extraCb cd \<and>
     cd_extraGain cd' = cd_extraGain cd"

lemma extends_refl [simp]: "extends n cd cd"
  by (simp add: extends_def)

lemma extends_trans: "extends n a b \<Longrightarrow> extends n' b c \<Longrightarrow> n \<le> n' \<Longrightarrow> extends n a c"
  by (simp add: extends_def same_upto_index_def)

lemma patched_same: "patched n 3 R xs ys \<Longrightarrow> n \<le> int (length xs) \<Longrightarrow> same_upto_index n xs ys"
  by (auto simp: patched_def same_upto_index_def)

lemma searchCodebook_keeps:
  assumes e: "enc_ok m e" and cd: "coding_ok j cd" and mem: "length mem = 147" and j: "0 \<le> j" "j < 4"
    and t: "0 \<le> soff t" "soff t + 40 \<le> int (length (sdata t))" and w: "0 \<le> soff w" "soff w + 11 \<le> int (length (sdata w))"
    and run: "searchCodebook e (mk (cd_cbIndex cd) (j * 3)) (mk (cd_gainIndex cd) (j * 3)) t (codebook_mem mem 147) 147 40 3 w
      (mk (replicate 10 0) 0) (j + 1) = Ok (ci, gi)"
  shows "same_upto_index (3 * j) (cd_cbIndex cd) ci" "same_upto_index (3 * j) (cd_gainIndex cd) gi"
proof -
  have bf: "block_fits e 147 40 (j + 1)" using enc_ok_cases[OF e] j by (auto simp: block_fits_def)
  have len: "length (cd_cbIndex cd) = 12" "length (cd_gainIndex cd) = 12" using cd by (auto simp: coding_ok_def blocks_ok_def)
  have "case (ci, gi) of (ci, gi) \<Rightarrow> same_upto_index (3 * j) (cd_cbIndex cd) ci \<and> same_upto_index (3 * j) (cd_gainIndex cd) gi"
    by (rule specD[OF searchCodebook_wp[OF bf] run])
      (use len mem j t w in \<open>auto simp: mult.commute intro: patched_same\<close>)
  then show "same_upto_index (3 * j) (cd_cbIndex cd) ci" "same_upto_index (3 * j) (cd_gainIndex cd) gi" by simp_all
qed


lemma forward_step:
  assumes e: "enc_ok m e" and an: "analysis_ok e an" and cd: "coding_ok j cd" and mem: "length mem = 147"
    and j: "0 \<le> j" "j < 4" and i: "0 \<le> i" "1 \<le> st" "st + 1 + i < e_subframes e"
    and run: "encode_forward e an st i (cd, mem, j) = Ok (cd', mem', j')"
  shows "extends (3 * j) cd cd'" "coding_ok (j + 1) cd'" "length mem' = 147" "j' = j + 1"
proof -
  have l: "idx memLfTbl j = Ok 147"
    using j by (auto simp: idx_def memLfTbl_def less_Suc_eq numeral_eq_Suc nth_Cons' nat_less_iff)
  have "case (cd', mem', j') of (cd', mem', j') \<Rightarrow> coding_ok (j + 1) cd' \<and> length mem' = 147 \<and> j' = j + 1"
    by (rule specD[OF encode_forward_wp[OF e an cd mem j i] run]) simp
  then show "coding_ok (j + 1) cd'" "length mem' = 147" "j' = j + 1" by simp_all
  obtain ci gi where s: "searchCodebook e (mk (cd_cbIndex cd) (j * 3)) (mk (cd_gainIndex cd) (j * 3))
       (mk (an_residual an) ((st + 1 + i) * 40)) (codebook_mem mem 147) 147 40 3
       (mk (an_weightdenum an) ((st + 1 + i) * 11)) (mk (replicate 10 0) 0) (j + 1) = Ok (ci, gi)"
    "cd_cbIndex cd' = ci" "cd_gainIndex cd' = gi" "cd_extraCb cd' = cd_extraCb cd" "cd_extraGain cd' = cd_extraGain cd"
    using run by (auto simp: encode_forward_def Let_def l bnd_eq_Ok)
  show "extends (3 * j) cd cd'"
    using searchCodebook_keeps[OF e cd mem j _ _ _ _ s(1)] i an enc_ok_cases(6,7)[OF e] s(2-5)
    by (simp add: extends_def analysis_ok_def)
qed

lemma backward_step:
  assumes e: "enc_ok m e" and an: "analysis_ok e an" and cd: "coding_ok j cd" and mem: "length mem = 147"
    and j: "0 \<le> j" "j < 4" and i: "0 \<le> i" "st < 6" "i < st - 1" and l: "length rr = 240" "length rd = 240"
    and run: "encode_backward e an rr st i (cd, rd, mem, j) = Ok (cd', rd', mem', j')"
  shows "extends (3 * j) cd cd'" "coding_ok (j + 1) cd'" "length rd' = 240" "length mem' = 147" "j' = j + 1"
proof -
  have lt: "idx memLfTbl j = Ok 147"
    using j by (auto simp: idx_def memLfTbl_def less_Suc_eq numeral_eq_Suc nth_Cons' nat_less_iff)
  have "case (cd', rd', mem', j') of (cd', rd', mem', j') \<Rightarrow> coding_ok (j + 1) cd' \<and> length rd' = 240 \<and> length mem' = 147 \<and> j' = j + 1"
    by (rule specD[OF encode_backward_wp[OF e an cd mem j i l] run]) simp
  then show "coding_ok (j + 1) cd'" "length rd' = 240" "length mem' = 147" "j' = j + 1" by simp_all
  obtain ci gi where s: "searchCodebook e (mk (cd_cbIndex cd) (j * 3)) (mk (cd_gainIndex cd) (j * 3))
       (mk rr (i * 40)) (codebook_mem mem 147) 147 40 3
       (mk (an_weightdenum an) ((st - 2 - i) * 11)) (mk (replicate 10 0) 0) (j + 1) = Ok (ci, gi)"
    "cd_cbIndex cd' = ci" "cd_gainIndex cd' = gi" "cd_extraCb cd' = cd_extraCb cd" "cd_extraGain cd' = cd_extraGain cd"
    using run by (auto simp: encode_backward_def Let_def lt bnd_eq_Ok)
  show "extends (3 * j) cd cd'"
    using searchCodebook_keeps[OF e cd mem j _ _ _ _ s(1)] i l an s(2-5)
    by (simp add: extends_def analysis_ok_def)
qed

section \<open>The subframes around the start state\<close>

lemma for_up_same:
  assumes "\<And>i s. lo \<le> i \<Longrightarrow> i < hi \<Longrightarrow> I i s \<Longrightarrow> f i s = g i s" "\<And>i s t. lo \<le> i \<Longrightarrow> i < hi \<Longrightarrow> I i s \<Longrightarrow> f i s = Ok t \<Longrightarrow> I (i + 1) t"
    and "I lo s" "lo \<le> hi" "for_up lo hi f s = Ok t"
  shows "for_up lo hi g s = Ok t"
proof -
  have "sync (\<lambda>x y. x = y \<and> I hi x) (for_up lo hi f s) (for_up lo hi g s)"
    by (rule sync_for_up[where R = "\<lambda>i x y. x = y \<and> I i x"]) (use assms(1-4) in \<open>auto simp: sync_def\<close>)
  then show ?thesis using assms(5) by (auto simp: sync_def)
qed

lemma decode_forward_count: "decode_forward st ci gi i (dec, mem, j) = Ok (dec', mem', j') \<Longrightarrow> j' = j + 1"
  by (auto simp: decode_forward_def bnd_eq_Ok Let_def)

lemma decode_backward_count: "decode_backward ci gi i (rd, mem, j) = Ok (rd', mem', j') \<Longrightarrow> j' = j + 1"
  by (auto simp: decode_backward_def bnd_eq_Ok)

lemma decode_forward_same:
  assumes "extends n cd cd'" "0 \<le> j" "3 * j + 3 \<le> n"
  shows "decode_forward st (mk (cd_cbIndex cd) 0) (mk (cd_gainIndex cd) 0) i (dec, mem, j) =
    decode_forward st (mk (cd_cbIndex cd') 0) (mk (cd_gainIndex cd') 0) i (dec, mem, j)"
  using assms constructCodebook_same[of "j * 3" "cd_cbIndex cd" "cd_cbIndex cd'" "cd_gainIndex cd" "cd_gainIndex cd'"]
  by (simp add: decode_forward_def add_def extends_def same_upto_index_def)

lemma decode_backward_same:
  assumes "extends n cd cd'" "0 \<le> j" "3 * j + 3 \<le> n"
  shows "decode_backward (mk (cd_cbIndex cd) 0) (mk (cd_gainIndex cd) 0) i (rd, mem, j) =
    decode_backward (mk (cd_cbIndex cd') 0) (mk (cd_gainIndex cd') 0) i (rd, mem, j)"
  using assms constructCodebook_same[of "j * 3" "cd_cbIndex cd" "cd_cbIndex cd'" "cd_gainIndex cd" "cd_gainIndex cd'"]
  by (simp add: decode_backward_def add_def extends_def same_upto_index_def)

text \<open>What the decoder has made of the first \<open>n\<close> subframes does not depend on the later indices.\<close>

lemma forward_replay_same:
  assumes "for_up 0 n (decode_forward st (mk (cd_cbIndex cd) 0) (mk (cd_gainIndex cd) 0)) (dec, mem, 0) = Ok t"
    "extends (3 * n) cd cd'" "0 \<le> n"
  shows "for_up 0 n (decode_forward st (mk (cd_cbIndex cd') 0) (mk (cd_gainIndex cd') 0)) (dec, mem, 0) = Ok t"
  by (rule for_up_same[where I = "\<lambda>i s. snd (snd s) = i", OF _ _ _ _ assms(1)])
    (use assms(2,3) in \<open>auto intro: decode_forward_same dest: decode_forward_count\<close>)

lemma backward_replay_same:
  assumes "for_up 0 n (decode_backward (mk (cd_cbIndex cd) 0) (mk (cd_gainIndex cd) 0)) (rd, mem, b) = Ok t"
    "extends (3 * (b + n)) cd cd'" "0 \<le> n" "0 \<le> b"
  shows "for_up 0 n (decode_backward (mk (cd_cbIndex cd') 0) (mk (cd_gainIndex cd') 0)) (rd, mem, b) = Ok t"
  by (rule for_up_same[where I = "\<lambda>i s. snd (snd s) = b + i", OF _ _ _ _ assms(1)])
    (use assms(2-4) in \<open>auto intro: decode_backward_same dest: decode_backward_count\<close>)


lemma for_up_snoc:
  assumes "for_up lo i f s = Ok t" "f i t = Ok u" "lo \<le> i"
  shows "for_up lo (i + 1) f s = Ok u"
  using assms for_up_split[of lo i "i + 1" f s] by (simp add: for_up_step)

lemma forward_loop:
  assumes e: "enc_ok m e" and an: "analysis_ok e an" and cd: "coding_ok 0 cd" and mem: "length mem = 147"
    and n: "0 \<le> n" "n \<le> e_subframes e - st - 1" and st: "1 \<le> st"
  shows "spec E (\<lambda>(cd', mem', j). coding_ok n cd' \<and> length mem' = 147 \<and> j = n \<and> extends 0 cd cd' \<and>
      for_up 0 n (decode_forward st (mk (cd_cbIndex cd') 0) (mk (cd_gainIndex cd') 0)) (mk (cd_decresidual cd) 0, mem, 0) =
        Ok (mk (cd_decresidual cd') 0, mem', n))
    (for_up 0 n (encode_forward e an st) (cd, mem, 0))" (is "spec E (?I n) _")
proof (rule for_up_spec[where I = ?I])
  fix i s assume i: "0 \<le> i" "i < n" and I: "?I i s"
  obtain c1 m1 where s: "s = (c1, m1, i)" "coding_ok i c1" "length m1 = 147" "extends 0 cd c1"
      "for_up 0 i (decode_forward st (mk (cd_cbIndex c1) 0) (mk (cd_gainIndex c1) 0)) (mk (cd_decresidual cd) 0, mem, 0) =
        Ok (mk (cd_decresidual c1) 0, m1, i)" using I by (cases s) auto
  have r: "i < 4" "st + 1 + i < e_subframes e" using i n st enc_ok_cases(6,7)[OF e] by auto
  show "spec E (?I (i + 1)) (encode_forward e an st i s)"
    unfolding s(1)
  proof (rule spec_mono_eq[OF encode_forward_wp[OF e an s(2,3) i(1) r(1) i(1) st r(2), where Q = "\<lambda>_. True"]])
    fix t assume t: "encode_forward e an st i (c1, m1, i) = Ok t"
    obtain c2 m2 j2 where t': "t = (c2, m2, j2)" by (cases t)
    note step = forward_step[OF e an s(2,3) i(1) r(1) i(1) st r(2) t[unfolded t']]
    have "for_up 0 i (decode_forward st (mk (cd_cbIndex c2) 0) (mk (cd_gainIndex c2) 0)) (mk (cd_decresidual cd) 0, mem, 0) =
        Ok (mk (cd_decresidual c1) 0, m1, i)"
      by (rule forward_replay_same[OF s(5) step(1) i(1)])
    from for_up_snoc[OF this forward_follows[OF t[unfolded t']] i(1)]
    show "?I (i + 1) t" using step extends_trans[OF s(4) step(1)] i by (simp add: t')
  qed simp
qed (use cd mem n in simp_all)

lemma backward_loop:
  assumes e: "enc_ok m e" and an: "analysis_ok e an" and cd: "coding_ok b cd" and mem: "length mem = 147"
    and n: "0 \<le> n" "n \<le> st - 1" "st < 6" "0 \<le> b" "b + n \<le> 4" and l: "length rr = 240" "length rd = 240"
  shows "spec E (\<lambda>(cd', rd', mem', j). coding_ok (b + n) cd' \<and> length rd' = 240 \<and> length mem' = 147 \<and> j = b + n \<and>
      extends (3 * b) cd cd' \<and> cd_decresidual cd' = cd_decresidual cd \<and>
      for_up 0 n (decode_backward (mk (cd_cbIndex cd') 0) (mk (cd_gainIndex cd') 0)) (rd, mem, b) = Ok (rd', mem', b + n))
    (for_up 0 n (encode_backward e an rr st) (cd, rd, mem, b))" (is "spec E (?I n) _")
proof (rule for_up_spec[where I = ?I])
  fix i s assume i: "0 \<le> i" "i < n" and I: "?I i s"
  obtain c1 r1 m1 where s: "s = (c1, r1, m1, b + i)" "coding_ok (b + i) c1" "length r1 = 240" "length m1 = 147"
      "extends (3 * b) cd c1" "cd_decresidual c1 = cd_decresidual cd"
      "for_up 0 i (decode_backward (mk (cd_cbIndex c1) 0) (mk (cd_gainIndex c1) 0)) (rd, mem, b) = Ok (r1, m1, b + i)"
    using I by (cases s) auto
  have r: "0 \<le> b + i" "b + i < 4" "i < st - 1" using i n by auto
  show "spec E (?I (i + 1)) (encode_backward e an rr st i s)"
    unfolding s(1)
  proof (rule spec_mono_eq[OF encode_backward_wp[OF e an s(2,4) r(1,2) i(1) n(3) r(3) l(1) s(3), where Q = "\<lambda>_. True"]])
    fix t assume t: "encode_backward e an rr st i (c1, r1, m1, b + i) = Ok t"
    obtain c2 r2 m2 j2 where t': "t = (c2, r2, m2, j2)" by (cases t)
    note step = backward_step[OF e an s(2,4) r(1,2) i(1) n(3) r(3) l(1) s(3) t[unfolded t']]
    note follow = backward_follows[OF t[unfolded t']]
    have "for_up 0 i (decode_backward (mk (cd_cbIndex c2) 0) (mk (cd_gainIndex c2) 0)) (rd, mem, b) = Ok (r1, m1, b + i)"
      by (rule backward_replay_same[OF s(7) step(1) i(1) n(4)])
    from for_up_snoc[OF this follow(1) i(1)]
    show "?I (i + 1) t" using step extends_trans[OF s(5) step(1)] s(6) follow(2) i by (simp add: t' ac_simps)
  qed simp
qed (use cd mem l n in simp_all)

text \<open>The time-reversed residual the decoder starts from is blank; every entry that is read has
  been written before.\<close>

lemma backward_fresh:
  assumes "same_outside 0 (40 * n) rd rd'" "0 \<le> n"
  shows "sync (=) (for_up 0 n (decode_backward ci gi) (rd, mem, b)) (for_up 0 n (decode_backward ci gi) (rd', mem, b))"
proof -
  define R where "R i s t \<longleftrightarrow> same_outside (40 * i) (40 * n) (fst s) (fst t) \<and> snd s = snd t"
    for i :: int and s t :: "float32 list \<times> float32 list \<times> int"
  have "sync (R n) (for_up 0 n (decode_backward ci gi) (rd, mem, b)) (for_up 0 n (decode_backward ci gi) (rd', mem, b))"
  proof (rule sync_for_up)
    fix i s t assume i: "0 \<le> i" "i < n" "R i s t"
    obtain r r' m j where st: "s = (r, m, j)" "t = (r', m, j)" "same_outside (40 * i) (40 * n) r r'"
      using i(3) by (cases s; cases t) (auto simp: R_def)
    show "sync (R (i + 1)) (decode_backward ci gi i s) (decode_backward ci gi i t)"
      unfolding st decode_backward_def prod.case
    proof (rule sync_same, rule sync_bnd[OF constructCodebook_fresh])
      fix l x y assume x: "same_outside (i * 40 + 40) (40 * n) x (y :: float32 list)"
      have "sub x (i * 40) (i * 40 + 40) = sub y (i * 40) (i * 40 + 40)"
        by (rule same_outside_sub[OF x]) simp
      then show "sync (R (i + 1)) (bnd (sub x (i * 40) (i * 40 + 40)) (\<lambda>xs. bnd (mem_shift m xs) (\<lambda>mem. Ok (x, mem, j + 1))))
          (bnd (sub y (i * 40) (i * 40 + 40)) (\<lambda>xs. bnd (mem_shift m xs) (\<lambda>mem. Ok (y, mem, j + 1))))"
        using x by (auto simp: R_def algebra_simps intro!: sync_same)
    qed (use st(3) in \<open>simp_all add: mult.commute\<close>)
  qed (use assms in \<open>simp_all add: R_def\<close>)
  then show ?thesis by (rule sync_mono) (auto simp: R_def same_outside_all prod_eq_iff)
qed


lemma store_loop_soff:
  assumes "for_up lo hi (\<lambda>k p. bnd (w k) (store p (a k))) p = Ok q"
  shows "soff q = soff p"
proof -
  have "spec (\<lambda>_. True) (\<lambda>q. soff q = soff p) (for_up lo hi (\<lambda>k p. bnd (w k) (store p (a k))) p)"
    by (rule for_up_inv[where I = "\<lambda>q. soff q = soff p"]) (auto simp: spec_def store_def bnd_eq_Ok split: sum.split)
  then show ?thesis using assms by simp
qed

lemma boundary_follows:
  assumes e: "enc_ok m e" and st: "1 \<le> st" "st < e_subframes e" and d: "d_shortStateSamples d = e_shortStateSamples e"
    and cd: "length (cd_decresidual cd) = 240"
    and sp: "startPos = (if sf \<noteq> 0 then (st - 1) * 40 else (st - 1) * 40 + (80 - e_shortStateSamples e))"
    and run: "encode_boundary e an st sf startPos cd = Ok (cd', mem')"
  shows "decode_boundary d (mk (cd_decresidual cd) 0) st sf startPos (mk (cd_extraCb cd') 0) (mk (cd_extraGain cd') 0) (replicate 147 0) =
      Ok (mk (cd_decresidual cd') 0, mem')"
    "cd_cbIndex cd' = cd_cbIndex cd" "cd_gainIndex cd' = cd_gainIndex cd"
proof -
  show "cd_cbIndex cd' = cd_cbIndex cd" "cd_gainIndex cd' = cd_gainIndex cd"
    using run by (auto simp: encode_boundary_def Let_def bnd_eq_Ok split: if_splits)
  define n where "n = 80 - e_shortStateSamples e"
  have n: "n = 22 \<or> n = 23" and ns: "e_shortStateSamples e = 80 - n" using enc_ok_cases(8)[OF e] by (auto simp: n_def)
  have diff: "80 - (80 - n) = n" by simp
  show "decode_boundary d (mk (cd_decresidual cd) 0) st sf startPos (mk (cd_extraCb cd') 0) (mk (cd_extraGain cd') 0) (replicate 147 0) =
      Ok (mk (cd_decresidual cd') 0, mem')"
  proof (cases "sf = 0")
    case False
    then show ?thesis
      using run by (auto simp: encode_boundary_def decode_boundary_def Let_def bnd_eq_Ok add_def slice_def d)
  next
    case True
    then have nz: "\<not> sf \<noteq> 0" by simp
    obtain ms ci gi rd q where r: "mem_reverse (replicate 147 0) (mk (cd_decresidual cd) 0) startPos (80 - n) = Ok ms"
        "constructCodebook (mk (replicate 240 0) 0) (mk ci 0) (mk gi 0) (codebook_mem ms stMemLTbl) stMemLTbl n 3 = Ok rd"
        "for_up 0 n (\<lambda>k dec. bnd (idx rd k) (store dec (startPos - 1 - k))) (mk (cd_decresidual cd) 0) = Ok q"
        "cd' = cd\<lparr>cd_extraCb := ci, cd_extraGain := gi, cd_decresidual := sdata q\<rparr>" "mem' = ms"
      using run unfolding encode_boundary_def Let_def ns diff if_not_P[OF nz] by (auto simp: bnd_eq_Ok)
    have rev: "safe (\<lambda>r. same_outside 0 n (replicate 240 0) r) (for_up 0 n (\<lambda>k rev.
          bnd (at (mk (cd_decresidual cd) 0) ((st + 1) * 40 - 1 - (k + (80 - n)))) (\<lambda>x. upd rev k x)) (replicate 240 0))"
    proof (rule for_up_spec[where I = "\<lambda>i r. same_outside 0 n (replicate 240 0) r"])
      fix k and r :: "float32 list" assume k: "0 \<le> k" "k < n" "same_outside 0 n (replicate 240 0) r"
      have l: "length r = 240" using same_outside_lengths[OF k(3)] by simp
      have "same_outside 0 n (replicate 240 0) (r[nat k := v])" for v
        using k by (auto simp: same_outside_def nth_list_update)
      moreover have "at (mk (cd_decresidual cd) 0) ((st + 1) * 40 - 1 - (k + (80 - n))) =
          Ok (cd_decresidual cd ! nat ((st + 1) * 40 - 1 - (k + (80 - n))))"
        unfolding at_mk add_0 by (rule idx_in) (use k(1,2) cd st n enc_ok_cases(6,7)[OF e] in auto)
      ultimately show "safe (\<lambda>r. same_outside 0 n (replicate 240 0) r)
          (bnd (at (mk (cd_decresidual cd) 0) ((st + 1) * 40 - 1 - (k + (80 - n)))) (\<lambda>x. upd r k x))"
        using k(1,2) l n by auto
    qed (use n in auto)
    then obtain r where rev_r: "for_up 0 n (\<lambda>k rev.
          bnd (at (mk (cd_decresidual cd) 0) ((st + 1) * 40 - 1 - (k + (80 - n)))) (\<lambda>x. upd rev k x)) (replicate 240 0) = Ok r"
        "same_outside 0 n (replicate 240 0) r" by (auto simp: safe_iff)
    have con: "constructCodebook (mk r 0) (mk ci 0) (mk gi 0) (codebook_mem ms stMemLTbl) stMemLTbl n 3 = Ok rd"
      using sync_OkD[OF constructCodebook_fresh[OF rev_r(2)] r(2)] n by (auto simp: same_outside_all)
    have q: "q = mk (sdata q) 0" using store_loop_soff[OF r(3)] by simp
    show ?thesis
      unfolding decode_boundary_def Let_def d ns diff if_not_P[OF nz] rev_r(1) bnd.simps r(1) using con r q by simp
  qed
qed


lemma same_outside_set:
  assumes "same_outside lo hi xs ys" "lo \<le> k" "k < hi" "0 \<le> k"
  shows "same_outside lo hi xs (ys[nat k := v])"
  using assms by (auto simp: same_outside_def nth_list_update)

lemma encode_reverse_blank:
  assumes "encode_reverse res dec st n = Ok (rr, rd)" "0 \<le> n"
  shows "length rr = 240" "same_outside 0 (40 * n) (replicate 240 0) rd"
proof -
  define I where "I = (\<lambda>(a :: float32 list, b :: float32 list). length a = 240 \<and> same_outside 0 (40 * n) (replicate 240 0) b)"
  have inner: "spec (\<lambda>_. True) I ((\<lambda>(rr, rd).
       bnd (idx res ((st - 1) * 40 - 1 - i * 40 - k)) (\<lambda>x.
       bnd (upd rr (i * 40 + k) x) (\<lambda>rr.
       bnd (idx dec ((st - 1) * 40 - 1 - i * 40 - k)) (\<lambda>y.
       bnd (upd rd (i * 40 + k) y) (\<lambda>rd.
       Ok (rr, rd)))))) s)" if "0 \<le> i" "i < n" "0 \<le> k" "k < 40" "I s" for i k s
  proof -
    have "0 \<le> i * 40 + k" "i * 40 + k < 40 * n" using that by auto
    then show ?thesis
      using that(5) same_outside_set[of 0 "40 * n" "replicate 240 0" "snd s" "i * 40 + k"]
      by (cases s) (auto simp: I_def spec_def bnd_eq_Ok upd_def split: sum.split if_splits)
  qed
  have "spec (\<lambda>_. True) I (encode_reverse res dec st n)"
    unfolding encode_reverse_def
    by (rule for_up_inv[where I = I], simp add: I_def, rule for_up_inv[where I = I], assumption, rule inner; simp)
  then show "length rr = 240" "same_outside 0 (40 * n) (replicate 240 0) rd"
    using assms(1) by (simp_all add: I_def)
qed

lemma copy_back_follows:
  assumes "for_up 0 n (\<lambda>i dec. bnd (idx rd i) (\<lambda>x. upd dec (n - i - 1) x)) dec = Ok dec'" "0 \<le> n"
  shows "for_up 0 n (\<lambda>i p. bnd (idx rd i) (\<lambda>x. store p (n - i - 1) x)) (mk dec 0) = Ok (mk dec' 0)"
proof -
  have "sync (\<lambda>p q. q = mk p 0) (for_up 0 n (\<lambda>i dec. bnd (idx rd i) (\<lambda>x. upd dec (n - i - 1) x)) dec)
      (for_up 0 n (\<lambda>i p. bnd (idx rd i) (\<lambda>x. store p (n - i - 1) x)) (mk dec 0))"
    by (rule sync_for_up[where R = "\<lambda>_ p q. q = mk p 0"])
      (use assms(2) in \<open>auto simp: sync_def store_def put_def bnd_eq_Ok\<close>)
  then show ?thesis using assms(1) by (auto simp: sync_def)
qed

text \<open>The two halves of \<open>encode_rest\<close> and \<open>decode_rest\<close>.\<close>

lemma front_follows:
  assumes e: "enc_ok m e" and an: "analysis_ok e an" and cd: "coding_ok 0 cd" and mem: "length mem = 147"
    and n: "0 \<le> n" "n = e_subframes e - st - 1" and st: "1 \<le> st"
    and run: "(if 0 < n then
            bnd (clear_sub mem 0 67) (\<lambda>mem.
            bnd (sub (cd_decresidual cd) ((st - 1) * 40) ((st - 1) * 40 + 80)) (\<lambda>xs.
            bnd (copy_sub mem 67 147 xs) (\<lambda>mem.
            for_up 0 n (encode_forward e an st) (cd, mem, 0))))
          else Ok (cd, mem, 0)) = Ok (cd1, m1, j)"
  shows "coding_ok n cd1" "length m1 = 147" "j = n" "extends 0 cd cd1"
    "extends (3 * n) cd1 cd2 \<Longrightarrow> (if 0 < n then
             bnd (clear_sub mem 0 67) (\<lambda>mem.
             bnd (slice (add (mk (cd_decresidual cd) 0) ((st - 1) * 40)) 80) (\<lambda>xs.
             bnd (copy_sub mem 67 147 xs) (\<lambda>mem.
             for_up 0 n (decode_forward st (mk (cd_cbIndex cd2) 0) (mk (cd_gainIndex cd2) 0)) (mk (cd_decresidual cd) 0, mem, 0))))
           else Ok (mk (cd_decresidual cd) 0, mem, 0)) = Ok (mk (cd_decresidual cd1) 0, m1, n)"
proof -
  have *: "coding_ok n cd1 \<and> length m1 = 147 \<and> j = n \<and> extends 0 cd cd1 \<and>
    (extends (3 * n) cd1 cd2 \<longrightarrow> (if 0 < n then
             bnd (clear_sub mem 0 67) (\<lambda>mem.
             bnd (slice (add (mk (cd_decresidual cd) 0) ((st - 1) * 40)) 80) (\<lambda>xs.
             bnd (copy_sub mem 67 147 xs) (\<lambda>mem.
             for_up 0 n (decode_forward st (mk (cd_cbIndex cd2) 0) (mk (cd_gainIndex cd2) 0)) (mk (cd_decresidual cd) 0, mem, 0))))
           else Ok (mk (cd_decresidual cd) 0, mem, 0)) = Ok (mk (cd_decresidual cd1) 0, m1, n))"
  proof (cases "0 < n")
    case True
    obtain a xs b where r: "clear_sub mem 0 67 = Ok a"
        "sub (cd_decresidual cd) ((st - 1) * 40) ((st - 1) * 40 + 80) = Ok xs" "copy_sub a 67 147 xs = Ok b"
        "for_up 0 n (encode_forward e an st) (cd, b, 0) = Ok (cd1, m1, j)"
      using run True by (auto simp: bnd_eq_Ok)
    have "length (cd_decresidual cd) = 240" using cd by (simp add: coding_ok_def)
    then have b: "length b = 147" using r(1-3) mem by (auto simp: sub_def copy_sub_def split: if_splits)
    note f = specD[OF forward_loop[OF e an cd b n(1) _ st] r(4), unfolded prod.case]
    then have f: "coding_ok n cd1" "length m1 = 147" "j = n" "extends 0 cd cd1"
      "for_up 0 n (decode_forward st (mk (cd_cbIndex cd1) 0) (mk (cd_gainIndex cd1) 0)) (mk (cd_decresidual cd) 0, b, 0) =
        Ok (mk (cd_decresidual cd1) 0, m1, n)" using n(2) by simp_all
    then show ?thesis using r(1-3) True forward_replay_same[OF f(5) _ n(1), of cd2] by (simp add: slice_def)
  next
    case False
    then show ?thesis using run cd mem n(1) by auto
  qed
  then show "coding_ok n cd1" "length m1 = 147" "j = n" "extends 0 cd cd1" by simp_all
  show "(if 0 < n then
             bnd (clear_sub mem 0 67) (\<lambda>mem.
             bnd (slice (add (mk (cd_decresidual cd) 0) ((st - 1) * 40)) 80) (\<lambda>xs.
             bnd (copy_sub mem 67 147 xs) (\<lambda>mem.
             for_up 0 n (decode_forward st (mk (cd_cbIndex cd2) 0) (mk (cd_gainIndex cd2) 0)) (mk (cd_decresidual cd) 0, mem, 0))))
           else Ok (mk (cd_decresidual cd) 0, mem, 0)) = Ok (mk (cd_decresidual cd1) 0, m1, n)" if "extends (3 * n) cd1 cd2"
    using * that by blast
qed

lemma back_follows:
  assumes e: "enc_ok m e" and an: "analysis_ok e an" and cd: "coding_ok b cd" and mem: "length mem = 147"
    and n: "0 \<le> n" "n = st - 1" "st < 6" "0 \<le> b" "b + n \<le> 4" and g: "g \<le> 147" "0 \<le> (st - 1) * 40" "(st - 1) * 40 + g \<le> 240"
    and run: "(if 0 < n then
       bnd (encode_reverse (an_residual an) (cd_decresidual cd) st n) (\<lambda>(rr, rd).
       bnd (mem_reverse mem (mk (cd_decresidual cd) 0) ((st - 1) * 40) g) (\<lambda>mem.
       bnd (for_up 0 n (encode_backward e an rr st) (cd, rd, mem, b))
         (\<lambda>(cd, rd, mem, subcount).
       bnd (for_up 0 (40 * n) (\<lambda>i dec.
         bnd (idx rd i) (\<lambda>x. upd dec (40 * n - i - 1) x)) (cd_decresidual cd)) (\<lambda>dec.
       Ok (cd\<lparr>cd_decresidual := dec\<rparr>)))))
     else Ok cd) = Ok cd'"
  shows "extends (3 * b) cd cd'" "(if 0 < n then
        bnd (mem_reverse mem (mk (cd_decresidual cd) 0) ((st - 1) * 40) g) (\<lambda>mem.
        bnd (for_up 0 n (decode_backward (mk (cd_cbIndex cd') 0) (mk (cd_gainIndex cd') 0)) (replicate 240 0, mem, b))
          (\<lambda>(reverseDecresidual, mem, subcount).
        for_up 0 (40 * n) (\<lambda>i decresidual.
          bnd (idx reverseDecresidual i) (\<lambda>x.
          store decresidual (40 * n - i - 1) x)) (mk (cd_decresidual cd) 0)))
      else Ok (mk (cd_decresidual cd) 0)) = Ok (mk (cd_decresidual cd') 0)" (is "?L = _")
proof -
  have "extends (3 * b) cd cd' \<and> ?L = Ok (mk (cd_decresidual cd') 0)"
  proof (cases "0 < n")
    case True
    obtain rr rd ms c2 rd2 m2 j2 dec where r: "encode_reverse (an_residual an) (cd_decresidual cd) st n = Ok (rr, rd)"
        "mem_reverse mem (mk (cd_decresidual cd) 0) ((st - 1) * 40) g = Ok ms"
        "for_up 0 n (encode_backward e an rr st) (cd, rd, ms, b) = Ok (c2, rd2, m2, j2)"
        "for_up 0 (40 * n) (\<lambda>i dec. bnd (idx rd2 i) (\<lambda>x. upd dec (40 * n - i - 1) x)) (cd_decresidual c2) = Ok dec"
        "cd' = c2\<lparr>cd_decresidual := dec\<rparr>"
      using run True by (auto simp: bnd_eq_Ok)
    note blank = encode_reverse_blank[OF r(1) n(1)]
    have rd: "length rd = 240" using same_outside_lengths[OF blank(2)] by simp
    have "length (cd_decresidual cd) = 240" using cd by (simp add: coding_ok_def)
    then have ms: "length ms = 147"
      by (intro specD[OF mem_reverse_wp r(2), where Q = "\<lambda>m. length m = 147"]) (use mem g in simp_all)
    have nn: "n \<le> st - 1" using n(2) by simp
    have f: "extends (3 * b) cd c2" "cd_decresidual c2 = cd_decresidual cd"
      "for_up 0 n (decode_backward (mk (cd_cbIndex c2) 0) (mk (cd_gainIndex c2) 0)) (rd, ms, b) = Ok (rd2, m2, b + n)"
      using specD[OF backward_loop[OF e an cd ms n(1) nn n(3-5) blank(1) rd] r(3), unfolded prod.case] by simp_all
    have "same_outside 0 (40 * n) rd (replicate 240 0)" using blank(2) by (simp add: same_outside_def)
    from sync_OkD[OF backward_fresh[OF this n(1)] f(3)]
    have "for_up 0 n (decode_backward (mk (cd_cbIndex c2) 0) (mk (cd_gainIndex c2) 0)) (replicate 240 0, ms, b) = Ok (rd2, m2, b + n)"
      by simp
    then show ?thesis
      using True r(2) copy_back_follows[OF r(4)] f(1,2) n(1) by (simp add: r(5) extends_def)
  next
    case False
    then show ?thesis using run by simp
  qed
  then show "extends (3 * b) cd cd'" "?L = Ok (mk (cd_decresidual cd') 0)" by simp_all
qed

lemma rest_follows:
  assumes e: "enc_ok m e" and an: "analysis_ok e an" and cd: "coding_ok 0 cd" and mem: "length mem = 147"
    and st: "1 \<le> st" "st < e_subframes e" and d: "d_subframes d = e_subframes e"
    and run: "encode_rest e an st (cd, mem) = Ok cd'"
  shows "decode_rest d (mk (cd_decresidual cd) 0) st (mk (cd_cbIndex cd') 0) (mk (cd_gainIndex cd') 0) mem =
      Ok (mk (cd_decresidual cd') 0)"
    "extends 0 cd cd'"
proof -
  define nfor where "nfor = e_subframes e - st - 1"
  define g where "g = (if 147 < 40 * (e_subframes e + 1 - st) then 147 else 40 * (e_subframes e + 1 - st))"
  note c = enc_ok_cases(6,7)[OF e]
  have n: "0 \<le> nfor" "0 \<le> st - 1" "st < 6" "nfor + (st - 1) \<le> 4" "g \<le> 147" "(st - 1) * 40 + g \<le> 240" "0 \<le> (st - 1) * 40"
    using st c by (auto simp: nfor_def g_def)
  note r = run[unfolded encode_rest_def prod.case Let_def, folded nfor_def g_def]
  obtain cd1 m1 j where front: "(if 0 < nfor then
            bnd (clear_sub mem 0 67) (\<lambda>mem.
            bnd (sub (cd_decresidual cd) ((st - 1) * 40) ((st - 1) * 40 + 80)) (\<lambda>xs.
            bnd (copy_sub mem 67 147 xs) (\<lambda>mem.
            for_up 0 nfor (encode_forward e an st) (cd, mem, 0))))
          else Ok (cd, mem, 0)) = Ok (cd1, m1, j)"
    using r by (auto simp: bnd_eq_Ok simp del: bnd_if)
  note f = front_follows[OF e an cd mem n(1) nfor_def st(1) front]
  note b = back_follows[OF e an f(1,2) n(2) refl n(3,1,4,5,7,6) r[unfolded front bnd.simps prod.case f(3)]]
  show "extends 0 cd cd'" using extends_trans[OF f(4) b(1)] n(1) by simp
  show "decode_rest d (mk (cd_decresidual cd) 0) st (mk (cd_cbIndex cd') 0) (mk (cd_gainIndex cd') 0) mem =
      Ok (mk (cd_decresidual cd') 0)"
    unfolding decode_rest_def Let_def d nfor_def[symmetric] g_def[symmetric] f(5)[OF b(1)] bnd.simps prod.case by (rule b(2))
qed


section \<open>A frame\<close>

text \<open>The decoder \<open>d\<close> has the mode of the encoder \<open>e\<close> and its history of LSFs: all that the
  reconstruction of a frame depends on.\<close>

definition in_step :: "int \<Rightarrow> encoderState \<Rightarrow> decoderState \<Rightarrow> bool" where
  "in_step m e d \<longleftrightarrow> enc_ok m e \<and> (\<exists>en. dec_ok m en d) \<and> d_lsfdeqold d = e_lsfdeqold e"

lemma in_step_consts:
  assumes "in_step m e d"
  shows "enc_ok m e" "d_mode d = e_mode e" "d_subframes d = e_subframes e" "d_lpcAnalyses d = e_lpcAnalyses e"
    "d_shortStateSamples d = e_shortStateSamples e" "d_frameSamples d = e_frameSamples e" "d_lsfdeqold d = e_lsfdeqold e"
    "plc_ok d"
proof -
  obtain en where d: "dec_ok m en d" and e: "enc_ok m e" "d_lsfdeqold d = e_lsfdeqold e" using assms by (auto simp: in_step_def)
  show "enc_ok m e" "d_lsfdeqold d = e_lsfdeqold e" "plc_ok d" using e d by (simp_all add: dec_ok_def)
  show "d_mode d = e_mode e" "d_subframes d = e_subframes e" "d_lpcAnalyses d = e_lpcAnalyses e"
    "d_shortStateSamples d = e_shortStateSamples e" "d_frameSamples d = e_frameSamples e"
    using d e(1) by (auto simp: dec_ok_def mode_consts_def mode_of_def mode_frame_def enc_ok_def enc_consts_def split: if_splits)
qed

text \<open>After an intact frame concealment only records the residual.\<close>

lemma doThePLC_passes:
  assumes d: "plc_ok d" and r: "length r = 240" and l: "0 \<le> soff l" "soff l + 11 \<le> int (length (sdata l))"
  shows "safe (\<lambda>(r', l', d'). take (nat (d_frameSamples d)) r' = take (nat (d_frameSamples d)) r \<and> length r' = 240 \<and>
      plc_frame d d' \<and> plc_ok d') (doThePLC (mk (replicate 240 0) 0) (mk (replicate 11 0) 0) 0 (mk r 0) l lag d)"
proof -
  have n: "d_frameSamples d = 160 \<or> d_frameSamples d = 240" "length (prevResidual d) = 240" "length (prevLpc d) = 11"
    using d by (auto simp: plc_ok_def)
  show ?thesis
    unfolding doThePLC_def
    using n r l d by (auto simp: Let_def copy_slice_def plc_ok_def plc_frame_def blit_def)
qed


lemma analysis_follows:
  assumes s: "in_step m e d" and b: "length block = 240" and run: "encode_analysis P (mk block 0) e = Ok (an, e1)"
  shows "\<exists>q q' u w. dequantizeLSF (mk (replicate 20 0) 0) (mk (an_lsfI an) 0) (d_lpcAnalyses d) = Ok q \<and>
    checkLSF (mk q 0) 10 (d_lpcAnalyses d) = Ok (q', u) \<and>
    decoderInterpolateLSF P (mk (replicate 66 0) 0) (mk (replicate 66 0) 0) (mk q' 0) 10 d =
      Ok (an_syntdenum an, w, d\<lparr>d_lsfdeqold := e_lsfdeqold e1\<rparr>)"
    "analysis_ok e1 an" "enc_ok m e1" "e_subframes e1 = e_subframes e" "e_shortStateSamples e1 = e_shortStateSamples e"
proof -
  note d = in_step_consts[OF s]
  have "case (an, e1) of (an, e1) \<Rightarrow> analysis_ok e1 an \<and> enc_ok m e1"
    by (rule specD[OF encode_analysis_wp[OF d(1)] run]) (use b in simp_all)
  then show "analysis_ok e1 an" and e1: "enc_ok m e1" by simp_all
  show "e_subframes e1 = e_subframes e" "e_shortStateSamples e1 = e_shortStateSamples e"
    using e1 d(1) by (auto simp: enc_ok_def enc_consts_def)
  obtain data hm synt weight ls e2 res am where r: "hpInput (mk block 0) (e_frameSamples e) (mk (replicate 240 0) 0) (mk (hpimem e) 0) = Ok (data, hm)"
      "encodeLPC P (mk (replicate 66 0) 0) (mk (replicate 66 0) 0) (mk (replicate 6 0) 0) (mk data 0) (e\<lparr>hpimem := hm\<rparr>) =
        Ok (synt, weight, ls, e2)"
      "an = \<lparr>an_syntdenum = synt, an_weightdenum = weight, an_lsfI = ls, an_residual = res\<rparr>" "e1 = e2\<lparr>anaMem := am\<rparr>"
    using run by (auto simp: encode_analysis_def Let_def bnd_eq_Ok)
  have h: "length (hpimem e) = 4" "0 \<le> e_frameSamples e" "e_frameSamples e \<le> 240"
    using d(1) enc_ok_cases(3,4)[OF d(1)] by (simp_all add: enc_ok_def)
  have "case (data, hm) of (data, hm) \<Rightarrow> length data = 240 \<and> length hm = 4"
    by (rule specD[OF hpInput_wp r(1)]) (use b h in simp_all)
  then have data: "length data = 240" "length hm = 4" by simp_all
  have e': "enc_ok m (e\<lparr>hpimem := hm\<rparr>)" using d(1) data(2) unfolding enc_ok_def enc_consts_def by simp
  show "\<exists>q q' u w. dequantizeLSF (mk (replicate 20 0) 0) (mk (an_lsfI an) 0) (d_lpcAnalyses d) = Ok q \<and>
    checkLSF (mk q 0) 10 (d_lpcAnalyses d) = Ok (q', u) \<and>
    decoderInterpolateLSF P (mk (replicate 66 0) 0) (mk (replicate 66 0) 0) (mk q' 0) 10 d =
      Ok (an_syntdenum an, w, d\<lparr>d_lsfdeqold := e_lsfdeqold e1\<rparr>)"
    using lpc_sync[OF e' _ _ _ _ _ _ r(2), of d] d data h by (simp add: r(3,4))
qed

lemma indices_restored:
  assumes "coding_ok n cd" "1 \<le> n"
  shows "convertDecoderIndices (mk ((cd_cbIndex cd)[1 := enc_conv (cd_cbIndex cd ! 1), 2 := enc_conv (cd_cbIndex cd ! 2)]) 0) =
    Ok (cd_cbIndex cd)"
proof -
  have c: "blocks_ok cb_entry n (cd_cbIndex cd)" using assms(1) by (simp add: coding_ok_def)
  have l: "length (cd_cbIndex cd) = 12" using c by (simp add: blocks_ok_def)
  have "restricted_index (cd_cbIndex cd ! 1)" "restricted_index (cd_cbIndex cd ! 2)"
    using blocks_okD[OF c, of 1] blocks_okD[OF c, of 2] assms(2) by (auto simp: cb_entry_def split: if_splits)
  then show ?thesis using l by (simp add: convertDecoder_eq dec_enc_conv list_update_swap)
qed

lemma received_follows:
  assumes s: "in_step m e d" and b: "length block = 240" and run: "encode_indices P (mk block 0) e = Ok (fr, dec, e')"
  shows "\<exists>synt d'. decode_received P fr d = Ok (dec, synt, d') \<and> in_step m e' d'"
proof -
  note d = in_step_consts[OF s]
  obtain an st sf sp im iv dec0 cd0 mem cd ci where r: "encode_analysis P (mk block 0) e = Ok (an, e')"
      "frameClassify e' (mk (an_residual an) 0) = Ok st" "state_position e' (an_residual an) st = Ok (sf, sp)"
      "stateSearchW P e' (mk (an_residual an) sp) (mk (an_syntdenum an) ((st - 1) * 11))
       (mk (an_weightdenum an) ((st - 1) * 11)) (mk [0] 0) (mk (replicate 80 0) 0) (e_shortStateSamples e') sf = Ok (im, iv)"
      "stateConstructW P (im ! 0) (mk iv 0) (mk (an_syntdenum an) ((st - 1) * 11)) (mk (replicate 240 0) sp) (e_shortStateSamples e') = Ok dec0"
      "encode_boundary e' an st sf sp \<lparr>cd_cbIndex = replicate 12 0, cd_gainIndex = replicate 12 0, cd_extraCb = replicate 3 0,
        cd_extraGain = replicate 3 0, cd_decresidual = dec0\<rparr> = Ok (cd0, mem)"
      "encode_rest e' an st (cd0, mem) = Ok cd" "convertEncoderIndices (mk (cd_cbIndex cd) 0) = Ok ci" "dec = cd_decresidual cd"
      "fr = \<lparr>lsfI = an_lsfI an, start = st, stateFirst = sf, idxForMax = im ! 0, idxVec = iv,
          extraCbIndex = cd_extraCb cd, extraGainIndex = cd_extraGain cd, cbIndex = ci,
          gainIndex = cd_gainIndex cd\<rparr>"
    using run by (auto simp: encode_indices_def Let_def bnd_eq_Ok)
  note a = analysis_follows[OF s b r(1)]
  have len: "length (an_residual an) = 240" "length (an_syntdenum an) = 66" "length (an_weightdenum an) = 66" using a(2) by (simp_all add: analysis_ok_def)
  note sub = enc_ok_cases(6,7,8)[OF a(3)]
  have st: "1 \<le> st \<and> st < e_subframes e'"
    by (rule specD[OF frameClassify_wp[OF a(3) len(1)] r(2)]) simp
  have "case (sf, sp) of (sf, sp) \<Rightarrow> (sf = 0 \<or> sf = 1) \<and>
      sp = (if sf \<noteq> 0 then (st - 1) * 40 else (st - 1) * 40 + (80 - e_shortStateSamples e'))"
    by (rule specD[OF state_position_wp[OF a(3) len(1)] r(3)]) (use st in auto)
  then have sp: "sf = 0 \<or> sf = 1" "sp = (if sf \<noteq> 0 then (st - 1) * 40 else (st - 1) * 40 + (80 - e_shortStateSamples e'))" by simp_all
  have spr: "0 \<le> sp" "sp + e_shortStateSamples e' \<le> 240" using sp st sub by auto
  have "case (im, iv) of (im, iv) \<Rightarrow> (\<exists>k. im = [k] \<and> 0 \<le> k \<and> k < 64) \<and> state_indices (e_shortStateSamples e') (replicate 80 0) iv"
    by (rule specD[OF stateSearchW_wp r(4)]) (use len spr st sub in auto)
  then have iv: "0 \<le> im ! 0" "im ! 0 < 64" "state_indices (e_shortStateSamples e') (replicate 80 0) iv" by auto
  have dec0: "length dec0 = 240"
    by (rule specD[OF stateConstructW_wp r(5)]) (use iv state_indices_set[OF iv(3)] len spr st sub in auto)
  have "case (cd0, mem) of (cd0, mem) \<Rightarrow> coding_ok 0 cd0 \<and> length mem = 147"
    by (rule specD[OF encode_boundary_wp[OF a(3,2)] r(6)]) (use st sp dec0 in simp_all)
  then have cd0: "coding_ok 0 cd0" "length mem = 147" by simp_all
  have cd: "coding_ok (e_subframes e' - 2) cd"
    by (rule specD[OF encode_rest_wp[OF a(3,2) cd0] r(7)]) (use st in simp_all)
  have ci: "convertDecoderIndices (mk ci 0) = Ok (cd_cbIndex cd)"
    using r(8) indices_restored[OF cd] sub cd by (simp add: convertEncoder_eq coding_ok_def blocks_ok_def)
  obtain q q' u w where lsf: "dequantizeLSF (mk (replicate 20 0) 0) (mk (an_lsfI an) 0) (d_lpcAnalyses d) = Ok q"
      "checkLSF (mk q 0) 10 (d_lpcAnalyses d) = Ok (q', u)"
      "decoderInterpolateLSF P (mk (replicate 66 0) 0) (mk (replicate 66 0) 0) (mk q' 0) 10 d =
        Ok (an_syntdenum an, w, d\<lparr>d_lsfdeqold := e_lsfdeqold e'\<rparr>)" using a(1) by blast
  define d1 where "d1 = d\<lparr>d_lsfdeqold := e_lsfdeqold e'\<rparr>"
  have d1: "d_shortStateSamples d1 = e_shortStateSamples e'" "d_subframes d1 = e_subframes e'" using d a(4,5) by (simp_all add: d1_def)
  note bf = boundary_follows[OF a(3) _ _ d1(1) _ sp(2) r(6)]
  note rf = rest_follows[OF a(3,2) cd0 _ _ d1(2) r(7)]
  have dec: "decode P d1 (mk (replicate 240 0) 0) st (im ! 0) (mk iv 0) (mk (an_syntdenum an) 0) (mk (cd_cbIndex cd) 0)
      (mk (cd_gainIndex cd) 0) (mk (cd_extraCb cd) 0) (mk (cd_extraGain cd) 0) sf = Ok (cd_decresidual cd)"
  proof -
    have "(if sf = 1 then (st - 1) * 40 else (st - 1) * 40 + (80 - e_shortStateSamples e')) = sp" using sp by auto
    moreover have "cd_extraCb cd = cd_extraCb cd0" "cd_extraGain cd = cd_extraGain cd0" using rf(2) st by (simp_all add: extends_def)
    ultimately show ?thesis
      unfolding decode_def Let_def d1 using r(5) bf(1) rf(1) st dec0 by (simp add: add_def)
  qed
  have plc: "plc_ok d1" "length (cd_decresidual cd) = 240" using d(8) cd by (simp_all add: d1_def plc_ok_def coding_ok_def)
  obtain r' l' d2 where p: "doThePLC (mk (replicate 240 0) 0) (mk (replicate 11 0) 0) 0 (mk (cd_decresidual cd) 0)
       (mk (an_syntdenum an) (11 * (d_subframes d1 - 1))) (lastLag d1) d1 = Ok (r', l', d2)"
      "take (nat (d_frameSamples d1)) r' = take (nat (d_frameSamples d1)) (cd_decresidual cd)" "length r' = 240"
      "plc_frame d1 d2" "plc_ok d2"
    using doThePLC_passes[OF plc, of "mk (an_syntdenum an) (11 * (d_subframes d1 - 1))" "lastLag d1"] len sub
    by (auto simp: safe_iff d1)
  have fs: "d_frameSamples d2 = d_frameSamples d1" "0 \<le> d_frameSamples d1" "d_frameSamples d1 \<le> 240"
    using plc_frameD[OF p(4)] plc(1) by (auto simp: plc_ok_def)
  have same: "blit (cd_decresidual cd) 0 (take (nat (d_frameSamples d1)) r') = cd_decresidual cd"
    using p(2) plc(2) fs by (simp add: blit_def min_def)
  have "decode_received P fr d = Ok (dec, an_syntdenum an, d2)"
    using ci lsf dec p(1,3) fs same plc(2)
    by (simp add: decode_received_def r(9,10) d1_def[symmetric])
  moreover have "in_step m e' d2"
  proof -
    obtain en where "dec_ok m en d" using s by (auto simp: in_step_def)
    moreover have "length (e_lsfdeqold e') = 10" using a(3) by (simp add: enc_ok_def)
    ultimately have "dec_ok m en d1" by (auto simp: d1_def dec_ok_def mode_consts_def mode_frame_def plc_ok_def)
    then have "dec_ok m en d2" using p(4,5) by (rule plc_frame_ok)
    then show ?thesis using a(3) plc_frameD[OF p(4)] by (auto simp: in_step_def d1_def)
  qed
  ultimately show ?thesis by blast
qed


section \<open>The history of any decoder\<close>

text \<open>The LSFs a decoder keeps depend on the last frame alone.\<close>

lemma interpolate_history:
  assumes "decoderInterpolateLSF P s w (mk q 0) 10 d = Ok (a, b, d')" "length (d_lsfdeqold d) = 10" "length q = 20"
  shows "d' = d\<lparr>d_lsfdeqold := take 10 (drop (if d_mode d = 30 then 10 else 0) q)\<rparr>"
  using assms by (auto simp: decoderInterpolateLSF_def Let_def bnd_eq_Ok split: if_splits)

lemma received_history:
  assumes d: "dec_ok m en d" and run: "decode_received P fr d = Ok (r, s, d')"
    and q: "dequantizeLSF (mk (replicate 20 0) 0) (mk (lsfI fr) 0) (d_lpcAnalyses d) = Ok q"
      "checkLSF (mk q 0) 10 (d_lpcAnalyses d) = Ok (q', u)" "length q' = 20"
  shows "d_lsfdeqold d' = take 10 (drop (if d_mode d = 30 then 10 else 0) q')"
proof -
  have old: "length (d_lsfdeqold d) = 10" and plc: "plc_ok d" "20 \<le> lastLag d" "lastLag d \<le> 119" using d by (simp_all add: dec_ok_def)
  obtain a b d1 dec pr pl d2 where r: "decoderInterpolateLSF P (mk (replicate 66 0) 0) (mk (replicate 66 0) 0) (mk q' 0) 10 d = Ok (a, b, d1)"
      "doThePLC (mk (replicate 240 0) 0) (mk (replicate 11 0) 0) 0 (mk dec 0) (mk a (11 * (d_subframes d1 - 1))) (lastLag d1) d1 = Ok (pr, pl, d2)"
      "d' = d2"
    using run q(1,2) by (auto simp: decode_received_def bnd_eq_Ok)
  have "plc_frame d1 d2"
    using r(2) by (auto simp: doThePLC_def Let_def bnd_eq_Ok plc_frame_def)
  then show ?thesis using interpolate_history[OF r(1) old q(3)] plc_frameD(11) r(3) by simp
qed


lemma enhancer_history:
  "enhancerInterface P z x d = Ok (l, out, d') \<Longrightarrow> d_lsfdeqold d' = d_lsfdeqold d"
  by (auto simp: enhancerInterface_def Let_def bnd_eq_Ok)

lemma output_history:
  assumes "decode_output P r s d = Ok (x, d')"
  shows "d_lsfdeqold d' = d_lsfdeqold d"
  using assms by (auto simp: decode_output_def Let_def bnd_eq_Ok dest: enhancer_history split: if_splits)

text \<open>A packet that an encoder wrote is decoded as an intact frame.\<close>

lemma decode_carried:
  assumes d: "dec_ok m en d" and c: "carries m packet fr" and fr: "indices_found e fr" "enc_ok m e"
    and run: "decoder_decode P d dst packet 1 = Ok (dst', d')"
  shows "\<exists>d0 r s d1. dec_ok m en d0 \<and> d_lsfdeqold d0 = d_lsfdeqold d \<and> decode_received P fr d0 = Ok (r, s, d1) \<and>
    d_lsfdeqold d' = d_lsfdeqold d1 \<and> prevEnhPl d' = 0"
proof -
  define d0 where "d0 = d\<lparr>syntMem := flushSubnormalHistory (syntMem d), hpomem := flushSubnormalHistory (hpomem d)\<rparr>"
  have d0: "dec_ok m en d0"
    unfolding d0_def by (rule dec_ok_updates(4)[OF d]) (use d in \<open>simp_all add: dec_ok_def\<close>)
  note a = carries_accepted[OF d0 c fr]
  obtain r s d1 x d2 b d3 where run': "decode_received P fr d0 = Ok (r, s, d1)" "decode_output P r s d1 = Ok (x, d2)"
      "decodeFrame P (mk (replicate 240 0) 0) packet d0 1 = Ok (b, d3)" "d_lsfdeqold d3 = d_lsfdeqold d2" "d' = d3" "prevEnhPl d3 = 0"
    using run a unfolding decoder_decode_def d0_def[symmetric] decodeFrame_def by (auto simp: Let_def bnd_eq_Ok)
  then show ?thesis using d0 output_history[OF run'(2)] by (auto simp: d0_def)
qed

lemma encode_carried:
  assumes e: "enc_ok m e" and n: "length pcm = frame_samples m" "frame_bytes m \<le> length dst"
    and run: "Encode P e dst pcm = Ok (err, out, e')"
  shows "\<exists>block fr dec. length block = 240 \<and> encode_indices P (mk block 0) e = Ok (fr, dec, e') \<and>
    carries m (take (frame_bytes m) out) fr \<and> indices_found e' fr \<and> enc_ok m e' \<and> err = None \<and>
    pcm_block pcm = Ok block"
proof -
  note a = enc_ok_api[OF e]
  have "sub dst 0 (int (frame_bytes m)) = Ok (take (frame_bytes m) dst)" using n(2) by simp
  then have enc: "Encode P e dst pcm = bnd (pcm_block pcm) (\<lambda>block.
      bnd (encodeFrame P (take (frame_bytes m) dst) (mk block 0) e) (\<lambda>(bytes, e'). Ok (None, blit dst 0 bytes, e')))"
    using a n by (simp add: Encode_def)
  obtain block fr dec bytes where r: "pcm_block pcm = Ok block" "encode_indices P (mk block 0) e = Ok (fr, dec, e')"
      "packFrame (e_ulp e') (e_lpcAnalyses e') (e_shortStateSamples e') (e_adaptiveSubframes e') fr (take (frame_bytes m) dst) = Ok bytes"
      "out = blit dst 0 bytes" "err = None"
    using run unfolding enc encodeFrame_def by (auto simp: bnd_eq_Ok)
  have b: "length block = 240"
    by (rule specD[OF pcm_block_wp r(1)]) (use n(1) in \<open>simp_all add: frame_samples_def\<close>)
  have "case (fr, dec, e') of (fr, dec, e') \<Rightarrow> indices_found e' fr \<and> enc_ok m e'"
    by (rule specD[OF encode_indices_wp[OF e] r(2)]) (use b in simp_all)
  then have f: "indices_found e' fr" "enc_ok m e'" by simp_all
  have c: "carries m bytes fr"
    by (rule specD[OF packFrame_wp[OF f(2,1)] r(3)]) (use n(2) enc_ok_api[OF f(2)] in simp_all)
  then have "length bytes = frame_bytes m" using a(5) by (auto simp: carries_def mode_of_def frame_bytes_def split: if_splits)
  then have "take (frame_bytes m) out = bytes" using same_tail_blit n(2) r(4) by blast
  then show ?thesis using b r(1,2,5) c f by blast
qed


text \<open>Two decoders of a mode that decode the same frame keep the same LSFs.\<close>

lemma received_same_history:
  assumes d: "dec_ok m en d" "dec_ok m en' d0" and fr: "lsf_indices_ok (3 * d_lpcAnalyses d) (lsfI fr)"
    and run: "decode_received P fr d = Ok (r, s, d')" "decode_received P' fr d0 = Ok (r0, s0, d0')"
  shows "d_lsfdeqold d' = d_lsfdeqold d0'"
proof -
  have same: "d_mode d0 = d_mode d" "d_lpcAnalyses d0 = d_lpcAnalyses d" and n: "d_lpcAnalyses d = 1 \<or> d_lpcAnalyses d = 2"
    using d by (auto simp: dec_ok_def mode_consts_def mode_of_def mode_frame_def split: if_splits)
  obtain q q' u where q: "dequantizeLSF (mk (replicate 20 0) 0) (mk (lsfI fr) 0) (d_lpcAnalyses d) = Ok q"
      "checkLSF (mk q 0) 10 (d_lpcAnalyses d) = Ok (q', u)"
    using run(1) by (auto simp: decode_received_def bnd_eq_Ok)
  have lq: "length q = 20"
    by (rule specD[OF dequantizeLSF_wp q(1)]) (use fr n in simp_all)
  have "case (q', u) of (q', u) \<Rightarrow> length q' = 20"
    by (rule specD[OF checkLSF_wp q(2)]) (use lq n in auto)
  then have lq': "length q' = 20" by simp
  show ?thesis
    using received_history[OF d(1) run(1) q lq'] received_history[OF d(2) run(2)] q lq' same by simp
qed

lemma found_lsf:
  assumes "indices_found e fr" "enc_ok m e" "dec_ok m en d"
  shows "lsf_indices_ok (3 * d_lpcAnalyses d) (lsfI fr)"
proof -
  have "frame_ok (slots (e_ulp e) (e_lpcAnalyses e) (e_shortStateSamples e) (e_adaptiveSubframes e)) fr"
    by (rule enc_ok_frame_ok[OF assms(2,1)])
  then have "frame_bounded fr" by (rule frame_ok_bounded[OF enc_ok_mode(1)[OF assms(2)]])
  then show ?thesis
    using frame_lists(1,2)[of fr] assms(3) by (auto simp: dec_ok_def mode_consts_def mode_of_def mode_frame_def split: if_splits)
qed

text \<open>A decoder in any state catches up with the encoder.\<close>

lemma decode_catches_up:
  assumes e: "enc_ok m e" and d: "dec_ok m en d" and n: "length pcm = frame_samples m" "frame_bytes m \<le> length dst"
    and run: "Encode P e dst pcm = Ok (err, packet, e')"
      "decoder_decode P' d out (take (frame_bytes m) packet) 1 = Ok (out', d')"
  shows "d_lsfdeqold d' = e_lsfdeqold e'"
proof -
  obtain block fr dec where en: "length block = 240" "encode_indices P (mk block 0) e = Ok (fr, dec, e')"
      "carries m (take (frame_bytes m) packet) fr" "indices_found e' fr" "enc_ok m e'"
    using encode_carried[OF e n run(1)] by blast
  obtain d0 r s d1 where de: "dec_ok m en d0" "decode_received P' fr d0 = Ok (r, s, d1)" "d_lsfdeqold d' = d_lsfdeqold d1"
    using decode_carried[OF d en(3,4,5) run(2)] by blast
  define f where "f = d\<lparr>d_lsfdeqold := e_lsfdeqold e\<rparr>"
  have f: "dec_ok m en f" using d e by (auto simp: f_def dec_ok_def mode_consts_def mode_frame_def plc_ok_def enc_ok_def)
  then have "in_step m e f" using e by (auto simp: in_step_def f_def)
  from received_follows[OF this en(1,2)]
  obtain synt f' where g: "decode_received P fr f = Ok (dec, synt, f')" "d_lsfdeqold f' = e_lsfdeqold e'"
    by (auto simp: in_step_def)
  show ?thesis
    using received_same_history[OF de(1) f found_lsf[OF en(4,5) de(1)] de(2) g(1)] de(3) g(2) by simp
qed

lemma accepted_decode:
  assumes "dec_ok m en d" "length packet = frame_bytes m" "frame_samples m \<le> length out"
  obtains out' d' where "decoder_decode P d out packet 1 = Ok (out', d')" "Decode P d out packet = Ok (None, out', d')"
proof -
  obtain out' d' where r: "decoder_decode P d out packet 1 = Ok (out', d')"
    using accepted_call[OF assms(1,3)] assms(2) by blast
  then show ?thesis using dec_ok_sizes[OF assms(1)] assms(2,3) by (intro that) (auto simp: Decode_def)
qed

section \<open>The properties\<close>

lemma encode_outcome_weak: "enc_ok m e \<Longrightarrow> spec nan_panic (\<lambda>_. True) (Encode P e dst pcm)"
  by (rule spec_mono[OF Encode_spec]) auto

lemma new_history:
  assumes "NewEncoder m = Ok (Inr e)" "NewDecoder m' enhance = Ok (Inr d)"
  shows "d_lsfdeqold d = e_lsfdeqold e"
proof -
  have l: "length lsfmeanTbl = 10" by (simp add: lsfmeanTbl_def)
  have "e_lsfdeqold e = lsfmeanTbl"
    using assms(1) by (auto simp: NewEncoder_def bnd_eq_Ok initEncode_eq[OF zero_encoder_arrays] split: if_splits)
  moreover have "d_lsfdeqold d = lsfmeanTbl"
    using assms(2) l by (auto simp: NewDecoder_def bnd_eq_Ok initDecode_def Let_def zero_decoder_def copy_sub_def blit_def split: if_splits)
  ultimately show ?thesis by simp
qed

text \<open>C2: Closed-loop synchrony.  An encoder and a decoder of the same mode with the same LSF history:
  from the indices of a frame alone the decoder rebuilds, sample by sample and bit by bit, the
  residual that the encoder followed in its own closed loop, and afterwards both have the same
  LSF history again, so that the next frame finds them in step.\<close>

theorem decoder_follows_encoder:
  assumes "enc_reach P m e" and "dec_reach P m enhance d" and "d_lsfdeqold d = e_lsfdeqold e" and "length block = 240"
  shows "spec nan_panic (\<lambda>(fr, dec, e'). \<exists>synt d'. decode_received P fr d = Ok (dec, synt, d') \<and>
    d_lsfdeqold d' = e_lsfdeqold e') (encode_indices P (mk block 0) e)"
proof -
  have e: "enc_ok m e" and s: "in_step m e d"
    using enc_reach_ok[OF assms(1)] dec_reach_ok[OF assms(2)] assms(3) by (auto simp: in_step_def)
  show ?thesis
  proof (rule spec_mono_eq[OF encode_indices_wp[OF e, where Q = "\<lambda>_. True"]])
    fix x assume x: "encode_indices P (mk block 0) e = Ok x"
    obtain fr dec e' where x': "x = (fr, dec, e')" by (cases x)
    show "case x of (fr, dec, e') \<Rightarrow> \<exists>synt d'. decode_received P fr d = Ok (dec, synt, d') \<and> d_lsfdeqold d' = e_lsfdeqold e'"
      using received_follows[OF s assms(4) x[unfolded x']] by (auto simp: x' in_step_def)
  qed (use assms(4) in simp_all)
qed

theorem decoder_follows_encoder_witness:
  "\<forall>P. \<exists>e d. NewEncoder 30 = Ok (Inr e) \<and> NewDecoder 30 True = Ok (Inr d) \<and>
     spec nan_panic (\<lambda>(fr, dec, e'). \<exists>synt d'. decode_received P fr d = Ok (dec, synt, d') \<and>
       d_lsfdeqold d' = e_lsfdeqold e') (encode_indices P (mk (replicate 240 (int32 100)) 0) e)"
proof
  fix P
  obtain e d where n: "NewEncoder 30 = Ok (Inr e)" "NewDecoder 30 True = Ok (Inr d)"
    using NewEncoder_ok[of 30] NewDecoder_ok[of 30 True] by auto
  show "\<exists>e d. NewEncoder 30 = Ok (Inr e) \<and> NewDecoder 30 True = Ok (Inr d) \<and>
     spec nan_panic (\<lambda>(fr, dec, e'). \<exists>synt d'. decode_received P fr d = Ok (dec, synt, d') \<and>
       d_lsfdeqold d' = e_lsfdeqold e') (encode_indices P (mk (replicate 240 (int32 100)) 0) e)"
    using decoder_follows_encoder[OF enc_reach.new[OF n(1)] dec_reach.new[OF n(2)] new_history[OF n]] n by auto
qed

text \<open>C20: A packet that an encoder wrote is never taken for a lost or a damaged one.  Take any encoder
  and any decoder of the same mode in any states they can reach, on whatever platforms, and any
  frame: \<open>Encode\<close> reports no error, the packet it leaves in the buffer unpacks to exactly the
  indices this run of the encoder chose for this frame, and \<open>Decode\<close> of the packet succeeds and
  decodes it as an intact frame (it leaves the mark of a concealed frame cleared).  The only
  exception is a frame in which \<open>sortSq\<close> is given a value that is not a number.\<close>

theorem encoded_packet_intact:
  assumes "enc_reach P m e" and "dec_reach P' m enhance d"
    and "length pcm = frame_samples m" and "frame_bytes m \<le> length dst" and "frame_samples m \<le> length out"
  shows "spec nan_panic (\<lambda>(err, bytes, e'). err = None \<and> (\<exists>block fr dec out' d'.
      pcm_block pcm = Ok block \<and> encode_indices P (mk block 0) e = Ok (fr, dec, e') \<and>
      unpackFrame (d_ulp d) (d_lpcAnalyses d) (d_shortStateSamples d) (d_adaptiveSubframes d)
        (take (frame_bytes m) bytes) = Ok (fr, 0) \<and>
      Decode P' d out (take (frame_bytes m) bytes) = Ok (None, out', d') \<and> prevEnhPl d' = 0)) (Encode P e dst pcm)"
proof (rule spec_mono_eq[OF encode_outcome_weak[OF enc_reach_ok[OF assms(1)]]])
  fix x assume x: "Encode P e dst pcm = Ok x"
  obtain err bytes e' where x': "x = (err, bytes, e')" by (cases x)
  note d = dec_reach_ok[OF assms(2)]
  obtain block fr dec where en: "encode_indices P (mk block 0) e = Ok (fr, dec, e')" "carries m (take (frame_bytes m) bytes) fr"
      "indices_found e' fr" "enc_ok m e'" "err = None" "pcm_block pcm = Ok block"
    using encode_carried[OF enc_reach_ok[OF assms(1)] assms(3,4) x[unfolded x']] by blast
  note a = carries_accepted[OF d en(2,3,4)]
  obtain out' d' where r: "decoder_decode P' d out (take (frame_bytes m) bytes) 1 = Ok (out', d')"
      "Decode P' d out (take (frame_bytes m) bytes) = Ok (None, out', d')"
    by (rule accepted_decode[OF d _ assms(5), of "take (frame_bytes m) bytes"]) (use a in blast)+
  have "prevEnhPl d' = 0" using decode_carried[OF d en(2,3,4) r(1)] by blast
  then show "case x of (err, bytes, e') \<Rightarrow> err = None \<and> (\<exists>block fr dec out' d'.
      pcm_block pcm = Ok block \<and> encode_indices P (mk block 0) e = Ok (fr, dec, e') \<and>
      unpackFrame (d_ulp d) (d_lpcAnalyses d) (d_shortStateSamples d) (d_adaptiveSubframes d)
        (take (frame_bytes m) bytes) = Ok (fr, 0) \<and>
      Decode P' d out (take (frame_bytes m) bytes) = Ok (None, out', d') \<and> prevEnhPl d' = 0)"
    using en a r(2) unfolding x' by auto
qed

theorem encoded_packet_intact_witness:
  "\<forall>P P'. \<exists>e d. NewEncoder 20 = Ok (Inr e) \<and> NewDecoder 20 True = Ok (Inr d) \<and>
     spec nan_panic (\<lambda>(err, bytes, e'). err = None \<and> (\<exists>out' d'.
       Decode P' d (replicate 160 0) (take 38 bytes) = Ok (None, out', d') \<and> prevEnhPl d' = 0))
       (Encode P e (replicate 40 7) (replicate 160 1000))"
proof (intro allI)
  fix P P'
  obtain e d where n: "NewEncoder 20 = Ok (Inr e)" "NewDecoder 20 True = Ok (Inr d)"
    using NewEncoder_ok[of 20] NewDecoder_ok[of 20 True] by auto
  have "spec nan_panic (\<lambda>(err, bytes, e'). err = None \<and> (\<exists>out' d'.
       Decode P' d (replicate 160 0) (take 38 bytes) = Ok (None, out', d') \<and> prevEnhPl d' = 0))
       (Encode P e (replicate 40 7) (replicate 160 1000))"
    by (rule spec_mono[OF encoded_packet_intact[OF enc_reach.new[OF n(1)] dec_reach.new[OF n(2)],
          of "replicate 160 1000" "replicate 40 7" "replicate 160 0"]])
      (auto simp: frame_samples_def frame_bytes_def)
  then show "\<exists>e d. NewEncoder 20 = Ok (Inr e) \<and> NewDecoder 20 True = Ok (Inr d) \<and>
     spec nan_panic (\<lambda>(err, bytes, e'). err = None \<and> (\<exists>out' d'.
       Decode P' d (replicate 160 0) (take 38 bytes) = Ok (None, out', d') \<and> prevEnhPl d' = 0))
       (Encode P e (replicate 40 7) (replicate 160 1000))"
    using n by blast
qed

text \<open>C3: Recovery.  Whatever a decoder has been through before (losses, damage, resets, another
  stream, even another platform's mathematical functions), after a single packet of an encoder of
  its mode it has the encoder's LSF history, and from there on it follows the encoder.\<close>

theorem decoder_resynchronises:
  assumes "enc_reach P m e" and "dec_reach P' m enhance d"
    and "length pcm = frame_samples m" and "frame_bytes m \<le> length dst" and "frame_samples m \<le> length out"
  shows "spec nan_panic (\<lambda>(err, packet, e'). \<exists>out' d'.
    Decode P' d out (take (frame_bytes m) packet) = Ok (None, out', d') \<and> d_lsfdeqold d' = e_lsfdeqold e') (Encode P e dst pcm)"
proof (rule spec_mono_eq[OF encode_outcome_weak[OF enc_reach_ok[OF assms(1)]]])
  fix x assume x: "Encode P e dst pcm = Ok x"
  obtain err packet e' where x': "x = (err, packet, e')" by (cases x)
  have n: "length (take (frame_bytes m) packet) = frame_bytes m"
    using encode_carried[OF enc_reach_ok[OF assms(1)] assms(3,4) x[unfolded x']] enc_ok_api(5)[OF enc_reach_ok[OF assms(1)]]
    by (auto simp: carries_def mode_of_def frame_bytes_def split: if_splits)
  obtain out' d' where r: "decoder_decode P' d out (take (frame_bytes m) packet) 1 = Ok (out', d')"
    using accepted_call[OF dec_reach_ok[OF assms(2)] assms(5)] n by blast
  then have "Decode P' d out (take (frame_bytes m) packet) = Ok (None, out', d')"
    using dec_ok_sizes[OF dec_reach_ok[OF assms(2)]] n assms(5) by (simp add: Decode_def)
  then show "case x of (err, packet, e') \<Rightarrow> \<exists>out' d'.
      Decode P' d out (take (frame_bytes m) packet) = Ok (None, out', d') \<and> d_lsfdeqold d' = e_lsfdeqold e'"
    using decode_catches_up[OF enc_reach_ok[OF assms(1)] dec_reach_ok[OF assms(2)] assms(3,4) x[unfolded x'] r] x' by auto
qed

theorem decoder_resynchronises_witness:
  "\<forall>P P'. \<exists>e d. NewEncoder 20 = Ok (Inr e) \<and> NewDecoder 20 False = Ok (Inr d) \<and>
     spec nan_panic (\<lambda>(err, packet, e'). \<exists>out' d'. Decode P' d (replicate 160 0) (take 38 packet) = Ok (None, out', d') \<and>
       d_lsfdeqold d' = e_lsfdeqold e') (Encode P e (replicate 38 0) (replicate 160 1000))"
proof (intro allI)
  fix P P'
  obtain e d where n: "NewEncoder 20 = Ok (Inr e)" "NewDecoder 20 False = Ok (Inr d)"
    using NewEncoder_ok[of 20] NewDecoder_ok[of 20 False] by auto
  show "\<exists>e d. NewEncoder 20 = Ok (Inr e) \<and> NewDecoder 20 False = Ok (Inr d) \<and>
     spec nan_panic (\<lambda>(err, packet, e'). \<exists>out' d'. Decode P' d (replicate 160 0) (take 38 packet) = Ok (None, out', d') \<and>
       d_lsfdeqold d' = e_lsfdeqold e') (Encode P e (replicate 38 0) (replicate 160 1000))"
    using decoder_resynchronises[OF enc_reach.new[OF n(1)] dec_reach.new[OF n(2)],
        of "replicate 160 1000" "replicate 38 0" "replicate 160 0" P' P] n
    by (simp add: frame_samples_def frame_bytes_def)
qed

end
