(* ===== verification/Nearest.thy ===== *)
theory Nearest
  imports FloatOrder Helpfun
begin

text \<open>
  What the quantisers of helpfun.go choose.  The vector quantiser returns the first entry of the
  codebook at minimal distance, where the distance is the float the code computes.
\<close>

section \<open>The vector quantiser\<close>

text \<open>The distance of two vectors as the code rounds it: squares are added from the first on.\<close>

fun sq_error :: "float32 list \<Rightarrow> float32 list \<Rightarrow> nat \<Rightarrow> float32" where
  "sq_error x c 0 = (x ! 0 - c ! 0) * (x ! 0 - c ! 0)"
| "sq_error x c (Suc i) = sq_error x c i + (x ! Suc i - c ! Suc i) * (x ! Suc i - c ! Suc i)"

definition distance :: "float32 list \<Rightarrow> float32 list \<Rightarrow> float32" where
  "distance x c = sq_error x c (length x - 1)"

definition window :: "'a span \<Rightarrow> int \<Rightarrow> int \<Rightarrow> 'a list" where
  "window p i n = take (nat n) (drop (nat (soff p + i)) (sdata p))"

lemma nth_window: "0 \<le> soff p + i \<Longrightarrow> soff p + i + n \<le> int (length (sdata p)) \<Longrightarrow> k < nat n \<Longrightarrow>
    window p i n ! k = sdata p ! nat (soff p + i + int k)"
  by (simp add: window_def nat_add_distrib)

lemma length_window: "0 \<le> soff p + i \<Longrightarrow> soff p + i + n \<le> int (length (sdata p)) \<Longrightarrow> length (window p i n) = nat n"
  by (simp add: window_def)

lemma vq_dist_distance:
  assumes "0 \<le> soff cB + pos" "soff cB + pos + dim \<le> int (length (sdata cB))"
    and "0 \<le> soff x" "soff x + dim \<le> int (length (sdata x))" "1 \<le> dim"
  shows "vq_dist cB x pos dim = Ok (distance (window x 0 dim) (window cB pos dim))"
proof -
  let ?x = "window x 0 dim" and ?c = "window cB pos dim"
  have c: "at cB (pos + i) = Ok (?c ! nat i)" and x: "at x i = Ok (?x ! nat i)" if "0 \<le> i" "i < dim" for i
    using assms that by (simp_all add: at_def nth_window algebra_simps)
  have "safe (\<lambda>d. d = distance ?x ?c) (vq_dist cB x pos dim)"
    unfolding vq_dist_def using c[of 0] x[of 0] assms
    apply (simp add: Let_def)
    apply (rule for_up_idx[where I = "\<lambda>i d. d = sq_error ?x ?c (nat i - 1)"])
    subgoal by simp
    subgoal by simp
    subgoal for i d
      using c[of i] x[of i] by (cases "nat i") (auto simp: Let_def nat_add_distrib)
    subgoal using assms by (simp add: distance_def length_window)
    done
  then show ?thesis by (auto simp: safe_iff)
qed

text \<open>The choice by the running minimum: the first entry of minimal distance, or the first of all when
  no distance is below the start value.\<close>

definition chosen :: "(int \<Rightarrow> float32) \<Rightarrow> int \<Rightarrow> int \<Rightarrow> bool" where
  "chosen D n k \<longleftrightarrow>
     (if \<exists>j. 0 \<le> j \<and> j < n \<and> D j < dec32 (10 ^ 37) 0
      then 0 \<le> k \<and> k < n \<and> D k < dec32 (10 ^ 37) 0 \<and> (\<forall>j. 0 \<le> j \<and> j < n \<longrightarrow> \<not> D j < D k) \<and> (\<forall>j. 0 \<le> j \<and> j < k \<longrightarrow> \<not> D j \<le> D k)
      else k = 0)"

definition running_minimum :: "(int \<Rightarrow> float32) \<Rightarrow> int \<Rightarrow> float32 \<Rightarrow> int \<Rightarrow> bool" where
  "running_minimum D n d k \<longleftrightarrow> chosen D n k \<and>
     d = (if \<exists>j. 0 \<le> j \<and> j < n \<and> D j < dec32 (10 ^ 37) 0 then D k else dec32 (10 ^ 37) 0)"

lemma running_minimum_step:
  assumes r: "running_minimum D n d k" and "0 \<le> n"
  shows "if D n < d then running_minimum D (n + 1) (D n) n else running_minimum D (n + 1) d k"
proof (cases "\<exists>j. 0 \<le> j \<and> j < n \<and> D j < dec32 (10 ^ 37) 0")
  case True
  then have k: "0 \<le> k" "k < n" "D k < dec32 (10 ^ 37) 0" "d = D k" "\<And>j. 0 \<le> j \<Longrightarrow> j < n \<Longrightarrow> \<not> D j < D k"
      "\<And>j. 0 \<le> j \<Longrightarrow> j < k \<Longrightarrow> \<not> D j \<le> D k"
    using r by (auto simp: running_minimum_def chosen_def)
  have T: "\<exists>j. 0 \<le> j \<and> j < n + 1 \<and> D j < dec32 (10 ^ 37) 0" using k by (intro exI[of _ k]) auto
  show ?thesis
  proof (cases "D n < d")
    case less: True
    have "\<not> D j < D n \<and> \<not> D j \<le> D n" if "0 \<le> j" "j < n" for j
      using float32_less_trans[of "D j" "D n" "D k"] less k(4,5) that by auto
    moreover have "D n < dec32 (10 ^ 37) 0" using float32_less_trans less k(3,4) by blast
    moreover have "j < n + 1 \<longleftrightarrow> j < n \<or> j = n" for j by auto
    ultimately show ?thesis
      using less T assms(2) float32_less_irrefl by (auto simp: running_minimum_def chosen_def)
  next
    case False
    have "j < n + 1 \<longleftrightarrow> j < n \<or> j = n" for j by auto
    then show ?thesis using False T k by (auto simp: running_minimum_def chosen_def)
  qed
next
  case False
  then have d: "d = dec32 (10 ^ 37) 0" "k = 0" using r by (auto simp: running_minimum_def chosen_def)
  have j: "j \<le> n \<longleftrightarrow> j < n \<or> j = n" for j by auto
  show ?thesis
  proof (cases "D n < d")
    case less: True
    have "\<not> D j < D n \<and> \<not> D j \<le> D n" if "0 \<le> j" "j < n" for j
      using float32_less_trans[of "D j" "D n" d] less d(1) False that by auto
    moreover have "\<exists>j. 0 \<le> j \<and> j < n + 1 \<and> D j < dec32 (10 ^ 37) 0"
      using less d assms(2) by (intro exI[of _ n]) simp
    ultimately show ?thesis
      using less d assms(2) float32_less_irrefl by (auto simp: running_minimum_def chosen_def j)
  qed (use False d in \<open>auto simp: running_minimum_def chosen_def j\<close>)
qed

lemma running_minimum_start: "running_minimum D 0 (dec32 (10 ^ 37) 0) 0"
  by (auto simp: running_minimum_def chosen_def)

text \<open>C11: The vector quantiser returns without a panic the first entry of its codebook at minimal distance
  from the vector (entry 0 when no distance is below 1e37, the start value of the search): it
  stores its index and copies the entry, and leaves the rest of both arrays alone.\<close>

theorem vq_nearest:
  assumes "0 \<le> soff xq" "soff xq + dim \<le> int (length (sdata xq))"
    and "0 \<le> soff index" "soff index < int (length (sdata index))"
    and "0 \<le> soff cB" "soff cB + n * dim \<le> int (length (sdata cB))"
    and "0 \<le> soff x" "soff x + dim \<le> int (length (sdata x))" "1 \<le> dim" "1 \<le> n"
  shows "\<exists>k. chosen (\<lambda>j. distance (window x 0 dim) (window cB (j * dim) dim)) n k \<and>
     vq xq index cB x n dim = Ok (blit (sdata xq) (nat (soff xq)) (window cB (k * dim) dim), (sdata index)[nat (soff index) := k])"
proof -
  let ?D = "\<lambda>j. distance (window x 0 dim) (window cB (j * dim) dim)"
  have room: "0 \<le> j * dim" "soff cB + j * dim + dim \<le> int (length (sdata cB))" if "0 \<le> j" "j < n" for j
  proof -
    have "(j + 1) * dim \<le> n * dim" by (rule mult_right_mono) (use that assms in auto)
    then show "soff cB + j * dim + dim \<le> int (length (sdata cB))" using assms by (simp add: algebra_simps)
    show "0 \<le> j * dim" using that assms by simp
  qed
  have search: "safe (\<lambda>(pos, md, k). running_minimum ?D n md k)
     (for_up 0 n (\<lambda>j (pos, mindist, minindex).
       bnd (vq_dist cB x pos dim) (\<lambda>dist.
       Ok (pos + dim, if dist < mindist then (dist, j) else (mindist, minindex))))
       (0, dec32 (10 ^ 37) 0, 0))"
  proof (rule for_up_idx[where I = "\<lambda>j (pos, md, k). pos = j * dim \<and> running_minimum ?D j md k"])
    fix j s assume j: "0 \<le> j" "j < n" and s: "case s of (pos, md, k) \<Rightarrow> pos = j * dim \<and> running_minimum ?D j md k"
    obtain md k where s': "s = (j * dim, md, k)" "running_minimum ?D j md k" using s by (cases s) auto
    have "vq_dist cB x (j * dim) dim = Ok (?D j)"
      by (rule vq_dist_distance) (use room[OF j] assms in auto)
    then show "safe (\<lambda>(pos, md, k). pos = (j + 1) * dim \<and> running_minimum ?D (j + 1) md k)
        (case s of (pos, mindist, minindex) \<Rightarrow> bnd (vq_dist cB x pos dim) (\<lambda>dist.
         Ok (pos + dim, if dist < mindist then (dist, j) else (mindist, minindex))))"
      using running_minimum_step[OF s'(2) j(1)] by (auto simp: s'(1) algebra_simps)
  qed (use assms running_minimum_start[of ?D] in auto)
  have copy: "for_up 0 dim (\<lambda>i xq. bnd (at cB (k * dim + i)) (store xq i)) xq =
      Ok (xq\<lparr>sdata := blit (sdata xq) (nat (soff xq)) (window cB (k * dim) dim)\<rparr>)" (is "?L = Ok ?R")
    if k: "0 \<le> k" "k < n" for k
  proof -
    let ?w = "window cB (k * dim) dim"
    have w: "length ?w = nat dim" by (rule length_window) (use room[OF k] assms in auto)
    have "safe (\<lambda>s. s = ?R) ?L"
    proof (rule for_up_idx[where I = "\<lambda>i s. s = xq\<lparr>sdata := blit (sdata xq) (nat (soff xq)) (take (nat i) ?w)\<rparr>"])
      fix i s assume i: "0 \<le> i" "i < dim" and s: "s = xq\<lparr>sdata := blit (sdata xq) (nat (soff xq)) (take (nat i) ?w)\<rparr>"
      have "at cB (k * dim + i) = Ok (?w ! nat i)"
        using room[OF k] assms i by (simp add: at_def nth_window algebra_simps)
      moreover have "take (nat (i + 1)) ?w = take (nat i) ?w @ [?w ! nat i]"
        using i w by (simp add: nat_add_distrib take_Suc_conv_app_nth)
      moreover have "(blit (sdata xq) (nat (soff xq)) (take (nat i) ?w))[nat (soff xq) + nat i := ?w ! nat i] =
          blit (sdata xq) (nat (soff xq)) (take (nat i) ?w @ [?w ! nat i])"
        using assms i w by (simp add: blit_def list_update_append)
          (simp add: nat_add_distrib Cons_nth_drop_Suc[symmetric])
      ultimately show "safe (\<lambda>s. s = xq\<lparr>sdata := blit (sdata xq) (nat (soff xq)) (take (nat (i + 1)) ?w)\<rparr>)
          (bnd (at cB (k * dim + i)) (store s i))"
        using assms i w by (simp add: s store_def put_def upd_def nat_add_distrib)
    qed (use assms w in auto)
    then show ?thesis by (auto simp: safe_iff)
  qed
  obtain pos md k where l: "for_up 0 n (\<lambda>j (pos, mindist, minindex).
       bnd (vq_dist cB x pos dim) (\<lambda>dist.
       Ok (pos + dim, if dist < mindist then (dist, j) else (mindist, minindex))))
       (0, dec32 (10 ^ 37) 0, 0) = Ok (pos, md, k)" and k: "chosen ?D n k"
    using search by (auto simp: safe_iff running_minimum_def)
  have "0 \<le> k" "k < n" using k assms by (auto simp: chosen_def split: if_splits)
  from copy[OF this] have "vq xq index cB x n dim =
      Ok (blit (sdata xq) (nat (soff xq)) (window cB (k * dim) dim), (sdata index)[nat (soff index) := k])"
    unfolding vq_def l using assms by simp
  then show ?thesis using k by blast
qed

text \<open>The second entry, 5, is nearer to 5 than the first, 4.\<close>

lemmas small_floats = val32_rnd32 bitlen_pos Let_def round_mag_def rne_def sign_bit_def unpack_fp_def emin32 signed_def

theorem vq_nearest_witness:
  "vq (mk [0] 0) (mk [9] 0) (mk [int32 4, int32 2] 0) (mk [int32 2] 0) 2 1 = Ok ([int32 2], [1])"
proof -
  let ?cB = "mk [int32 4, int32 2] 0" and ?x = "mk [int32 2] 0"
  let ?D = "\<lambda>j. distance (window ?x 0 1) (window ?cB (j * 1) 1)"
  have v: "val32 (int32 2 - int32 4) = FFin True 8388608 (- 22)" "val32 (int32 2 - int32 2) = FFin False 0 (- 149)"
    by (simp_all add: minus_float32_def val32_two val32_four small_floats)
  have w: "val32 ((int32 2 - int32 4) * (int32 2 - int32 4)) = FFin False 8388608 (- 21)"
    "val32 ((int32 2 - int32 2) * (int32 2 - int32 2)) = FFin False 0 (- 149)"
    unfolding times_float32_def v by (simp_all add: small_floats)
  have D: "?D 0 = (int32 2 - int32 4) * (int32 2 - int32 4)" "?D 1 = (int32 2 - int32 2) * (int32 2 - int32 2)"
    by (simp_all add: distance_def window_def)
  have M: "\<exists>m. val32 (dec32 (10 ^ 37) 0) = FFin False m 99 \<and> 0 < m"
    by (simp add: dec32_def fp_decimal_def small_floats)
  have less: "?D 1 < ?D 0" "?D 0 < dec32 (10 ^ 37) 0"
    unfolding less_float32_def D w using M by (auto simp: signed_def)
  obtain k where k: "chosen ?D 2 k"
    "vq (mk [0] 0) (mk [9] 0) ?cB ?x 2 1 = Ok (blit [0] 0 (window ?cB (k * 1) 1), [k])"
    using vq_nearest[of "mk [0 :: float32] 0" 1 "mk [9 :: int] 0" ?cB 2 ?x] by auto
  have "0 \<le> k" "k < 2" "\<not> ?D 1 < ?D k"
    using k(1) less(2) by (auto simp: chosen_def split: if_splits)
  moreover have "k = 0 \<or> k = 1" if "0 \<le> k" "k < 2" using that by auto
  ultimately have "k = 1" using less(1) by auto
  then show ?thesis using k(2) by (simp add: window_def blit_def)
qed

section \<open>The scalar quantiser\<close>

definition midpoint :: "float32 list \<Rightarrow> int \<Rightarrow> float32" where
  "midpoint cb k = (cb ! nat k + cb ! nat (k - 1)) / int32 2"

text \<open>A table whose neighbours have their midpoint, as the code rounds it, between them.\<close>

definition graded :: "float32 list \<Rightarrow> int \<Rightarrow> bool" where
  "graded cb n \<longleftrightarrow> (\<forall>k. 1 \<le> k \<and> k < n \<longrightarrow> cb ! nat (k - 1) \<le> midpoint cb k \<and> midpoint cb k \<le> cb ! nat k)"

lemma sortSq_scan_first:
  assumes "0 \<le> i" "i < n" "n \<le> int (length cb)" "\<forall>j. 0 \<le> j \<and> j < i \<longrightarrow> cb ! nat j < x"
  shows "\<exists>k. sortSq_scan x (mk cb 0) n i = Ok k \<and> 0 \<le> k \<and> k < n \<and> (\<forall>j. 0 \<le> j \<and> j < k \<longrightarrow> cb ! nat j < x) \<and>
    (k < n - 1 \<longrightarrow> \<not> cb ! nat k < x)"
  using assms
proof (induction x "mk cb 0" n i rule: sortSq_scan.induct)
  case (1 x n i)
  have a: "at (mk cb 0) i = Ok (cb ! nat i)" using "1.prems" by simp
  show ?case
  proof (cases "cb ! nat i < x \<and> i < n - 1")
    case True
    have "j < i + 1 \<longleftrightarrow> j < i \<or> j = i" for j by auto
    then show ?thesis
      using "1.hyps"[OF a True] "1.prems" True a by (subst sortSq_scan.simps) auto
  next
    case False
    then show ?thesis using "1.prems" a by (subst sortSq_scan.simps) auto
  qed
qed

lemma le_is_number: "x \<le> y \<Longrightarrow> \<not> is_nan32 x \<and> \<not> is_nan32 (y :: float32)"
  unfolding less_eq_float32_def is_nan32_def by (cases "val32 x"; cases "val32 y") auto

lemma float32_le_trans: "x \<le> y \<Longrightarrow> y \<le> z \<Longrightarrow> x \<le> (z :: float32)"
  using float32_less_trans[of y z x] float32_not_le[of x z] float32_not_le[of x y] le_is_number by meson

text \<open>C21: The scalar quantiser never panics on a number: it returns the entry whose interval between the
  midpoints to its neighbours contains the input.  (On a value that is not a number it reads before
  its table.)\<close>

theorem sortSq_nearest:
  assumes "0 \<le> soff xq" "soff xq < int (length (sdata xq))"
    and "0 \<le> soff index" "soff index < int (length (sdata index))"
    and "n \<le> int (length cb)" "2 \<le> n" "graded cb n" "\<not> is_nan32 x"
  shows "\<exists>k. 0 \<le> k \<and> k < n \<and> (0 < k \<longrightarrow> midpoint cb k < x) \<and> (k < n - 1 \<longrightarrow> x \<le> midpoint cb (k + 1)) \<and>
    sortSq xq index x (mk cb 0) n = Ok ((sdata xq)[nat (soff xq) := cb ! nat k], (sdata index)[nat (soff index) := k])"
proof -
  have g: "cb ! nat (k - 1) \<le> midpoint cb k" "midpoint cb k \<le> cb ! nat k" if "1 \<le> k" "k < n" for k
    using assms(7) that by (auto simp: graded_def)
  have num: "\<not> is_nan32 (cb ! nat k)" if "0 \<le> k" "k < n" for k
  proof (cases "k = 0")
    case True
    then show ?thesis using g(1)[of 1] assms(6) le_is_number by fastforce
  next
    case False
    then show ?thesis using g(2)[of k] that le_is_number by fastforce
  qed
  have "0 < int (length cb)" using assms(5,6) by linarith
  then have c0: "at (mk cb 0) 0 = Ok (cb ! 0)" by (simp add: idx_def)
  show ?thesis
  proof (cases "x \<le> cb ! 0")
    case True
    moreover have "cb ! 0 \<le> midpoint cb 1" using g(1)[of 1] assms(6) by simp
    ultimately have "x \<le> midpoint cb 1" by (rule float32_le_trans)
    then show ?thesis
      using \<open>x \<le> cb ! 0\<close> assms(1-4,6) c0 by (intro exI[of _ 0]) (simp add: sortSq_def)
  next
    case False
    then have first: "cb ! 0 < x" using float32_not_le[OF assms(8)] num[of 0] assms(6) by simp
    have none: "\<forall>j. 0 \<le> j \<and> j < (0 :: int) \<longrightarrow> cb ! nat j < x" by auto
    have "0 < n" using assms(6) by simp
    from sortSq_scan_first[OF order_refl this assms(5) none]
    obtain i where i: "sortSq_scan x (mk cb 0) n 0 = Ok i" "0 \<le> i" "i < n" "\<forall>j. 0 \<le> j \<and> j < i \<longrightarrow> cb ! nat j < x"
        "i < n - 1 \<longrightarrow> \<not> cb ! nat i < x" by blast
    have pos: "1 \<le> i" using i(2,5) first assms(6) by (cases "i = 0") auto
    have at: "at (mk cb 0) i = Ok (cb ! nat i)" "at (mk cb 0) (i - 1) = Ok (cb ! nat (i - 1))"
      using i pos assms(5) by simp_all
    have code: "sortSq xq index x (mk cb 0) n = (if midpoint cb i < x
       then Ok ((sdata xq)[nat (soff xq) := cb ! nat i], (sdata index)[nat (soff index) := i])
       else Ok ((sdata xq)[nat (soff xq) := cb ! nat (i - 1)], (sdata index)[nat (soff index) := i - 1]))"
      using False assms c0 i(1) at by (simp add: sortSq_def midpoint_def)
    show ?thesis
    proof (cases "midpoint cb i < x")
      case True
      have "x \<le> midpoint cb (i + 1)" if "i < n - 1"
      proof -
        have "x \<le> cb ! nat i" using that i(2,3,5) num float32_not_le[OF assms(8)] by blast
        then show ?thesis using g(1)[of "i + 1"] that pos float32_le_trans by simp
      qed
      then show ?thesis using code True i pos by (intro exI[of _ i]) auto
    next
      case mid: False
      have "x \<le> midpoint cb i"
        using mid g(1)[of i] i(3) pos le_is_number float32_not_le[OF assms(8), of "midpoint cb i"] by blast
      moreover have "midpoint cb (i - 1) < x" if "0 < i - 1"
        using g(2)[of "i - 1"] that i(3,4) float32_less_trans[of "midpoint cb (i - 1)" "cb ! nat (i - 1)" x] by auto
      ultimately show ?thesis using code mid i pos by (intro exI[of _ "i - 1"]) auto
    qed
  qed
qed

text \<open>The table of the start state is graded; zero lies between the midpoints around its fourth entry.\<close>

lemma state_values:
  "val32 (stateSq3Tbl ! 0) = FFin True 15602178 (- 22)"
  "val32 (stateSq3Tbl ! Suc 0) = FFin True 9133055 (- 22)"
  "val32 (stateSq3Tbl ! 2) = FFin True 9479169 (- 23)"
  "val32 (stateSq3Tbl ! 3) = FFin True 10391539 (- 25)"
  "val32 (stateSq3Tbl ! 4) = FFin False 14905348 (- 25)"
  "val32 (stateSq3Tbl ! 5) = FFin False 11154433 (- 23)"
  "val32 (stateSq3Tbl ! 6) = FFin False 10218495 (- 22)"
  "val32 (stateSq3Tbl ! 7) = FFin False 16709633 (- 22)"
  by (simp_all add: stateSq3Tbl_def micro_def dec32_def fp_decimal_def small_floats)

lemma val32_midpoint:
  "val32 (cb ! nat k) = a \<Longrightarrow> val32 (cb ! nat (k - 1)) = b \<Longrightarrow>
     unpack_fp 23 8 (pack_fp 23 8 (fp_add a b)) = c \<Longrightarrow> unpack_fp 23 8 (pack_fp 23 8 (fp_div 23 c (FFin False (2 ^ 23) (- 22)))) = d \<Longrightarrow>
     val32 (midpoint cb k) = d"
  by (simp add: midpoint_def divide_float32_def plus_float32_def val32_two val32_rnd32)

lemma state_midpoints:
  "val32 (midpoint stateSq3Tbl 1) = FFin True 12367616 (- 22)"
  "val32 (midpoint stateSq3Tbl 2) = FFin True 13872640 (- 23)"
  "val32 (midpoint stateSq3Tbl 3) = FFin True 12077054 (- 24)"
  "val32 (midpoint stateSq3Tbl 4) = FFin False 9027618 (- 27)"
  "val32 (midpoint stateSq3Tbl 5) = FFin False 14880770 (- 24)"
  "val32 (midpoint stateSq3Tbl 6) = FFin False 15795712 (- 23)"
  "val32 (midpoint stateSq3Tbl 7) = FFin False 13464064 (- 22)"
  by (rule val32_midpoint, simp add: state_values, simp add: state_values, (simp add: small_floats)+)+

lemma state_graded: "graded stateSq3Tbl 8"
proof -
  have "k \<in> {1, 2, 3, 4, 5, 6, 7}" if "1 \<le> k" "k < 8" for k :: int using that by auto
  then show ?thesis
    unfolding graded_def less_eq_float32_def by (fastforce simp: state_values state_midpoints signed_def)
qed

theorem sortSq_nearest_witness:
  "graded stateSq3Tbl 8 \<and> sortSq (mk [0] 0) (mk [9] 0) 0 (mk stateSq3Tbl 0) 8 = Ok ([stateSq3Tbl ! 3], [3])"
proof -
  have z: "val32 0 = FFin False 0 (- 149)" by (simp add: zero_float32_def val32_def unpack_fp_def emin32)
  have l: "8 \<le> int (length stateSq3Tbl)" "(2 :: int) \<le> 8" by (simp_all add: stateSq3Tbl_def)
  have n: "\<not> is_nan32 0" by (simp add: is_nan32_def z)
  obtain k where k: "0 \<le> k" "k < 8" "0 < k \<longrightarrow> midpoint stateSq3Tbl k < 0" "k < 8 - 1 \<longrightarrow> 0 \<le> midpoint stateSq3Tbl (k + 1)"
    "sortSq (mk [0] 0) (mk [9] 0) 0 (mk stateSq3Tbl 0) 8 = Ok ([stateSq3Tbl ! nat k], [k])"
    using sortSq_nearest[OF _ _ _ _ l state_graded n, of "mk [0] 0" "mk [9] 0"] by auto
  have "k \<in> {0, 1, 2, 3, 4, 5, 6, 7}" using k(1,2) by auto
  then have "k = 3"
    using k(3,4) by (auto simp: less_float32_def less_eq_float32_def state_midpoints z signed_def)
  then show ?thesis using k(5) state_graded by simp
qed

end
