(* ===== verification/Recursion.thy ===== *)
theory Recursion
  imports Filters
begin

text \<open>
  The synthesis filter (syntfilter.go) against the textbook recursion.  The code treats the first ten
  samples apart, whose history still lies in the filter memory; the reference is the plain
  all-pole recursion on one tape that holds the memory and the signal.
\<close>

section \<open>The recursion on a tape\<close>

text \<open>\<open>taps c y k v\<close> subtracts the first \<open>k\<close> products from \<open>v\<close>, one rounding after the other.\<close>

fun taps :: "(int \<Rightarrow> float32) \<Rightarrow> (int \<Rightarrow> float32) \<Rightarrow> nat \<Rightarrow> float32 \<Rightarrow> float32" where
  "taps c y 0 v = v"
| "taps c y (Suc k) v = taps c y k v - c (int k + 1) * y (int k + 1)"

lemma taps_cong: "(\<And>j. 1 \<le> j \<Longrightarrow> j \<le> int k \<Longrightarrow> y j = z j) \<Longrightarrow> taps c y k v = taps c z k v"
  by (induction k) auto

text \<open>The tape after \<open>i\<close> samples.\<close>

fun tape :: "(int \<Rightarrow> float32) \<Rightarrow> float32 list \<Rightarrow> nat \<Rightarrow> float32 list" where
  "tape c t 0 = t"
| "tape c t (Suc i) = (let u = tape c t i in
     u[10 + i := taps c (\<lambda>k. u ! nat (10 + int i - k)) 10 (u ! (10 + i))])"

lemma length_tape [simp]: "length (tape c t i) = length t"
  by (induction i) (simp_all add: Let_def)

lemma tape_ahead: "10 + i \<le> k \<Longrightarrow> tape c t i ! k = t ! k"
  by (induction i) (simp_all add: Let_def)

lemma tape_memory: "take 10 (tape c t i) = take 10 t"
  by (induction i) (simp_all add: Let_def)

lemma safe_value: "safe (\<lambda>s. s = v) m \<Longrightarrow> m = Ok v"
  by (auto simp: safe_iff)

section \<open>One sample\<close>

text \<open>A loop over taps that only changes the sample it computes.\<close>

lemma tap_loop:
  assumes "0 \<le> soff p + i" "soff p + i < int (length (sdata p))" "0 \<le> lo" "lo \<le> hi"
    and c: "\<And>j. lo < j \<Longrightarrow> j \<le> hi \<Longrightarrow> at a j = Ok (c j)"
    and y: "\<And>j v. lo < j \<Longrightarrow> j \<le> hi \<Longrightarrow> rd (p\<lparr>sdata := (sdata p)[nat (soff p + i) := v]\<rparr>) j = Ok (y j)"
  shows "for_up (lo + 1) (hi + 1) (\<lambda>j q. bnd (at a j) (\<lambda>x. bnd (rd q j) (\<lambda>y. modify q i (\<lambda>v. v - x * y))))
      (p\<lparr>sdata := (sdata p)[nat (soff p + i) := taps c y (nat lo) v]\<rparr>) =
    Ok (p\<lparr>sdata := (sdata p)[nat (soff p + i) := taps c y (nat hi) v]\<rparr>)" (is "?L = Ok ?R")
proof -
  have "safe (\<lambda>s. s = ?R) ?L"
  proof (rule for_up_idx[where I = "\<lambda>j s. s = p\<lparr>sdata := (sdata p)[nat (soff p + i) := taps c y (nat (j - 1)) v]\<rparr>"])
    fix j s assume j: "lo + 1 \<le> j" "j < hi + 1" and s: "s = p\<lparr>sdata := (sdata p)[nat (soff p + i) := taps c y (nat (j - 1)) v]\<rparr>"
    have "nat (j + 1 - 1) = Suc (nat (j - 1))" "int (nat (j - 1)) + 1 = j" using j assms(3) by auto
    moreover have "at s i = Ok (taps c y (nat (j - 1)) v)" using assms(1,2) by (simp add: s at_def)
    ultimately show "safe (\<lambda>s. s = p\<lparr>sdata := (sdata p)[nat (soff p + i) := taps c y (nat (j + 1 - 1)) v]\<rparr>)
        (bnd (at a j) (\<lambda>x. bnd (rd s j) (\<lambda>y. modify s i (\<lambda>v. v - x * y))))"
      using c[of j] y[of j] j assms(1,2) by (simp add: s modify_def store_def put_def upd_def)
  qed (use assms in auto)
  then show ?thesis by (rule safe_value)
qed

section \<open>The reference\<close>

lemma allPoleFilter_tape:
  assumes c: "\<And>j. 1 \<le> j \<Longrightarrow> j \<le> 10 \<Longrightarrow> at a j = Ok (c j)" and "length t = 10 + nat len" "0 \<le> len"
  shows "allPoleFilter (mk t 10) a len 10 = Ok (tape c t (nat len))"
proof -
  have "safe (\<lambda>s. s = mk (tape c t (nat len)) 10)
     (for_up 0 len (\<lambda>n. for_up 1 (10 + 1) (\<lambda>k inOut.
       bnd (at a k) (\<lambda>c. bnd (at inOut (n - k)) (\<lambda>y. modify inOut n (\<lambda>v. v - c * y))))) (mk t 10))"
  proof (rule for_up_idx[where I = "\<lambda>i s. s = mk (tape c t (nat i)) 10"])
    fix i s assume i: "0 \<le> i" "i < len" and s: "s = mk (tape c t (nat i)) 10"
    let ?u = "tape c t (nat i)" and ?y = "\<lambda>k. tape c t (nat i) ! nat (10 + i - k)"
    have l: "length ?u = 10 + nat len" using assms(2) by simp
    have "for_up (0 + 1) (10 + 1) (\<lambda>j q. bnd (at a j) (\<lambda>x. bnd (at q (i - j)) (\<lambda>y. modify q i (\<lambda>v. v - x * y))))
        ((mk ?u 10)\<lparr>sdata := (sdata (mk ?u 10))[nat (soff (mk ?u 10) + i) := taps c ?y (nat 0) (?u ! nat (10 + i))]\<rparr>) =
      Ok ((mk ?u 10)\<lparr>sdata := (sdata (mk ?u 10))[nat (soff (mk ?u 10) + i) := taps c ?y (nat 10) (?u ! nat (10 + i))]\<rparr>)"
      by (rule tap_loop) (use c i l in \<open>auto simp: nth_list_update algebra_simps\<close>)
    moreover have "nat (10 + i) = 10 + nat i" "nat (i + 1) = Suc (nat i)" "int (nat i) = i" using i by auto
    ultimately show "safe (\<lambda>s. s = mk (tape c t (nat (i + 1))) 10)
        (for_up 1 (10 + 1) (\<lambda>k inOut. bnd (at a k) (\<lambda>c. bnd (at inOut (i - k)) (\<lambda>y. modify inOut i (\<lambda>v. v - c * y)))) s)"
      by (simp add: s Let_def)
  qed (use assms in auto)
  then show ?thesis by (auto simp: allPoleFilter_def safe_iff)
qed

section \<open>The code\<close>

lemma blit_set: "i < length ys \<Longrightarrow> n + length ys \<le> length xs \<Longrightarrow> (blit xs n ys)[n + i := v] = blit xs n (ys[i := v])"
  by (simp add: blit_def list_update_append)

lemma blit_same: "n + k \<le> length xs \<Longrightarrow> blit xs n (take k (drop n xs)) = xs"
proof -
  assume "n + k \<le> length xs"
  then have "blit xs n (take k (drop n xs)) = take n xs @ take k (drop n xs) @ drop k (drop n xs)"
    by (simp add: blit_def add.commute)
  then show ?thesis by (simp only: append_take_drop_id)
qed

lemma syntFilter_tape:
  fixes out mem a :: "float32 span" and len :: int
  defines "t \<equiv> take 10 (drop (nat (soff mem)) (sdata mem)) @ take (nat len) (drop (nat (soff out)) (sdata out))"
  assumes c: "\<And>j. 1 \<le> j \<Longrightarrow> j \<le> 10 \<Longrightarrow> at a j = Ok (c j)" and len: "10 \<le> len"
    and o: "0 \<le> soff out" "soff out + len \<le> int (length (sdata out))"
    and m: "0 \<le> soff mem" "soff mem + 10 \<le> int (length (sdata mem))"
  shows "syntFilter out a len mem =
    Ok (blit (sdata out) (nat (soff out)) (drop 10 (tape c t (nat len))),
        blit (sdata mem) (nat (soff mem)) (drop (nat len) (tape c t (nat len))))"
proof -
  define st where "st i = out\<lparr>sdata := blit (sdata out) (nat (soff out)) (drop 10 (tape c t (nat i)))\<rparr>" for i
  have lt: "length t = 10 + nat len" using o m by (simp add: t_def)
  have dl: "length (drop 10 (tape c t i)) = nat len" for i using lt by simp
  have room: "nat (soff out) + nat len \<le> length (sdata out)" using o len by simp
  have lst: "length (sdata (st i)) = length (sdata out)" "soff (st i) = soff out" for i
    using room dl by (simp_all add: st_def)
  have nst: "sdata (st i) ! nat (soff out + k) = tape c t (nat i) ! nat (10 + k)" if "0 \<le> k" "k < len" for i k
    using that room dl lt o by (simp add: st_def nth_blit nat_add_distrib nat_less_iff)
  have nmem: "sdata mem ! nat (soff mem + k) = tape c t i ! nat k" if "0 \<le> k" "k < 10" for i k
  proof -
    have "tape c t i ! nat k = take 10 (tape c t i) ! nat k" using that by simp
    also have "\<dots> = t ! nat k" unfolding tape_memory using that by simp
    moreover have "nat k < 10" using that by simp
    ultimately show ?thesis using that m by (simp add: t_def nth_append nat_add_distrib)
  qed
  define y where "y i k = tape c t (nat i) ! nat (10 + i - k)" for i k :: int
  define v where "v i = tape c t (nat i) ! nat (10 + i)" for i :: int
  define mid where "mid i k = (st i)\<lparr>sdata := (sdata (st i))[nat (soff (st i) + i) := taps c (y i) (nat k) (v i)]\<rparr>" for i k
  have start: "st i = mid i 0" if "0 \<le> i" "i < len" for i
    using nst[OF that, of i] lst(2)[of i] list_update_id[of "sdata (st i)" "nat (soff out + i)"]
    by (cases "st i") (simp add: mid_def v_def)
  have step: "mid i 10 = st (i + 1)" if "0 \<le> i" "i < len" for i
  proof -
    have n: "nat (i + 1) = Suc (nat i)" "nat (10 + i) = 10 + nat i" "nat (soff out + i) = nat (soff out) + nat i" "int (nat i) = i"
      using that o by auto
    have "drop 10 ((tape c t (nat i))[10 + nat i := x]) = (drop 10 (tape c t (nat i)))[nat i := x]" for x
      by (simp add: drop_update_swap)
    then show ?thesis
      using blit_set[of "nat i" "drop 10 (tape c t (nat i))"] dl room that
      by (simp add: mid_def st_def n y_def[abs_def] v_def Let_def)
  qed
  have here: "for_up (lo + 1) (hi + 1) (\<lambda>j q. bnd (at a j) (\<lambda>x. bnd (at q (i - j)) (\<lambda>y. modify q i (\<lambda>v. v - x * y)))) (mid i lo) = Ok (mid i hi)"
    if "0 \<le> i" "i < len" "0 \<le> lo" "lo \<le> hi" "hi \<le> 10" "hi \<le> i" for i lo hi
    unfolding mid_def
    by (rule tap_loop) (use that c lst o nst[of "i - _" i] in \<open>auto simp: at_def y_def nth_list_update algebra_simps\<close>)
  have memory: "for_up (lo + 1) (hi + 1) (\<lambda>j q. bnd (at a j) (\<lambda>x. bnd (at mem (9 - (j - (i + 1)))) (\<lambda>y. modify q i (\<lambda>v. v - x * y)))) (mid i lo) = Ok (mid i hi)"
    if "0 \<le> i" "i < len" "i \<le> lo" "lo \<le> hi" "hi \<le> 10" for i lo hi
    unfolding mid_def
    by (rule tap_loop) (use that c lst o m nmem[of "10 + i - _" "nat i"] in \<open>auto simp: at_def y_def algebra_simps\<close>)
  have first: "safe (\<lambda>s. s = st 10)
     (for_up 0 10 (\<lambda>i out.
       bnd (for_up 1 (i + 1) (\<lambda>j out. bnd (at a j) (\<lambda>x. bnd (at out (i - j)) (\<lambda>y. modify out i (\<lambda>v. v - x * y)))) out) (\<lambda>out.
       for_up (i + 1) 11 (\<lambda>j out. bnd (at a j) (\<lambda>x. bnd (at mem (9 - (j - (i + 1)))) (\<lambda>y. modify out i (\<lambda>v. v - x * y)))) out)) (st 0))"
  proof (rule for_up_idx[where I = "\<lambda>i s. s = st i"])
    fix i s assume i: "0 \<le> i" "i < 10" and s: "s = st i"
    show "safe (\<lambda>s. s = st (i + 1))
       (bnd (for_up 1 (i + 1) (\<lambda>j out. bnd (at a j) (\<lambda>x. bnd (at out (i - j)) (\<lambda>y. modify out i (\<lambda>v. v - x * y)))) s) (\<lambda>out.
       for_up (i + 1) 11 (\<lambda>j out. bnd (at a j) (\<lambda>x. bnd (at mem (9 - (j - (i + 1)))) (\<lambda>y. modify out i (\<lambda>v. v - x * y)))) out))"
      using here[of i 0 i] memory[of i i 10] start[of i] step[of i] i len by (simp add: s)
  qed simp_all
  have rest: "safe (\<lambda>s. s = st len)
     (for_up 10 len (\<lambda>i. for_up 1 11 (\<lambda>j out. bnd (at a j) (\<lambda>x. bnd (at out (i - j)) (\<lambda>y. modify out i (\<lambda>v. v - x * y))))) (st 10))"
  proof (rule for_up_idx[where I = "\<lambda>i s. s = st i"])
    fix i s assume i: "10 \<le> i" "i < len" and s: "s = st i"
    show "safe (\<lambda>s. s = st (i + 1))
       (for_up 1 11 (\<lambda>j out. bnd (at a j) (\<lambda>x. bnd (at out (i - j)) (\<lambda>y. modify out i (\<lambda>v. v - x * y)))) s)"
      using here[of i 0 10] start[of i] step[of i] i by (simp add: s)
  qed (use len in simp_all)
  have zero: "st 0 = out"
  proof -
    have "length (take 10 (drop (nat (soff mem)) (sdata mem))) = 10" using m by simp
    then have "drop 10 t = take (nat len) (drop (nat (soff out)) (sdata out))" by (simp add: t_def)
    then have "blit (sdata out) (nat (soff out)) (drop 10 t) = sdata out"
      using blit_same room by simp
    then show ?thesis by (simp add: st_def)
  qed
  have last: "sub (sdata (st len)) (soff out + (len - 10)) (soff out + (len - 10) + 10) = Ok (drop (nat len) (tape c t (nat len)))"
  proof -
    have "drop (nat (soff out) + nat (len - 10)) (sdata (st len)) =
        drop (nat (len - 10)) (drop 10 (tape c t (nat len))) @ drop (nat (soff out) + nat len) (sdata out)"
      using room dl by (simp add: st_def blit_def)
    moreover have "nat (len - 10) + 10 = nat len" "nat (soff out + (len - 10)) = nat (soff out) + nat (len - 10)"
      using len o by auto
    ultimately show ?thesis using room lt len o lst by (simp add: sub_def)
  qed
  have ten: "take 10 (drop (nat len) (tape c t (nat len))) = drop (nat len) (tape c t (nat len))"
    using lt by simp
  note loops = safe_value[OF first, unfolded zero] safe_value[OF rest]
  have "slice (add (st len) (len - 10)) 10 = Ok (drop (nat len) (tape c t (nat len)))"
    using last lst by (simp only: slice_def add_simps)
  moreover have "copy_slice mem 10 (drop (nat len) (tape c t (nat len))) =
      Ok (blit (sdata mem) (nat (soff mem)) (drop (nat len) (tape c t (nat len))))"
    using m ten by simp
  moreover have "sdata (st len) = blit (sdata out) (nat (soff out)) (drop 10 (tape c t (nat len)))"
    by (simp add: st_def)
  ultimately show ?thesis
    unfolding syntFilter_def loops bnd.simps by simp
qed

section \<open>The property\<close>

text \<open>C10: The synthesis filter is the all-pole recursion of filter.go on the tape of its memory followed by
  the signal: although it handles the first ten samples apart and never joins the two arrays, it
  writes bit by bit the samples of that recursion, keeps the last ten of them as its memory, and
  leaves the rest of both arrays alone.\<close>

theorem syntFilter_is_recursion:
  assumes "0 \<le> soff a" "soff a + 10 < int (length (sdata a))" "10 \<le> len"
    and "0 \<le> soff out" "soff out + len \<le> int (length (sdata out))"
    and "0 \<le> soff mem" "soff mem + 10 \<le> int (length (sdata mem))"
  shows "\<exists>u. allPoleFilter (mk (take 10 (drop (nat (soff mem)) (sdata mem)) @ take (nat len) (drop (nat (soff out)) (sdata out))) 10) a len 10 = Ok u \<and>
    length u = 10 + nat len \<and>
    syntFilter out a len mem = Ok (blit (sdata out) (nat (soff out)) (drop 10 u), blit (sdata mem) (nat (soff mem)) (drop (nat len) u))"
proof -
  define c where "c j = sdata a ! nat (soff a + j)" for j
  have c: "at a j = Ok (c j)" if "1 \<le> j" "j \<le> 10" for j using that assms(1,2) by (simp add: c_def)
  let ?t = "take 10 (drop (nat (soff mem)) (sdata mem)) @ take (nat len) (drop (nat (soff out)) (sdata out))"
  have t: "length ?t = 10 + nat len" using assms by simp
  have "0 \<le> len" using assms(3) by simp
  show ?thesis
    by (rule exI[of _ "tape c ?t (nat len)"], intro conjI)
      (rule allPoleFilter_tape[OF c t \<open>0 \<le> len\<close>], assumption+, simp only: length_tape t,
        rule syntFilter_tape[OF c assms(3-7)], assumption+)
qed

text \<open>Eleven samples behind a memory of ten, with all coefficients zero but the first.\<close>

theorem syntFilter_is_recursion_witness:
  "\<exists>u. allPoleFilter (mk (replicate 10 1 @ replicate 11 1) 10) (mk (1 # replicate 10 0) 0) 11 10 = Ok u \<and> length u = 21 \<and>
     syntFilter (mk (replicate 11 1) 0) (mk (1 # replicate 10 0) 0) 11 (mk (replicate 10 1) 0) = Ok (drop 10 u, drop 11 u)"
  using syntFilter_is_recursion[of "mk (1 # replicate 10 0) 0" 11 "mk (replicate 11 1) 0" "mk (replicate 10 1) 0"]
  by (auto simp: take_all simp del: replicate.simps)

end
