(* ===== verification/Channel.thy ===== *)
theory Channel
  imports Prelude "HOL-Library.Sublist"
begin

text \<open>
  The way the talk command uses Go channels: sends and receives in a \<open>select\<close> with a
  \<open>default\<close> case, which never block.  A channel is the list of the values in its buffer, the
  oldest first.  The locale \<open>bounded_channel\<close> is the contract the audio bridge and the
  network workers rely on; what every sequence of operations delivers is proved there.
\<close>

section \<open>The operations\<close>

text \<open>\<open>select { case c <- x: default: }\<close> on a channel of capacity \<open>cap\<close>\<close>

definition try_send :: "nat \<Rightarrow> 'a \<Rightarrow> 'a list \<Rightarrow> 'a list" where
  "try_send cap x c = (if length c < cap then c @ [x] else c)"

text \<open>\<open>select { case x = <-c: default: }\<close>\<close>

fun try_recv :: "'a list \<Rightarrow> ('a option \<times> 'a list)" where
  "try_recv [] = (None, [])"
| "try_recv (x # c) = (Some x, c)"

section \<open>The contract\<close>

datatype 'a chan_op = Send 'a | Recv

locale bounded_channel =
  fixes send :: "'a \<Rightarrow> 'q \<Rightarrow> 'q" and recv :: "'q \<Rightarrow> 'a option \<times> 'q"
    and contents :: "'q \<Rightarrow> 'a list" and cap :: nat
  assumes send_contents: "length (contents q) \<le> cap \<Longrightarrow>
      contents (send x q) = (if length (contents q) < cap then contents q @ [x] else contents q)"
    and recv_contents: "recv q = (case contents q of [] \<Rightarrow> (None, q) | x # c \<Rightarrow> (Some x, snd (recv q)))"
    and recv_rest: "contents (snd (recv q)) = tl (contents q)"
begin

fun run :: "'a chan_op list \<Rightarrow> 'q \<Rightarrow> 'a list \<times> 'q" where
  "run [] q = ([], q)"
| "run (Send x # ops) q = run ops (send x q)"
| "run (Recv # ops) q =
     (let (r, q) = recv q; (out, q) = run ops q
      in (case r of None \<Rightarrow> out | Some x \<Rightarrow> x # out, q))"

fun sent :: "'a chan_op list \<Rightarrow> 'a list" where
  "sent [] = []"
| "sent (Send x # ops) = x # sent ops"
| "sent (Recv # ops) = sent ops"

lemma send_bound: "length (contents q) \<le> cap \<Longrightarrow> length (contents (send x q)) \<le> cap"
  by (auto simp: send_contents)

lemma recv_cases:
  obtains "contents q = []" "recv q = (None, q)"
  | x c where "contents q = x # c" "recv q = (Some x, snd (recv q))" "contents (snd (recv q)) = c"
  using recv_contents[of q] recv_rest[of q] by (cases "contents q") auto

text \<open>What is received, followed by what is still in the channel, is a subsequence of what was in it
  and what was sent: nothing is invented, duplicated or reordered.\<close>

lemma run_subseq:
  assumes "length (contents q) \<le> cap"
  shows "subseq (fst (run ops q) @ contents (snd (run ops q))) (contents q @ sent ops) \<and>
    length (contents (snd (run ops q))) \<le> cap"
  using assms
proof (induction ops arbitrary: q)
  case (Cons a ops)
  show ?case
  proof (cases a)
    case (Send x)
    have "subseq (contents (send x q) @ sent ops) ((contents q @ [x]) @ sent ops)"
      using Cons.prems by (auto simp: send_contents intro: list_emb_append_mono)
    then show ?thesis
      using Cons.IH[OF send_bound[OF Cons.prems, of x]] subseq_order.trans by (fastforce simp: Send)
  next
    case Recv
    show ?thesis
    proof (cases rule: recv_cases[of q])
      case 1
      then show ?thesis using Cons.IH[of q] by (simp add: Recv split_beta)
    next
      case (2 x c)
      define q' where "q' = snd (recv q)"
      have q': "recv q = (Some x, q')" "contents q' = c" using 2 by (simp_all add: q'_def)
      then have "length (contents q') \<le> cap" using Cons.prems 2(1) by simp
      from Cons.IH[OF this] show ?thesis by (simp add: Recv q' 2(1) split_beta)
    qed
  qed
qed simp

text \<open>Nothing is lost while the channel has room.\<close>

lemma send_room: "length (contents q) < cap \<Longrightarrow> contents (send x q) = contents q @ [x]"
  by (simp add: send_contents)

end

interpretation chan: bounded_channel "try_send cap" try_recv "\<lambda>c. c" cap
proof
  show "try_recv q = (case q of [] \<Rightarrow> (None, q) | x # c \<Rightarrow> (Some x, snd (try_recv q)))" for q :: "'a list"
    by (cases q) auto
  show "snd (try_recv q) = tl q" for q :: "'a list" by (cases q) auto
qed (simp add: try_send_def)

text \<open>A channel delivers a subsequence of what is sent to it, in order.\<close>

lemma channel_in_order:
  "subseq (fst (bounded_channel.run (try_send cap) try_recv ops [])) (bounded_channel.sent ops)"
proof -
  have "subseq xs ys" if "subseq (xs @ zs) ys" for xs ys zs :: "'a list"
    using that prefix_imp_subseq[of xs "xs @ zs"] subseq_order.trans by auto
  then show ?thesis using chan.run_subseq[of "[]" cap ops] by simp blast
qed

end
