(* ===== verification/Protocol.thy ===== *)
theory Protocol
  imports Span
begin

text \<open>
  protocol.go of the talk command, the wire format: a fixed 20-byte header, followed by one
  38-byte iLBC frame for audio packets.  The locale \<open>byte_field\<close> is the contract of the
  big-endian integer fields of package encoding/binary.
\<close>

type_synonym byte = "8 word"

section \<open>Big-endian integers\<close>

fun be_bytes :: "nat \<Rightarrow> int \<Rightarrow> byte list" where
  "be_bytes 0 v = []"
| "be_bytes (Suc n) v = be_bytes n (v div 256) @ [word_of_int v]"

definition be_value :: "byte list \<Rightarrow> int" where
  "be_value bs = foldl (\<lambda>a b. 256 * a + uint b) 0 bs"

lemma length_be_bytes [simp]: "length (be_bytes n v) = n"
  by (induction n arbitrary: v) auto

lemma be_value_snoc: "be_value (bs @ [b]) = 256 * be_value bs + uint b"
  by (simp add: be_value_def)

lemma be_value_Nil [simp]: "be_value [] = 0"
  by (simp add: be_value_def)

lemma be_value_bounds: "0 \<le> be_value bs \<and> be_value bs < 256 ^ length bs"
proof (induction bs rule: rev_induct)
  case (snoc b bs)
  have "0 \<le> uint b" "uint b < 256" using uint_lt2p[of b] by simp_all
  then show ?case using snoc by (simp add: be_value_snoc)
qed simp

lemma be_value_bytes: "0 \<le> v \<Longrightarrow> v < 256 ^ n \<Longrightarrow> be_value (be_bytes n v) = v"
proof (induction n arbitrary: v)
  case (Suc n)
  have "v div 256 < 256 ^ n" using Suc.prems by (intro int_div_less) auto
  then have "be_value (be_bytes n (v div 256)) = v div 256" using Suc by simp
  then show ?case using Suc.prems by (simp add: be_value_snoc uint_word_of_int)
qed simp

lemma be_bytes_value: "be_bytes (length bs) (be_value bs) = bs"
proof (induction bs rule: rev_induct)
  case (snoc b bs)
  have b: "0 \<le> uint b" "uint b < 256" using uint_lt2p[of b] by simp_all
  have "(256 * be_value bs + uint b) div 256 = be_value bs" using b by simp
  moreover have "word_of_int (256 * be_value bs + uint b) = b"
  proof (rule word_uint_eqI)
    have "uint (word_of_int (256 * be_value bs + uint b) :: byte) = (256 * be_value bs + uint b) mod 256"
      by (simp only: uint_word_of_int) simp
    also have "\<dots> = uint b" using b by simp
    finally show "uint (word_of_int (256 * be_value bs + uint b) :: byte) = uint b" .
  qed
  ultimately show ?case using snoc by (simp add: be_value_snoc)
qed simp

locale byte_field =
  fixes put_field :: "'v \<Rightarrow> byte list"
    and get_field :: "byte list \<Rightarrow> 'v"
    and width :: nat
  assumes width: "length (put_field v) = width"
    and get_put: "get_field (put_field v) = v"
    and put_get: "length bs = width \<Longrightarrow> put_field (get_field bs) = bs"
begin

lemma put_inject: "put_field a = put_field b \<longleftrightarrow> a = b"
  using get_put by metis

lemma read_written:
  "k + width \<le> length buf \<Longrightarrow>
     get_field (take width (drop k (blit buf k (put_field v)))) = v"
  by (simp add: blit_def width get_put)

lemma write_read:
  "k + width \<le> length buf \<Longrightarrow>
     blit buf k (put_field (get_field (take width (drop k buf)))) = buf"
  by (simp add: put_get blit_def width) (metis append_take_drop_id drop_drop add.commute)

end

definition put_uint64 :: "64 word \<Rightarrow> byte list" where "put_uint64 v = be_bytes 8 (uint v)"
definition get_uint64 :: "byte list \<Rightarrow> 64 word" where "get_uint64 bs = word_of_int (be_value bs)"
definition put_uint32 :: "32 word \<Rightarrow> byte list" where "put_uint32 v = be_bytes 4 (uint v)"
definition get_uint32 :: "byte list \<Rightarrow> 32 word" where "get_uint32 bs = word_of_int (be_value bs)"

interpretation uint64: byte_field put_uint64 get_uint64 8
proof
  show "get_uint64 (put_uint64 v) = v" for v
    using be_value_bytes[of "uint v" 8] uint_lt2p[of v] by (simp add: get_uint64_def put_uint64_def)
  show "put_uint64 (get_uint64 bs) = bs" if "length bs = 8" for bs
    using be_bytes_value[of bs] be_value_bounds[of bs] that
    by (simp add: get_uint64_def put_uint64_def uint_word_of_int)
qed (simp add: put_uint64_def)

interpretation uint32: byte_field put_uint32 get_uint32 4
proof
  show "get_uint32 (put_uint32 v) = v" for v
    using be_value_bytes[of "uint v" 4] uint_lt2p[of v] by (simp add: get_uint32_def put_uint32_def)
  show "put_uint32 (get_uint32 bs) = bs" if "length bs = 4" for bs
    using be_bytes_value[of bs] be_value_bounds[of bs] that
    by (simp add: get_uint32_def put_uint32_def uint_word_of_int)
qed (simp add: put_uint32_def)

section \<open>Packets\<close>

definition frameSamples :: int where "frameSamples = 160"
definition frameBytes :: int where "frameBytes = 38"
definition headerBytes :: int where "headerBytes = 20"
definition maxDatagram :: int where "maxDatagram = headerBytes + frameBytes"
definition kindHello :: byte where "kindHello = 1"
definition kindAccept :: byte where "kindAccept = 2"
definition kindAudio :: byte where "kindAudio = 3"
definition kindBye :: byte where "kindBye = 4"

record packet =
  pkind :: byte
  psession :: "64 word"
  pseq :: "32 word"
  paudio :: "byte list"

definition zero_packet :: packet where
  "zero_packet = \<lparr>pkind = 0, psession = 0, pseq = 0, paudio = replicate 38 0\<rparr>"

definition magic :: "byte list" where "magic = [73, 76, 66, 84]"  \<comment> \<open>"ILBT"\<close>

text \<open>The result is the destination buffer and the length of the datagram.\<close>

definition marshal :: "packet \<Rightarrow> byte list \<Rightarrow> (byte list \<times> int) res" where
  "marshal p dst =
     bnd (clear_sub dst 0 headerBytes) (\<lambda>dst.
     bnd (copy_sub dst 0 (int (length dst)) magic) (\<lambda>dst.
     bnd (upd dst 4 1) (\<lambda>dst.
     bnd (upd dst 5 (pkind p)) (\<lambda>dst.
     bnd (copy_sub dst 8 16 (put_uint64 (psession p))) (\<lambda>dst.
     bnd (copy_sub dst 16 20 (put_uint32 (pseq p))) (\<lambda>dst.
     if pkind p = kindAudio then
       bnd (copy_sub dst headerBytes (int (length dst)) (paudio p)) (\<lambda>dst.
       Ok (dst, maxDatagram))
     else Ok (dst, headerBytes)))))))"

definition parsePacket :: "byte list \<Rightarrow> (packet \<times> bool) res" where
  "parsePacket data =
     (if int (length data) < headerBytes then Ok (zero_packet, False)
      else
        bnd (sub data 0 4) (\<lambda>m.
        bnd (idx data 4) (\<lambda>version.
        bnd (idx data 6) (\<lambda>r6.
        bnd (idx data 7) (\<lambda>r7.
        if m \<noteq> magic \<or> version \<noteq> 1 \<or> r6 \<noteq> 0 \<or> r7 \<noteq> 0 then Ok (zero_packet, False)
        else
          bnd (idx data 5) (\<lambda>kind.
          let p = zero_packet\<lparr>pkind := kind\<rparr> in
          if pkind p < kindHello \<or> kindBye < pkind p then Ok (p, False)
          else
            let expected = (if pkind p = kindAudio then maxDatagram else headerBytes) in
            if int (length data) \<noteq> expected then Ok (p, False)
            else
              bnd (sub data 8 16) (\<lambda>s.
              bnd (sub data 16 20) (\<lambda>q.
              let p = p\<lparr>psession := get_uint64 s, pseq := get_uint32 q\<rparr> in
              if psession p = 0 then Ok (zero_packet, False)
              else
                bnd (sub data headerBytes (int (length data))) (\<lambda>a.
                bnd (copy_sub (paudio p) 0 frameBytes a) (\<lambda>a.
                Ok (p\<lparr>paudio := a\<rparr>, True)))))))))))"

lemmas protocol_constants = frameSamples_def frameBytes_def headerBytes_def maxDatagram_def
  kindHello_def kindAccept_def kindAudio_def kindBye_def

text \<open>The packets that have a wire form.\<close>

definition wire_packet :: "packet \<Rightarrow> bool" where
  "wire_packet p \<longleftrightarrow> 1 \<le> pkind p \<and> pkind p \<le> 4 \<and> psession p \<noteq> 0 \<and> length (paudio p) = 38 \<and>
     (pkind p \<noteq> kindAudio \<longrightarrow> paudio p = replicate 38 0)"

definition packet_bytes :: "packet \<Rightarrow> byte list" where
  "packet_bytes p = magic @ [1, pkind p, 0, 0] @ put_uint64 (psession p) @ put_uint32 (pseq p) @
     (if pkind p = kindAudio then paudio p else [])"

lemma length_put_uint [simp]: "length (put_uint64 v) = 8" "length (put_uint32 w) = 4"
  by (rule uint64.width, rule uint32.width)

lemma length_magic [simp]: "length magic = 4"
  by (simp add: magic_def)

lemma length_packet_bytes:
  "length (paudio p) = 38 \<Longrightarrow> length (packet_bytes p) = (if pkind p = kindAudio then 58 else 20)"
  by (simp add: packet_bytes_def)

text \<open>\<open>marshal\<close> writes exactly \<open>packet_bytes\<close>, whatever the buffer held.\<close>

definition packet_header :: "packet \<Rightarrow> byte list" where
  "packet_header p = magic @ [1, pkind p, 0, 0] @ put_uint64 (psession p) @ put_uint32 (pseq p)"

lemma packet_bytes_header: "packet_bytes p = packet_header p @ (if pkind p = kindAudio then paudio p else [])"
  by (simp add: packet_bytes_def packet_header_def)

lemma length_packet_header [simp]: "length (packet_header p) = 20"
  by (simp add: packet_header_def)

lemma marshal_header:
  assumes "length ds = 20"
  shows "marshal p (ds @ rest) =
     (if pkind p = kindAudio then
       bnd (copy_sub (packet_header p @ rest) 20 (20 + int (length rest)) (paudio p)) (\<lambda>dst. Ok (dst, 58))
     else Ok (packet_header p @ rest, 20))"
proof -
  have z: "blit (ds @ rest) 0 (replicate 20 0) = [0,0,0,0,0,0,0,0,0,0,0,0,0,0,0,0,0,0,0,0] @ rest"
    using assms by (simp add: blit_def eval_nat_numeral)
  have r: "replicate 16 (0 :: byte) = 0 # 0 # 0 # 0 # replicate 12 0"
    by (simp add: eval_nat_numeral)
  show ?thesis
    using assms unfolding marshal_def protocol_constants
    by (simp add: z r magic_def blit_def packet_header_def)
qed

lemma marshal_bytes:
  assumes "length (paudio p) = 38" and "58 \<le> length dst"
  shows "\<exists>dst'. marshal p dst = Ok (dst', int (length (packet_bytes p))) \<and> length dst' = length dst \<and>
    take (length (packet_bytes p)) dst' = packet_bytes p"
proof -
  obtain ds rest where d: "dst = ds @ rest" "length ds = 20" "38 \<le> length rest"
    using assms(2) that[of "take 20 dst" "drop 20 dst"] by simp
  show ?thesis
    using assms(1) d unfolding d(1) marshal_header[OF d(2)] packet_bytes_header
    by (simp add: blit_def protocol_constants)
qed

text \<open>\<open>parsePacket\<close> accepts exactly these byte strings.\<close>

lemma parse_packet_bytes:
  assumes "wire_packet p"
  shows "parsePacket (packet_bytes p) = Ok (p, True)"
proof -
  have p: "1 \<le> pkind p" "pkind p \<le> 4" "psession p \<noteq> 0" "length (paudio p) = 38"
      "pkind p \<noteq> 3 \<Longrightarrow> paudio p = replicate 38 0"
    using assms by (auto simp: wire_packet_def kindAudio_def)
  have eq: "zero_packet\<lparr>pkind := pkind p, psession := psession p, pseq := pseq p, paudio := paudio p\<rparr> = p"
    by (simp add: zero_packet_def)
  have eq': "zero_packet\<lparr>pkind := pkind p, psession := psession p, pseq := pseq p\<rparr> = p" if "pkind p \<noteq> 3"
    using p(5)[OF that] by (simp add: zero_packet_def)
  have eq2: "p\<lparr>paudio := replicate 38 0\<rparr> = p" if "pkind p \<noteq> 3"
    using p(5)[OF that] by (cases p) simp
  have n: "\<not> pkind p < 1" "\<not> 4 < pkind p" using p by auto
  show ?thesis
    using p(3,4) n eq eq' eq2
    by (simp add: parsePacket_def packet_bytes_header packet_header_def protocol_constants magic_def
        uint64.get_put uint32.get_put zero_packet_def)
qed

lemma parse_bytes:
  assumes "parsePacket data = Ok (p, True)"
  shows "wire_packet p \<and> data = packet_bytes p"
proof -
  have l: "20 \<le> length data"
    using assms by (auto simp: parsePacket_def protocol_constants split: if_splits)
  define ms where "ms = take 4 data"
  define ss where "ss = take 8 (drop 8 data)"
  define qs where "qs = take 4 (drop 16 data)"
  define as where "as = drop 20 data"
  have len: "length ms = 4" "length ss = 8" "length qs = 4" "length as = length data - 20"
    using l by (auto simp: ms_def ss_def qs_def as_def)
  have d4: "drop 4 data = data ! 4 # data ! 5 # data ! 6 # data ! 7 # drop 8 data"
    using l by (simp add: Cons_nth_drop_Suc eval_nat_numeral)
  have "drop 8 data = ss @ drop 16 data" "drop 16 data = qs @ as"
    using append_take_drop_id[of 8 "drop 8 data"] append_take_drop_id[of 4 "drop 16 data"]
    by (simp_all add: ss_def qs_def as_def)
  then have data: "data = ms @ [data ! 4, data ! 5, data ! 6, data ! 7] @ ss @ qs @ as"
    using append_take_drop_id[of 4 data] unfolding d4 ms_def by simp
  define k where "k = data ! 5"
  from assms l have r: "ms = magic" "data ! 4 = 1" "data ! 6 = 0" "data ! 7 = 0" "\<not> k < 1" "\<not> 4 < k"
      "get_uint64 ss \<noteq> 0" "int (length data) = (if k = 3 then 58 else 20)"
      "p = \<lparr>pkind = k, psession = get_uint64 ss, pseq = get_uint32 qs, paudio = blit (replicate 38 0) 0 (take 38 as)\<rparr>"
    unfolding parsePacket_def protocol_constants
    by (auto simp: Let_def zero_packet_def ms_def ss_def qs_def as_def k_def split: if_splits)
  have a: "blit (replicate 38 0) 0 (take 38 as) = (if k = 3 then as else replicate 38 0)"
    using r(8) len(4) by (auto simp: blit_def)
  have s: "put_uint64 (get_uint64 ss) = ss" "put_uint32 (get_uint32 qs) = qs"
    using uint64.put_get[OF len(2)] uint32.put_get[OF len(3)] by auto
  have "length as = (if k = 3 then 38 else 0)"
    using r(8) len(4) by (auto split: if_splits)
  moreover have "1 \<le> k" "k \<le> 4" using r(5,6) by (simp_all only: not_less)
  ultimately show ?thesis
    using r(1-4,7,9) data s unfolding a k_def[symmetric]
    by (auto simp: wire_packet_def packet_bytes_def kindAudio_def)
qed

text \<open>C14: A packet survives the wire: the datagram that \<open>marshal\<close> writes into any buffer of at
  least \<open>maxDatagram\<close> bytes is accepted by \<open>parsePacket\<close> and yields the packet again, and its
  length is that of the header, plus the frame for audio packets.\<close>
theorem marshal_parse:
  assumes "wire_packet p" and "58 \<le> length dst"
  shows "\<exists>dst' n. marshal p dst = Ok (dst', n) \<and> length dst' = length dst \<and>
    n = (if pkind p = kindAudio then maxDatagram else headerBytes) \<and>
    parsePacket (take (nat n) dst') = Ok (p, True)"
proof -
  have l: "length (paudio p) = 38" using assms(1) by (simp add: wire_packet_def)
  obtain dst' where "marshal p dst = Ok (dst', int (length (packet_bytes p)))"
      "length dst' = length dst" "take (length (packet_bytes p)) dst' = packet_bytes p"
    using marshal_bytes[OF l assms(2)] by auto
  then show ?thesis
    using parse_packet_bytes[OF assms(1)] length_packet_bytes[OF l] by (auto simp: protocol_constants)
qed

definition sample_packet :: packet where
  "sample_packet = \<lparr>pkind = 3, psession = 0xFEDCBA9876543211, pseq = 0xFFFFFFFF,
     paudio = map word_of_int [100..137]\<rparr>"

theorem marshal_parse_witness:
  "wire_packet sample_packet \<and> (\<exists>dst' n. marshal sample_packet (replicate 58 255) = Ok (dst', n) \<and>
    length dst' = length (replicate 58 (255 :: byte)) \<and>
    n = (if pkind sample_packet = kindAudio then maxDatagram else headerBytes) \<and>
    parsePacket (take (nat n) dst') = Ok (sample_packet, True))"
proof -
  have "wire_packet sample_packet" by (simp add: wire_packet_def sample_packet_def kindAudio_def)
  then show ?thesis using marshal_parse[of sample_packet "replicate 58 255"] by simp
qed

text \<open>C15: \<open>parsePacket\<close> never panics, and it accepts a datagram exactly when the datagram is the
  wire form of the packet it returns: no other bytes, lengths, versions, kinds, reserved
  fields or a zero session pass.\<close>
theorem parse_exact:
  "\<exists>p ok. parsePacket data = Ok (p, ok) \<and>
     (ok = (\<exists>q. wire_packet q \<and> data = packet_bytes q)) \<and>
     (ok = (wire_packet p \<and> data = packet_bytes p))"
proof -
  have "\<exists>p ok. parsePacket data = Ok (p, ok)"
    unfolding parsePacket_def protocol_constants by (auto simp: Let_def zero_packet_def)
  then obtain p ok where p: "parsePacket data = Ok (p, ok)" by auto
  then show ?thesis
    using parse_bytes[of data p] parse_packet_bytes[of p] parse_packet_bytes by (cases ok) fastforce+
qed

end
