(* ===== verification/AudioBridge.thy ===== *)
theory AudioBridge
  imports Channel Protocol
begin

text \<open>
  audio.go of the talk command: the bridge between the audio callback, which moves any number
  of bytes at any time, and the workers, which move frames of 160 samples.  Seen from
  outside, playback is a first-in first-out queue of samples that runs on silence when it is
  empty, and capture cuts the microphone samples into consecutive frames.
\<close>

type_synonym sample = "16 word"

record pcmFrame =
  fseq :: "32 word"
  samples :: "sample list"

definition zero_frame_pcm :: pcmFrame where
  "zero_frame_pcm = \<lparr>fseq = 0, samples = replicate 160 0\<rparr>"

text \<open>The channels are the lists of the values they buffer; an error is a string.\<close>

record audioBridge =
  captured :: "pcmFrame list"
  playback :: "pcmFrame list"
  berrors :: "string list"
  capture :: pcmFrame
  playing :: pcmFrame
  inputAt :: int
  outputAt :: int

definition captured_cap :: nat where "captured_cap = 4"
definition playback_cap :: nat where "playback_cap = 3"
definition errors_cap :: nat where "errors_cap = 1"

definition newAudioBridge :: audioBridge where
  "newAudioBridge = \<lparr>captured = [], playback = [], berrors = [], capture = zero_frame_pcm,
     playing = zero_frame_pcm, inputAt = 0, outputAt = frameSamples\<rparr>"

definition bridge_fail :: "string \<Rightarrow> audioBridge \<Rightarrow> audioBridge" where
  "bridge_fail err b = b\<lparr>berrors := try_send errors_cap err (berrors b)\<rparr>"

text \<open>\<open>binary.LittleEndian.Uint16(bs[i:])\<close> and \<open>PutUint16\<close>\<close>

definition get_le16 :: "byte list \<Rightarrow> int \<Rightarrow> sample res" where
  "get_le16 bs i =
     bnd (idx bs i) (\<lambda>lo.
     bnd (idx bs (i + 1)) (\<lambda>hi.
     Ok (word_of_int (uint lo + 256 * uint hi))))"

definition put_le16 :: "byte list \<Rightarrow> int \<Rightarrow> sample \<Rightarrow> byte list res" where
  "put_le16 bs i v =
     bnd (upd bs i (word_of_int (uint v))) (\<lambda>bs.
     upd bs (i + 1) (word_of_int (uint v div 256)))"

text \<open>One sample from the microphone.\<close>

definition capture_sample :: "sample \<Rightarrow> audioBridge \<Rightarrow> audioBridge res" where
  "capture_sample v b =
     bnd (upd (samples (capture b)) (inputAt b) v) (\<lambda>s.
     let b = b\<lparr>capture := (capture b)\<lparr>samples := s\<rparr>, inputAt := inputAt b + 1\<rparr> in
     if inputAt b = frameSamples then
       Ok (b\<lparr>captured := try_send captured_cap (capture b) (captured b),
             capture := (capture b)\<lparr>fseq := fseq (capture b) + 1\<rparr>, inputAt := 0\<rparr>)
     else Ok b)"

definition bridge_input :: "byte list \<Rightarrow> audioBridge \<Rightarrow> audioBridge res" where
  "bridge_input input b =
     for_by 2 0 (int (length input) - 1) (\<lambda>i b.
       bnd (get_le16 input i) (\<lambda>v. capture_sample v b)) b"

text \<open>One sample to the loudspeaker; \<open>stopped\<close> is the early return on an underrun.\<close>

definition play_sample :: "int \<Rightarrow> byte list \<times> audioBridge \<times> bool \<Rightarrow> (byte list \<times> audioBridge \<times> bool) res" where
  "play_sample i = (\<lambda>(out, b, stopped).
     if stopped then Ok (out, b, True)
     else
       let (b, stopped) =
         (if outputAt b = frameSamples then
            (case try_recv (playback b) of
               (Some f, c) \<Rightarrow> (b\<lparr>playback := c, playing := f, outputAt := 0\<rparr>, False)
             | (None, c) \<Rightarrow> (b, True))
          else (b, False)) in
       if stopped then Ok (out, b, True)
       else
         bnd (idx (samples (playing b)) (outputAt b)) (\<lambda>v.
         bnd (put_le16 out i v) (\<lambda>out.
         Ok (out, b\<lparr>outputAt := outputAt b + 1\<rparr>, False))))"

definition bridge_output :: "byte list \<Rightarrow> audioBridge \<Rightarrow> (byte list \<times> audioBridge) res" where
  "bridge_output out b =
     bnd (clear_sub out 0 (int (length out))) (\<lambda>out.
     bnd (for_by 2 0 (int (length out) - 1) play_sample (out, b, False)) (\<lambda>(out, b, stopped).
     Ok (out, b)))"

text \<open>\<open>process\<close>: the result is the output buffer and the bridge.\<close>

definition process :: "byte list \<Rightarrow> byte list \<Rightarrow> audioBridge \<Rightarrow> (byte list \<times> audioBridge) res" where
  "process out input b = bnd (bridge_input input b) (bridge_output out)"

section \<open>The invariant\<close>

definition bridge_ok :: "audioBridge \<Rightarrow> bool" where
  "bridge_ok b \<longleftrightarrow> length (captured b) \<le> captured_cap \<and> length (playback b) \<le> playback_cap \<and>
     length (berrors b) \<le> errors_cap \<and>
     length (samples (capture b)) = 160 \<and> length (samples (playing b)) = 160 \<and>
     (\<forall>f \<in> set (captured b) \<union> set (playback b). length (samples f) = 160) \<and>
     0 \<le> inputAt b \<and> inputAt b < 160 \<and> 0 \<le> outputAt b \<and> outputAt b \<le> 160"

lemma bridge_ok_new: "bridge_ok newAudioBridge"
  by (simp add: bridge_ok_def newAudioBridge_def zero_frame_pcm_def frameSamples_def)

lemma capture_sample_wp:
  assumes "bridge_ok b" "\<And>b'. bridge_ok b' \<Longrightarrow> Q b'"
  shows "spec E Q (capture_sample v b)"
  unfolding capture_sample_def Let_def
  using assms by (auto simp: bridge_ok_def frameSamples_def try_send_def intro!: assms(2))

section \<open>Playback is a queue of samples\<close>

definition le16_bytes :: "sample \<Rightarrow> byte list" where
  "le16_bytes v = [word_of_int (uint v), word_of_int (uint v div 256)]"

text \<open>The samples still to be played.\<close>

definition pending :: "audioBridge \<Rightarrow> sample list" where
  "pending b = drop (nat (outputAt b)) (samples (playing b)) @ concat (map samples (playback b))"

definition same_capture :: "audioBridge \<Rightarrow> audioBridge \<Rightarrow> bool" where
  "same_capture b b' \<longleftrightarrow> captured b' = captured b \<and> capture b' = capture b \<and> inputAt b' = inputAt b \<and>
     berrors b' = berrors b"

lemma same_capture_trans: "same_capture a b \<Longrightarrow> same_capture b c \<Longrightarrow> same_capture a c"
  by (simp add: same_capture_def)

lemma put_le16_in:
  "0 \<le> i \<Longrightarrow> i + 1 < int (length out) \<Longrightarrow>
     put_le16 out i v = Ok (out[nat i := word_of_int (uint v), nat i + 1 := word_of_int (uint v div 256)])"
  by (simp add: put_le16_def nat_add_distrib)

lemma play_sample_underrun:
  assumes "bridge_ok b" "pending b = []"
  shows "play_sample i (out, b, False) = Ok (out, b, True)"
proof -
  have "outputAt b = 160" using assms by (auto simp: bridge_ok_def pending_def)
  moreover have "playback b = []"
    using assms by (cases "playback b") (auto simp: bridge_ok_def pending_def)
  ultimately show ?thesis by (simp add: play_sample_def frameSamples_def)
qed

lemma play_sample_next:
  assumes ok: "bridge_ok b" and v: "pending b = v # vs" and i: "0 \<le> i" "i + 1 < int (length out)"
  obtains b' where "play_sample i (out, b, False) =
      Ok (out[nat i := word_of_int (uint v), nat i + 1 := word_of_int (uint v div 256)], b', False)"
    "pending b' = vs" "bridge_ok b'" "same_capture b b'"
proof (cases "outputAt b = 160")
  case True
  then have "concat (map samples (playback b)) = v # vs" using ok v by (simp add: pending_def bridge_ok_def)
  then obtain f c where c: "playback b = f # c" by (cases "playback b") auto
  have f: "length (samples f) = 160" using ok c by (simp add: bridge_ok_def)
  then obtain fs where fs: "samples f = v # fs" using True v ok c by (cases "samples f") (auto simp: pending_def bridge_ok_def)
  show ?thesis
    by (rule that[of "b\<lparr>playback := c, playing := f, outputAt := 1\<rparr>"])
      (use True ok v c f fs i in \<open>auto simp: play_sample_def frameSamples_def put_le16_in pending_def bridge_ok_def same_capture_def\<close>)
next
  case False
  define k where "k = nat (outputAt b)"
  have k: "outputAt b = int k" "k < 160" "length (samples (playing b)) = 160"
    using ok False by (auto simp: bridge_ok_def k_def)
  then have "drop k (samples (playing b)) = samples (playing b) ! k # drop (Suc k) (samples (playing b))"
    by (simp add: Cons_nth_drop_Suc)
  then have d: "samples (playing b) ! k = v" "drop (Suc k) (samples (playing b)) @ concat (map samples (playback b)) = vs"
    using v by (simp_all add: pending_def k(1))
  have n: "nat (int k + 1) = Suc k" by simp
  show ?thesis
    by (rule that[of "b\<lparr>outputAt := outputAt b + 1\<rparr>"])
      (use False ok k d i n in \<open>auto simp: play_sample_def frameSamples_def put_le16_in pending_def bridge_ok_def same_capture_def\<close>)
qed

lemma le16_run_length: "length (concat (map le16_bytes vs)) = 2 * length vs"
  by (induction vs) (auto simp: le16_bytes_def)

definition played :: "nat \<Rightarrow> sample list \<Rightarrow> byte list" where
  "played n vs = concat (map le16_bytes vs) @ replicate (n - 2 * length vs) 0"

lemma played_snoc:
  assumes "2 * length vs + 1 < n"
  shows "(played n vs)[2 * length vs := word_of_int (uint v), Suc (2 * length vs) := word_of_int (uint v div 256)] =
    played n (vs @ [v])"
proof -
  obtain r where r: "n - 2 * length vs = Suc (Suc r)" using assms by (metis Suc_diff_Suc Suc_lessD add.commute plus_1_eq_Suc zero_less_diff less_natE add_diff_cancel_left' diff_Suc_1)
  have l: "length (concat (map le16_bytes vs)) = 2 * length vs" by (rule le16_run_length)
  have "n - 2 * length (vs @ [v]) = r" using r by simp
  then show ?thesis
    using r l by (simp add: played_def list_update_append le16_bytes_def)
qed

lemma bridge_output_run:
  assumes ok: "bridge_ok b"
  shows "\<exists>b'. bridge_output out b = Ok (played (length out) (take (length out div 2) (pending b)), b') \<and>
    pending b' = drop (length out div 2) (pending b) \<and> bridge_ok b' \<and> same_capture b b'"
proof -
  define n where "n = length out"
  define I where "I i s = (case s of (o', b', st) \<Rightarrow> \<exists>k. i = 2 * int k \<and> o' = played n (take k (pending b)) \<and>
    pending b' = drop k (pending b) \<and> bridge_ok b' \<and> same_capture b b' \<and> (st \<longrightarrow> pending b' = []))"
    for i and s :: "byte list \<times> audioBridge \<times> bool"
  have step: "spec (\<lambda>_. False) (I (i + 2)) (play_sample i s)" if i: "0 \<le> i" "i < int n - 1" "I i s" for i s
  proof -
    obtain o' b' st k where s: "s = (o', b', st)" "i = 2 * int k" "o' = played n (take k (pending b))"
      "pending b' = drop k (pending b)" "bridge_ok b'" "same_capture b b'" "st \<longrightarrow> pending b' = []"
      using i(3) by (cases s) (auto simp: I_def)
    show ?thesis
    proof (cases "pending b'")
      case Nil
      then have t: "take (Suc k) (pending b) = take k (pending b)" using s(4) by simp
      have "play_sample i s = Ok (o', b', True)"
        using play_sample_underrun[OF s(5) Nil] by (cases st) (auto simp: s(1) play_sample_def)
      then show ?thesis using s Nil t by (auto simp: I_def intro!: exI[of _ "Suc k"])
    next
      case (Cons v vs)
      then have st: "st = False" using s(7) by auto
      have k: "k < length (pending b)" using Cons s(4) by (metis drop_eq_Nil linorder_not_le list.distinct(1))
      then have tk: "take (Suc k) (pending b) = take k (pending b) @ [v]" "drop (Suc k) (pending b) = vs"
        using Cons s(4) by (simp_all add: take_Suc_conv_app_nth flip: Cons_nth_drop_Suc)
      have lk: "length (take k (pending b)) = k" using k by simp
      have len: "length o' = n" using i(2) k s(2) by (simp add: s(3) played_def le16_run_length)
      obtain b'' where b'': "play_sample i (o', b', False) =
          Ok (o'[nat i := word_of_int (uint v), nat i + 1 := word_of_int (uint v div 256)], b'', False)"
        "pending b'' = vs" "bridge_ok b''" "same_capture b' b''"
        by (rule play_sample_next[OF s(5) Cons, of i o']) (use i len in auto)
      have "o'[nat i := word_of_int (uint v), nat i + 1 := word_of_int (uint v div 256)] = played n (take (Suc k) (pending b))"
        using played_snoc[of "take k (pending b)" n v] i(2) s(2) lk by (simp add: s(3) tk nat_mult_distrib)
      then show ?thesis
        using b'' s tk same_capture_trans by (auto simp: I_def st intro!: exI[of _ "Suc k"])
    qed
  qed
  have "safe (\<lambda>(o', b', st). o' = played n (take (n div 2) (pending b)) \<and> pending b' = drop (n div 2) (pending b) \<and>
      bridge_ok b' \<and> same_capture b b')
    (for_by 2 0 (int n - 1) play_sample (replicate n 0, b, False))"
  proof (rule for_by_spec[where I = I])
    show "I 0 (replicate n 0, b, False)"
      using ok by (auto simp: I_def played_def same_capture_def intro!: exI[of _ 0])
    show "case s of (o', b', st) \<Rightarrow> o' = played n (take (n div 2) (pending b)) \<and>
        pending b' = drop (n div 2) (pending b) \<and> bridge_ok b' \<and> same_capture b b'"
      if i: "int n - 1 \<le> i" "i < int n - 1 + 2" "I i s" for i s
    proof -
      obtain k where k: "i = 2 * int k" using i(3) by (auto simp: I_def split: prod.splits)
      then have "k = n div 2" using i by linarith
      then show ?thesis using i(3) k by (auto simp: I_def split: prod.splits)
    qed
  qed (use step in auto)
  then show ?thesis
    by (auto simp: bridge_output_def safe_iff n_def)
qed

section \<open>Capture cuts the input into frames\<close>

fun le16_samples :: "byte list \<Rightarrow> sample list" where
  "le16_samples (lo # hi # bs) = word_of_int (uint lo + 256 * uint hi) # le16_samples bs"
| "le16_samples bs = []"

lemma length_le16_samples: "length (le16_samples bs) = length bs div 2"
  by (induction bs rule: le16_samples.induct) auto

lemma nth_le16_samples:
  "k < length bs div 2 \<Longrightarrow> le16_samples bs ! k = word_of_int (uint (bs ! (2 * k)) + 256 * uint (bs ! Suc (2 * k)))"
proof (induction bs arbitrary: k rule: le16_samples.induct)
  case (1 lo hi bs)
  then show ?case by (cases k) auto
qed auto

text \<open>The consecutive complete frames of a sample sequence, numbered from \<open>q\<close>.\<close>

function frames_of :: "32 word \<Rightarrow> sample list \<Rightarrow> pcmFrame list" where
  "frames_of q vs = (if length vs < 160 then []
     else \<lparr>fseq = q, samples = take 160 vs\<rparr> # frames_of (q + 1) (drop 160 vs))"
  by pat_completeness auto
termination by (relation "measure (\<lambda>(q, vs). length vs)") auto

declare frames_of.simps [simp del]

definition partial :: "audioBridge \<Rightarrow> sample list" where
  "partial b = take (nat (inputAt b)) (samples (capture b))"

lemma partial_less: "bridge_ok b \<Longrightarrow> length (partial b) < 160"
  by (auto simp: partial_def bridge_ok_def min_def)

definition same_playback :: "audioBridge \<Rightarrow> audioBridge \<Rightarrow> bool" where
  "same_playback b b' \<longleftrightarrow> playback b' = playback b \<and> playing b' = playing b \<and> outputAt b' = outputAt b \<and>
     berrors b' = berrors b"

definition push_frames :: "pcmFrame list \<Rightarrow> pcmFrame list \<Rightarrow> pcmFrame list" where
  "push_frames fs c = fold (try_send captured_cap) fs c"

lemma length_try_send: "length c \<le> cap \<Longrightarrow> length (try_send cap x c) \<le> cap"
  by (simp add: try_send_def)

text \<open>One sample, by whether it completes a frame.\<close>

lemma capture_sample_step:
  assumes ok: "bridge_ok b"
  obtains b' where "capture_sample v b = Ok b'" "bridge_ok b'" "same_playback b b'"
    "if length (partial b) = 159
     then partial b' = [] \<and> fseq (capture b') = fseq (capture b) + 1 \<and>
       captured b' = try_send captured_cap \<lparr>fseq = fseq (capture b), samples = partial b @ [v]\<rparr> (captured b)
     else partial b' = partial b @ [v] \<and> fseq (capture b') = fseq (capture b) \<and> captured b' = captured b"
proof -
  define k where "k = nat (inputAt b)"
  have k: "inputAt b = int k" "k < 160" "length (samples (capture b)) = 160" using ok by (auto simp: bridge_ok_def k_def)
  have full: "take 159 (samples (capture b)) @ [v] = (samples (capture b))[159 := v]"
    using k(3) by (simp add: upd_conv_take_nth_drop)
  have tk: "take (Suc k) ((samples (capture b))[k := v]) = take k (samples (capture b)) @ [v]"
    using k by (simp add: take_Suc_conv_app_nth)
  have n: "nat (int k + 1) = Suc k" by simp
  let ?cap = "(capture b)\<lparr>samples := (samples (capture b))[k := v]\<rparr>"
  show ?thesis
  proof (cases "k = 159")
    case True
    have "?cap = \<lparr>fseq = fseq (capture b), samples = (samples (capture b))[159 := v]\<rparr>"
      by (simp add: True)
    then show ?thesis
      by (intro that[of "b\<lparr>captured := try_send captured_cap ?cap (captured b),
            capture := ?cap\<lparr>fseq := fseq (capture b) + 1\<rparr>, inputAt := 0\<rparr>"])
        (use True ok k full length_try_send in \<open>auto simp: capture_sample_def frameSamples_def partial_def
          bridge_ok_def same_playback_def try_send_def\<close>)
  next
    case False
    then show ?thesis
      by (intro that[of "b\<lparr>capture := ?cap, inputAt := inputAt b + 1\<rparr>"])
        (use ok k tk n in \<open>auto simp: capture_sample_def frameSamples_def partial_def
          bridge_ok_def same_playback_def\<close>)
  qed
qed

lemma capture_samples:
  assumes "bridge_ok b"
  shows "\<exists>b'. foldM capture_sample vs b = Ok b' \<and> bridge_ok b' \<and> same_playback b b' \<and>
    captured b' = push_frames (frames_of (fseq (capture b)) (partial b @ vs)) (captured b) \<and>
    partial b' = drop (160 * (length (partial b @ vs) div 160)) (partial b @ vs) \<and>
    fseq (capture b') = fseq (capture b) + word_of_nat (length (partial b @ vs) div 160)"
  using assms
proof (induction vs arbitrary: b)
  case Nil
  have "length (partial b) < 160" using Nil by (rule partial_less)
  then show ?case using Nil by (simp add: frames_of.simps push_frames_def same_playback_def)
next
  case (Cons v vs)
  have p: "length (partial b) < 160" using Cons.prems by (rule partial_less)
  obtain b1 where b1: "capture_sample v b = Ok b1" "bridge_ok b1" "same_playback b b1"
    "if length (partial b) = 159
     then partial b1 = [] \<and> fseq (capture b1) = fseq (capture b) + 1 \<and>
       captured b1 = try_send captured_cap \<lparr>fseq = fseq (capture b), samples = partial b @ [v]\<rparr> (captured b)
     else partial b1 = partial b @ [v] \<and> fseq (capture b1) = fseq (capture b) \<and> captured b1 = captured b"
    by (rule capture_sample_step[OF Cons.prems, of v])
  obtain b2 where b2: "foldM capture_sample vs b1 = Ok b2" "bridge_ok b2" "same_playback b1 b2"
    "captured b2 = push_frames (frames_of (fseq (capture b1)) (partial b1 @ vs)) (captured b1)"
    "partial b2 = drop (160 * (length (partial b1 @ vs) div 160)) (partial b1 @ vs)"
    "fseq (capture b2) = fseq (capture b1) + word_of_nat (length (partial b1 @ vs) div 160)"
    using Cons.IH[OF b1(2)] by auto
  have sp: "same_playback b b2" using b1(3) b2(3) by (simp add: same_playback_def)
  show ?case
  proof (cases "length (partial b) = 159")
    case True
    have f: "frames_of (fseq (capture b)) (partial b @ v # vs) =
        \<lparr>fseq = fseq (capture b), samples = partial b @ [v]\<rparr> # frames_of (fseq (capture b) + 1) vs"
      using True by (subst frames_of.simps) simp
    have "drop (160 * (length (partial b @ v # vs) div 160)) (partial b @ v # vs) = drop (160 * (length vs div 160)) vs"
    proof -
      have "length (partial b @ v # vs) div 160 = Suc (length vs div 160)" using True by simp
      moreover have "drop 160 (partial b @ v # vs) = vs" using True by simp
      ultimately show ?thesis by (metis drop_drop mult_Suc_right add.commute)
    qed
    moreover have "word_of_nat (length (partial b @ v # vs) div 160) = (1 + word_of_nat (length vs div 160) :: 32 word)"
    proof -
      have "length (partial b @ v # vs) div 160 = Suc (length vs div 160)" using True by simp
      then show ?thesis by simp
    qed
    ultimately show ?thesis using b1 b2 sp f True
      by (simp add: push_frames_def add.assoc del: length_append append_Cons)
  next
    case False
    then show ?thesis using b1 b2 sp by simp
  qed
qed

lemma bridge_input_run:
  assumes ok: "bridge_ok b"
  shows "\<exists>b'. bridge_input input b = Ok b' \<and> bridge_ok b' \<and> same_playback b b' \<and>
    captured b' = push_frames (frames_of (fseq (capture b)) (partial b @ le16_samples input)) (captured b) \<and>
    partial b' = drop (160 * (length (partial b @ le16_samples input) div 160)) (partial b @ le16_samples input) \<and>
    fseq (capture b') = fseq (capture b) + word_of_nat (length (partial b @ le16_samples input) div 160)"
proof -
  define n where "n = length input"
  define I where "I i s \<longleftrightarrow> (\<exists>k. i = 2 * int k \<and> foldM capture_sample (take k (le16_samples input)) b = Ok s \<and> bridge_ok s)"
    for i s
  have step: "safe (I (i + 2)) (bnd (get_le16 input i) (\<lambda>v. capture_sample v s))"
    if i: "0 \<le> i" "i < int n - 1" "I i s" for i s
  proof -
    obtain k where k: "i = 2 * int k" "foldM capture_sample (take k (le16_samples input)) b = Ok s" "bridge_ok s"
      using i(3) by (auto simp: I_def)
    have kl: "k < n div 2" using i(2) k(1) by linarith
    define v where "v = le16_samples input ! k"
    have idx2: "nat (2 * int k) = 2 * k" "nat (2 * int k + 1) = Suc (2 * k)" by simp_all
    have g: "get_le16 input i = Ok v"
      using i k(1) kl nth_le16_samples[of k input] idx2 by (simp add: get_le16_def v_def n_def)
    have t: "take (Suc k) (le16_samples input) = take k (le16_samples input) @ [v]"
      using kl by (simp add: take_Suc_conv_app_nth v_def length_le16_samples n_def)
    obtain s' where s': "capture_sample v s = Ok s'" "bridge_ok s'"
      using capture_sample_step[OF k(3), of v] by metis
    have "foldM capture_sample (take (Suc k) (le16_samples input)) b = Ok s'"
      using k(2) s'(1) by (simp add: t foldM_append)
    then show ?thesis using k(1) s' g by (auto simp: I_def intro!: exI[of _ "Suc k"])
  qed
  have "safe (\<lambda>s. foldM capture_sample (le16_samples input) b = Ok s)
    (for_by 2 0 (int n - 1) (\<lambda>i b. bnd (get_le16 input i) (\<lambda>v. capture_sample v b)) b)"
  proof (rule for_by_spec[where I = I])
    show "I 0 b" using ok by (auto simp: I_def intro!: exI[of _ 0])
    show "foldM capture_sample (le16_samples input) b = Ok s"
      if i: "int n - 1 \<le> i" "i < int n - 1 + 2" "I i s" for i s
    proof -
      obtain k where k: "i = 2 * int k" "foldM capture_sample (take k (le16_samples input)) b = Ok s"
        using i(3) by (auto simp: I_def)
      then have "length (le16_samples input) \<le> k" using i by (simp add: length_le16_samples n_def)
      then show ?thesis using k by simp
    qed
  qed (use step in auto)
  then show ?thesis
    using capture_samples[OF ok, of "le16_samples input"] by (auto simp: bridge_input_def safe_iff n_def)
qed

section \<open>The callback\<close>

text \<open>C24: playback is a first-in first-out queue of samples: a callback plays the oldest
  pending samples, runs on silence when they end, and leaves exactly the rest pending.\<close>

theorem playback_is_fifo:
  assumes "bridge_ok b"
  shows "\<exists>b'. bridge_output out b = Ok (played (length out) (take (length out div 2) (pending b)), b') \<and>
    pending b' = drop (length out div 2) (pending b) \<and> bridge_ok b'"
  using bridge_output_run[OF assms, of out] by blast

definition ramp_frame :: pcmFrame where
  "ramp_frame = \<lparr>fseq = 0, samples = map word_of_nat [0..<160]\<rparr>"

definition ramp_bridge :: audioBridge where
  "ramp_bridge = newAudioBridge\<lparr>playback := [ramp_frame]\<rparr>"

lemma bridge_ok_ramp: "bridge_ok ramp_bridge"
  using bridge_ok_new by (simp add: ramp_bridge_def bridge_ok_def ramp_frame_def playback_cap_def newAudioBridge_def)

lemma pending_ramp: "pending ramp_bridge = map word_of_nat [0..<160]"
  by (simp add: pending_def ramp_bridge_def ramp_frame_def newAudioBridge_def zero_frame_pcm_def frameSamples_def)

theorem playback_is_fifo_witness:
  "\<exists>b'. bridge_output (replicate 4 7) ramp_bridge = Ok ([0, 0, 1, 0], b') \<and>
    pending b' = drop 2 (pending ramp_bridge) \<and> bridge_ok b'"
proof -
  have "played 4 (take 2 (pending ramp_bridge)) = [0, 0, 1, 0]"
    unfolding pending_ramp by (simp add: played_def le16_bytes_def upt_rec)
  then show ?thesis using playback_is_fifo[OF bridge_ok_ramp, of "replicate 4 7"] by simp
qed

text \<open>C25: capture cuts the microphone signal into consecutive frames of 160 samples with
  consecutive sequence numbers, whatever the callback sizes are: what a callback completes goes to
  the bounded channel in order, an incomplete frame waits for the next callback, and the next
  number is the old one advanced by the frames completed, so the numbering goes on over the
  callbacks, for frames the full channel drops too.\<close>

theorem capture_cuts_frames:
  assumes "bridge_ok b"
  shows "\<exists>b'. bridge_input input b = Ok b' \<and> bridge_ok b' \<and>
    captured b' = push_frames (frames_of (fseq (capture b)) (partial b @ le16_samples input)) (captured b) \<and>
    partial b' = drop (160 * (length (partial b @ le16_samples input) div 160)) (partial b @ le16_samples input) \<and>
    fseq (capture b') = fseq (capture b) + word_of_nat (length (partial b @ le16_samples input) div 160)"
  using bridge_input_run[OF assms, of input] by blast

theorem capture_cuts_frames_witness:
  "\<exists>b'. bridge_input (concat (replicate 161 [1, 0]) @ [9]) newAudioBridge = Ok b' \<and> bridge_ok b' \<and>
    captured b' = [\<lparr>fseq = 0, samples = replicate 160 1\<rparr>] \<and> partial b' = [1] \<and> fseq (capture b') = 1"
proof -
  have p: "partial newAudioBridge = []" "captured newAudioBridge = []" "fseq (capture newAudioBridge) = 0"
    by (simp_all add: newAudioBridge_def partial_def zero_frame_pcm_def)
  have le: "le16_samples (concat (replicate n [1, 0]) @ [9]) = replicate n 1" for n
    by (induction n) simp_all
  have "frames_of 1 [1] = []" by (simp add: frames_of.simps)
  then have "frames_of 0 (replicate 161 1) = [\<lparr>fseq = 0, samples = replicate 160 1\<rparr>]"
    by (subst frames_of.simps) (simp add: take_replicate drop_replicate)
  then show ?thesis
    using capture_cuts_frames[OF bridge_ok_new, of "concat (replicate 161 [1, 0]) @ [9]"]
    unfolding p le by (simp add: push_frames_def try_send_def captured_cap_def)
qed

lemma process_ok:
  "bridge_ok b \<Longrightarrow> \<exists>o' b'. process out inp b = Ok (o', b') \<and> bridge_ok b'"
  using bridge_input_run[of b inp] bridge_output_run[of _ out] by (fastforce simp: process_def)

text \<open>C26: a callback never panics and never fails, whatever sizes its two buffers have.\<close>

theorem process_total:
  assumes "bridge_ok b"
  shows "\<exists>b'. process out input b = Ok (played (length out) (take (length out div 2) (pending b)), b') \<and> bridge_ok b'"
proof -
  obtain b1 where b1: "bridge_input input b = Ok b1" "bridge_ok b1" "same_playback b b1"
    using bridge_input_run[OF assms, of input] by blast
  have "pending b1 = pending b" using b1(3) by (simp add: same_playback_def pending_def)
  then show ?thesis
    using bridge_output_run[OF b1(2), of out] b1(1) by (auto simp: process_def)
qed

theorem process_total_witness:
  "\<exists>b'. process [5, 5, 5] [1] newAudioBridge = Ok ([0, 0, 0], b') \<and> bridge_ok b'"
proof -
  have "pending newAudioBridge = []"
    by (simp add: pending_def newAudioBridge_def zero_frame_pcm_def frameSamples_def)
  then show ?thesis
    using process_total[OF bridge_ok_new, of "[5, 5, 5]" "[1]"] by (simp add: played_def eval_nat_numeral)
qed

end
