(* ===== verification/Network.thy ===== *)
theory Network
  imports AudioBridge
begin

text \<open>
  network.go of the talk command: the peer, the handshake and the receive worker.  A socket
  call is answered by the environment, so one round of a loop takes a \<open>turn\<close>, the answers of
  the context, the clock and the socket in that round, and returns the datagrams it sends.
  The last section puts two peers on a network that loses, duplicates and reorders
  datagrams and lets strangers send anything from other addresses.
\<close>

section \<open>Addresses\<close>

text \<open>\<open>net.UDPAddr\<close>; a nil pointer is \<open>None\<close>.\<close>

record udpAddr =
  IP :: "byte list"
  Port :: int
  Zone :: string

definition v4InV6Prefix :: "byte list" where
  "v4InV6Prefix = [0, 0, 0, 0, 0, 0, 0, 0, 0, 0, 255, 255]"

text \<open>\<open>net.IP.Equal\<close>: a 4-byte address and its 16-byte form are the same address.\<close>

definition IP_Equal :: "byte list \<Rightarrow> byte list \<Rightarrow> bool" where
  "IP_Equal ip x =
     (if length ip = length x then ip = x
      else if length ip = 4 \<and> length x = 16 then take 12 x = v4InV6Prefix \<and> ip = drop 12 x
      else if length ip = 16 \<and> length x = 4 then take 12 ip = v4InV6Prefix \<and> drop 12 ip = x
      else False)"

fun sameAddress :: "udpAddr option \<Rightarrow> udpAddr option \<Rightarrow> bool" where
  "sameAddress (Some a) (Some b) = (Port a = Port b \<and> Zone a = Zone b \<and> IP_Equal (IP a) (IP b))"
| "sameAddress _ _ = False"

section \<open>The environment\<close>

type_synonym error = string
type_synonym datagram = "byte list \<times> udpAddr option"  \<comment> \<open>payload and destination\<close>

datatype read_result = ReadTimeout | ReadError error | Received "byte list" udpAddr

text \<open>The answers of one round: \<open>ctx.Err()\<close>, the clock, \<open>SetReadDeadline\<close>, \<open>ReadFromUDP\<close>, and
  for the sends of the round \<open>SetWriteDeadline\<close> and \<open>WriteToUDP\<close>.\<close>

record turn =
  ctx_err :: "error option"
  check_time :: int
  read_deadline :: "error option"
  read_from :: read_result
  audio_time :: int
  first_send :: "error option \<times> error option"
  reply_send :: "error option \<times> error option"

section \<open>Peers\<close>

record peer =
  address :: "udpAddr option"
  session :: "64 word"

text \<open>\<open>peer.send\<close>: the datagram that leaves, if one does, and the error.\<close>

definition send :: "packet \<Rightarrow> error option \<times> error option \<Rightarrow> peer \<Rightarrow> (datagram list \<times> error option) res" where
  "send message io p =
     bnd (marshal (message\<lparr>psession := session p\<rparr>) (replicate (nat maxDatagram) 0)) (\<lambda>(data, n).
     case fst io of
       Some err \<Rightarrow> Ok ([], Some err)
     | None \<Rightarrow>
         bnd (sub data 0 n) (\<lambda>d.
         case snd io of
           Some err \<Rightarrow> Ok ([], Some err)
         | None \<Rightarrow> Ok ([(d, address p)], None)))"

section \<open>The handshake\<close>

datatype 'a outcome = Continue 'a | Done peer | Failed error

text \<open>The peer before the loop: a client draws its session from \<open>rand.Read\<close>.\<close>

definition handshake_start :: "(error + byte list) \<Rightarrow> udpAddr option \<Rightarrow> error + peer" where
  "handshake_start random remote =
     (case remote of
        None \<Rightarrow> Inr \<lparr>address = remote, session = 0\<rparr>
      | Some a \<Rightarrow>
          (case random of
             Inl err \<Rightarrow> Inl err
           | Inr bytes \<Rightarrow> Inr \<lparr>address = remote, session = or (get_uint64 bytes) 1\<rparr>))"

text \<open>What a round does with a datagram.\<close>

definition handshake_message ::
  "udpAddr option \<Rightarrow> turn \<Rightarrow> byte list \<Rightarrow> udpAddr \<Rightarrow> peer \<Rightarrow> (datagram list \<times> peer outcome) res" where
  "handshake_message remote t data from p =
     bnd (parsePacket data) (\<lambda>(message, ok).
     if \<not> ok then Ok ([], Continue p)
     else if remote = None \<and> pkind message = kindHello then
       let p = p\<lparr>address := Some from, session := psession message\<rparr> in
       bnd (send (zero_packet\<lparr>pkind := kindAccept\<rparr>) (reply_send t) p) (\<lambda>(out, err).
       case err of Some e \<Rightarrow> Ok (out, Failed e) | None \<Rightarrow> Ok (out, Done p))
     else if sameAddress (Some from) remote \<and> psession message = session p \<and> pkind message = kindAccept then
       Ok ([], Done p)
     else Ok ([], Continue p))"

definition handshake_round ::
  "udpAddr option \<Rightarrow> turn \<Rightarrow> peer \<Rightarrow> (datagram list \<times> peer outcome) res" where
  "handshake_round remote t p =
     (case ctx_err t of
        Some err \<Rightarrow> Ok ([], Failed err)
      | None \<Rightarrow>
          bnd (if remote \<noteq> None then send (zero_packet\<lparr>pkind := kindHello\<rparr>) (first_send t) p else Ok ([], None))
            (\<lambda>(out, err).
          case err of
            Some e \<Rightarrow> Ok (out, Failed e)
          | None \<Rightarrow>
              (case read_deadline t of
                 Some e \<Rightarrow> Ok (out, Failed e)
               | None \<Rightarrow>
                   (case read_from t of
                      ReadTimeout \<Rightarrow> Ok (out, Continue p)
                    | ReadError e \<Rightarrow> Ok (out, Failed e)
                    | Received data from \<Rightarrow>
                        bnd (handshake_message remote t data from p) (\<lambda>(reply, r). Ok (out @ reply, r))))))"

text \<open>\<open>handshake\<close> over the rounds given: \<open>Continue\<close> when it still waits after them.\<close>

fun handshake_loop :: "udpAddr option \<Rightarrow> turn list \<Rightarrow> peer \<Rightarrow> (datagram list \<times> peer outcome) res" where
  "handshake_loop remote [] p = Ok ([], Continue p)"
| "handshake_loop remote (t # ts) p =
     bnd (handshake_round remote t p) (\<lambda>(out, r).
     case r of
       Continue p \<Rightarrow> bnd (handshake_loop remote ts p) (\<lambda>(out', r). Ok (out @ out', r))
     | _ \<Rightarrow> Ok (out, r))"

definition handshake ::
  "(error + byte list) \<Rightarrow> udpAddr option \<Rightarrow> turn list \<Rightarrow> (datagram list \<times> peer outcome) res" where
  "handshake random remote ts =
     (case handshake_start random remote of
        Inl err \<Rightarrow> Ok ([], Failed err)
      | Inr p \<Rightarrow> handshake_loop remote ts p)"

section \<open>The receive worker\<close>

definition incoming_cap :: nat where "incoming_cap = 64"

definition errPeerLeft :: error where "errPeerLeft = ''peer disconnected''"
definition errPeerTimeout :: error where
  "errPeerTimeout = ''peer timed out: no audio received for 10 seconds''"

record receiver =
  lastAudio :: int           \<comment> \<open>nanoseconds\<close>
  incoming :: "packet list"

definition receive_message ::
  "peer \<Rightarrow> turn \<Rightarrow> byte list \<Rightarrow> udpAddr \<Rightarrow> receiver \<Rightarrow> (datagram list \<times> receiver \<times> error option) res" where
  "receive_message p t data from r =
     bnd (parsePacket data) (\<lambda>(message, ok).
     if \<not> ok \<or> \<not> sameAddress (Some from) (address p) \<or> psession message \<noteq> session p then Ok ([], r, None)
     else if pkind message = kindHello then
       bnd (send (zero_packet\<lparr>pkind := kindAccept\<rparr>) (reply_send t) p) (\<lambda>(out, err). Ok (out, r, err))
     else if pkind message = kindBye then Ok ([], r, Some errPeerLeft)
     else if pkind message = kindAudio then
       Ok ([], r\<lparr>lastAudio := audio_time t, incoming := try_send incoming_cap message (incoming r)\<rparr>, None)
     else Ok ([], r, None))"

text \<open>One round of \<open>receive\<close>; the worker ends with the error.\<close>

definition receive_round ::
  "peer \<Rightarrow> turn \<Rightarrow> receiver \<Rightarrow> (datagram list \<times> receiver \<times> error option) res" where
  "receive_round p t r =
     (case ctx_err t of
        Some err \<Rightarrow> Ok ([], r, Some err)
      | None \<Rightarrow>
          if 10000000000 < check_time t - lastAudio r then Ok ([], r, Some errPeerTimeout)
          else
            (case read_deadline t of
               Some e \<Rightarrow> Ok ([], r, Some e)
             | None \<Rightarrow>
                 (case read_from t of
                    ReadTimeout \<Rightarrow> Ok ([], r, None)
                  | ReadError e \<Rightarrow> Ok ([], r, Some e)
                  | Received data from \<Rightarrow> receive_message p t data from r)))"

text \<open>\<open>receive\<close> over the rounds given; no error when it still runs after them.\<close>

fun receive :: "peer \<Rightarrow> turn list \<Rightarrow> receiver \<Rightarrow> (datagram list \<times> receiver \<times> error option) res" where
  "receive p [] r = Ok ([], r, None)"
| "receive p (t # ts) r =
     bnd (receive_round p t r) (\<lambda>(out, r, err).
     case err of
       Some e \<Rightarrow> Ok (out, r, Some e)
     | None \<Rightarrow> bnd (receive p ts r) (\<lambda>(out', r, err). Ok (out @ out', r, err)))"

section \<open>Sending\<close>

text \<open>A send puts the wire form of the packet, with the peer's session, on the way to the peer's
  address, unless the socket refuses.\<close>

definition send_result :: "error option \<times> error option \<Rightarrow> datagram \<Rightarrow> datagram list \<times> error option" where
  "send_result io d =
     (case fst io of
        Some e \<Rightarrow> ([], Some e)
      | None \<Rightarrow> (case snd io of Some e \<Rightarrow> ([], Some e) | None \<Rightarrow> ([d], None)))"

lemma send_bytes:
  assumes "length (paudio m) = 38"
  shows "send m io p = Ok (send_result io (packet_bytes (m\<lparr>psession := session p\<rparr>), address p))"
proof -
  let ?m = "m\<lparr>psession := session p\<rparr>"
  have l: "length (paudio ?m) = 38" using assms by simp
  obtain d where d: "marshal ?m (replicate 58 0) = Ok (d, int (length (packet_bytes ?m)))" "length d = 58"
    "take (length (packet_bytes ?m)) d = packet_bytes ?m"
    using marshal_bytes[OF l, of "replicate 58 0"] by auto
  have "length (packet_bytes ?m) \<le> 58" using length_packet_bytes[OF l] by simp
  then have "sub d 0 (int (length (packet_bytes ?m))) = Ok (packet_bytes ?m)"
    using d(2,3) by (simp add: sub_def)
  then show ?thesis using d(1) by (simp add: send_def send_result_def protocol_constants split: option.splits)
qed

lemma send_result_sent: "x \<in> set (fst (send_result io d)) \<Longrightarrow> x = d"
  by (auto simp: send_result_def split: option.splits)

definition control :: "byte \<Rightarrow> peer \<Rightarrow> datagram" where
  "control k p = (packet_bytes (zero_packet\<lparr>pkind := k, psession := session p\<rparr>), address p)"

lemma send_control: "send (zero_packet\<lparr>pkind := k\<rparr>) io p = Ok (send_result io (control k p))"
  by (subst send_bytes) (simp_all add: zero_packet_def control_def)

section \<open>Receiving\<close>

lemma parse_total: "\<exists>m ok. parsePacket data = Ok (m, ok)"
  unfolding parsePacket_def protocol_constants by (auto simp: Let_def zero_packet_def)

lemma parse_res:
  obtains (bad) m where "parsePacket data = Ok (m, False)"
  | (good) m where "parsePacket data = Ok (m, True)" "wire_packet m" "data = packet_bytes m"
  using parse_total[of data] parse_bytes[of data] by (metis (full_types))

text \<open>Two wire forms with the same bytes are the same packet.\<close>

lemma packet_bytes_inject: "wire_packet m \<Longrightarrow> wire_packet m' \<Longrightarrow> packet_bytes m = packet_bytes m' \<Longrightarrow> m = m'"
  by (metis parse_packet_bytes Inr_inject prod.inject)

lemma handshake_message_total: "\<exists>out r. handshake_message remote t data from p = Ok (out, r)"
proof (cases rule: parse_res[of data])
  case (good m)
  then show ?thesis
    by (simp add: handshake_message_def send_control Let_def split: prod.splits option.splits)
qed (simp add: handshake_message_def)

lemma handshake_round_total: "\<exists>out r. handshake_round remote t p = Ok (out, r)"
proof -
  define m where "m rem data src = projr (handshake_message rem t data src p)" for rem data src
  have m: "handshake_message rem t data src p = Ok (m rem data src)" for rem data src
    using handshake_message_total[of rem t data src p] by (auto simp: m_def)
  show ?thesis
    by (simp add: handshake_round_def send_control m split: prod.splits option.splits read_result.splits)
qed

text \<open>What a round did, by what the peer ends as.\<close>

lemma send_result_cases:
  obtains (sent) "send_result io d = ([d], None)" | (refused) e where "send_result io d = ([], Some e)"
  by (cases "fst io"; cases "snd io") (auto simp: send_result_def)

lemma handshake_message_server:
  assumes "handshake_message None t data src p = Ok (out, r)"
  obtains (wait) "out = []" "r = Continue p" | (fail) e where "out = []" "r = Failed e"
  | (bound) m where "data = packet_bytes m" "wire_packet m"
      "pkind m = kindHello" "r = Done (p\<lparr>address := Some src, session := psession m\<rparr>)"
      "out = [control kindAccept (p\<lparr>address := Some src, session := psession m\<rparr>)]"
proof (cases rule: parse_res[of data])
  case (bad m)
  then show ?thesis using assms wait by (simp add: handshake_message_def)
next
  case (good m)
  show ?thesis
  proof (cases "pkind m = kindHello")
    case True
    let ?q = "p\<lparr>address := Some src, session := psession m\<rparr>"
    from assms good True show ?thesis
      by (cases rule: send_result_cases[of "reply_send t" "control kindAccept ?q"])
        (use wait fail bound in \<open>auto simp: handshake_message_def send_control Let_def\<close>)
  qed (use assms good wait in \<open>auto simp: handshake_message_def\<close>)
qed

lemma handshake_round_server:
  assumes "handshake_round None t p = Ok (out, r)"
  obtains (wait) "out = []" "r = Continue p" | (fail) e where "out = []" "r = Failed e"
  | (bound) data src m where "read_from t = Received data src" "data = packet_bytes m" "wire_packet m"
      "pkind m = kindHello" "r = Done (p\<lparr>address := Some src, session := psession m\<rparr>)"
      "out = [control kindAccept (p\<lparr>address := Some src, session := psession m\<rparr>)]"
proof (cases "\<exists>data src. read_from t = Received data src \<and> handshake_message None t data src p = Ok (out, r)")
  case True
  then obtain data src where d: "read_from t = Received data src" "handshake_message None t data src p = Ok (out, r)" by blast
  from d(2) show ?thesis by (cases rule: handshake_message_server) (use wait fail bound d(1) in blast)+
next
  case False
  then show ?thesis
    using assms wait fail
    by (auto simp: handshake_round_def bnd_eq_Ok split: option.splits read_result.splits)
qed

lemma handshake_message_client:
  assumes "handshake_message (Some a) t data src p = Ok (out, r)"
  shows "out = [] \<and> (r = Continue p \<or>
     r = Done p \<and> (\<exists>m. data = packet_bytes m \<and> wire_packet m \<and> sameAddress (Some src) (Some a) \<and>
       psession m = session p \<and> pkind m = kindAccept))"
proof (cases rule: parse_res[of data])
  case (good m)
  then show ?thesis using assms
    by (auto simp: handshake_message_def simp del: sameAddress.simps split: if_splits intro!: exI[of _ m])
qed (use assms in \<open>simp add: handshake_message_def\<close>)

lemma handshake_round_client:
  assumes "handshake_round (Some a) t p = Ok (out, r)"
  shows "set out \<subseteq> {control kindHello p} \<and> (r = Continue p \<or> (\<exists>e. r = Failed e) \<or>
     r = Done p \<and> (\<exists>src m. read_from t = Received (packet_bytes m) src \<and> wire_packet m \<and>
       sameAddress (Some src) (Some a) \<and> psession m = session p \<and> pkind m = kindAccept))"
proof (cases rule: send_result_cases[of "first_send t" "control kindHello p"])
  case sent
  then show ?thesis using assms
    by (auto simp: handshake_round_def send_control bnd_eq_Ok simp del: sameAddress.simps
        dest!: handshake_message_client split: option.splits read_result.splits)
next
  case (refused e)
  then show ?thesis using assms
    by (auto simp: handshake_round_def send_control split: option.splits)
qed

text \<open>What a round of the receive worker did.\<close>

lemma receive_message_total: "\<exists>out r' err. receive_message p t data src r = Ok (out, r', err)"
proof (cases rule: parse_res[of data])
  case (good m)
  then show ?thesis
    by (simp add: receive_message_def send_control split: prod.splits)
qed (simp add: receive_message_def)

lemma receive_round_total: "\<exists>out r' err. receive_round p t r = Ok (out, r', err)"
  using receive_message_total[of p t _ _ r]
  by (auto simp: receive_round_def split: option.splits read_result.splits)

definition from_peer :: "peer \<Rightarrow> turn \<Rightarrow> packet \<Rightarrow> bool" where
  "from_peer p t m \<longleftrightarrow> (\<exists>src. read_from t = Received (packet_bytes m) src \<and> wire_packet m \<and>
     sameAddress (Some src) (address p) \<and> psession m = session p)"

lemma receive_message_cases:
  assumes "receive_message p t data src r = Ok (out, r', err)"
  obtains (ignored) "out = []" "r' = r" "err = None"
  | (hello) m where "data = packet_bytes m" "wire_packet m" "sameAddress (Some src) (address p)"
      "psession m = session p" "pkind m = kindHello" "set out \<subseteq> {control kindAccept p}" "r' = r"
      "(out, err) = send_result (reply_send t) (control kindAccept p)"
  | (bye) m where "data = packet_bytes m" "wire_packet m" "sameAddress (Some src) (address p)"
      "psession m = session p" "pkind m = kindBye" "out = []" "r' = r" "err = Some errPeerLeft"
  | (audio) m where "data = packet_bytes m" "wire_packet m" "sameAddress (Some src) (address p)"
      "psession m = session p" "pkind m = kindAudio" "out = []" "err = None"
      "r' = r\<lparr>lastAudio := audio_time t, incoming := try_send incoming_cap m (incoming r)\<rparr>"
proof (cases rule: parse_res[of data])
  case (bad m)
  then show ?thesis using assms ignored by (simp add: receive_message_def)
next
  case (good m)
  show ?thesis
  proof (cases "sameAddress (Some src) (address p) \<and> psession m = session p")
    case True
    consider "pkind m = kindHello" | "pkind m = kindBye" | "pkind m = kindAudio"
      | "pkind m \<notin> {kindHello, kindBye, kindAudio}" by auto
    then show ?thesis
    proof cases
      case 1
      then show ?thesis
        using assms good True send_result_sent[of _ "reply_send t" "control kindAccept p"]
        by (intro hello[OF good(3,2)]) (auto simp: receive_message_def send_control split: prod.splits)
    next
      case 2
      then show ?thesis
        using assms good True by (intro bye[OF good(3,2)]) (auto simp: receive_message_def protocol_constants)
    next
      case 3
      then show ?thesis
        using assms good True by (intro audio[OF good(3,2)]) (auto simp: receive_message_def protocol_constants)
    next
      case 4
      then show ?thesis using assms good True by (intro ignored) (auto simp: receive_message_def)
    qed
  next
    case False
    then show ?thesis using assms good by (intro ignored) (auto simp: receive_message_def)
  qed
qed

text \<open>The errors the environment and the ten-second limit can end a round with.\<close>

definition turn_errors :: "turn \<Rightarrow> error option set" where
  "turn_errors t = {None, ctx_err t, read_deadline t, Some errPeerTimeout} \<union>
     (case read_from t of ReadError e \<Rightarrow> {Some e} | _ \<Rightarrow> {})"

lemma receive_round_cases:
  assumes "receive_round p t r = Ok (out, r', err)"
  obtains (ignored) "out = []" "r' = r" "err \<in> turn_errors t"
  | (hello) m where "from_peer p t m" "pkind m = kindHello" "set out \<subseteq> {control kindAccept p}" "r' = r"
      "(out, err) = send_result (reply_send t) (control kindAccept p)"
  | (bye) m where "from_peer p t m" "pkind m = kindBye" "out = []" "r' = r" "err = Some errPeerLeft"
  | (audio) m where "from_peer p t m" "pkind m = kindAudio" "out = []" "err = None"
      "r' = r\<lparr>lastAudio := audio_time t, incoming := try_send incoming_cap m (incoming r)\<rparr>"
proof (cases "\<exists>data src. read_from t = Received data src \<and> receive_message p t data src r = Ok (out, r', err)")
  case True
  then obtain data src where d: "read_from t = Received data src" "receive_message p t data src r = Ok (out, r', err)" by blast
  from d(2) show ?thesis
  proof (cases rule: receive_message_cases)
    case ignored
    then show ?thesis by (intro that(1)) (auto simp: turn_errors_def)
  next
    case hello': (hello m)
    then show ?thesis by (intro hello[of m]) (auto simp: d(1) from_peer_def)
  next
    case bye': (bye m)
    then show ?thesis by (intro bye[of m]) (auto simp: d(1) from_peer_def)
  next
    case audio': (audio m)
    then show ?thesis by (intro audio[of m]) (auto simp: d(1) from_peer_def)
  qed
next
  case False
  then show ?thesis
    using assms ignored
    by (auto simp: receive_round_def turn_errors_def split: option.splits read_result.splits if_splits)
qed

section \<open>Properties\<close>

text \<open>C27: the receive worker never panics on any bytes from anywhere, and it trusts only its peer:
  its queue grows at most by the parsed packet of an audio datagram that came from the peer's
  address under the call's session, and never beyond its capacity.  The clock of the
  ten-second limit is reset by such a datagram only, and the only datagram the worker
  answers is a Hello of the peer, with an Accept of the session.\<close>

theorem receive_trusts_peer:
  "\<exists>out r' err. receive_round p t r = Ok (out, r', err) \<and>
     (incoming r' = incoming r \<and> lastAudio r' = lastAudio r \<or>
      (\<exists>m. from_peer p t m \<and> pkind m = kindAudio \<and> lastAudio r' = audio_time t \<and>
         incoming r' = try_send incoming_cap m (incoming r))) \<and>
     (out \<noteq> [] \<longrightarrow> out = [control kindAccept p] \<and> (\<exists>m. from_peer p t m \<and> pkind m = kindHello)) \<and>
     (err \<notin> turn_errors t \<longrightarrow>
        (\<exists>m. from_peer p t m \<and> pkind m = kindBye \<and> err = Some errPeerLeft \<or>
             from_peer p t m \<and> pkind m = kindHello \<and> err \<in> {fst (reply_send t), snd (reply_send t)}))"
proof -
  obtain out r' err where r: "receive_round p t r = Ok (out, r', err)"
    using receive_round_total by blast
  from r show ?thesis
  proof (cases rule: receive_round_cases)
    case (hello m)
    from hello(5) have "out = [] \<or> out = [control kindAccept p]" "err \<in> {None, fst (reply_send t), snd (reply_send t)}"
      by (auto simp: send_result_def split: option.splits)
    moreover have "None \<in> turn_errors t" by (simp add: turn_errors_def)
    ultimately show ?thesis using r hello by auto
  qed (use r in \<open>auto simp: turn_errors_def\<close>)
qed

text \<open>A round in which nothing goes wrong with the socket.\<close>

definition quiet :: "turn \<Rightarrow> bool" where
  "quiet t \<longleftrightarrow> ctx_err t = None \<and> read_deadline t = None \<and> first_send t = (None, None) \<and>
     reply_send t = (None, None) \<and> (\<forall>e. read_from t \<noteq> ReadError e)"

lemma quiet_client_round:
  assumes "quiet t"
  shows "\<exists>r. handshake_round (Some a) t p = Ok ([control kindHello p], r) \<and> r \<in> {Continue p, Done p}"
proof -
  obtain out r where r: "handshake_round (Some a) t p = Ok (out, r)" using handshake_round_total by blast
  have "out = [control kindHello p] \<and> r \<in> {Continue p, Done p}"
    using r assms
    by (auto simp: quiet_def handshake_round_def send_control send_result_def bnd_eq_Ok simp del: sameAddress.simps
        dest!: handshake_message_client split: read_result.splits)
  then show ?thesis using r by blast
qed

definition accepts :: "udpAddr \<Rightarrow> peer \<Rightarrow> turn \<Rightarrow> bool" where
  "accepts a p t \<longleftrightarrow> (\<exists>src m. read_from t = Received (packet_bytes m) src \<and> wire_packet m \<and>
     sameAddress (Some src) (Some a) \<and> psession m = session p \<and> pkind m = kindAccept)"

lemma accept_round:
  assumes "quiet t" "accepts a p t"
  shows "handshake_round (Some a) t p = Ok ([control kindHello p], Done p)"
  using assms by (auto simp: quiet_def accepts_def handshake_round_def send_control send_result_def
      handshake_message_def parse_packet_bytes simp del: sameAddress.simps)

lemma handshake_loop_accept:
  assumes "\<forall>t \<in> set ts. quiet t" "quiet t" "accepts a p t"
  shows "\<exists>k \<le> length ts. handshake_loop (Some a) (ts @ [t]) p = Ok (replicate (Suc k) (control kindHello p), Done p)"
  using assms(1)
proof (induction ts)
  case Nil
  then show ?case using accept_round[OF assms(2,3)] by simp
next
  case (Cons u ts)
  obtain r where r: "handshake_round (Some a) u p = Ok ([control kindHello p], r)" "r \<in> {Continue p, Done p}"
    using quiet_client_round[of u a p] Cons.prems by auto
  obtain k where k: "k \<le> length ts" "handshake_loop (Some a) (ts @ [t]) p = Ok (replicate (Suc k) (control kindHello p), Done p)"
    using Cons by auto
  show ?case
  proof (cases "r = Done p")
    case True
    then show ?thesis using r(1) by (intro exI[of _ 0]) simp
  next
    case False
    then show ?thesis using r k by (intro exI[of _ "Suc k"]) simp
  qed
qed

text \<open>C28: the client's handshake completes: when the socket works and, after any number of rounds of
  silence, garbage or foreign datagrams, an Accept of the session arrives from the server,
  \<open>handshake\<close> returns the peer; until then it has sent one Hello per round and nothing else.\<close>

theorem handshake_completes:
  assumes "handshake_start random (Some a) = Inr p" "\<forall>t \<in> set ts. quiet t" "quiet t" "accepts a p t"
  shows "\<exists>k \<le> length ts. handshake random (Some a) (ts @ [t]) =
    Ok (replicate (Suc k) (control kindHello p), Done p)"
  using handshake_loop_accept[OF assms(2-4)] assms(1) by (simp add: handshake_def)

definition lan :: "byte \<Rightarrow> udpAddr" where
  "lan h = \<lparr>IP = [192, 168, 0, h], Port = 5000, Zone = []\<rparr>"

definition quiet_turn :: "read_result \<Rightarrow> turn" where
  "quiet_turn rr = \<lparr>ctx_err = None, check_time = 0, read_deadline = None, read_from = rr, audio_time = 0,
     first_send = (None, None), reply_send = (None, None)\<rparr>"

lemma quiet_quiet_turn: "quiet (quiet_turn rr) \<longleftrightarrow> (\<forall>e. rr \<noteq> ReadError e)"
  by (simp add: quiet_def quiet_turn_def)

definition lan_peer :: peer where "lan_peer = \<lparr>address = Some (lan 1), session = 3\<rparr>"

definition lan_accept :: packet where
  "lan_accept = zero_packet\<lparr>pkind := kindAccept, psession := 3\<rparr>"

lemma lan_start: "handshake_start (Inr [0, 0, 0, 0, 0, 0, 0, 2]) (Some (lan 1)) = Inr lan_peer"
  by (simp add: handshake_start_def lan_peer_def get_uint64_def be_value_def)

lemma wire_lan_accept: "wire_packet lan_accept"
  by (simp add: lan_accept_def wire_packet_def zero_packet_def protocol_constants)

theorem handshake_completes_witness:
  "\<exists>k \<le> Suc (Suc 0). handshake (Inr [0, 0, 0, 0, 0, 0, 0, 2]) (Some (lan 1))
     ([quiet_turn ReadTimeout, quiet_turn (Received [1, 2, 3] (lan 9))] @ [quiet_turn (Received (packet_bytes lan_accept) (lan 1))]) =
    Ok (replicate (Suc k) (control kindHello lan_peer), Done lan_peer)"
proof -
  have "accepts (lan 1) lan_peer (quiet_turn (Received (packet_bytes lan_accept) (lan 1)))"
    unfolding accepts_def
    using wire_lan_accept by (intro exI[of _ "lan 1"] exI[of _ lan_accept])
      (simp add: quiet_turn_def IP_Equal_def lan_accept_def lan_peer_def)
  then show ?thesis
    using handshake_completes[OF lan_start, of "[quiet_turn ReadTimeout, quiet_turn (Received [1, 2, 3] (lan 9))]"
        "quiet_turn (Received (packet_bytes lan_accept) (lan 1))"]
    by (simp add: quiet_quiet_turn)
qed

definition hears :: "peer \<Rightarrow> turn \<Rightarrow> bool" where
  "hears p t \<longleftrightarrow> (\<exists>m. from_peer p t m \<and> pkind m \<in> {kindAudio, kindBye})"

text \<open>Ten seconds have passed since the last audio when the round begins.\<close>

definition overdue :: "receiver \<Rightarrow> turn \<Rightarrow> bool" where
  "overdue r t \<longleftrightarrow> 10000000000 < check_time t - lastAudio r"

lemma receive_round_silent:
  assumes "quiet t" "\<not> hears p t"
  shows "\<exists>out. receive_round p t r = Ok (out, r, if overdue r t then Some errPeerTimeout else None)"
proof (cases "overdue r t \<or> read_from t = ReadTimeout")
  case True
  then show ?thesis using assms(1) by (auto simp: receive_round_def overdue_def quiet_def)
next
  case False
  then obtain data src where d: "read_from t = Received data src" "\<not> overdue r t"
    using assms(1) by (cases "read_from t") (auto simp: quiet_def)
  then have eq: "receive_round p t r = receive_message p t data src r"
    using assms(1) by (simp add: receive_round_def overdue_def quiet_def)
  obtain out r' err where m: "receive_message p t data src r = Ok (out, r', err)"
    using receive_round_total[of p t r] eq by auto
  have "\<not> (data = packet_bytes m \<and> wire_packet m \<and> sameAddress (Some src) (address p) \<and>
      psession m = session p \<and> pkind m \<in> {kindAudio, kindBye})" for m
    using assms(2) d(1) by (auto simp: hears_def from_peer_def)
  with m have "r' = r \<and> err = None"
    by (cases rule: receive_message_cases)
      (use assms(1) in \<open>auto simp: send_result_def quiet_def split: option.splits\<close>)
  then show ?thesis using m eq d(2) by simp
qed

text \<open>C29: a silent peer is given up: over any number of rounds in which the socket works and the peer
  sends neither audio nor a Bye, however many other datagrams keep arriving, the worker ends
  the call with the time-out error at the first round that begins more than ten seconds after
  the last audio, and it goes on as long as there is no such round.\<close>

theorem receive_gives_up:
  assumes "\<forall>t \<in> set ts. quiet t \<and> \<not> hears p t"
  shows "\<exists>out. receive p ts r = Ok (out, r, if \<exists>t \<in> set ts. overdue r t then Some errPeerTimeout else None)"
  using assms
proof (induction ts)
  case (Cons t ts)
  obtain out where t: "receive_round p t r = Ok (out, r, if overdue r t then Some errPeerTimeout else None)"
    using receive_round_silent[of t p r] Cons.prems by auto
  show ?case
  proof (cases "overdue r t")
    case False
    then show ?thesis using Cons t by auto
  qed (simp add: t)
qed simp

definition fresh_rx :: receiver where "fresh_rx = \<lparr>lastAudio = 0, incoming = []\<rparr>"

theorem receive_gives_up_witness:
  "\<exists>out. receive lan_peer [quiet_turn ReadTimeout, quiet_turn (Received [1, 2, 3] (lan 9)),
       (quiet_turn ReadTimeout)\<lparr>check_time := 10000000001\<rparr>, quiet_turn ReadTimeout] fresh_rx =
     Ok (out, fresh_rx, Some errPeerTimeout)"
proof -
  let ?late = "(quiet_turn ReadTimeout)\<lparr>check_time := 10000000001\<rparr>"
  let ?ts = "[quiet_turn ReadTimeout, quiet_turn (Received [1, 2, 3] (lan 9)), ?late, quiet_turn ReadTimeout]"
  have "\<not> from_peer lan_peer (quiet_turn (Received [1, 2, 3] (lan 9))) m" for m
    by (simp add: from_peer_def quiet_turn_def lan_peer_def lan_def IP_Equal_def)
  moreover have "\<not> from_peer lan_peer t m" if "read_from t = ReadTimeout" for t m
    using that by (simp add: from_peer_def)
  ultimately have "\<forall>t \<in> set ?ts. quiet t \<and> \<not> hears lan_peer t"
    by (auto simp: hears_def quiet_def) (auto simp: quiet_turn_def)
  moreover have "\<exists>t \<in> set ?ts. overdue fresh_rx t" by (simp add: overdue_def fresh_rx_def)
  ultimately show ?thesis using receive_gives_up[of ?ts lan_peer fresh_rx] by auto
qed

text \<open>A Bye of a stranger, even under the call's session, changes nothing.\<close>

theorem receive_trusts_peer_witness:
  "\<exists>out r' err. receive_round lan_peer (quiet_turn (Received (packet_bytes (zero_packet\<lparr>pkind := 4, psession := 3\<rparr>)) (lan 2))) fresh_rx =
       Ok (out, r', err) \<and> incoming r' = [] \<and> out = [] \<and> err \<in> {None, Some errPeerTimeout}"
proof -
  let ?t = "quiet_turn (Received (packet_bytes (zero_packet\<lparr>pkind := 4, psession := 3\<rparr>)) (lan 2))"
  have stranger: "\<not> from_peer lan_peer ?t m" for m
    by (simp add: from_peer_def quiet_turn_def lan_peer_def lan_def IP_Equal_def)
  have errors: "turn_errors ?t = {None, Some errPeerTimeout}" by (simp add: turn_errors_def quiet_turn_def)
  show ?thesis
    using receive_trusts_peer[of lan_peer ?t fresh_rx] unfolding errors by (auto simp: stranger fresh_rx_def)
qed

end
