(* ===== verification/Session.thy ===== *)
theory Session
  imports Network
begin

text \<open>
  Two peers of the talk command on one network: a client that calls the server's address and
  a server that waits.  Each peer takes rounds of its \<open>handshake\<close> and then of its receive
  worker, sends audio and goodbyes.  The network keeps every datagram that was ever sent, so
  it loses, delays, duplicates and reorders freely, and strangers add any datagrams from
  other addresses.  The result: when the client's handshake is through, the server is bound to
  this very client and session, and each side only queues packets the other one sent.
\<close>

section \<open>Addresses are compared by an equivalence\<close>

definition canonical_ip :: "byte list \<Rightarrow> byte list" where
  "canonical_ip ip = (if length ip = 4 then v4InV6Prefix @ ip else ip)"

lemma IP_Equal_canonical: "IP_Equal a b \<longleftrightarrow> canonical_ip a = canonical_ip b"
proof -
  have p: "length v4InV6Prefix = 12" by (simp add: v4InV6Prefix_def)
  have split: "take 12 x = v4InV6Prefix \<and> y = drop 12 x \<longleftrightarrow> v4InV6Prefix @ y = x" if "length x = 16" "length y = 4" for x y :: "byte list"
    using that p by (metis append_eq_conv_conj append_take_drop_id)
  show ?thesis
    using split[of a b] split[of b a] p
    by (auto simp: IP_Equal_def canonical_ip_def dest: arg_cong[of _ _ length])
qed

abbreviation same :: "udpAddr \<Rightarrow> udpAddr \<Rightarrow> bool" where
  "same a b \<equiv> sameAddress (Some a) (Some b)"

lemma same_refl: "same a a"
  and same_sym: "same a b \<Longrightarrow> same b a"
  and same_trans: "same a b \<Longrightarrow> same b c \<Longrightarrow> same a c"
  by (simp_all add: IP_Equal_canonical)

declare sameAddress.simps [simp del]

section \<open>The peers and the network\<close>

datatype phase = Waiting peer | Talking peer receiver | Stopped "peer option"

text \<open>One step of a peer: the datagrams it sends and the phase it is in afterwards.\<close>

inductive peer_step :: "udpAddr option \<Rightarrow> turn \<Rightarrow> phase \<Rightarrow> datagram list \<Rightarrow> phase \<Rightarrow> bool"
  for remote t where
  wait: "handshake_round remote t p = Ok (out, Continue p') \<Longrightarrow>
     peer_step remote t (Waiting p) out (Waiting p')"
| fail: "handshake_round remote t p = Ok (out, Failed e) \<Longrightarrow>
     peer_step remote t (Waiting p) out (Stopped None)"
| finish: "handshake_round remote t p = Ok (out, Done p') \<Longrightarrow>
     peer_step remote t (Waiting p) out (Talking p' \<lparr>lastAudio = now, incoming = []\<rparr>)"
| hear: "receive_round p t r = Ok (out, r', None) \<Longrightarrow>
     peer_step remote t (Talking p r) out (Talking p r')"
| left: "receive_round p t r = Ok (out, r', Some e) \<Longrightarrow>
     peer_step remote t (Talking p r) out (Stopped (Some p))"
| take: "incoming r = m # ms \<Longrightarrow>
     peer_step remote t (Talking p r) [] (Talking p (r\<lparr>incoming := ms\<rparr>))"
| say: "length a = 38 \<Longrightarrow>
     send (zero_packet\<lparr>pkind := kindAudio, pseq := q, paudio := a\<rparr>) io p = Ok (out, err) \<Longrightarrow>
     peer_step remote t (Talking p r) out (if err = None then Talking p r else Stopped (Some p))"
| hang_up: "peer_step remote t (Talking p r) [] (Stopped (Some p))"
| bye: "send (zero_packet\<lparr>pkind := kindBye\<rparr>) io p = Ok (out, err) \<Longrightarrow>
     peer_step remote t (Stopped (Some p)) out (Stopped (Some p))"

record world =
  caller :: phase
  callee :: phase
  net :: "(udpAddr \<times> datagram) set"

definition delivered :: "udpAddr \<Rightarrow> turn \<Rightarrow> world \<Rightarrow> bool" where
  "delivered me t w \<longleftrightarrow> (\<forall>data src. read_from t = Received data src \<longrightarrow>
     (\<exists>dst. (src, data, Some dst) \<in> net w \<and> same dst me))"

inductive world_step :: "udpAddr \<Rightarrow> udpAddr \<Rightarrow> world \<Rightarrow> world \<Rightarrow> bool" for ca sa where
  client: "peer_step (Some sa) t (caller w) out ph \<Longrightarrow> delivered ca t w \<Longrightarrow>
     world_step ca sa w (w\<lparr>caller := ph, net := net w \<union> Pair ca ` set out\<rparr>)"
| server: "peer_step None t (callee w) out ph \<Longrightarrow> delivered sa t w \<Longrightarrow>
     world_step ca sa w (w\<lparr>callee := ph, net := net w \<union> Pair sa ` set out\<rparr>)"
| stranger: "\<not> same src ca \<Longrightarrow> \<not> same src sa \<Longrightarrow>
     world_step ca sa w (w\<lparr>net := insert (src, d) (net w)\<rparr>)"

definition world_start :: "peer \<Rightarrow> world" where
  "world_start p = \<lparr>caller = Waiting p, callee = Waiting \<lparr>address = None, session = 0\<rparr>, net = {}\<rparr>"

inductive world_reach :: "udpAddr \<Rightarrow> udpAddr \<Rightarrow> peer \<Rightarrow> world \<Rightarrow> bool" for ca sa p where
  start: "world_reach ca sa p (world_start p)"
| step: "world_reach ca sa p w \<Longrightarrow> world_step ca sa w w' \<Longrightarrow> world_reach ca sa p w'"

section \<open>What a step sends\<close>

text \<open>A datagram of a peer: a wire form under its session, to its address.\<close>

definition own_datagram :: "peer \<Rightarrow> datagram \<Rightarrow> bool" where
  "own_datagram p d \<longleftrightarrow> snd d = address p \<and>
     (\<exists>m. fst d = packet_bytes m \<and> wire_packet m \<and> psession m = session p)"

lemma own_control: "session p \<noteq> 0 \<Longrightarrow> k \<in> {1, 2, 4} \<Longrightarrow> own_datagram p (control k p)"
  unfolding own_datagram_def control_def
  by (auto simp: wire_packet_def zero_packet_def protocol_constants
      intro!: exI[of _ "zero_packet\<lparr>pkind := k, psession := session p\<rparr>"])

definition own_all :: "peer \<Rightarrow> datagram list \<Rightarrow> bool" where
  "own_all p out \<longleftrightarrow> (\<forall>d \<in> set out. own_datagram p d)"

lemma own_send:
  assumes "send m io p = Ok (out, err)" "length (paudio m) = 38"
    and "wire_packet (m\<lparr>psession := session p\<rparr>)"
  shows "own_all p out"
proof -
  have "set out \<subseteq> {(packet_bytes (m\<lparr>psession := session p\<rparr>), address p)}"
    using assms(1,2) send_result_sent[of _ io "(packet_bytes (m\<lparr>psession := session p\<rparr>), address p)"]
    by (auto simp: send_bytes)
  moreover have "own_datagram p (packet_bytes (m\<lparr>psession := session p\<rparr>), address p)"
    using assms(3) by (auto simp: own_datagram_def intro!: exI[of _ "m\<lparr>psession := session p\<rparr>"])
  ultimately show ?thesis by (auto simp: own_all_def)
qed

text \<open>A packet is heard by \<open>p\<close> only if it arrived from its address under its session.\<close>

definition heard :: "peer \<Rightarrow> turn \<Rightarrow> receiver \<Rightarrow> receiver \<Rightarrow> bool" where
  "heard p t r r' \<longleftrightarrow> (\<forall>m \<in> set (incoming r') - set (incoming r). from_peer p t m \<and> pkind m = kindAudio)"

inductive_cases peer_step_talking: "peer_step remote t (Talking p r) out ph"
inductive_cases peer_step_waiting: "peer_step remote t (Waiting p) out ph"
inductive_cases peer_step_stopped: "peer_step remote t (Stopped q) out ph"

lemma talking_step:
  assumes "peer_step remote t (Talking p r) out ph" "session p \<noteq> 0"
  shows "own_all p out \<and> (ph = Stopped (Some p) \<or> (\<exists>r'. ph = Talking p r' \<and> heard p t r r'))"
proof -
  have rx: "own_all p out' \<and> heard p t r r'" if r: "receive_round p t r = Ok (out', r', err)" for out' r' err
    using r
  proof (cases rule: receive_round_cases)
    case (hello m)
    then show ?thesis using own_control[OF assms(2), of kindAccept]
      by (auto simp: own_all_def heard_def protocol_constants)
  next
    case (audio m)
    then show ?thesis by (auto simp: own_all_def heard_def try_send_def split: if_splits)
  qed (auto simp: own_all_def heard_def)
  have voice: "own_all p out'" if "length a = 38"
    "send (zero_packet\<lparr>pkind := kindAudio, pseq := q, paudio := a\<rparr>) io p = Ok (out', err)" for a q io out' err
    by (rule own_send[OF that(2)]) (use that(1) assms(2) in \<open>auto simp: wire_packet_def protocol_constants\<close>)
  have refl: "heard p t r r" by (simp add: heard_def)
  have none: "own_all p []" by (simp add: own_all_def)
  from assms(1) show ?thesis
    by (rule peer_step_talking) (use refl none in \<open>auto dest: rx voice simp: heard_def\<close>)
qed

lemma stopped_step:
  assumes "peer_step remote t (Stopped q) out ph"
  shows "\<exists>p. q = Some p \<and> ph = Stopped (Some p) \<and> (session p \<noteq> 0 \<longrightarrow> own_all p out)"
proof -
  obtain p io err where p: "q = Some p" "ph = Stopped (Some p)"
    "send (zero_packet\<lparr>pkind := kindBye\<rparr>) io p = Ok (out, err)"
    using peer_step_stopped[OF assms] by metis
  have "own_all p out" if "session p \<noteq> 0"
    by (rule own_send[OF p(3)]) (use that in \<open>auto simp: wire_packet_def zero_packet_def protocol_constants\<close>)
  then show ?thesis using p by auto
qed

lemma client_step:
  assumes "peer_step (Some sa) t (Waiting p) out ph" "session p \<noteq> 0" "address p = Some sa"
  shows "own_all p out \<and> (ph = Waiting p \<or> ph = Stopped None \<or>
    (\<exists>r. ph = Talking p r \<and> incoming r = []) \<and>
    (\<exists>src m. read_from t = Received (packet_bytes m) src \<and> wire_packet m \<and> same src sa \<and>
       psession m = session p \<and> pkind m = kindAccept))"
proof -
  have own: "own_all p out" if "handshake_round (Some sa) t p = Ok (out, oc)" for oc
    using handshake_round_client[OF that] own_control[OF assms(2), of kindHello]
    by (auto simp: own_all_def protocol_constants)
  from assms(1) show ?thesis
    by (rule peer_step_waiting) (use own in \<open>auto dest!: handshake_round_client\<close>)
qed

lemma server_step:
  assumes "peer_step None t (Waiting p) out ph"
  shows "out = [] \<and> (ph = Waiting p \<or> ph = Stopped None) \<or>
    (\<exists>src m r. read_from t = Received (packet_bytes m) src \<and> wire_packet m \<and> pkind m = kindHello \<and>
       ph = Talking (p\<lparr>address := Some src, session := psession m\<rparr>) r \<and> incoming r = [] \<and>
       own_all (p\<lparr>address := Some src, session := psession m\<rparr>) out)"
proof -
  from assms show ?thesis
  proof (rule peer_step_waiting)
    fix p' now assume r: "handshake_round None t p = Ok (out, Done p')" and ph: "ph = Talking p' \<lparr>lastAudio = now, incoming = []\<rparr>"
    from r show ?thesis
    proof (cases rule: handshake_round_server)
      case (bound data src m)
      then show ?thesis
        using ph own_control[of p' kindAccept]
        by (auto simp: own_all_def wire_packet_def protocol_constants intro!: exI[of _ src] exI[of _ m])
    qed simp_all
  qed (auto elim: handshake_round_server)
qed

section \<open>The invariant\<close>

definition sent_by :: "udpAddr \<Rightarrow> world \<Rightarrow> datagram set" where
  "sent_by a w = {d. \<exists>src. (src, d) \<in> net w \<and> same src a}"

fun bound :: "phase \<Rightarrow> peer option" where
  "bound (Waiting p) = None"
| "bound (Talking p r) = Some p"
| "bound (Stopped q) = q"

text \<open>The server is bound to the client at \<open>ca\<close> and to its session.\<close>

definition agreed :: "udpAddr \<Rightarrow> peer \<Rightarrow> phase \<Rightarrow> bool" where
  "agreed ca p0 S \<longleftrightarrow> (\<exists>q a. bound S = Some q \<and> address q = Some a \<and> same a ca \<and> session q = session p0)"

definition idle_peer :: peer where "idle_peer = \<lparr>address = None, session = 0\<rparr>"

definition caller_ok :: "peer \<Rightarrow> phase \<Rightarrow> bool" where
  "caller_ok p0 C \<longleftrightarrow> C \<in> {Waiting p0, Stopped None, Stopped (Some p0)} \<or> (\<exists>r. C = Talking p0 r)"

definition callee_ok :: "udpAddr \<Rightarrow> peer \<Rightarrow> phase \<Rightarrow> datagram set \<Rightarrow> bool" where
  "callee_ok ca p0 S Ss \<longleftrightarrow> (case bound S of
     None \<Rightarrow> Ss = {} \<and> S \<in> {Waiting idle_peer, Stopped None}
   | Some q \<Rightarrow> session q \<noteq> 0 \<and> (\<forall>d \<in> Ss. own_datagram q d) \<and>
       (\<exists>a. address q = Some a \<and> (same a ca \<longrightarrow> session q = session p0)))"

definition session_inv :: "udpAddr \<Rightarrow> peer \<Rightarrow> phase \<Rightarrow> phase \<Rightarrow> datagram set \<Rightarrow> datagram set \<Rightarrow> bool" where
  "session_inv ca p0 C S Sc Ss \<longleftrightarrow> caller_ok p0 C \<and> (\<forall>d \<in> Sc. own_datagram p0 d) \<and>
     callee_ok ca p0 S Ss \<and> (bound C \<noteq> None \<longrightarrow> agreed ca p0 S)"

definition world_inv :: "udpAddr \<Rightarrow> udpAddr \<Rightarrow> peer \<Rightarrow> world \<Rightarrow> bool" where
  "world_inv ca sa p0 w \<longleftrightarrow> session_inv ca p0 (caller w) (callee w) (sent_by ca w) (sent_by sa w)"

lemma delivered_sent:
  assumes "delivered me t w" "read_from t = Received data src" "same src a"
  shows "\<exists>dst. (data, Some dst) \<in> sent_by a w \<and> same dst me"
  using assms by (auto simp: delivered_def sent_by_def)

lemma own_message:
  assumes "own_datagram q (packet_bytes m, dst)" "wire_packet m"
  shows "address q = dst" "session q = psession m"
proof -
  obtain m' where m': "packet_bytes m = packet_bytes m'" "wire_packet m'" "psession m' = session q" "address q = dst"
    using assms(1) unfolding own_datagram_def fst_conv snd_conv by metis
  have "m = m'" by (rule packet_bytes_inject[OF assms(2) m'(2,1)])
  then show "address q = dst" "session q = psession m" using m' by simp_all
qed

lemma sent_by_client:
  "\<not> same ca sa \<Longrightarrow> sent_by ca (w\<lparr>caller := ph, net := net w \<union> Pair ca ` set out\<rparr>) = sent_by ca w \<union> set out"
  "\<not> same ca sa \<Longrightarrow> sent_by sa (w\<lparr>caller := ph, net := net w \<union> Pair ca ` set out\<rparr>) = sent_by sa w"
  using same_refl[of ca] by (auto simp: sent_by_def)

lemma sent_by_server:
  "\<not> same ca sa \<Longrightarrow> sent_by sa (w\<lparr>callee := ph, net := net w \<union> Pair sa ` set out\<rparr>) = sent_by sa w \<union> set out"
  "\<not> same ca sa \<Longrightarrow> sent_by ca (w\<lparr>callee := ph, net := net w \<union> Pair sa ` set out\<rparr>) = sent_by ca w"
  using same_refl[of sa] same_sym[of sa ca] by (auto simp: sent_by_def)

lemma sent_by_stranger: "\<not> same src a \<Longrightarrow> sent_by a (w\<lparr>net := insert (src, d) (net w)\<rparr>) = sent_by a w"
  by (auto simp: sent_by_def)

lemma client_inv:
  assumes inv: "session_inv ca p0 C S Sc Ss" and step: "peer_step (Some sa) t C out ph"
    and p0: "session p0 \<noteq> 0" "address p0 = Some sa"
    and del: "\<And>data src. read_from t = Received data src \<Longrightarrow> same src sa \<Longrightarrow> \<exists>dst. (data, Some dst) \<in> Ss \<and> same dst ca"
  shows "session_inv ca p0 ph S (Sc \<union> set out) Ss"
proof -
  have C: "caller_ok p0 C" "callee_ok ca p0 S Ss" "bound C \<noteq> None \<longrightarrow> agreed ca p0 S" "\<forall>d \<in> Sc. own_datagram p0 d"
    using inv by (auto simp: session_inv_def)
  have "own_all p0 out \<and> caller_ok p0 ph \<and> (bound ph \<noteq> None \<longrightarrow> agreed ca p0 S)"
  proof (cases C)
    case (Waiting p)
    then have p: "p = p0" using C(1) by (auto simp: caller_ok_def)
    have "agreed ca p0 S" if r: "read_from t = Received (packet_bytes m) src" "wire_packet m" "same src sa" "psession m = session p0" for src m
    proof -
      obtain dst where dst: "(packet_bytes m, Some dst) \<in> Ss" "same dst ca" using del[OF r(1,3)] by blast
      then obtain q where q: "bound S = Some q" "own_datagram q (packet_bytes m, Some dst)"
        using C(2) by (auto simp: callee_ok_def split: option.splits)
      show ?thesis using own_message[OF q(2) r(2)] q(1) dst(2) r(4) by (auto simp: agreed_def)
    qed
    then show ?thesis
      using client_step[OF step[unfolded Waiting p] p0] by (auto simp: caller_ok_def)
  next
    case (Talking p r)
    then have p: "p = p0" using C(1) by (auto simp: caller_ok_def)
    show ?thesis using talking_step[OF step[unfolded Talking p] p0(1)] C(3) Talking by (auto simp: caller_ok_def)
  next
    case (Stopped q)
    then show ?thesis using stopped_step[OF step[unfolded Stopped]] C(1,3) p0(1) by (auto simp: caller_ok_def)
  qed
  then show ?thesis using C by (auto simp: session_inv_def own_all_def)
qed

lemma server_inv:
  assumes inv: "session_inv ca p0 C S Sc Ss" and step: "peer_step None t S out ph"
    and del: "\<And>data src. read_from t = Received data src \<Longrightarrow> same src ca \<Longrightarrow> \<exists>dst. (data, Some dst) \<in> Sc \<and> same dst sa"
  shows "session_inv ca p0 C ph Sc (Ss \<union> set out)"
proof -
  have C: "caller_ok p0 C" "callee_ok ca p0 S Ss" "bound C \<noteq> None \<longrightarrow> agreed ca p0 S" "\<forall>d \<in> Sc. own_datagram p0 d"
    using inv by (auto simp: session_inv_def)
  have "callee_ok ca p0 ph (Ss \<union> set out) \<and> (bound S \<noteq> None \<longrightarrow> bound ph = bound S)"
  proof (cases S)
    case (Waiting p)
    then have p: "Ss = {}" "p = idle_peer" using C(2) by (auto simp: callee_ok_def)
    have "session p0 = psession m" if r: "read_from t = Received (packet_bytes m) src" "wire_packet m" "same src ca" for src m
      using del[OF r(1,3)] C(4) own_message[OF _ r(2)] by blast
    then show ?thesis
      using server_step[OF step[unfolded Waiting]] p Waiting
      by (auto simp: callee_ok_def own_all_def wire_packet_def)
  next
    case (Talking p r)
    then have p: "session p \<noteq> 0" using C(2) by (auto simp: callee_ok_def)
    show ?thesis using talking_step[OF step[unfolded Talking] p] C(2) Talking
      by (auto simp: callee_ok_def own_all_def)
  next
    case (Stopped q)
    then show ?thesis using stopped_step[OF step[unfolded Stopped]] C(2)
      by (auto simp: callee_ok_def own_all_def)
  qed
  moreover have "bound S \<noteq> None" if "bound C \<noteq> None" using C(3) that by (auto simp: agreed_def)
  ultimately show ?thesis using C by (auto simp: session_inv_def agreed_def)
qed

lemma world_reach_inv:
  assumes "world_reach ca sa p0 w" "\<not> same ca sa" "session p0 \<noteq> 0" "address p0 = Some sa"
  shows "world_inv ca sa p0 w"
  using assms(1)
proof induction
  case start
  then show ?case
    by (simp add: world_inv_def session_inv_def world_start_def caller_ok_def callee_ok_def sent_by_def idle_peer_def)
next
  case (step w w')
  from step.hyps(2) show ?case
  proof cases
    case (client t out ph)
    then show ?thesis
      using client_inv[OF step.IH[unfolded world_inv_def] client(2) assms(3,4)] delivered_sent[OF client(3)]
      by (simp add: world_inv_def sent_by_client[OF assms(2)])
  next
    case (server t out ph)
    then show ?thesis
      using server_inv[OF step.IH[unfolded world_inv_def] server(2), of sa] delivered_sent[OF server(3)]
      by (simp add: world_inv_def sent_by_server[OF assms(2)])
  next
    case (stranger src d)
    then show ?thesis using step.IH by (simp add: world_inv_def sent_by_stranger)
  qed
qed

section \<open>The queues\<close>

text \<open>What waits in the queue of the peer at \<open>me\<close> was sent by its peer to this address.\<close>

definition queue_ok :: "udpAddr \<Rightarrow> world \<Rightarrow> phase \<Rightarrow> bool" where
  "queue_ok me w ph \<longleftrightarrow> (\<forall>p r m. ph = Talking p r \<longrightarrow> m \<in> set (incoming r) \<longrightarrow>
     pkind m = kindAudio \<and> psession m = session p \<and> wire_packet m \<and>
     (\<exists>a dst. address p = Some a \<and> (packet_bytes m, Some dst) \<in> sent_by a w \<and> same dst me))"

lemma queue_okI:
  assumes "\<And>p r m. ph = Talking p r \<Longrightarrow> m \<in> set (incoming r) \<Longrightarrow>
     pkind m = kindAudio \<and> psession m = session p \<and> wire_packet m \<and>
     (\<exists>a dst. address p = Some a \<and> (packet_bytes m, Some dst) \<in> sent_by a w \<and> same dst me)"
  shows "queue_ok me w ph"
  using assms unfolding queue_ok_def by blast

lemma queue_mono: "queue_ok me w ph \<Longrightarrow> net w \<subseteq> net w' \<Longrightarrow> queue_ok me w' ph"
  unfolding queue_ok_def sent_by_def by blast

lemma from_peer_sent:
  assumes "from_peer p t m" "delivered me t w"
  shows "psession m = session p \<and> wire_packet m \<and>
     (\<exists>a dst. address p = Some a \<and> (packet_bytes m, Some dst) \<in> sent_by a w \<and> same dst me)"
proof -
  obtain src where src: "read_from t = Received (packet_bytes m) src" "wire_packet m"
    "sameAddress (Some src) (address p)" "psession m = session p"
    using assms(1) by (auto simp: from_peer_def)
  then obtain a where "address p = Some a" "same src a" by (cases "address p") (auto simp: sameAddress.simps)
  then show ?thesis using delivered_sent[OF assms(2) src(1)] src by blast
qed

lemma queue_step:
  assumes "peer_step remote t ph out ph'" "delivered me t w" "queue_ok me w ph"
  shows "queue_ok me w ph'"
  using assms(1)
proof cases
  case (finish p p' now)
  then show ?thesis by (simp add: queue_ok_def)
next
  case (hear p r r')
  have "incoming r' = incoming r \<or> (\<exists>m. from_peer p t m \<and> pkind m = kindAudio \<and>
      incoming r' = try_send incoming_cap m (incoming r))"
    using hear(3) by (rule receive_round_cases) auto
  moreover have "set (try_send incoming_cap m (incoming r)) \<subseteq> insert m (set (incoming r))" for m
    by (auto simp: try_send_def)
  ultimately have old: "m \<in> set (incoming r) \<or> from_peer p t m \<and> pkind m = kindAudio" if "m \<in> set (incoming r')" for m
    using that by (metis insertE subsetD)
  show ?thesis unfolding hear(2)
  proof (rule queue_okI)
    fix p2 r2 m assume "Talking p r' = Talking p2 r2" "m \<in> set (incoming r2)"
    then have e: "p2 = p" "m \<in> set (incoming r')" by auto
    show "pkind m = kindAudio \<and> psession m = session p2 \<and> wire_packet m \<and>
      (\<exists>a dst. address p2 = Some a \<and> (packet_bytes m, Some dst) \<in> sent_by a w \<and> same dst me)"
      using old[OF e(2)] from_peer_sent[OF _ assms(2), of p m] assms(3)[unfolded hear(1) queue_ok_def] e(1) by blast
  qed
next
  case (take r m ms p)
  then show ?thesis using assms(3) by (simp add: queue_ok_def)
next
  case (say a q io p err r)
  then show ?thesis using assms(3) by (simp add: queue_ok_def)
qed (simp_all add: queue_ok_def)

lemma world_reach_queues:
  assumes "world_reach ca sa p0 w"
  shows "queue_ok ca w (caller w) \<and> queue_ok sa w (callee w)"
  using assms
proof induction
  case start
  then show ?case by (simp add: world_start_def queue_ok_def)
next
  case (step w w')
  from step.hyps(2) show ?case
  proof cases
    case (client t out ph)
    have n: "net w \<subseteq> net w'" by (auto simp: client(1))
    show ?thesis
      using queue_mono[OF queue_step[OF client(2,3)] n] step.IH queue_mono[OF _ n] by (simp add: client(1))
  next
    case (server t out ph)
    have n: "net w \<subseteq> net w'" by (auto simp: server(1))
    show ?thesis
      using queue_mono[OF queue_step[OF server(2,3)] n] step.IH queue_mono[OF _ n] by (simp add: server(1))
  next
    case (stranger src d)
    have n: "net w \<subseteq> net w'" by (auto simp: stranger(1))
    show ?thesis using step.IH queue_mono[OF _ n] by (simp add: stranger(1))
  qed
qed

section \<open>A call\<close>

text \<open>The client at \<open>lan 2\<close> calls the server at \<open>lan 1\<close> and hears one packet.\<close>

definition lan_server :: peer where "lan_server = \<lparr>address = Some (lan 2), session = 3\<rparr>"

definition lan_audio :: packet where
  "lan_audio = \<lparr>pkind = kindAudio, psession = 3, pseq = 7, paudio = replicate 38 5\<rparr>"

lemma lan_same: "same (lan 1) (lan 1)" "same (lan 2) (lan 2)" "\<not> same (lan 2) (lan 1)"
  by (simp_all add: sameAddress.simps lan_def IP_Equal_def)

lemma wire_lan: "wire_packet (zero_packet\<lparr>pkind := 1, psession := 3\<rparr>)" "wire_packet (zero_packet\<lparr>pkind := 2, psession := 3\<rparr>)"
  "wire_packet lan_audio"
  by (simp_all add: wire_packet_def zero_packet_def lan_audio_def protocol_constants)

lemma lan_hello: "handshake_round (Some (lan 1)) (quiet_turn ReadTimeout) lan_peer =
    Ok ([control kindHello lan_peer], Continue lan_peer)"
  by (simp add: handshake_round_def quiet_turn_def send_control send_result_def)

lemma lan_bind: "handshake_round None (quiet_turn (Received (packet_bytes (zero_packet\<lparr>pkind := 1, psession := 3\<rparr>)) (lan 2))) idle_peer =
    Ok ([control kindAccept lan_server], Done lan_server)"
  by (simp add: handshake_round_def quiet_turn_def handshake_message_def parse_packet_bytes[OF wire_lan(1)]
      kindHello_def idle_peer_def send_control send_result_def lan_server_def Let_def)

lemma lan_join: "handshake_round (Some (lan 1)) (quiet_turn (Received (packet_bytes (zero_packet\<lparr>pkind := 2, psession := 3\<rparr>)) (lan 1))) lan_peer =
    Ok ([control kindHello lan_peer], Done lan_peer)"
proof (rule accept_round)
  show "accepts (lan 1) lan_peer (quiet_turn (Received (packet_bytes (zero_packet\<lparr>pkind := 2, psession := 3\<rparr>)) (lan 1)))"
    unfolding accepts_def
    by (rule exI[of _ "lan 1"], rule exI[of _ "zero_packet\<lparr>pkind := 2, psession := 3\<rparr>"])
      (simp add: quiet_turn_def lan_same lan_peer_def wire_lan kindAccept_def)
qed (simp only: quiet_quiet_turn, simp)

lemma lan_say: "send (zero_packet\<lparr>pkind := kindAudio, pseq := 7, paudio := replicate 38 5\<rparr>) (None, None) lan_server =
    Ok ([(packet_bytes lan_audio, Some (lan 2))], None)"
  by (subst send_bytes) (simp_all add: send_result_def lan_server_def lan_audio_def zero_packet_def)

lemma hear_round:
  assumes "ctx_err t = None" "read_deadline t = None" "check_time t - lastAudio r \<le> 10000000000"
    and "from_peer p t m" "pkind m = kindAudio"
  shows "receive_round p t r =
    Ok ([], r\<lparr>lastAudio := audio_time t, incoming := try_send incoming_cap m (incoming r)\<rparr>, None)"
  using assms by (auto simp: from_peer_def receive_round_def receive_message_def parse_packet_bytes protocol_constants)

lemma lan_hear: "receive_round lan_peer (quiet_turn (Received (packet_bytes lan_audio) (lan 1))) fresh_rx =
    Ok ([], \<lparr>lastAudio = 0, incoming = [lan_audio]\<rparr>, None)"
proof -
  let ?t = "quiet_turn (Received (packet_bytes lan_audio) (lan 1))"
  have "from_peer lan_peer ?t lan_audio"
    unfolding from_peer_def
    by (rule exI[of _ "lan 1"]) (simp add: quiet_turn_def wire_lan lan_same lan_peer_def, simp add: lan_audio_def)
  then have "receive_round lan_peer ?t fresh_rx = Ok ([], fresh_rx\<lparr>lastAudio := audio_time ?t,
      incoming := try_send incoming_cap lan_audio (incoming fresh_rx)\<rparr>, None)"
    by (intro hear_round) (simp_all add: quiet_turn_def fresh_rx_def lan_audio_def)
  then show ?thesis by (simp add: quiet_turn_def fresh_rx_def try_send_def incoming_cap_def)
qed

lemma client_next:
  "peer_step (Some sa) t ph out ph' \<Longrightarrow> caller w = ph \<Longrightarrow> delivered ca t w \<Longrightarrow>
     w' = w\<lparr>caller := ph', net := net w \<union> Pair ca ` set out\<rparr> \<Longrightarrow> world_step ca sa w w'"
  using world_step.client by blast

lemma server_next:
  "peer_step None t ph out ph' \<Longrightarrow> callee w = ph \<Longrightarrow> delivered sa t w \<Longrightarrow>
     w' = w\<lparr>callee := ph', net := net w \<union> Pair sa ` set out\<rparr> \<Longrightarrow> world_step ca sa w w'"
  using world_step.server by blast

lemma lan_call:
  "\<exists>w. world_reach (lan 2) (lan 1) lan_peer w \<and> caller w = Talking lan_peer \<lparr>lastAudio = 0, incoming = [lan_audio]\<rparr>"
proof -
  let ?hello = "(lan 2, packet_bytes (zero_packet\<lparr>pkind := 1, psession := 3\<rparr>), Some (lan 1))"
  let ?accept = "(lan 1, packet_bytes (zero_packet\<lparr>pkind := 2, psession := 3\<rparr>), Some (lan 2))"
  let ?audio = "(lan 1, packet_bytes lan_audio, Some (lan 2))"
  have ctl: "control kindHello lan_peer = snd ?hello" "control kindAccept lan_server = snd ?accept"
    by (simp_all add: control_def lan_peer_def lan_server_def kindHello_def kindAccept_def)
  define w1 where "w1 = \<lparr>caller = Waiting lan_peer, callee = Waiting idle_peer, net = {?hello}\<rparr>"
  define w2 where "w2 = \<lparr>caller = Waiting lan_peer, callee = Talking lan_server fresh_rx, net = {?hello, ?accept}\<rparr>"
  define w3 where "w3 = \<lparr>caller = Talking lan_peer fresh_rx, callee = Talking lan_server fresh_rx, net = {?hello, ?accept}\<rparr>"
  define w4 where "w4 = \<lparr>caller = Talking lan_peer fresh_rx, callee = Talking lan_server fresh_rx, net = {?hello, ?accept, ?audio}\<rparr>"
  define w5 where "w5 = \<lparr>caller = Talking lan_peer \<lparr>lastAudio = 0, incoming = [lan_audio]\<rparr>,
    callee = Talking lan_server fresh_rx, net = {?hello, ?accept, ?audio}\<rparr>"
  let ?step = "world_step (lan 2) (lan 1)"
  have "?step (world_start lan_peer) w1"
    by (rule client_next[OF peer_step.wait[OF lan_hello]])
      (simp_all add: world_start_def w1_def ctl delivered_def quiet_turn_def idle_peer_def)
  moreover have "?step w1 w2"
    by (rule server_next[OF peer_step.finish[OF lan_bind, of 0]])
      (auto simp: w1_def w2_def ctl delivered_def quiet_turn_def lan_same fresh_rx_def)
  moreover have "?step w2 w3"
    by (rule client_next[OF peer_step.finish[OF lan_join, of 0]])
      (auto simp: w2_def w3_def ctl delivered_def quiet_turn_def lan_same fresh_rx_def)
  moreover have "?step w3 w4"
    by (rule server_next[OF peer_step.say[OF _ lan_say, of "None" "quiet_turn ReadTimeout" fresh_rx]])
      (auto simp: w3_def w4_def delivered_def quiet_turn_def)
  moreover have "?step w4 w5"
    by (rule client_next[OF peer_step.hear[OF lan_hear]])
      (auto simp: w4_def w5_def delivered_def quiet_turn_def lan_same)
  ultimately have "world_reach (lan 2) (lan 1) lan_peer w5"
    by (meson world_reach.start world_reach.step)
  then show ?thesis by (auto simp: w5_def)
qed

section \<open>Properties\<close>

lemma start_session_odd: "handshake_start random (Some a) = Inr p \<Longrightarrow> session p \<noteq> 0 \<and> address p = Some a"
  by (auto simp: handshake_start_def or_eq_0_iff split: sum.splits)

text \<open>C30: agreement on the session: on a network that loses, duplicates, delays and reorders datagrams
  and carries anything strangers send from other addresses, a client whose handshake has
  returned knows that the server it called is bound to the client's own address and to the
  session the client drew, and to no one else.\<close>

theorem session_agreement:
  assumes "handshake_start random (Some sa) = Inr p0" "\<not> same ca sa"
    and "world_reach ca sa p0 w" "caller w = Talking p r"
  shows "p = p0 \<and> (\<exists>q a. bound (callee w) = Some q \<and> address q = Some a \<and> same a ca \<and> session q = session p0)"
proof -
  have "world_inv ca sa p0 w"
    using world_reach_inv[OF assms(3,2)] start_session_odd[OF assms(1)] by simp
  then show ?thesis using assms(4) by (auto simp: world_inv_def session_inv_def caller_ok_def agreed_def)
qed

theorem session_agreement_witness:
  "\<exists>w p r. world_reach (lan 2) (lan 1) lan_peer w \<and> caller w = Talking p r \<and> p = lan_peer \<and>
    (\<exists>q a. bound (callee w) = Some q \<and> address q = Some a \<and> same a (lan 2) \<and> session q = session lan_peer)"
proof -
  obtain w r where "world_reach (lan 2) (lan 1) lan_peer w" "caller w = Talking lan_peer r" using lan_call by blast
  with session_agreement[OF lan_start lan_same(3) this] show ?thesis by blast
qed

text \<open>C31: authenticity of the audio: every packet that waits in a peer's receive queue is an audio
  packet under that peer's session whose very bytes were sent from the address of its peer to
  the peer's own address.\<close>

theorem queued_audio_was_sent:
  assumes "world_reach ca sa p0 w" "caller w = Talking p r \<and> me = ca \<or> callee w = Talking p r \<and> me = sa"
    and "m \<in> set (incoming r)"
  shows "pkind m = kindAudio \<and> psession m = session p \<and> (\<exists>a src dst. address p = Some a \<and> same src a \<and>
     same dst me \<and> (src, (packet_bytes m, Some dst)) \<in> net w)"
  using world_reach_queues[OF assms(1)] assms(2,3) unfolding queue_ok_def sent_by_def by fast

theorem queued_audio_was_sent_witness:
  "\<exists>w. world_reach (lan 2) (lan 1) lan_peer w \<and> (\<exists>a src dst. address lan_peer = Some a \<and> same src a \<and>
     same dst (lan 2) \<and> (src, (packet_bytes lan_audio, Some dst)) \<in> net w)"
proof -
  obtain w where w: "world_reach (lan 2) (lan 1) lan_peer w"
    "caller w = Talking lan_peer \<lparr>lastAudio = 0, incoming = [lan_audio]\<rparr>" using lan_call by blast
  have m: "lan_audio \<in> set (incoming \<lparr>lastAudio = 0, incoming = [lan_audio]\<rparr>)" by simp
  show ?thesis using queued_audio_was_sent[OF w(1) _ m, of lan_peer "lan 2"] w by blast
qed

end
