(* ===== verification/Jitter.thy ===== *)
theory Jitter
  imports Protocol
begin

text \<open>
  protocol.go of the talk command, the reorder window \<open>jitterBuffer\<close>.  The concrete buffer keeps
  64 slots addressed by the sequence number modulo 64.  Its contract is an abstract window: the
  next sequence number and the packets that wait at each distance from it.  The locale
  \<open>reorder_buffer\<close> states the contract, and what the playout worker relies on is proved there.
\<close>

section \<open>The buffer\<close>

record jitterBuffer =
  jslots :: "packet list"
  jvalid :: "bool list"
  jnext :: "32 word"
  jstarted :: bool
  jwait :: int

definition zero_jitter :: jitterBuffer where
  "zero_jitter = \<lparr>jslots = replicate 64 zero_packet, jvalid = replicate 64 False, jnext = 0,
     jstarted = False, jwait = 0\<rparr>"

definition jinsert :: "packet \<Rightarrow> jitterBuffer \<Rightarrow> jitterBuffer res" where
  "jinsert p j =
     (let j = (if \<not> jstarted j then j\<lparr>jnext := pseq p, jstarted := True, jwait := 3\<rparr> else j);
          delta = sint (pseq p - jnext j) in
      if delta < 0 then Ok j
      else
        let j = (if 64 \<le> delta
                 then j\<lparr>jvalid := map (\<lambda>_. False) (jvalid j), jnext := pseq p, jwait := 3\<rparr> else j);
            i = uint (pseq p) mod 64 in
        bnd (idx (jvalid j) i) (\<lambda>v.
        if \<not> v then
          bnd (upd (jslots j) i p) (\<lambda>s.
          bnd (upd (jvalid j) i True) (\<lambda>vs.
          Ok (j\<lparr>jslots := s, jvalid := vs\<rparr>)))
        else Ok j))"

text \<open>The result is the packet, \<open>received\<close> and \<open>active\<close>.\<close>

definition jtake :: "jitterBuffer \<Rightarrow> ((packet \<times> bool \<times> bool) \<times> jitterBuffer) res" where
  "jtake j =
     (if \<not> jstarted j then Ok ((zero_packet, False, False), j)
      else if 0 < jwait j then Ok ((zero_packet, False, False), j\<lparr>jwait := jwait j - 1\<rparr>)
      else
        let i = uint (jnext j) mod 64 in
        bnd (idx (jslots j) i) (\<lambda>p.
        bnd (idx (jvalid j) i) (\<lambda>v.
        let received = v \<and> pseq p = jnext j in
        bnd (upd (jvalid j) i False) (\<lambda>vs.
        Ok ((p, received, True), j\<lparr>jvalid := vs, jnext := jnext j + 1\<rparr>)))))"

section \<open>The abstract window\<close>

record window =
  wnext :: "32 word"
  wwait :: int
  wpending :: "int \<Rightarrow> packet option"      \<comment> \<open>by distance from \<open>wnext\<close>\<close>

definition winsert :: "packet \<Rightarrow> window option \<Rightarrow> window" where
  "winsert p ow =
     (case ow of
        None \<Rightarrow> \<lparr>wnext = pseq p, wwait = 3, wpending = (\<lambda>d. if d = 0 then Some p else None)\<rparr>
      | Some w \<Rightarrow>
          let delta = sint (pseq p - wnext w) in
          if delta < 0 then w
          else if 64 \<le> delta then
            \<lparr>wnext = pseq p, wwait = 3, wpending = (\<lambda>d. if d = 0 then Some p else None)\<rparr>
          else w\<lparr>wpending := (wpending w)(delta :=
                  (case wpending w delta of None \<Rightarrow> Some p | Some q \<Rightarrow> Some q))\<rparr>)"

text \<open>The result of \<open>wtake\<close> is the packet that is due, if it has arrived; \<open>None\<close> when nothing is
  due yet.\<close>

definition wtake :: "window \<Rightarrow> packet option option \<times> window" where
  "wtake w =
     (if 0 < wwait w then (None, w\<lparr>wwait := wwait w - 1\<rparr>)
      else (Some (wpending w 0),
            w\<lparr>wnext := wnext w + 1, wpending := (\<lambda>d. if 0 \<le> d then wpending w (d + 1) else None)\<rparr>))"

definition jinv :: "jitterBuffer \<Rightarrow> bool" where
  "jinv j \<longleftrightarrow> length (jslots j) = 64 \<and> length (jvalid j) = 64 \<and> 0 \<le> jwait j \<and> jwait j \<le> 3 \<and>
     (\<not> jstarted j \<longrightarrow> (\<forall>i < 64. \<not> jvalid j ! i)) \<and>
     (\<forall>i < 64. jvalid j ! i \<longrightarrow>
        uint (pseq (jslots j ! i)) mod 64 = int i \<and>
        0 \<le> sint (pseq (jslots j ! i) - jnext j) \<and> sint (pseq (jslots j ! i) - jnext j) < 64)"

definition jslot :: "jitterBuffer \<Rightarrow> int \<Rightarrow> nat" where
  "jslot j d = nat ((uint (jnext j) + d) mod 64)"

definition jwindow :: "jitterBuffer \<Rightarrow> window option" where
  "jwindow j =
     (if jstarted j then
        Some \<lparr>wnext = jnext j, wwait = jwait j,
              wpending = (\<lambda>d. if 0 \<le> d \<and> d < 64 \<and> jvalid j ! jslot j d
                              then Some (jslots j ! jslot j d) else None)\<rparr>
      else None)"

section \<open>Sequence arithmetic\<close>

lemma uint_mod_64: "uint (x + word_of_int d :: 32 word) mod 64 = (uint x + d) mod 64"
proof -
  have "uint (x + word_of_int d :: 32 word) = (uint x + d) mod 2 ^ 32"
    by (simp add: uint_word_ariths uint_word_of_int mod_add_right_eq)
  moreover have "(uint x + d) mod 2 ^ 32 mod 64 = (uint x + d) mod 64"
    by (rule mod_mod_cancel) simp
  ultimately show ?thesis by simp
qed

lemma seq_diff: "sint (a - b) = d \<Longrightarrow> a = b + word_of_int d" for a b :: "32 word"
  by (drule sym) simp

lemma sint_small: "0 \<le> d \<Longrightarrow> d < 64 \<Longrightarrow> sint (word_of_int d :: 32 word) = d"
  by (simp add: sint_sbintrunc' signed_take_bit_int_eq_self)

lemma jslot_less [simp]: "jslot j d < 64"
  by (simp add: jslot_def nat_less_iff)

lemma jslot_inj: "0 \<le> d \<Longrightarrow> d < 64 \<Longrightarrow> 0 \<le> e \<Longrightarrow> e < 64 \<Longrightarrow> jslot j d = jslot j e \<longleftrightarrow> d = e"
proof -
  assume b: "0 \<le> d" "d < 64" "0 \<le> e" "e < 64"
  have "(u + d) mod 64 = (u + e) mod 64 \<longleftrightarrow> d = e" for u :: int
  proof -
    have "(u + d) mod 64 = (u + e) mod 64 \<longleftrightarrow> 64 dvd (d - e)" by (simp add: mod_eq_dvd_iff)
    also have "\<dots> \<longleftrightarrow> d = e"
    proof
      assume "64 dvd (d - e)"
      then show "d = e" using b dvd_imp_le_int[of "d - e" 64] by linarith
    qed simp
    finally show ?thesis .
  qed
  then show ?thesis by (simp add: jslot_def eq_nat_nat_iff)
qed

lemma jslot_seq: "sint (s - jnext j) = d \<Longrightarrow> nat (uint s mod 64) = jslot j d"
  using uint_mod_64[of "jnext j" d] seq_diff[of s "jnext j" d] by (simp add: jslot_def)

section \<open>The buffer implements the window\<close>

lemma jinvD:
  assumes "jinv j"
  shows "length (jslots j) = 64" "length (jvalid j) = 64" "0 \<le> jwait j" "jwait j \<le> 3"
    "i < 64 \<Longrightarrow> jvalid j ! i \<Longrightarrow> uint (pseq (jslots j ! i)) mod 64 = int i"
    "i < 64 \<Longrightarrow> jvalid j ! i \<Longrightarrow> 0 \<le> sint (pseq (jslots j ! i) - jnext j)"
    "i < 64 \<Longrightarrow> jvalid j ! i \<Longrightarrow> sint (pseq (jslots j ! i) - jnext j) < 64"
  using assms by (auto simp: jinv_def)

lemma jinv_zero: "jinv zero_jitter" "jwindow zero_jitter = None"
  by (simp_all add: jinv_def zero_jitter_def jwindow_def)

text \<open>A window that holds one packet, as after a start or a jump ahead.\<close>

lemma single_window:
  fixes p :: packet
  assumes "length s = 64"
  defines "j \<equiv> \<lparr>jslots = s[nat (uint (pseq p) mod 64) := p],
     jvalid = (replicate 64 False)[nat (uint (pseq p) mod 64) := True],
     jnext = pseq p, jstarted = True, jwait = 3\<rparr>"
  shows "jinv j" "jwindow j = Some \<lparr>wnext = pseq p, wwait = 3, wpending = (\<lambda>d. if d = 0 then Some p else None)\<rparr>"
proof -
  have k: "nat (uint (pseq p) mod 64) < 64" by (simp add: nat_less_iff)
  show "jinv j"
    using assms(1) k by (auto simp: jinv_def j_def nth_list_update)
  have "nat (uint (pseq p) mod 64) = jslot j d \<longleftrightarrow> d = 0" if "0 \<le> d" "d < 64" for d
    using jslot_inj[of 0 d j] that by (auto simp: jslot_def j_def)
  then show "jwindow j = Some \<lparr>wnext = pseq p, wwait = 3, wpending = (\<lambda>d. if d = 0 then Some p else None)\<rparr>"
    using assms(1) k jslot_less[of j] by (auto simp: jwindow_def j_def nth_list_update fun_eq_iff)
qed

lemma jinsert_fresh:
  assumes "length (jslots j) = 64" "jvalid j = replicate 64 False" "jnext j = pseq p" "jstarted j" "jwait j = 3"
  shows "\<exists>j'. jinsert p j = Ok j' \<and> jinv j' \<and>
    jwindow j' = Some \<lparr>wnext = pseq p, wwait = 3, wpending = (\<lambda>d. if d = 0 then Some p else None)\<rparr>"
  using assms single_window[OF assms(1), of p]
  by (cases j) (simp add: jinsert_def nat_less_iff Let_def)

lemma jinsert_window:
  assumes inv: "jinv j"
  shows "\<exists>j'. jinsert p j = Ok j' \<and> jinv j' \<and> jwindow j' = Some (winsert p (jwindow j))"
proof (cases "jstarted j")
  case False
  have "jvalid j = replicate 64 False"
    using inv False by (auto simp: jinv_def intro: nth_equalityI)
  then show ?thesis
    using jinsert_fresh[of "j\<lparr>jnext := pseq p, jstarted := True, jwait := 3\<rparr>" p] False jinvD(1)[OF inv]
    by (simp add: jinsert_def winsert_def jwindow_def)
next
  case True
  define d where "d = sint (pseq p - jnext j)"
  consider "d < 0" | "64 \<le> d" | "0 \<le> d" "d < 64" by linarith
  then show ?thesis
  proof cases
    case 1
    then show ?thesis
      using True inv by (auto simp: jinsert_def winsert_def jwindow_def d_def)
  next
    case 2
    have "map (\<lambda>_. False) (jvalid j) = replicate 64 False"
      using jinvD(2)[OF inv] by (simp add: map_replicate_const)
    then show ?thesis
      using jinsert_fresh[of "j\<lparr>jvalid := replicate 64 False, jnext := pseq p, jwait := 3\<rparr>" p]
        True jinvD(1)[OF inv] 2
      by (simp add: jinsert_def winsert_def jwindow_def d_def)
  next
    case 3
    define k where "k = jslot j d"
    have k: "nat (uint (pseq p) mod 64) = k" "k < 64"
      using jslot_seq[of "pseq p" j d] by (auto simp: d_def k_def)
    have k': "uint (pseq p) mod 64 = int k" using k by simp
    show ?thesis
    proof (cases "jvalid j ! k")
      case True': True
      have "jinsert p j = Ok j"
        using True 3 k k' jinvD(1,2)[OF inv] True' by (simp add: jinsert_def d_def[symmetric])
      moreover have "winsert p (jwindow j) = the (jwindow j)"
        using True 3 True' by (auto simp: winsert_def jwindow_def d_def[symmetric] k_def[symmetric] fun_eq_iff)
      ultimately show ?thesis using inv True by (auto simp: jwindow_def)
    next
      case False
      define j' where "j' = j\<lparr>jslots := (jslots j)[k := p], jvalid := (jvalid j)[k := True]\<rparr>"
      have "jinsert p j = Ok j'"
        using True 3 k k' jinvD(1,2)[OF inv] False by (simp add: jinsert_def d_def[symmetric] j'_def)
      moreover have "jinv j'"
        using inv 3 k k' True by (auto simp: jinv_def j'_def nth_list_update d_def)
      moreover have "jwindow j' = Some (winsert p (jwindow j))"
      proof -
        have s: "jslot (j\<lparr>jslots := a, jvalid := b\<rparr>) e = jslot j e" for a b e
          by (simp add: jslot_def)
        have e: "k = jslot j e \<longleftrightarrow> e = d" if "0 \<le> e" "e < 64" for e
          using jslot_inj[of d e j] 3 that by (auto simp: k_def)
        show ?thesis
          using True 3 k(2) False jinvD(1,2)[OF inv] e jslot_less[of j]
          by (auto simp: winsert_def jwindow_def d_def[symmetric] s j'_def fun_eq_iff nth_list_update
              k_def[symmetric])
      qed
      ultimately show ?thesis by blast
    qed
  qed
qed

definition take_agrees :: "packet option option \<Rightarrow> packet \<times> bool \<times> bool \<Rightarrow> bool" where
  "take_agrees r = (\<lambda>(p, received, active).
     case r of None \<Rightarrow> \<not> received \<and> \<not> active
     | Some None \<Rightarrow> \<not> received \<and> active
     | Some (Some q) \<Rightarrow> received \<and> active \<and> p = q)"

lemma sint_pred:
  fixes a b :: "32 word"
  assumes "0 < sint (a - b)" "sint (a - b) < 64"
  shows "sint (a - (b + 1)) = sint (a - b) - 1"
proof -
  have "a = b + word_of_int (sint (a - b))" by (rule seq_diff) simp
  then have "a - (b + 1) = word_of_int (sint (a - b) - 1)" by simp
  then show ?thesis using assms by (simp only: sint_small)
qed

lemma jslot_next: "jslot (j\<lparr>jvalid := v, jnext := jnext j + 1\<rparr>) d = jslot j (d + 1)"
proof -
  have a: "uint (jnext j + 1) mod 64 = (uint (jnext j) + 1) mod 64"
    using uint_mod_64[of "jnext j" 1] by simp
  have "(uint (jnext j + 1) + d) mod 64 = (uint (jnext j + 1) mod 64 + d) mod 64"
    by (simp only: mod_add_left_eq)
  also have "\<dots> = (uint (jnext j) + (d + 1)) mod 64"
    unfolding a mod_add_left_eq by (simp only: add.assoc add.commute[of 1 d])
  finally show ?thesis by (simp add: jslot_def)
qed

lemma jtake_window:
  assumes inv: "jinv j"
  shows "\<exists>r j'. jtake j = Ok (r, j') \<and> jinv j' \<and>
    (case jwindow j of
       None \<Rightarrow> take_agrees None r \<and> jwindow j' = None
     | Some w \<Rightarrow> take_agrees (fst (wtake w)) r \<and> jwindow j' = Some (snd (wtake w)))"
proof (cases "jstarted j \<and> jwait j = 0")
  case False
  have "jslot (j\<lparr>jwait := x\<rparr>) d = jslot j d" for x d by (simp add: jslot_def)
  moreover have "jinv (j\<lparr>jwait := jwait j - 1\<rparr>)" if "0 < jwait j"
    using inv that unfolding jinv_def by simp
  moreover have "0 < jwait j" if "jstarted j" using False that jinvD(3)[OF inv] by simp
  ultimately show ?thesis
    using inv by (cases "jstarted j") (simp_all add: jtake_def jwindow_def wtake_def take_agrees_def cong: if_cong)
next
  case True
  define k where "k = jslot j 0"
  have k: "uint (jnext j) mod 64 = int k" "k < 64"
    by (auto simp: k_def jslot_def nat_less_iff)
  define j' where "j' = j\<lparr>jvalid := (jvalid j)[k := False], jnext := jnext j + 1\<rparr>"
  note l = jinvD(1,2)[OF inv]
  have at: "jslot j (sint (pseq (jslots j ! i) - jnext j)) = i" if "i < 64" "jvalid j ! i" for i
    using jslot_seq[of "pseq (jslots j ! i)" j] jinvD(5)[OF inv that] by simp
  have due: "pseq (jslots j ! k) = jnext j" if "jvalid j ! k"
  proof -
    have "sint (pseq (jslots j ! k) - jnext j) = 0"
      using at[OF k(2) that] jinvD(6,7)[OF inv k(2) that] jslot_inj[of _ 0 j] by (simp add: k_def)
    then show ?thesis using seq_diff by fastforce
  qed
  have "jtake j = Ok ((jslots j ! k, jvalid j ! k \<and> pseq (jslots j ! k) = jnext j, True), j')"
    using True k l by (simp add: jtake_def j'_def Let_def)
  moreover have "jinv j'"
  proof -
    have "uint (pseq (jslots j ! i)) mod 64 = int i \<and>
        0 \<le> sint (pseq (jslots j ! i) - (jnext j + 1)) \<and> sint (pseq (jslots j ! i) - (jnext j + 1)) < 64"
      if i: "i < 64" "jvalid j ! i" "i \<noteq> k" for i
    proof -
      have "sint (pseq (jslots j ! i) - jnext j) \<noteq> 0"
        using at[OF i(1,2)] i(3) by (auto simp: k_def)
      then have "0 < sint (pseq (jslots j ! i) - jnext j)" using jinvD(6)[OF inv i(1,2)] by simp
      then show ?thesis
        using sint_pred jinvD(5,7)[OF inv i(1,2)] by simp
    qed
    then show ?thesis
      using inv True k(2) by (auto simp: jinv_def j'_def nth_list_update split: if_splits)
  qed
  moreover have "jwindow j' = Some (snd (wtake (the (jwindow j))))"
  proof -
    have e: "k = jslot j (d + 1) \<longleftrightarrow> d = 63" if "0 \<le> d" "d < 64" for d
    proof (cases "d = 63")
      case True
      then show ?thesis by (simp add: k_def jslot_def)
    next
      case False
      then show ?thesis using jslot_inj[of 0 "d + 1" j] that by (auto simp: k_def)
    qed
    have "(if 0 \<le> d \<and> d < 64 \<and> (jvalid j)[k := False] ! jslot j (d + 1)
           then Some (jslots j ! jslot j (d + 1)) else None) =
        (if 0 \<le> d then if d + 1 < 64 \<and> jvalid j ! jslot j (d + 1)
                         then Some (jslots j ! jslot j (d + 1)) else None else None)" for d
      using e[of d] k(2) l by (cases "0 \<le> d \<and> d < 64"; cases "d = 63") (auto simp: nth_list_update)
    then show ?thesis
      using True by (simp add: jwindow_def wtake_def j'_def jslot_next cong: if_cong)
  qed
  moreover have "take_agrees (fst (wtake (the (jwindow j))))
      (jslots j ! k, jvalid j ! k \<and> pseq (jslots j ! k) = jnext j, True)"
    using True due by (auto simp: jwindow_def wtake_def take_agrees_def k_def[symmetric])
  ultimately show ?thesis
    using True by (auto simp: jwindow_def)
qed

section \<open>What the playout worker relies on\<close>

definition window_ok :: "window \<Rightarrow> bool" where
  "window_ok w \<longleftrightarrow> 0 \<le> wwait w \<and>
     (\<forall>d q. wpending w d = Some q \<longrightarrow> 0 \<le> d \<and> pseq q = wnext w + word_of_int d)"

lemma jwindow_ok:
  assumes "jinv j" "jwindow j = Some w"
  shows "window_ok w"
proof -
  have "pseq (jslots j ! jslot j d) = jnext j + word_of_int d"
    if "0 \<le> d" "d < 64" "jvalid j ! jslot j d" for d
  proof -
    let ?e = "sint (pseq (jslots j ! jslot j d) - jnext j)"
    have "jslot j ?e = jslot j d"
      using jslot_seq[of "pseq (jslots j ! jslot j d)" j] jinvD(5)[OF assms(1) _ that(3)] by simp
    then have "?e = d"
      using jslot_inj[of ?e d j] jinvD(6,7)[OF assms(1) _ that(3)] that by simp
    then show ?thesis using seq_diff by blast
  qed
  then show ?thesis
    using assms jinvD(3)[OF assms(1)] by (auto simp: window_ok_def jwindow_def split: if_splits)
qed

text \<open>
  The playout loop: packets arrive and ticks fall in any order; each active tick plays the
  packet that is due or conceals it.
\<close>

datatype jevent = Arrive packet | Tick

fun play :: "(packet \<Rightarrow> 'b \<Rightarrow> 'b res) \<Rightarrow> ('b \<Rightarrow> ((packet \<times> bool \<times> bool) \<times> 'b) res) \<Rightarrow>
    jevent list \<Rightarrow> 'b \<Rightarrow> (packet option list \<times> 'b) res" where
  "play ins tak [] b = Ok ([], b)"
| "play ins tak (Arrive p # es) b = bnd (ins p b) (play ins tak es)"
| "play ins tak (Tick # es) b =
     bnd (tak b) (\<lambda>((p, received, active), b).
     bnd (play ins tak es b) (\<lambda>(outs, b).
     Ok (if active then (if received then Some p else None) # outs else outs, b)))"

definition arrivals :: "jevent list \<Rightarrow> packet set" where
  "arrivals es = {p. Arrive p \<in> set es}"

definition pending_packets :: "window option \<Rightarrow> packet set" where
  "pending_packets ow = (case ow of None \<Rightarrow> {} | Some w \<Rightarrow> {q. \<exists>d. wpending w d = Some q})"

text \<open>The packets that are played, without the concealments, and the distance of a packet from the
  sequence number \<open>s\<close>, on over the wrap-around of the 32-bit numbers.\<close>

definition played_packets :: "packet option list \<Rightarrow> packet list" where
  "played_packets outs = List.map_filter (\<lambda>r. r) outs"

lemma played_packets_simps [simp]:
  "played_packets [] = []" "played_packets (None # outs) = played_packets outs"
  "played_packets (Some q # outs) = q # played_packets outs"
  by (simp_all add: played_packets_def List.map_filter_simps)

definition seq_distance :: "32 word \<Rightarrow> packet \<Rightarrow> int" where
  "seq_distance s q = uint (pseq q - s)"

text \<open>Strictly rising distances from \<open>lo\<close> on.\<close>

fun rising :: "32 word \<Rightarrow> int \<Rightarrow> packet list \<Rightarrow> bool" where
  "rising s lo [] = True"
| "rising s lo (q # qs) = (lo \<le> seq_distance s q \<and> rising s (seq_distance s q + 1) qs)"

lemma rising_mono: "rising s hi qs \<Longrightarrow> lo \<le> hi \<Longrightarrow> rising s lo qs"
  by (cases qs) auto



text \<open>Within half of the number space the signed difference is the difference of the distances.\<close>

lemma seq_distance_of: "pseq q = s + word_of_int e \<Longrightarrow> 0 \<le> e \<Longrightarrow> e < 2 ^ 31 \<Longrightarrow> seq_distance s q = e"
  by (simp add: seq_distance_def uint_word_of_int)

lemma seq_signed_difference:
  assumes "0 \<le> e" "e < 2 ^ 31" "seq_distance s p < 2 ^ 31"
  shows "sint (pseq p - (s + word_of_int e)) = seq_distance s p - e"
proof -
  have d: "0 \<le> seq_distance s p" by (simp add: seq_distance_def)
  have "pseq p = s + word_of_int (seq_distance s p)" by (simp add: seq_distance_def)
  then have p: "pseq p - (s + word_of_int e) = word_of_int (seq_distance s p - e)" by (metis add_diff_cancel_left wi_hom_sub)
  have k: "sint (word_of_int k :: 32 word) = k" if "- (2 ^ 31) \<le> k" "k < 2 ^ 31" for k
    using that by (simp add: sint_sbintrunc' signed_take_bit_int_eq_self)
  show ?thesis unfolding p by (rule k) (use assms d in simp_all)
qed

definition next_distance :: "32 word \<Rightarrow> packet \<Rightarrow> window option \<Rightarrow> int \<Rightarrow> int" where
  "next_distance s p ow e =
     (if ow = None \<or> 64 \<le> seq_distance s p - e then seq_distance s p else e)"

lemma winsert_next:
  assumes nx: "\<forall>w. ow = Some w \<longrightarrow> wnext w = s + word_of_int e"
    and "0 \<le> e" "e < 2 ^ 31" "seq_distance s p < 2 ^ 31"
  shows "wnext (winsert p ow) = s + word_of_int (next_distance s p ow e)"
proof (cases ow)
  case None
  then show ?thesis by (simp add: winsert_def next_distance_def seq_distance_def)
next
  case (Some w)
  have "sint (pseq p - wnext w) = seq_distance s p - e"
    using seq_signed_difference[OF assms(2-4)] nx Some by simp
  then show ?thesis using nx Some
    by (simp add: winsert_def next_distance_def Let_def) (simp add: seq_distance_def)
qed

locale reorder_buffer =
  fixes ins :: "packet \<Rightarrow> 'b \<Rightarrow> 'b res"
    and tak :: "'b \<Rightarrow> ((packet \<times> bool \<times> bool) \<times> 'b) res"
    and inv :: "'b \<Rightarrow> bool"
    and win :: "'b \<Rightarrow> window option"
  assumes ins: "inv b \<Longrightarrow> \<exists>b'. ins p b = Ok b' \<and> inv b' \<and> win b' = Some (winsert p (win b))"
    and tak: "inv b \<Longrightarrow> \<exists>r b'. tak b = Ok (r, b') \<and> inv b' \<and>
      (case win b of None \<Rightarrow> take_agrees None r \<and> win b' = None
       | Some w \<Rightarrow> take_agrees (fst (wtake w)) r \<and> win b' = Some (snd (wtake w)))"
    and win_ok: "inv b \<Longrightarrow> win b = Some w \<Longrightarrow> window_ok w"
begin

lemma play_in_order:
  assumes "inv b" "\<forall>p \<in> arrivals es. seq_distance s p + int (length es) < 2 ^ 31"
    and "\<forall>w. win b = Some w \<longrightarrow> wnext w = s + word_of_int e" "0 \<le> e" "e + int (length es) < 2 ^ 31"
  shows "\<exists>outs b'. play ins tak es b = Ok (outs, b') \<and> inv b' \<and>
     rising s (if win b = None then 0 else e) (played_packets outs) \<and>
     set (played_packets outs) \<subseteq> arrivals es \<union> pending_packets (win b)"
  using assms
proof (induction es arbitrary: b e)
  case (Cons ev es)
  have later: "\<forall>p \<in> arrivals es. seq_distance s p + int (length es) < 2 ^ 31"
    using Cons.prems(2) by (auto simp: arrivals_def)
  show ?case
  proof (cases ev)
    case (Arrive p)
    obtain b1 where b1: "ins p b = Ok b1" "inv b1" "win b1 = Some (winsert p (win b))"
      using ins[OF Cons.prems(1)] by blast
    have dp: "0 \<le> seq_distance s p" "seq_distance s p + int (length (ev # es)) < 2 ^ 31"
      using Cons.prems(2) Arrive by (auto simp: arrivals_def seq_distance_def)
    let ?e1 = "next_distance s p (win b) e"
    have e: "e < 2 ^ 31" "seq_distance s p < 2 ^ 31" using Cons.prems(5) dp(2) by simp_all
    have nx: "\<forall>w. win b1 = Some w \<longrightarrow> wnext w = s + word_of_int ?e1"
      using winsert_next[OF Cons.prems(3,4) e] b1(3) by simp
    have e1: "0 \<le> ?e1" "?e1 + int (length es) < 2 ^ 31" "(if win b = None then 0 else e) \<le> ?e1"
      using Cons.prems(4,5) dp by (auto simp: next_distance_def)
    obtain outs b' where IH: "play ins tak es b1 = Ok (outs, b')" "inv b'" "rising s ?e1 (played_packets outs)"
        "set (played_packets outs) \<subseteq> arrivals es \<union> pending_packets (win b1)"
      using Cons.IH[OF b1(2) later nx e1(1,2)] b1(3) by auto
    have "arrivals es \<union> pending_packets (win b1) \<subseteq> arrivals (ev # es) \<union> pending_packets (win b)"
      using Arrive unfolding b1(3)
      by (auto simp: arrivals_def pending_packets_def winsert_def Let_def split: option.splits if_splits)
    then show ?thesis using b1(1) IH Arrive rising_mono[OF IH(3) e1(3)] by auto
  next
    case Tick
    obtain r b1 where b1: "tak b = Ok (r, b1)" "inv b1"
      "case win b of None \<Rightarrow> take_agrees None r \<and> win b1 = None
       | Some w \<Rightarrow> take_agrees (fst (wtake w)) r \<and> win b1 = Some (snd (wtake w))"
      using tak[OF Cons.prems(1)] by blast
    obtain p received active where r: "r = (p, received, active)" by (cases r) auto
    have arr: "arrivals (ev # es) = arrivals es" using Tick by (auto simp: arrivals_def)
    show ?thesis
    proof (cases "\<exists>w. win b = Some w \<and> \<not> 0 < wwait w")
      case False
      then have w: "\<not> active" "\<forall>w. win b1 = Some w \<longrightarrow> wnext w = s + word_of_int e"
          "win b1 = None \<longleftrightarrow> win b = None" "pending_packets (win b1) = pending_packets (win b)"
        using b1(3) r Cons.prems(3)
        by (auto simp: take_agrees_def wtake_def pending_packets_def split: option.splits)
      have "e + int (length es) < 2 ^ 31" using Cons.prems(5) by simp
      from Cons.IH[OF b1(2) later w(2) Cons.prems(4) this]
      show ?thesis using b1(1) r w Tick arr by auto
    next
      case True
      then obtain w where w: "win b = Some w" "\<not> 0 < wwait w" by blast
      have w1: "win b1 = Some (snd (wtake w))" "wnext (snd (wtake w)) = wnext w + 1" "take_agrees (Some (wpending w 0)) r"
        using b1(3) w by (auto simp: wtake_def)
      have e1: "\<forall>w. win b1 = Some w \<longrightarrow> wnext w = s + word_of_int (e + 1)" "0 \<le> e + 1" "e + 1 + int (length es) < 2 ^ 31"
        using w1 w(1) Cons.prems(3-5) by (simp_all add: add.assoc)
      obtain outs b' where IH: "play ins tak es b1 = Ok (outs, b')" "inv b'" "rising s (e + 1) (played_packets outs)"
          "set (played_packets outs) \<subseteq> arrivals es \<union> pending_packets (win b1)"
        using Cons.IH[OF b1(2) later e1] w1(1) by auto
      have sub: "pending_packets (win b1) \<subseteq> pending_packets (win b)"
        using w w1(1) by (auto simp: pending_packets_def wtake_def split: if_splits)
      have a: "active" using w1(3) r by (auto simp: take_agrees_def split: option.splits)
      have q: "q \<in> pending_packets (win b) \<and> seq_distance s q = e" if "(if received then Some p else None) = Some q" for q
        using that w1(3) r w win_ok[OF Cons.prems(1) w(1)] Cons.prems(3-5) seq_distance_of[of q s e]
        by (auto simp: take_agrees_def window_ok_def pending_packets_def split: option.splits if_splits)
      show ?thesis
      proof (cases received)
        case True
        then show ?thesis using b1(1) r a Tick arr IH q[of p] sub w(1) by auto
      next
        case False
        then show ?thesis using b1(1) r a Tick arr IH sub w(1) rising_mono[OF IH(3), of e] by auto
      qed
    qed
  qed
qed simp

lemma play_ticks:
  "inv b \<Longrightarrow> win b = Some w \<Longrightarrow> wwait w = int k \<Longrightarrow>
     \<exists>b'. play ins tak (replicate (k + n) Tick) b = Ok (map (\<lambda>d. wpending w (int d)) [0..<n], b') \<and> inv b'"
proof (induction "k + n" arbitrary: b w k n)
  case 0
  then show ?case by auto
next
  case (Suc m)
  obtain r b1 where b1: "tak b = Ok (r, b1)" "inv b1" "take_agrees (fst (wtake w)) r"
      "win b1 = Some (snd (wtake w))"
    using tak[OF Suc.prems(1)] Suc.prems(2) by auto
  obtain p received active where r: "r = (p, received, active)" by (cases r) auto
  have rep: "replicate (k + n) Tick = Tick # replicate m Tick" using Suc(2) by (metis replicate_Suc)
  show ?case
  proof (cases k)
    case (Suc k')
    have "\<exists>b'. play ins tak (replicate (k' + n) Tick) b1 =
        Ok (map (\<lambda>d. wpending (snd (wtake w)) (int d)) [0..<n], b') \<and> inv b'"
      by (rule Suc.hyps(1)[OF _ b1(2,4)]) (use Suc Suc.hyps(2) Suc.prems(3) in \<open>auto simp: wtake_def\<close>)
    moreover have "m = k' + n" using Suc Suc.hyps(2) by simp
    ultimately show ?thesis
      unfolding rep using b1(1,3) r Suc Suc.prems(3) by (auto simp: take_agrees_def wtake_def)
  next
    case 0
    then obtain n' where n: "n = Suc n'" "m = n'" using Suc.hyps(2) by auto
    have w0: "\<not> 0 < wwait w" using 0 Suc.prems(3) by simp
    have "\<exists>b'. play ins tak (replicate (0 + n') Tick) b1 =
        Ok (map (\<lambda>d. wpending (snd (wtake w)) (int d)) [0..<n'], b') \<and> inv b'"
      by (rule Suc.hyps(1)[OF _ b1(2,4)]) (use n 0 Suc.prems(3) in \<open>auto simp: wtake_def\<close>)
    moreover have "map (\<lambda>d. wpending w (int d)) [0..<n] =
        wpending w 0 # map (\<lambda>d. wpending (snd (wtake w)) (int d)) [0..<n']"
      using w0 by (simp add: n(1) map_upt_Suc wtake_def add.commute del: upt_Suc)
    ultimately show ?thesis
      unfolding rep using b1(1,3) r n(2) w0
      by (auto simp: take_agrees_def wtake_def split: option.splits)
  qed
qed

end

interpretation jitter: reorder_buffer jinsert jtake jinv jwindow
  using jinsert_window jtake_window jwindow_ok by unfold_locales auto

section \<open>Properties\<close>

text \<open>C16: The reorder buffer with its 64 slots implements the abstract window: an insertion
  drops late packets and duplicates, keeps what fits within 64 of the next sequence number, and
  starts over at a packet that is further ahead; neither operation panics and both keep the
  invariant of the slots.\<close>
theorem jinsert_refines:
  assumes "jinv j"
  shows "\<exists>j'. jinsert p j = Ok j' \<and> jinv j' \<and> jwindow j' = Some (winsert p (jwindow j))"
  by (rule jitter.ins[OF assms])

theorem jinsert_refines_witness:
  "jinv zero_jitter \<and> (\<exists>j'. jinsert sample_packet zero_jitter = Ok j' \<and> jinv j' \<and>
     jwindow j' = Some (winsert sample_packet (jwindow zero_jitter)))"
  using jinsert_refines[OF jinv_zero(1)] jinv_zero(1) by blast




text \<open>C18: What has arrived within the window is played: when only ticks follow, the tick at
  distance \<open>d\<close> plays the packet that waits there, or conceals it when there is none, after the
  initial delay.\<close>
theorem jitter_delivers:
  assumes "jinv j" and "jwindow j = Some w" and "wwait w = int k"
  shows "\<exists>j'. play jinsert jtake (replicate (k + n) Tick) j =
    Ok (map (\<lambda>d. wpending w (int d)) [0..<n], j') \<and> jinv j'"
  by (rule jitter.play_ticks[OF assms])

theorem jitter_delivers_witness:
  "\<exists>j j'. jinsert sample_packet zero_jitter = Ok j \<and>
     play jinsert jtake (replicate (3 + 2) Tick) j = Ok ([Some sample_packet, None], j')"
proof -
  obtain j where j: "jinsert sample_packet zero_jitter = Ok j" "jinv j"
      "jwindow j = Some (winsert sample_packet None)"
    using jitter.ins[OF jinv_zero(1), of sample_packet] jinv_zero(2) by auto
  show ?thesis
    using jitter_delivers[OF j(2,3), of 3 2] j(1) by (auto simp: winsert_def eval_nat_numeral)
qed

end
