(* ===== verification/Call.thy ===== *)
theory Call
  imports EncoderStream Jitter AudioBridge Network
begin

text \<open>
  call.go of the talk command: a call is three workers over shared channels.  The receive worker
  reads datagrams, the encode worker turns captured frames into audio packets, the playout
  worker decodes what the reorder buffer hands out at every tick; the audio callback runs
  beside them.  One iteration of a worker is a function on the state of the call, and a run is
  a sequence of such events in any order, so every interleaving is covered.
\<close>

section \<open>The state of a call\<close>

datatype call_error = Codec api_error | Other error

text \<open>The locals of the workers, the channels \<open>incoming\<close> (in the receiver) and \<open>failures\<close>, and
  which workers have not returned yet.\<close>

record call =
  bridge :: audioBridge
  receiver_of :: receiver
  encoder :: encoderState
  decoder :: decoderState
  jitter :: jitterBuffer
  failures :: "call_error list"
  receiving :: bool
  encoding :: bool
  playing_out :: bool

text \<open>The error results of the two constructors are ignored; \<open>Mode20\<close> makes them nil.\<close>

definition the_instance :: "(api_error + 'a) res \<Rightarrow> 'a res" where
  "the_instance r = bnd r (\<lambda>x. case x of Inl _ \<Rightarrow> Panic (ExplicitPanic ''nil pointer dereference'') | Inr i \<Rightarrow> Ok i)"

definition call_start :: "int \<Rightarrow> audioBridge \<Rightarrow> call res" where
  "call_start now b =
     bnd (the_instance (NewEncoder 20)) (\<lambda>e.
     bnd (the_instance (NewDecoder 20 True)) (\<lambda>d.
     Ok \<lparr>bridge = b, receiver_of = \<lparr>lastAudio = now, incoming = []\<rparr>, encoder = e, decoder = d,
         jitter = zero_jitter, failures = [], receiving = True, encoding = True, playing_out = True\<rparr>))"

section \<open>One iteration of each worker\<close>

text \<open>A worker that returns sends its result to \<open>failures\<close>.\<close>

definition returned :: "(call \<Rightarrow> call) \<Rightarrow> call_error option \<Rightarrow> call \<Rightarrow> call" where
  "returned stop err c = (case err of None \<Rightarrow> c | Some e \<Rightarrow> stop (c\<lparr>failures := failures c @ [e]\<rparr>))"

definition stop_receiving :: "call \<Rightarrow> call" where "stop_receiving c = c\<lparr>receiving := False\<rparr>"
definition stop_encoding :: "call \<Rightarrow> call" where "stop_encoding c = c\<lparr>encoding := False\<rparr>"
definition stop_playing :: "call \<Rightarrow> call" where "stop_playing c = c\<lparr>playing_out := False\<rparr>"

definition receive_worker :: "peer \<Rightarrow> turn \<Rightarrow> call \<Rightarrow> (datagram list \<times> call) res" where
  "receive_worker p t c =
     bnd (receive_round p t (receiver_of c)) (\<lambda>(out, r, err).
     Ok (out, returned stop_receiving (map_option Other err) (c\<lparr>receiver_of := r\<rparr>)))"

text \<open>The case \<open>frame := <-bridge.captured\<close>; with an empty channel the worker waits.\<close>

definition encode_frame :: "platform \<Rightarrow> peer \<Rightarrow> error option \<times> error option \<Rightarrow> pcmFrame \<Rightarrow> call \<Rightarrow> (datagram list \<times> call) res" where
  "encode_frame P p io frame c =
     (let message = zero_packet\<lparr>pkind := kindAudio, pseq := fseq frame\<rparr> in
      bnd (Encode P (encoder c) (paudio message) (samples frame)) (\<lambda>(err, audio, e).
      let c = c\<lparr>encoder := e\<rparr>; message = message\<lparr>paudio := audio\<rparr> in
      case err of
        Some er \<Rightarrow> Ok ([], returned stop_encoding (Some (Codec er)) c)
      | None \<Rightarrow>
          bnd (send message io p) (\<lambda>(out, err). Ok (out, returned stop_encoding (map_option Other err) c))))"

definition encode_worker :: "platform \<Rightarrow> peer \<Rightarrow> error option \<times> error option \<Rightarrow> call \<Rightarrow> (datagram list \<times> call) res" where
  "encode_worker P p io c =
     (case try_recv (captured (bridge c)) of
        (None, _) \<Rightarrow> Ok ([], c)
      | (Some frame, q) \<Rightarrow> encode_frame P p io frame (c\<lparr>bridge := (bridge c)\<lparr>captured := q\<rparr>\<rparr>))"

text \<open>The case \<open>message := <-incoming\<close>.\<close>

definition arrival :: "call \<Rightarrow> call res" where
  "arrival c =
     (case try_recv (incoming (receiver_of c)) of
        (None, _) \<Rightarrow> Ok c
      | (Some message, q) \<Rightarrow>
          bnd (jinsert message (jitter c)) (\<lambda>j.
          Ok (c\<lparr>receiver_of := (receiver_of c)\<lparr>incoming := q\<rparr>, jitter := j\<rparr>)))"

text \<open>The samples of a tick; the errors of the decoder are ignored.\<close>

definition tick_frame ::
  "platform \<Rightarrow> packet \<times> bool \<times> bool \<Rightarrow> decoderState \<Rightarrow> (pcmFrame \<times> decoderState) res" where
  "tick_frame P = (\<lambda>(message, received, active) d.
     let frame = zero_frame_pcm in
     if active then
       bnd (if received then Decode P d (samples frame) (paudio message) else Conceal P d (samples frame))
         (\<lambda>(_, s, d). Ok (frame\<lparr>samples := s\<rparr>, d))
     else Ok (frame, d))"

text \<open>The case \<open><-ticker.C\<close>.\<close>

definition tick :: "platform \<Rightarrow> call \<Rightarrow> call res" where
  "tick P c =
     bnd (jtake (jitter c)) (\<lambda>(taken, j).
     bnd (tick_frame P taken (decoder c)) (\<lambda>(frame, d).
     Ok (c\<lparr>jitter := j, decoder := d,
           bridge := (bridge c)\<lparr>playback := try_send playback_cap frame (playback (bridge c))\<rparr>\<rparr>)))"

section \<open>Events\<close>

text \<open>What can happen during a call; \<open>ContextDone\<close> is the case \<open><-ctx.Done()\<close> of a worker (the receive
  worker asks \<open>ctx.Err()\<close> in its turn instead).\<close>

datatype worker = Encoding | Playing

datatype call_event =
    NetworkTurn turn
  | FrameCaptured "error option \<times> error option"
  | MessageQueued
  | TickerFires
  | AudioCallback "byte list" "byte list"
  | AudioFails error
  | ContextDone worker error

fun worker_done :: "worker \<Rightarrow> error \<Rightarrow> call \<Rightarrow> call" where
  "worker_done Encoding e c = returned stop_encoding (Some (Other e)) c"
| "worker_done Playing e c = returned stop_playing (Some (Other e)) c"

fun enabled :: "call_event \<Rightarrow> call \<Rightarrow> bool" where
  "enabled (NetworkTurn t) c = receiving c"
| "enabled (FrameCaptured io) c = encoding c"
| "enabled MessageQueued c = playing_out c"
| "enabled TickerFires c = playing_out c"
| "enabled (ContextDone Encoding e) c = encoding c"
| "enabled (ContextDone Playing e) c = playing_out c"
| "enabled _ c = True"

text \<open>An event of a worker that has returned cannot happen; it leaves the call alone.\<close>

fun on_event :: "platform \<Rightarrow> peer \<Rightarrow> call_event \<Rightarrow> call \<Rightarrow> (datagram list \<times> call) res" where
  "on_event P p (NetworkTurn t) c = receive_worker p t c"
| "on_event P p (FrameCaptured io) c = encode_worker P p io c"
| "on_event P p MessageQueued c = bnd (arrival c) (\<lambda>c. Ok ([], c))"
| "on_event P p TickerFires c = bnd (tick P c) (\<lambda>c. Ok ([], c))"
| "on_event P p (AudioCallback out inp) c =
     bnd (process out inp (bridge c)) (\<lambda>(out, b). Ok ([], c\<lparr>bridge := b\<rparr>))"
| "on_event P p (AudioFails e) c = Ok ([], c\<lparr>bridge := bridge_fail e (bridge c)\<rparr>)"
| "on_event P p (ContextDone w e) c = Ok ([], worker_done w e c)"

definition call_step :: "platform \<Rightarrow> peer \<Rightarrow> call_event \<Rightarrow> call \<Rightarrow> (datagram list \<times> call) res" where
  "call_step P p ev c = (if enabled ev c then on_event P p ev c else Ok ([], c))"

fun call_run :: "platform \<Rightarrow> peer \<Rightarrow> call_event list \<Rightarrow> call \<Rightarrow> (datagram list \<times> call) res" where
  "call_run P p [] c = Ok ([], c)"
| "call_run P p (ev # evs) c =
     bnd (call_step P p ev c) (\<lambda>(out, c).
     bnd (call_run P p evs c) (\<lambda>(out', c). Ok (out @ out', c)))"

section \<open>The whole call\<close>

text \<open>The \<open>select\<close> of \<open>runCall\<close>: the context, the first failure of a worker or the first error of
  the audio device; \<open>None\<close> when the chosen case is not ready.\<close>

datatype ending = CallerCancels error | WorkerFails | DeviceFails

fun call_ends :: "ending \<Rightarrow> call \<Rightarrow> call_error option" where
  "call_ends (CallerCancels e) c = Some (Other e)"
| "call_ends WorkerFails c = fst (try_recv (failures c))"
| "call_ends DeviceFails c = map_option Other (fst (try_recv (berrors (bridge c))))"

text \<open>The end of \<open>runCall\<close> after the \<open>select\<close>.  The workers go on until they see that the context is
  cancelled or the socket closed, so there are events between \<open>cancel()\<close> and the Bye, between the
  Bye and \<open>conn.Close()\<close>, and while \<open>workers.Wait()\<close> waits.  A round of the receive worker that had
  asked the context before goes on, so nothing is assumed on the answers of the first two.  After
  the close every read, write and deadline fails.\<close>

record farewell =
  canceled_events :: "call_event list"
  bye_answer :: "error option \<times> error option"
  leaving_events :: "call_event list"
  closed_events :: "call_event list"

definition errClosed :: error where "errClosed = ''use of closed network connection''"

fun on_closed :: "call_event \<Rightarrow> call_event" where
  "on_closed (NetworkTurn t) = NetworkTurn (t\<lparr>read_from := ReadError errClosed,
     first_send := (Some errClosed, Some errClosed), reply_send := (Some errClosed, Some errClosed)\<rparr>)"
| "on_closed (FrameCaptured io) = FrameCaptured (Some errClosed, Some errClosed)"
| "on_closed ev = ev"

definition workers_done :: "call \<Rightarrow> bool" where
  "workers_done c \<longleftrightarrow> \<not> receiving c \<and> \<not> encoding c \<and> \<not> playing_out c"

definition hang_up :: "platform \<Rightarrow> peer \<Rightarrow> farewell \<Rightarrow> call \<Rightarrow> (datagram list \<times> call) res" where
  "hang_up P p w c =
     bnd (call_run P p (canceled_events w) c) (\<lambda>(before, c).
     bnd (send (zero_packet\<lparr>pkind := kindBye\<rparr>) (bye_answer w) p) (\<lambda>(bye, _).
     bnd (call_run P p (leaving_events w) c) (\<lambda>(after, c).
     bnd (call_run P p (map on_closed (closed_events w)) c) (\<lambda>(closed, c).
     Ok (before @ bye @ after @ closed, c)))))"

text \<open>\<open>runCall\<close> with the events until the \<open>select\<close> returns and the course of its end.  The result is
  what was sent and the error, none when the call still runs or still waits for a worker.  Nothing
  reads the channels after the \<open>select\<close>.\<close>

definition runCall ::
  "platform \<Rightarrow> peer \<Rightarrow> int \<Rightarrow> error option \<Rightarrow> call_event list \<Rightarrow> ending \<Rightarrow> farewell \<Rightarrow>
   (datagram list \<times> call_error option) res" where
  "runCall P p now openAudio evs ending w =
     (case openAudio of
        Some err \<Rightarrow>
          bnd (send (zero_packet\<lparr>pkind := kindBye\<rparr>) (bye_answer w) p) (\<lambda>(out, _). Ok (out, Some (Other err)))
      | None \<Rightarrow>
          bnd (call_start now newAudioBridge) (\<lambda>c.
          bnd (call_run P p evs c) (\<lambda>(out, c).
          case call_ends ending c of
            None \<Rightarrow> Ok (out, None)
          | Some err \<Rightarrow>
              bnd (hang_up P p w c) (\<lambda>(out', c).
              Ok (out @ out', if workers_done c then Some err else None)))))"

section \<open>The invariant\<close>

definition sized :: "packet \<Rightarrow> bool" where
  "sized m \<longleftrightarrow> length (paudio m) = 38"

definition call_ok :: "platform \<Rightarrow> call \<Rightarrow> bool" where
  "call_ok P c \<longleftrightarrow> bridge_ok (bridge c) \<and>
     length (incoming (receiver_of c)) \<le> incoming_cap \<and> (\<forall>m \<in> set (incoming (receiver_of c)). sized m) \<and>
     enc_reach P 20 (encoder c) \<and> dec_reach P 20 True (decoder c) \<and>
     jinv (jitter c) \<and> (\<forall>m \<in> set (jslots (jitter c)). sized m) \<and>
     (\<forall>e \<in> set (failures c). \<exists>x. e = Other x) \<and>
     length (failures c) + of_bool (receiving c) + of_bool (encoding c) + of_bool (playing_out c) = 3"

text \<open>An audio packet that every decoder of the mode takes for an intact frame.\<close>

definition intact_audio :: "platform \<Rightarrow> packet \<Rightarrow> bool" where
  "intact_audio P m \<longleftrightarrow> (\<exists>e fr. enc_reach P 20 e \<and> indices_found e fr \<and> carries 20 (paudio m) fr)"

text \<open>What a call sends while it runs: Accepts, and audio of the session to the peer.\<close>

definition call_datagram :: "platform \<Rightarrow> peer \<Rightarrow> datagram \<Rightarrow> bool" where
  "call_datagram P p d \<longleftrightarrow> d = control kindAccept p \<or>
     (\<exists>m. d = (packet_bytes m, address p) \<and> pkind m = kindAudio \<and> psession m = session p \<and> sized m \<and> intact_audio P m)"

lemma jinsert_slots:
  "jinsert m j = Ok j' \<Longrightarrow> set (jslots j') \<subseteq> insert m (set (jslots j))"
  by (auto simp: jinsert_def Let_def bnd_eq_Ok upd_def split: if_splits dest: set_update_subset_insert[THEN subsetD])

lemma jtake_slots:
  "jtake j = Ok ((m, received, active), j') \<Longrightarrow> jslots j' = jslots j \<and> (active \<longrightarrow> m \<in> set (jslots j))"
  by (auto simp: jtake_def Let_def bnd_eq_Ok idx_def split: if_splits)

lemma call_start_ok: "\<exists>c. call_start now newAudioBridge = Ok c \<and> call_ok P c"
proof -
  obtain e where e: "NewEncoder 20 = Ok (Inr e)" using NewEncoder_ok[of 20] by auto
  obtain d where d: "NewDecoder 20 True = Ok (Inr d)" using NewDecoder_ok[of 20 True] by auto
  have "\<forall>m \<in> set (jslots zero_jitter). sized m" by (simp add: zero_jitter_def sized_def zero_packet_def)
  then show ?thesis
    using enc_reach.new[OF e] dec_reach.new[OF d] bridge_ok_new jinv_zero(1)
    by (simp add: call_start_def the_instance_def e d call_ok_def)
qed

text \<open>The single steps, each on a call that satisfies the invariant.\<close>

lemma returned_ok:
  assumes "call_ok P c"
  shows "receiving c \<Longrightarrow> call_ok P (returned stop_receiving (map_option Other err) c)"
    "encoding c \<Longrightarrow> call_ok P (returned stop_encoding (map_option Other err) c)"
    "playing_out c \<Longrightarrow> call_ok P (returned stop_playing (map_option Other err) c)"
  using assms
  by (auto simp: call_ok_def returned_def stop_receiving_def stop_encoding_def stop_playing_def split: option.splits)

lemma receive_worker_ok:
  assumes c: "call_ok P c" "receiving c"
  shows "\<exists>out c'. receive_worker p t c = Ok (out, c') \<and> call_ok P c' \<and> (\<forall>d \<in> set out. call_datagram P p d)"
proof -
  obtain out r err where r: "receive_round p t (receiver_of c) = Ok (out, r, err)" using receive_round_total by blast
  have "length (incoming r) \<le> incoming_cap \<and> (\<forall>m \<in> set (incoming r). sized m) \<and> (\<forall>d \<in> set out. d = control kindAccept p)"
    using r
  proof (cases rule: receive_round_cases)
    case (audio m)
    then show ?thesis using c by (auto simp: call_ok_def try_send_def from_peer_def wire_packet_def sized_def)
  qed (use c in \<open>auto simp: call_ok_def\<close>)
  moreover from this have "call_ok P (c\<lparr>receiver_of := r\<rparr>)" using c by (simp add: call_ok_def)
  ultimately show ?thesis
    using returned_ok(1)[of P "c\<lparr>receiver_of := r\<rparr>"] c(2) r by (auto simp: receive_worker_def call_datagram_def)
qed

text \<open>What the encode worker makes of a frame: an intact audio packet with the number of the frame.\<close>

definition audio_packet :: "platform \<Rightarrow> peer \<Rightarrow> pcmFrame \<Rightarrow> packet \<Rightarrow> bool" where
  "audio_packet P p frame m \<longleftrightarrow> pkind m = kindAudio \<and> pseq m = fseq frame \<and> psession m = session p \<and>
     sized m \<and> intact_audio P m"

lemma encode_frame_sends:
  assumes reach: "enc_reach P 20 (encoder c)" and frame: "length (samples frame) = 160"
  shows "spec nan_panic (\<lambda>(out, c'). \<exists>m e. audio_packet P p frame m \<and> enc_reach P 20 e \<and>
     out = fst (send_result io (packet_bytes m, address p)) \<and>
     c' = returned stop_encoding (map_option Other (snd (send_result io (packet_bytes m, address p)))) (c\<lparr>encoder := e\<rparr>))
    (encode_frame P p io frame c)"
proof -
  define m where "m = zero_packet\<lparr>pkind := kindAudio, pseq := fseq frame\<rparr>"
  have l: "length (paudio m) = 38" by (simp add: m_def zero_packet_def)
  have enc: "spec nan_panic (\<lambda>(err, audio, e). enc_reach P 20 e \<and> err = None \<and> length audio = 38 \<and>
      intact_audio P (m\<lparr>psession := session p, paudio := audio\<rparr>)) (Encode P (encoder c) (paudio m) (samples frame))"
  proof (cases "Encode P (encoder c) (paudio m) (samples frame)")
    case (Inl x)
    then show ?thesis using Encode_spec[OF enc_reach_ok[OF reach], where dst = "paudio m" and pcm = "samples frame" and P = P] by simp
  next
    case (Inr x)
    obtain err audio e where x: "x = (err, audio, e)" by (cases x)
    have "err = None \<and> same_tail 38 (paudio m) audio \<and> (\<exists>fr. carries 20 (take 38 audio) fr \<and> indices_found e fr)"
      using Encode_spec[OF enc_reach_ok[OF reach], where dst = "paudio m" and pcm = "samples frame" and P = P] Inr x frame l
      by (auto simp: frame_samples_def frame_bytes_def)
    moreover have "enc_reach P 20 e" using enc_reach.encode[OF reach] Inr x by blast
    ultimately have "err = None" "length audio = 38" "enc_reach P 20 e" "intact_audio P (m\<lparr>psession := session p, paudio := audio\<rparr>)"
      using l by (auto simp: same_tail_def) (simp only: intact_audio_def packet.simps, force)
    then show ?thesis using Inr x by simp
  qed
  show ?thesis
    unfolding encode_frame_def Let_def m_def[symmetric]
  proof (rule spec_bndI, rule spec_mono[OF enc], clarify)
    fix audio e
    assume e: "enc_reach P 20 e" "length audio = 38" "intact_audio P (m\<lparr>psession := session p, paudio := audio\<rparr>)"
    let ?m = "m\<lparr>paudio := audio, psession := session p\<rparr>"
    have s: "send (m\<lparr>paudio := audio\<rparr>) io p = Ok (send_result io (packet_bytes ?m, address p))"
      by (subst send_bytes) (simp_all add: e(2))
    have m: "audio_packet P p frame ?m"
      using e by (simp add: audio_packet_def m_def sized_def intact_audio_def)
    show "spec nan_panic (\<lambda>(out, c'). \<exists>m e. audio_packet P p frame m \<and> enc_reach P 20 e \<and>
     out = fst (send_result io (packet_bytes m, address p)) \<and>
     c' = returned stop_encoding (map_option Other (snd (send_result io (packet_bytes m, address p)))) (c\<lparr>encoder := e\<rparr>))
        (case None of None \<Rightarrow> bnd (send (m\<lparr>paudio := audio\<rparr>) io p)
             (\<lambda>(out, err). Ok (out, returned stop_encoding (map_option Other err) (c\<lparr>encoder := e\<rparr>)))
         | Some er \<Rightarrow> Ok ([], returned stop_encoding (Some (Codec er)) (c\<lparr>encoder := e\<rparr>)))"
      using s m e(1) by (cases "send_result io (packet_bytes ?m, address p)") force
  qed
qed

lemma encode_worker_ok:
  assumes c: "call_ok P c" "encoding c"
  shows "spec nan_panic (\<lambda>(out, c'). call_ok P c' \<and> (\<forall>d \<in> set out. call_datagram P p d)) (encode_worker P p io c)"
proof (cases "captured (bridge c)")
  case Nil
  then show ?thesis using c by (simp add: encode_worker_def)
next
  case (Cons frame q)
  define c1 where "c1 = c\<lparr>bridge := (bridge c)\<lparr>captured := q\<rparr>\<rparr>"
  have b: "length (samples frame) = 160" "bridge_ok ((bridge c)\<lparr>captured := q\<rparr>)"
    using c(1) Cons by (auto simp: call_ok_def bridge_ok_def)
  then have c1: "call_ok P c1" using c(1) by (simp add: call_ok_def c1_def)
  then have reach: "enc_reach P 20 (encoder c1)" by (simp add: call_ok_def)
  have "spec nan_panic (\<lambda>(out, c'). call_ok P c' \<and> (\<forall>d \<in> set out. call_datagram P p d)) (encode_frame P p io frame c1)"
  proof (rule spec_mono[OF encode_frame_sends[OF reach b(1)]], clarify, rule conjI)
    fix m e assume m: "audio_packet P p frame m" "enc_reach P 20 e"
    have "call_ok P (c1\<lparr>encoder := e\<rparr>)" "encoding (c1\<lparr>encoder := e\<rparr>)" using c1 c m(2) by (simp_all add: call_ok_def c1_def)
    then show "call_ok P (returned stop_encoding (map_option Other (snd (send_result io (packet_bytes m, address p)))) (c1\<lparr>encoder := e\<rparr>))"
      by (rule returned_ok(2))
    show "\<forall>d \<in> set (fst (send_result io (packet_bytes m, address p))). call_datagram P p d"
      using m(1) send_result_sent by (fastforce simp: call_datagram_def audio_packet_def)
  qed
  then show ?thesis using Cons by (simp add: encode_worker_def c1_def)
qed

lemma arrival_ok:
  assumes "call_ok P c"
  shows "\<exists>c'. arrival c = Ok c' \<and> call_ok P c'"
proof (cases "incoming (receiver_of c)")
  case Nil
  then show ?thesis using assms by (simp add: arrival_def)
next
  case (Cons m q)
  obtain j where j: "jinsert m (jitter c) = Ok j" "jinv j"
    using jitter.ins[of "jitter c" m] assms by (auto simp: call_ok_def)
  have "\<forall>x \<in> set (jslots j). sized x" using jinsert_slots[OF j(1)] assms Cons by (auto simp: call_ok_def)
  then show ?thesis using assms Cons j by (auto simp: arrival_def call_ok_def)
qed

text \<open>A tick before the first audio is silence, later it is the packet due, or concealment; the
  decoder never refuses.\<close>

definition tick_plays :: "platform \<Rightarrow> packet \<times> bool \<times> bool \<Rightarrow> decoderState \<Rightarrow> pcmFrame \<Rightarrow> decoderState \<Rightarrow> bool" where
  "tick_plays P = (\<lambda>(m, received, active) d frame d'.
     fseq frame = 0 \<and> length (samples frame) = 160 \<and>
     (if \<not> active then frame = zero_frame_pcm \<and> d' = d
      else if received then Decode P d (replicate 160 0) (paudio m) = Ok (None, samples frame, d')
      else Conceal P d (replicate 160 0) = Ok (None, samples frame, d')))"

lemma tick_frame_ok:
  assumes d: "dec_reach P 20 True d" and m: "active \<longrightarrow> sized m"
  shows "\<exists>frame d'. tick_frame P (m, received, active) d = Ok (frame, d') \<and>
    tick_plays P (m, received, active) d frame d' \<and> dec_reach P 20 True d'"
proof (cases active)
  case False
  then show ?thesis using d by (simp add: tick_frame_def tick_plays_def zero_frame_pcm_def)
next
  case True
  define s where "s = (replicate 160 0 :: sample list)"
  have l: "length s = frame_samples 20" by (simp add: s_def frame_samples_def)
  have p: "length (paudio m) = frame_bytes 20" using m True by (simp add: sized_def frame_bytes_def)
  obtain s1 d1 where 1: "Decode P d s (paudio m) = Ok (None, s1, d1)" "length s1 = 160"
    using Decode_cases[OF dec_reach_ok[OF d], where P = P and dst = s and packet = "paudio m"] l p by (auto simp: same_tail_def frame_samples_def)
  obtain s2 d2 where 2: "Conceal P d s = Ok (None, s2, d2)" "length s2 = 160"
    using Conceal_cases[OF dec_reach_ok[OF d], where P = P and dst = s] l by (auto simp: same_tail_def frame_samples_def)
  have z: "samples zero_frame_pcm = s" "fseq zero_frame_pcm = 0" by (simp_all add: zero_frame_pcm_def s_def)
  show ?thesis
    using 1 2 z True dec_reach.decode[OF d 1(1)] dec_reach.conceal[OF d 2(1)]
    by (cases received) (simp_all add: tick_frame_def tick_plays_def Let_def s_def[symmetric])
qed

lemma tick_ok:
  assumes c: "call_ok P c"
  shows "\<exists>taken j frame d. jtake (jitter c) = Ok (taken, j) \<and> tick_plays P taken (decoder c) frame d \<and>
    tick P c = Ok (c\<lparr>jitter := j, decoder := d,
      bridge := (bridge c)\<lparr>playback := try_send playback_cap frame (playback (bridge c))\<rparr>\<rparr>) \<and>
    call_ok P (c\<lparr>jitter := j, decoder := d,
      bridge := (bridge c)\<lparr>playback := try_send playback_cap frame (playback (bridge c))\<rparr>\<rparr>)"
proof -
  obtain m received active j where j: "jtake (jitter c) = Ok ((m, received, active), j)" "jinv j"
  proof -
    have "jinv (jitter c)" using c by (simp add: call_ok_def)
    from jitter.tak[OF this] obtain r j where "jtake (jitter c) = Ok (r, j)" "jinv j" by blast
    then show thesis using that by (cases r) auto
  qed
  have sl: "jslots j = jslots (jitter c)" "active \<longrightarrow> sized m"
    using jtake_slots[OF j(1)] c by (auto simp: call_ok_def)
  have "dec_reach P 20 True (decoder c)" using c by (simp add: call_ok_def)
  then obtain frame d where f: "tick_frame P (m, received, active) (decoder c) = Ok (frame, d)"
      "tick_plays P (m, received, active) (decoder c) frame d" "dec_reach P 20 True d"
    using tick_frame_ok[OF _ sl(2)] by metis
  have "length (samples frame) = 160" using f(2) by (simp add: tick_plays_def)
  then have "bridge_ok ((bridge c)\<lparr>playback := try_send playback_cap frame (playback (bridge c))\<rparr>)"
    using c by (auto simp: call_ok_def bridge_ok_def try_send_def)
  then show ?thesis
    using j f sl(1) c by (intro exI[of _ "(m, received, active)"] exI[of _ j] exI[of _ frame] exI[of _ d])
      (simp add: tick_def call_ok_def)
qed

text \<open>Every event keeps the invariant and sends only datagrams of the call; only the encode worker
  can panic, and only with the panic of \<open>sortSq\<close>.\<close>

definition encode_panic :: "call_event \<Rightarrow> panic \<Rightarrow> bool" where
  "encode_panic ev q \<longleftrightarrow> nan_panic q \<and> (\<exists>io. ev = FrameCaptured io)"

lemma call_step_ok:
  assumes c: "call_ok P c"
  shows "spec (encode_panic ev) (\<lambda>(out, c'). call_ok P c' \<and> (\<forall>d \<in> set out. call_datagram P p d)) (call_step P p ev c)"
proof (cases "enabled ev c")
  case False
  then show ?thesis using c by (simp add: call_step_def)
next
  case en: True
  show ?thesis
  proof (cases ev)
    case (NetworkTurn t)
    then show ?thesis using receive_worker_ok[OF c, of p t] en by (auto simp: call_step_def)
  next
    case (FrameCaptured io)
    have "encode_panic ev q" if "nan_panic q" for q using that FrameCaptured by (simp add: encode_panic_def)
    then show ?thesis
      using encode_worker_ok[OF c, of p io] en FrameCaptured by (auto simp: call_step_def spec_def split: sum.splits)
  next
    case MessageQueued
    then show ?thesis using arrival_ok[OF c] en by (auto simp: call_step_def)
  next
    case TickerFires
    then show ?thesis using tick_ok[OF c] en by (auto simp: call_step_def)
  next
    case (AudioCallback out inp)
    then show ?thesis using process_ok[of "bridge c" out inp] c en by (auto simp: call_step_def call_ok_def)
  next
    case (AudioFails e)
    have "length (try_send errors_cap e es) \<le> errors_cap" if "length es \<le> errors_cap" for es
      using that by (simp add: try_send_def)
    then show ?thesis using AudioFails c en by (auto simp: call_step_def call_ok_def bridge_ok_def bridge_fail_def)
  next
    case (ContextDone w e)
    then show ?thesis using returned_ok[OF c, of "Some e"] en by (cases w) (auto simp: call_step_def)
  qed
qed

fun is_capture :: "call_event \<Rightarrow> bool" where
  "is_capture (FrameCaptured io) = True"
| "is_capture ev = False"

lemma is_capture_closed [simp]: "is_capture (on_closed ev) = is_capture ev"
  by (cases ev) auto

lemma is_capture_iff: "is_capture ev \<longleftrightarrow> (\<exists>io. ev = FrameCaptured io)"
  by (cases ev) auto

text \<open>A run panics only while a frame is encoded.\<close>

definition run_panic :: "call_event list \<Rightarrow> panic \<Rightarrow> bool" where
  "run_panic evs q \<longleftrightarrow> nan_panic q \<and> list_ex is_capture evs"

lemma call_run_ok:
  "call_ok P c \<Longrightarrow> spec (run_panic evs) (\<lambda>(out, c'). call_ok P c' \<and> (\<forall>d \<in> set out. call_datagram P p d)) (call_run P p evs c)"
proof (induction evs arbitrary: c)
  case (Cons ev evs)
  have "spec (run_panic (ev # evs)) (\<lambda>(out, c'). call_ok P c' \<and> (\<forall>d \<in> set out. call_datagram P p d)) (call_step P p ev c)"
    using call_step_ok[OF Cons.prems, of ev p] by (cases "call_step P p ev c") (auto simp: encode_panic_def run_panic_def is_capture_iff)
  then show ?case
    unfolding call_run.simps
  proof (rule spec_bndI[OF spec_mono], clarify)
    fix out c1 assume c1: "call_ok P c1" "\<forall>d \<in> set out. call_datagram P p d"
    have "spec (run_panic (ev # evs)) (\<lambda>(out, c'). call_ok P c' \<and> (\<forall>d \<in> set out. call_datagram P p d)) (call_run P p evs c1)"
      using Cons.IH[OF c1(1)] by (cases "call_run P p evs c1") (auto simp: run_panic_def)
    then show "spec (run_panic (ev # evs)) (\<lambda>(out, c'). call_ok P c' \<and> (\<forall>d \<in> set out. call_datagram P p d))
        (bnd (call_run P p evs c1) (\<lambda>(out', c). Ok (out @ out', c)))"
      by (rule spec_bndI[OF spec_mono]) (use c1(2) in auto)
  qed
qed simp

subsection \<open>The end of the call\<close>

text \<open>A worker that has returned stays so, and after the close every turn of the network ends the
  receive worker.\<close>

definition ended_by :: "call_event list \<Rightarrow> call \<Rightarrow> bool" where
  "ended_by evs c \<longleftrightarrow> ((\<exists>t. NetworkTurn t \<in> set evs) \<longrightarrow> \<not> receiving c) \<and>
     ((\<exists>e. ContextDone Encoding e \<in> set evs) \<longrightarrow> \<not> encoding c) \<and>
     ((\<exists>e. ContextDone Playing e \<in> set evs) \<longrightarrow> \<not> playing_out c)"

definition stays_ended :: "call \<Rightarrow> call \<Rightarrow> bool" where
  "stays_ended c c' \<longleftrightarrow> (receiving c' \<longrightarrow> receiving c) \<and> (encoding c' \<longrightarrow> encoding c) \<and> (playing_out c' \<longrightarrow> playing_out c)"

lemma returned_ends:
  "receiving (returned stop_receiving err c) \<longleftrightarrow> receiving c \<and> err = None"
  "encoding (returned stop_receiving err c) = encoding c" "playing_out (returned stop_receiving err c) = playing_out c"
  "receiving (returned stop_encoding err c) = receiving c" "playing_out (returned stop_encoding err c) = playing_out c"
  "encoding (returned stop_encoding err c) \<longleftrightarrow> encoding c \<and> err = None"
  "receiving (returned stop_playing err c) = receiving c" "encoding (returned stop_playing err c) = encoding c"
  "playing_out (returned stop_playing err c) \<longleftrightarrow> playing_out c \<and> err = None"
  by (cases err; simp add: returned_def stop_receiving_def stop_encoding_def stop_playing_def)+

lemma call_step_stays: "call_step P p ev c = Ok (out, c') \<Longrightarrow> stays_ended c c'"
proof (cases ev)
  case (FrameCaptured io)
  assume "call_step P p ev c = Ok (out, c')"
  then show ?thesis using FrameCaptured
    by (auto simp: call_step_def stays_ended_def encode_worker_def encode_frame_def bnd_eq_Ok returned_ends Let_def
        split: if_splits prod.splits option.splits)
next
  case (ContextDone w e)
  assume "call_step P p ev c = Ok (out, c')"
  then show ?thesis using ContextDone
    by (cases w) (auto simp: call_step_def stays_ended_def returned_ends split: if_splits)
qed (auto simp: call_step_def stays_ended_def receive_worker_def arrival_def tick_def
      bnd_eq_Ok returned_ends split: if_splits prod.splits option.splits)

lemma call_step_ended:
  assumes "call_step P p (on_closed ev) c = Ok (out, c')"
  shows "ended_by [ev] c'"
proof (cases ev)
  case (NetworkTurn t)
  then show ?thesis using assms
    by (auto simp: call_step_def ended_by_def receive_worker_def receive_round_def bnd_eq_Ok returned_ends
        split: if_splits option.splits)
next
  case (ContextDone w e)
  then show ?thesis using assms by (cases w) (auto simp: call_step_def ended_by_def returned_ends split: if_splits)
qed (simp_all add: ended_by_def)

lemma call_run_ended:
  "call_run P p (map on_closed evs) c = Ok (out, c') \<Longrightarrow> ended_by evs c' \<and> stays_ended c c'"
proof (induction evs arbitrary: c out)
  case (Cons ev evs)
  then obtain o1 c1 o2 where 1: "call_step P p (on_closed ev) c = Ok (o1, c1)" "call_run P p (map on_closed evs) c1 = Ok (o2, c')"
    by (auto simp: bnd_eq_Ok)
  show ?case
    using call_step_ended[OF 1(1)] call_step_stays[OF 1(1)] Cons.IH[OF 1(2)]
    by (auto simp: ended_by_def stays_ended_def)
qed (simp add: ended_by_def stays_ended_def)

text \<open>After the close all three workers get their turn.\<close>

definition all_return :: "farewell \<Rightarrow> bool" where
  "all_return w \<longleftrightarrow> (\<exists>t. NetworkTurn t \<in> set (closed_events w)) \<and>
     (\<forall>x. \<exists>e. ContextDone x e \<in> set (closed_events w))"

definition tail_events :: "farewell \<Rightarrow> call_event list" where
  "tail_events w = canceled_events w @ leaving_events w @ closed_events w"

lemma call_run_part:
  assumes "call_ok P c" "list_ex is_capture evs' \<Longrightarrow> list_ex is_capture evs"
  shows "spec (run_panic evs) (\<lambda>(out, c'). call_ok P c' \<and> (\<forall>d \<in> set out. call_datagram P p d)) (call_run P p evs' c)"
  using call_run_ok[OF assms(1), of evs' p] assms(2)
  by (cases "call_run P p evs' c") (auto simp: run_panic_def)

lemma captures_closed [simp]: "list_ex is_capture (map on_closed evs) = list_ex is_capture evs"
  by (induction evs) auto

definition bye_between :: "platform \<Rightarrow> peer \<Rightarrow> farewell \<Rightarrow> datagram list \<Rightarrow> bool" where
  "bye_between P p w out \<longleftrightarrow> (\<exists>before after. out = before @ fst (send_result (bye_answer w) (control kindBye p)) @ after \<and>
     (\<forall>d \<in> set before \<union> set after. call_datagram P p d))"

lemma hang_up_ok:
  assumes "call_ok P c"
  shows "spec (run_panic (tail_events w)) (\<lambda>(out, c'). bye_between P p w out \<and> (all_return w \<longrightarrow> workers_done c')) (hang_up P p w c)"
  unfolding hang_up_def
proof (rule spec_bndI, rule spec_mono[OF call_run_part[OF assms]])
  show "list_ex is_capture (canceled_events w) \<Longrightarrow> list_ex is_capture (tail_events w)" by (simp add: tail_events_def)
next
  fix oc assume "case oc of (out, c') \<Rightarrow> call_ok P c' \<and> (\<forall>d \<in> set out. call_datagram P p d)"
  then obtain before c1 where 1: "oc = (before, c1)" "call_ok P c1" "\<forall>d \<in> set before. call_datagram P p d" by auto
  have leaving: "spec (run_panic (tail_events w)) (\<lambda>(out, c'). call_ok P c' \<and> (\<forall>d \<in> set out. call_datagram P p d))
      (call_run P p (leaving_events w) c1)"
    by (rule call_run_part[OF 1(2)]) (auto simp: tail_events_def)
  have closed: "spec (run_panic (tail_events w)) (\<lambda>(out, c'). (\<forall>d \<in> set out. call_datagram P p d) \<and> (all_return w \<longrightarrow> workers_done c'))
      (call_run P p (map on_closed (closed_events w)) c2)" if "call_ok P c2" for c2
  proof (rule spec_mono_eq[OF call_run_part[OF that]])
    show "list_ex is_capture (map on_closed (closed_events w)) \<Longrightarrow> list_ex is_capture (tail_events w)"
      by (simp add: tail_events_def)
  next
    fix oc assume r: "call_run P p (map on_closed (closed_events w)) c2 = Ok oc"
      and ok: "case oc of (out, c') \<Rightarrow> call_ok P c' \<and> (\<forall>d \<in> set out. call_datagram P p d)"
    obtain out c' where oc: "oc = (out, c')" by (cases oc)
    have "all_return w \<longrightarrow> workers_done c'"
      using call_run_ended[OF r[unfolded oc]] by (auto simp: ended_by_def all_return_def workers_done_def)
    then show "case oc of (out, c') \<Rightarrow> (\<forall>d \<in> set out. call_datagram P p d) \<and> (all_return w \<longrightarrow> workers_done c')"
      using ok oc by simp
  qed
  show "spec (run_panic (tail_events w)) (\<lambda>(out, c'). bye_between P p w out \<and> (all_return w \<longrightarrow> workers_done c'))
      (case oc of (before, c) \<Rightarrow>
       bnd (send (zero_packet\<lparr>pkind := kindBye\<rparr>) (bye_answer w) p) (\<lambda>(bye, _).
       bnd (call_run P p (leaving_events w) c) (\<lambda>(after, c).
       bnd (call_run P p (map on_closed (closed_events w)) c) (\<lambda>(closed, c). Ok (before @ bye @ after @ closed, c)))))"
  proof -
    let ?bye = "fst (send_result (bye_answer w) (control kindBye p))"
    have more: "bye_between P p w (before @ ?bye @ after @ out)"
      if "\<forall>d \<in> set after. call_datagram P p d" "\<forall>d \<in> set out. call_datagram P p d" for after out
      unfolding bye_between_def using 1(3) that by (intro exI[of _ before] exI[of _ "after @ out"]) auto
    have rest: "spec (run_panic (tail_events w)) (\<lambda>(out, c'). bye_between P p w out \<and> (all_return w \<longrightarrow> workers_done c'))
        (bnd (call_run P p (map on_closed (closed_events w)) c2) (\<lambda>(closed, c). Ok (before @ ?bye @ after @ closed, c)))"
      if "call_ok P c2" "\<forall>d \<in> set after. call_datagram P p d" for after c2
      by (rule spec_bndI, rule spec_mono[OF closed[OF that(1)]]) (use more[OF that(2)] in auto)
    obtain sent err where b: "send_result (bye_answer w) (control kindBye p) = (sent, err)" by (cases "send_result (bye_answer w) (control kindBye p)")
    have "spec (run_panic (tail_events w)) (\<lambda>(out, c'). bye_between P p w out \<and> (all_return w \<longrightarrow> workers_done c'))
       (bnd (call_run P p (leaving_events w) c1) (\<lambda>(after, c).
       bnd (call_run P p (map on_closed (closed_events w)) c) (\<lambda>(closed, c). Ok (before @ ?bye @ after @ closed, c))))"
      by (rule spec_bndI, rule spec_mono[OF leaving]) (use rest in auto)
    then show ?thesis by (simp add: 1(1) send_control b)
  qed
qed

lemma runCall_outcome:
  "spec (run_panic (evs @ tail_events w)) (\<lambda>(out, err).
     (\<forall>dev. openAudio = Some dev \<longrightarrow> err = Some (Other dev) \<and> out = fst (send_result (bye_answer w) (control kindBye p))) \<and>
     (\<forall>e. err = Some e \<longrightarrow> (\<exists>x. e = Other x) \<and> bye_between P p w out) \<and>
     (err = None \<longrightarrow> (\<forall>d \<in> set out. call_datagram P p d) \<or> bye_between P p w out) \<and>
     (\<forall>e. openAudio = None \<and> ending = CallerCancels e \<and> all_return w \<longrightarrow> err = Some (Other e)))
    (runCall P p now openAudio evs ending w)"
proof (cases openAudio)
  case (Some e)
  have "bye_between P p w (fst (send_result (bye_answer w) (control kindBye p)))"
    unfolding bye_between_def by (intro exI[of _ "[]"]) simp
  then show ?thesis using Some by (simp add: runCall_def send_control case_prod_unfold)
next
  case None
  obtain c where c: "call_start now newAudioBridge = Ok c" "call_ok P c" using call_start_ok by blast
  have e: "\<exists>x. e = Other x" if "call_ends ending c' = Some e" "call_ok P c'" for c' e
    using that by (cases ending; cases "failures c'"; cases "berrors (bridge c')") (auto simp: call_ok_def)
  have hang: "spec (run_panic (evs @ tail_events w)) (\<lambda>(out, c'). bye_between P p w out \<and> (all_return w \<longrightarrow> workers_done c')) (hang_up P p w c')"
    if "call_ok P c'" for c'
    using hang_up_ok[OF that, of w p] by (cases "hang_up P p w c'") (auto simp: run_panic_def)
  have more: "bye_between P p w (sent @ out)" if bt: "bye_between P p w out" "\<forall>d \<in> set sent. call_datagram P p d" for sent out
  proof -
    obtain before after where b: "out = before @ fst (send_result (bye_answer w) (control kindBye p)) @ after"
      "\<forall>d \<in> set before \<union> set after. call_datagram P p d" using bt(1) unfolding bye_between_def by blast
    show ?thesis
      unfolding bye_between_def by (intro exI[of _ "sent @ before"] exI[of _ after]) (use b bt(2) in auto)
  qed
  have part: "list_ex is_capture evs \<Longrightarrow> list_ex is_capture (evs @ tail_events w)" by simp
  let ?Q = "\<lambda>(out, err).
       (\<forall>dev. openAudio = Some dev \<longrightarrow> err = Some (Other dev) \<and> out = fst (send_result (bye_answer w) (control kindBye p))) \<and>
       (\<forall>e. err = Some e \<longrightarrow> (\<exists>x. e = Other x) \<and> bye_between P p w out) \<and>
       (err = None \<longrightarrow> (\<forall>d \<in> set out. call_datagram P p d) \<or> bye_between P p w out) \<and>
       (\<forall>e. openAudio = None \<and> ending = CallerCancels e \<and> all_return w \<longrightarrow> err = Some (Other e))"
  have tail: "spec (run_panic (evs @ tail_events w)) ?Q
      (case call_ends ending c' of None \<Rightarrow> Ok (sent, None)
       | Some err \<Rightarrow> bnd (hang_up P p w c') (\<lambda>(out', c). Ok (sent @ out', if workers_done c then Some err else None)))"
    if c': "call_ok P c'" "\<forall>d \<in> set sent. call_datagram P p d" for sent c'
  proof (cases "call_ends ending c'")
    case ends: None
    have "ending \<noteq> CallerCancels e" for e using ends by auto
    then show ?thesis using c'(2) None ends by simp
  next
    case (Some err)
    obtain x where x: "err = Other x" using e[OF Some c'(1)] by blast
    have "ending = CallerCancels e \<Longrightarrow> x = e" for e using Some x by simp
    then have q: "?Q (sent @ out, if workers_done c then Some err else None)"
      if "bye_between P p w out" "all_return w \<longrightarrow> workers_done c" for out c
      using more[OF that(1) c'(2)] that(2) None x by simp
    show ?thesis
      unfolding Some option.case
    proof (rule spec_bndI, rule spec_mono[OF hang[OF c'(1)]], clarify)
      fix out c assume "bye_between P p w out" "all_return w \<longrightarrow> workers_done c"
      from q[OF this] show "spec (run_panic (evs @ tail_events w)) ?Q (Ok (sent @ out, if workers_done c then Some err else None))"
        unfolding spec_Ok .
    qed
  qed
  have "runCall P p now openAudio evs ending w = bnd (call_run P p evs c) (\<lambda>(sent, c').
      case call_ends ending c' of None \<Rightarrow> Ok (sent, None)
       | Some err \<Rightarrow> bnd (hang_up P p w c') (\<lambda>(out', c). Ok (sent @ out', if workers_done c then Some err else None)))"
    by (simp add: runCall_def None c(1))
  then show ?thesis
    by (simp only:) (rule spec_bndI, rule spec_mono[OF call_run_part[OF c(2) part]], use tail in auto)
qed

section \<open>Properties\<close>

text \<open>The calls that \<open>runCall\<close> can bring about.\<close>

inductive call_reach :: "platform \<Rightarrow> peer \<Rightarrow> int \<Rightarrow> call \<Rightarrow> bool" for P p now where
  start: "call_start now newAudioBridge = Ok c \<Longrightarrow> call_reach P p now c"
| step: "call_reach P p now c \<Longrightarrow> call_step P p ev c = Ok (out, c') \<Longrightarrow> call_reach P p now c'"

lemma call_reach_ok: "call_reach P p now c \<Longrightarrow> call_ok P c"
proof (induction rule: call_reach.induct)
  case (start c)
  then show ?case using call_start_ok[of now P] by auto
next
  case (step c ev out c')
  then show ?case using call_step_ok[OF step.IH, of ev p] by simp
qed

text \<open>C32: In every reachable state of a call and for every event, whatever the network, the microphone
  and the device do: no worker panics except the encode worker, and that only at the index -1 in
  a run of \<open>sortSq\<close> whose argument is not a number; the queues keep their bounds; a codec error never ends
  the call; and the only datagrams that leave are Accepts and audio packets of the call's
  session that every decoder takes for intact frames.\<close>

theorem call_is_safe:
  assumes "call_reach P p now c"
  shows "spec (encode_panic ev) (\<lambda>(out, c'). call_reach P p now c' \<and>
     length (incoming (receiver_of c')) \<le> 64 \<and> length (captured (bridge c')) \<le> 4 \<and> length (playback (bridge c')) \<le> 3 \<and>
     length (failures c') \<le> 3 \<and> (\<forall>e \<in> set (failures c'). \<exists>x. e = Other x) \<and>
     (\<forall>d \<in> set out. call_datagram P p d)) (call_step P p ev c)"
proof (rule spec_mono_eq[OF call_step_ok[OF call_reach_ok[OF assms]]], clarify)
  fix out c' assume r: "call_step P p ev c = Ok (out, c')" and c': "call_ok P c'" and d: "\<forall>d \<in> set out. call_datagram P p d"
  show "call_reach P p now c' \<and>
     length (incoming (receiver_of c')) \<le> 64 \<and> length (captured (bridge c')) \<le> 4 \<and> length (playback (bridge c')) \<le> 3 \<and>
     length (failures c') \<le> 3 \<and> (\<forall>e \<in> set (failures c'). \<exists>x. e = Other x) \<and> (\<forall>d \<in> set out. call_datagram P p d)"
    using call_reach.step[OF assms r] c' d
    by (simp add: call_ok_def bridge_ok_def incoming_cap_def captured_cap_def playback_cap_def)
qed

lemma call_starts: "\<exists>c. call_start now newAudioBridge = Ok c \<and> call_reach P p now c"
  using call_start_ok call_reach.start by metis

theorem call_is_safe_witness:
  "\<forall>P p. \<exists>c out c'. call_start 0 newAudioBridge = Ok c \<and>
     call_step P p (AudioCallback [1, 2, 3] (replicate 321 0)) c = Ok (out, c') \<and> length (captured (bridge c')) \<le> 4"
proof (intro allI)
  fix P p
  obtain c where c: "call_start 0 newAudioBridge = Ok c" "call_reach P p 0 c" using call_starts by blast
  have "\<not> encode_panic (AudioCallback xs ys) q" for xs ys q by (simp add: encode_panic_def)
  then obtain out c' where "call_step P p (AudioCallback [1, 2, 3] (replicate 321 0)) c = Ok (out, c')"
      "length (captured (bridge c')) \<le> 4"
    using call_is_safe[OF c(2), of "AudioCallback [1, 2, 3] (replicate 321 0)"] by (auto simp: spec_def split: sum.splits)
  then show "\<exists>c out c'. call_start 0 newAudioBridge = Ok c \<and>
     call_step P p (AudioCallback [1, 2, 3] (replicate 321 0)) c = Ok (out, c') \<and> length (captured (bridge c')) \<le> 4"
    using c(1) by blast
qed

text \<open>C33: Every tick of the playout worker offers exactly one frame of 160 samples to the audio device: silence
  before the first audio and during the initial delay, then the decoded packet that is due, or
  concealment when it is missing.  The decoder never refuses, so ignoring its error is sound.\<close>

theorem tick_offers_frame:
  assumes "call_reach P p now c"
  shows "\<exists>taken j frame d c'. jtake (jitter c) = Ok (taken, j) \<and> tick_plays P taken (decoder c) frame d \<and>
    tick P c = Ok c' \<and> decoder c' = d \<and> jitter c' = j \<and>
    playback (bridge c') = try_send playback_cap frame (playback (bridge c))"
  using tick_ok[OF call_reach_ok[OF assms]] by fastforce

theorem tick_offers_frame_witness:
  "\<forall>P. \<exists>c c'. call_start 0 newAudioBridge = Ok c \<and> tick P c = Ok c' \<and> playback (bridge c') = [zero_frame_pcm]"
proof
  fix P
  obtain c where c: "call_start 0 newAudioBridge = Ok c" "call_reach P lan_peer 0 c" using call_starts by blast
  have z: "jitter c = zero_jitter" "bridge c = newAudioBridge"
    using c(1) by (auto simp: call_start_def bnd_eq_Ok)
  have "jtake zero_jitter = Ok ((zero_packet, False, False), zero_jitter)" by (simp add: jtake_def zero_jitter_def)
  then show "\<exists>c c'. call_start 0 newAudioBridge = Ok c \<and> tick P c = Ok c' \<and> playback (bridge c') = [zero_frame_pcm]"
    using tick_offers_frame[OF c(2)] c(1) z
    by (auto simp: tick_plays_def try_send_def playback_cap_def newAudioBridge_def)
qed

text \<open>C34: A call says goodbye once: when the audio device cannot be opened, nothing but a Bye is handed to
  the socket and the error of the device is returned.  Otherwise, whatever happens during the call,
  however it ends and whatever the workers still do until the socket is closed, a call that returns
  has handed one Bye to the socket, everything else it sent were Accepts and intact audio of the
  session, some of it possibly after the Bye, and its error is never one of the codec.  When the
  caller cancels and every worker gets a turn after the close, \<open>runCall\<close> returns with the error of
  the context.  The only panic is that of the encode worker on a frame in which \<open>sortSq\<close> is given
  a value that is not a number.\<close>

theorem call_ends_with_bye:
  "spec (run_panic (evs @ tail_events w)) (\<lambda>(out, err).
     (\<forall>dev. openAudio = Some dev \<longrightarrow> err = Some (Other dev) \<and> out = fst (send_result (bye_answer w) (control kindBye p))) \<and>
     (\<forall>e. err = Some e \<longrightarrow> (\<exists>x. e = Other x) \<and> bye_between P p w out) \<and>
     (err = None \<longrightarrow> (\<forall>d \<in> set out. call_datagram P p d) \<or> bye_between P p w out) \<and>
     (\<forall>e. openAudio = None \<and> ending = CallerCancels e \<and> all_return w \<longrightarrow> err = Some (Other e)))
    (runCall P p now openAudio evs ending w)"
  by (rule runCall_outcome)

text \<open>A call that its user ends: a tick goes by before the Bye, then the socket is closed and the workers
  return.\<close>

definition canceled_call :: farewell where
  "canceled_call = \<lparr>canceled_events = [TickerFires], bye_answer = (None, None), leaving_events = [],
     closed_events = [ContextDone Playing ''context canceled'', NetworkTurn (quiet_turn ReadTimeout),
       ContextDone Encoding ''context canceled'']\<rparr>"

theorem call_ends_with_bye_witness:
  "\<forall>P. \<exists>before after. runCall P lan_peer 0 None [TickerFires] (CallerCancels ''context canceled'') canceled_call =
     Ok (before @ [control kindBye lan_peer] @ after, Some (Other ''context canceled''))"
proof
  fix P
  have p: "\<not> run_panic ([TickerFires] @ tail_events canceled_call) q" for q
    by (simp add: run_panic_def tail_events_def canceled_call_def)
  have a: "all_return canceled_call"
    unfolding all_return_def by (rule conjI, simp add: canceled_call_def, rule allI, case_tac x) (auto simp: canceled_call_def)
  have b: "fst (send_result (bye_answer canceled_call) d) = [d]" for d
    by (simp add: canceled_call_def send_result_def)
  let ?run = "runCall P lan_peer 0 None [TickerFires] (CallerCancels ''context canceled'') canceled_call"
  obtain out where out: "?run = Ok (out, Some (Other ''context canceled''))" "bye_between P lan_peer canceled_call out"
    using call_ends_with_bye[where evs = "[TickerFires]" and w = canceled_call and P = P and p = lan_peer and openAudio = None
      and ending = "CallerCancels ''context canceled''" and now = 0] p a
    by (auto simp: spec_def split: sum.splits)
  then obtain before after where "out = before @ fst (send_result (bye_answer canceled_call) (control kindBye lan_peer)) @ after"
    unfolding bye_between_def by blast
  then show "\<exists>before after. ?run = Ok (before @ [control kindBye lan_peer] @ after, Some (Other ''context canceled''))"
    using out(1) unfolding b by blast
qed

end
