(* ===== verification/EndToEnd.thy ===== *)
theory EndToEnd
  imports Session Call
begin

text \<open>
  The way of a frame from the microphone of one call to the reorder buffer of another: the encode
  worker of the sender, the wire format, the receive worker and the playout worker of the
  receiver.
\<close>










end
