(* ===== verification/Ledger.thy ===== *)
theory Ledger
  imports Prelude
begin

text \<open>
  What a program has to do with the resources it gets from the operating system: devices, buffers,
  events, pinned memory.  A ledger records what it does, and \<open>audit\<close> checks it: nothing is
  acquired twice, used or released without being held, acquired without the resources it rests on,
  or released while something still rests on it.  The locale \<open>resources\<close> fixes what rests on what;
  each audio back end of the talk command interprets it on its own resources.
\<close>

datatype 'r act = Acquire 'r | Use 'r | Release 'r

text \<open>\<open>needs r\<close> are the resources that \<open>r\<close> rests on.\<close>

fun account :: "('r \<Rightarrow> 'r list) \<Rightarrow> 'r act \<Rightarrow> 'r list \<Rightarrow> 'r list option" where
  "account needs (Acquire r) held =
     (if r \<notin> set held \<and> list_all (\<lambda>p. p \<in> set held) (needs r) then Some (r # held) else None)"
| "account needs (Use r) held = (if r \<in> set held then Some held else None)"
| "account needs (Release r) held =
     (if r \<in> set held \<and> list_all (\<lambda>c. r \<notin> set (needs c)) held then Some (removeAll r held) else None)"

fun audit :: "('r \<Rightarrow> 'r list) \<Rightarrow> 'r act list \<Rightarrow> 'r list \<Rightarrow> 'r list option" where
  "audit needs [] held = Some held"
| "audit needs (a # acts) held = Option.bind (account needs a held) (audit needs acts)"

lemma audit_append [simp]:
  "audit needs (xs @ ys) held = Option.bind (audit needs xs held) (audit needs ys)"
  by (induction xs arbitrary: held) (auto simp: Option.bind_assoc split: Option.bind_splits)

text \<open>A ledger that passes holds each resource once, with all it rests on.\<close>

definition founded :: "('r \<Rightarrow> 'r list) \<Rightarrow> 'r list \<Rightarrow> bool" where
  "founded needs held \<longleftrightarrow> distinct held \<and> (\<forall>r \<in> set held. set (needs r) \<subseteq> set held)"

locale resources =
  fixes needs :: "'r \<Rightarrow> 'r list" and rank :: "'r \<Rightarrow> nat"
  assumes below: "p \<in> set (needs r) \<Longrightarrow> rank p < rank r"
begin

lemma account_founded:
  assumes "account needs a held = Some held'" "founded needs held"
  shows "founded needs held'"
proof (cases a)
  case (Acquire r)
  then have "held' = r # held" "r \<notin> set held" "set (needs r) \<subseteq> set held"
    using assms(1) by (auto simp: list_all_iff split: if_splits)
  then show ?thesis using assms(2) unfolding founded_def by auto
next
  case (Release r)
  then have "held' = removeAll r held" "\<forall>c \<in> set held. r \<notin> set (needs c)"
    using assms(1) by (auto simp: list_all_iff split: if_splits)
  then show ?thesis using assms(2) unfolding founded_def by (auto simp: distinct_removeAll)
qed (use assms in \<open>auto split: if_splits\<close>)

lemma audit_founded:
  "audit needs acts held = Some held' \<Longrightarrow> founded needs held \<Longrightarrow> founded needs held'"
proof (induction acts arbitrary: held)
  case (Cons a acts)
  then obtain h where "account needs a held = Some h" "audit needs acts h = Some held'"
    by (auto simp: bind_eq_Some_conv)
  then show ?case using Cons.IH account_founded Cons.prems(2) by blast
qed simp

text \<open>There is always a way out: of what is held, something can be released.\<close>

lemma can_release:
  assumes "held \<noteq> []"
  shows "\<exists>r \<in> set held. account needs (Release r) held = Some (removeAll r held)"
proof -
  have "Max (rank ` set held) \<in> rank ` set held" by (rule Max_in) (use assms in auto)
  then obtain r where r: "r \<in> set held" "Max (rank ` set held) = rank r" by auto
  then have "\<forall>c \<in> set held. rank c \<le> rank r" by (metis Max_ge finite_imageI finite_set imageI)
  then have "r \<notin> set (needs c)" if "c \<in> set held" for c
    using that below[of r c] \<open>\<forall>c \<in> set held. rank c \<le> rank r\<close> by (meson linorder_not_less)
  then show ?thesis using r(1) by (auto simp: list_all_iff)
qed

lemma can_release_all: "\<exists>rs. audit needs (map Release rs) held = Some []"
proof (induction "length held" arbitrary: held rule: less_induct)
  case less
  show ?case
  proof (cases "held = []")
    case True
    then show ?thesis by (intro exI[of _ "[]"]) simp
  next
    case False
    then obtain r where r: "r \<in> set held" "account needs (Release r) held = Some (removeAll r held)"
      using can_release by blast
    have "length (removeAll r held) < length held" using r(1) by (rule length_removeAll_less)
    from less[OF this] obtain rs where "audit needs (map Release rs) (removeAll r held) = Some []" by blast
    then show ?thesis using r(2) by (intro exI[of _ "r # rs"]) (simp del: account.simps)
  qed
qed

text \<open>A resource that was acquired in a balanced ledger was released.\<close>

lemma acquired_released:
  assumes "audit needs acts held = Some held'" "Acquire r \<in> set acts" "r \<notin> set held'"
  shows "Release r \<in> set acts"
  using assms
proof (induction acts arbitrary: held)
  case (Cons a acts)
  obtain h where h: "account needs a held = Some h" "audit needs acts h = Some held'"
    using Cons.prems(1) by (auto simp: bind_eq_Some_conv)
  have keep: "Release r \<in> set acts" if "r \<in> set h" "audit needs acts h = Some held'" for h acts
    using that Cons.prems(3)
  proof (induction acts arbitrary: h)
    case (Cons b acts)
    then obtain k where k: "account needs b h = Some k" "audit needs acts k = Some held'"
      by (auto simp: bind_eq_Some_conv)
    show ?case
    proof (cases "b = Release r")
      case False
      then have "r \<in> set k" using k(1) Cons.prems(1) by (cases b) (auto split: if_splits)
      then show ?thesis using Cons.IH[OF _ k(2)] Cons.prems(3) by simp
    qed simp
  qed simp
  show ?case
  proof (cases "Acquire r \<in> set acts")
    case True
    then show ?thesis using Cons.IH[OF h(2)] Cons.prems(3) by simp
  next
    case False
    then have "r \<in> set h" using Cons.prems(2) h(1) by (auto split: if_splits)
    then show ?thesis using keep h(2) by simp
  qed
qed simp

end

text \<open>Calls of the operating system.  \<open>A n\<close> is the answer to the \<open>n\<close>-th call.\<close>

record 'r system =
  calls :: nat
  acts :: "'r act list"

definition syscall :: "(nat \<Rightarrow> 'a) \<Rightarrow> ('a \<Rightarrow> 'r act list) \<Rightarrow> 'r system \<Rightarrow> 'a \<times> 'r system" where
  "syscall A effect s = (A (calls s), s\<lparr>calls := calls s + 1, acts := acts s @ effect (A (calls s))\<rparr>)"

definition nothing_done :: "'r system" where
  "nothing_done = \<lparr>calls = 0, acts = []\<rparr>"

text \<open>What is held, as a set: when a ledger may go on, and what it holds then.\<close>

fun permits :: "('r \<Rightarrow> 'r list) \<Rightarrow> 'r act \<Rightarrow> 'r set \<Rightarrow> bool" where
  "permits needs (Acquire r) H \<longleftrightarrow> r \<notin> H \<and> set (needs r) \<subseteq> H"
| "permits needs (Use r) H \<longleftrightarrow> r \<in> H"
| "permits needs (Release r) H \<longleftrightarrow> r \<in> H \<and> (\<forall>c \<in> H. r \<notin> set (needs c))"

fun posted :: "'r act \<Rightarrow> 'r set \<Rightarrow> 'r set" where
  "posted (Acquire r) H = insert r H"
| "posted (Use r) H = H"
| "posted (Release r) H = H - {r}"

fun permits_all :: "('r \<Rightarrow> 'r list) \<Rightarrow> 'r act list \<Rightarrow> 'r set \<Rightarrow> bool" where
  "permits_all needs [] H = True"
| "permits_all needs (a # as) H = (permits needs a H \<and> permits_all needs as (posted a H))"

lemma account_permits:
  "permits needs a (set h) \<Longrightarrow> \<exists>h'. account needs a h = Some h' \<and> set h' = posted a (set h)"
  by (cases a) (auto simp: list_all_iff)

lemma audit_permits:
  "permits_all needs as (set h) \<Longrightarrow> \<exists>h'. audit needs as h = Some h' \<and> set h' = fold posted as (set h)"
proof (induction as arbitrary: h)
  case (Cons a as)
  then obtain h1 where h1: "account needs a h = Some h1" "set h1 = posted a (set h)"
    using account_permits[of needs a h] by auto
  then show ?case using Cons.IH[of h1] Cons.prems by simp
qed simp

definition held :: "('r \<Rightarrow> 'r list) \<Rightarrow> 'r system \<Rightarrow> 'r list" where
  "held needs s = (case audit needs (acts s) [] of Some h \<Rightarrow> h | None \<Rightarrow> [])"

definition holds :: "('r \<Rightarrow> 'r list) \<Rightarrow> 'r system \<Rightarrow> 'r set \<Rightarrow> bool" where
  "holds needs s H \<longleftrightarrow> (\<exists>h. audit needs (acts s) [] = Some h \<and> set h = H)"

lemma holds_held: "holds needs s H \<Longrightarrow> set (held needs s) = H"
  by (auto simp: holds_def held_def)

lemma holds_nothing_done: "holds needs nothing_done {}"
  by (simp add: holds_def nothing_done_def)

lemma holds_empty: "holds needs s {} \<longleftrightarrow> audit needs (acts s) [] = Some []"
  by (auto simp: holds_def)

lemma holds_acts:
  assumes "holds needs s H" "permits_all needs as H"
  shows "holds needs (s\<lparr>acts := acts s @ as\<rparr>) (fold posted as H)"
proof -
  obtain h where h: "audit needs (acts s) [] = Some h" "set h = H" using assms(1) by (auto simp: holds_def)
  obtain h' where "audit needs as h = Some h'" "set h' = fold posted as H"
    using audit_permits[of needs as h] assms(2) h(2) by auto
  then show ?thesis using h by (simp add: holds_def)
qed

lemma holds_syscall:
  assumes "holds needs s H" "syscall A f s = (r, s')" "permits_all needs (f r) H"
  shows "holds needs s' (fold posted (f r) H)"
  using holds_acts[OF assms(1,3)] assms(2) by (auto simp: syscall_def holds_def)

end
