(* ===== verification/WinAudio.thy ===== *)
theory WinAudio
  imports AudioBridge Ledger Decimal
begin

text \<open>
  audio_windows.go of the talk command: the microphone and the loudspeaker through winmm.dll.  The
  system calls are the environment: \<open>A name rs s\<close> is the answer to a call of the name on the
  resources \<open>rs\<close> after all that has been done before, a code and, for the calls of kernel32.dll,
  the text of the error.  What the program acquires and releases is written to a ledger (theory
  Ledger); a release is written only when the call that makes it succeeds.  A device is known by its
  direction, \<open>True\<close> for the microphone.
\<close>

type_synonym error = string

section \<open>Resources\<close>

text \<open>The three events, the two devices, their prepared buffers, the buffers in the queue of the driver
  and the pinned memory of the buffers.  A device signals its event; the driver keeps the addresses
  of a prepared buffer, and it works on a queued one.\<close>

datatype win = Event nat | Device bool | Buffer bool nat | Queued bool nat | Pinned bool nat

fun win_needs :: "win \<Rightarrow> win list" where
  "win_needs (Device inp) = [Event (if inp then 0 else 1)]"
| "win_needs (Buffer inp i) = [Device inp, Pinned inp i]"
| "win_needs (Queued inp i) = [Buffer inp i]"
| "win_needs _ = []"

fun win_rank :: "win \<Rightarrow> nat" where
  "win_rank (Device inp) = 1"
| "win_rank (Buffer inp i) = 2"
| "win_rank (Queued inp i) = 3"
| "win_rank _ = 0"

interpretation win: resources win_needs win_rank
proof
  show "p \<in> set (win_needs r) \<Longrightarrow> win_rank p < win_rank r" for p r by (cases r) auto
qed

type_synonym win_system = "win system"
type_synonym answers = "string \<Rightarrow> win list \<Rightarrow> win_system \<Rightarrow> nat \<times> string"

section \<open>Devices\<close>

record waveBuffer =
  wpcm :: "byte list"
  prepared :: bool

text \<open>\<open>dnext\<close> is the buffer that is finished next, \<open>dpins\<close> what the pinner holds.\<close>

record waveDevice =
  dinput :: bool
  dbuffers :: "waveBuffer list"
  dnext :: int
  dpins :: "nat list"

text \<open>\<open>waveCall\<close> on a device or a buffer: what it does to the ledger depends on whether the call
  succeeds.\<close>

definition waveCall :: "answers \<Rightarrow> string \<Rightarrow> win \<Rightarrow> win act list \<Rightarrow> win act list \<Rightarrow> win_system \<Rightarrow> error option \<times> win_system" where
  "waveCall A name r done failed s =
     (let ((code, _), s) = syscall (\<lambda>_. A name [r] s) (\<lambda>(code, _). if code \<noteq> 0 then failed else done) s in
      (if code \<noteq> 0 then Some (name @ '': audio error '' @ show_nat code @
         '' (check default devices and microphone permissions)'') else None, s))"

definition wave_function :: "bool \<Rightarrow> string \<Rightarrow> string" where
  "wave_function inp name = (if inp then ''waveIn'' else ''waveOut'') @ name"

text \<open>A buffer that is submitted is in the queue of the driver.\<close>

definition wave_submit :: "answers \<Rightarrow> bool \<Rightarrow> nat \<Rightarrow> win_system \<Rightarrow> error option \<times> win_system" where
  "wave_submit A inp i =
     waveCall A (if inp then ''waveInAddBuffer'' else ''waveOutWrite'') (Buffer inp i) [Acquire (Queued inp i)] [Use (Buffer inp i)]"

text \<open>\<open>Reset\<close> takes all buffers out of the queue.  The errors of the calls of \<open>close\<close> are ignored, and
  the memory is unpinned whatever they are.\<close>

definition queued :: "bool \<Rightarrow> win_system \<Rightarrow> nat list" where
  "queued inp s = filter (\<lambda>i. Queued inp i \<in> set (held win_needs s)) [0..<3]"

fun unprepare :: "answers \<Rightarrow> bool \<Rightarrow> (nat \<times> waveBuffer) list \<Rightarrow> win_system \<Rightarrow> win_system" where
  "unprepare A inp [] s = s"
| "unprepare A inp ((i, b) # bs) s =
     unprepare A inp bs
       (if prepared b
        then snd (waveCall A (wave_function inp ''UnprepareHeader'') (Buffer inp i) [Release (Buffer inp i)] [Use (Buffer inp i)] s)
        else s)"

definition wave_close :: "answers \<Rightarrow> waveDevice \<Rightarrow> win_system \<Rightarrow> win_system" where
  "wave_close A d s =
     (let inp = dinput d;
          s = snd (waveCall A (wave_function inp ''Reset'') (Device inp)
                (Use (Device inp) # map (\<lambda>i. Release (Queued inp i)) (queued inp s)) [Use (Device inp)] s);
          s = unprepare A inp (List.enumerate 0 (dbuffers d)) s;
          s = snd (waveCall A (wave_function inp ''Close'') (Device inp) [Release (Device inp)] [Use (Device inp)] s)
      in s\<lparr>acts := acts s @ map (\<lambda>i. Release (Pinned inp i)) (dpins d)\<rparr>)"

text \<open>The loop of \<open>openWave\<close> over the buffers; on an error the device is closed.\<close>

fun open_buffers :: "answers \<Rightarrow> nat list \<Rightarrow> waveDevice \<Rightarrow> win_system \<Rightarrow> (error + waveDevice) \<times> win_system" where
  "open_buffers A [] d s = (Inr d, s)"
| "open_buffers A (i # is) d s =
     (let inp = dinput d;
          s = s\<lparr>acts := acts s @ [Acquire (Pinned inp i)]\<rparr>; d = d\<lparr>dpins := dpins d @ [i]\<rparr>;
          (err, s) = waveCall A (wave_function inp ''PrepareHeader'') (Buffer inp i) [Acquire (Buffer inp i)] [] s
      in case err of
        Some e \<Rightarrow> (Inl e, wave_close A d s)
      | None \<Rightarrow>
          let d = d\<lparr>dbuffers := (dbuffers d)[i := (dbuffers d ! i)\<lparr>prepared := True\<rparr>]\<rparr>;
              (err, s) = wave_submit A inp i s
          in case err of
            Some e \<Rightarrow> (Inl e, wave_close A d s)
          | None \<Rightarrow> open_buffers A is d s)"

definition openWave :: "answers \<Rightarrow> bool \<Rightarrow> win_system \<Rightarrow> (error + waveDevice) \<times> win_system" where
  "openWave A inp s =
     (let d = \<lparr>dinput = inp, dbuffers = replicate 3 \<lparr>wpcm = replicate 320 0, prepared = False\<rparr>, dnext = 0, dpins = []\<rparr>;
          (err, s) = waveCall A (wave_function inp ''Open'') (Device inp) [Acquire (Device inp)] [] s
      in case err of
        Some e \<Rightarrow> (Inl e, s)
      | None \<Rightarrow>
          (case open_buffers A [0, 1, 2] d s of
            (Inl e, s) \<Rightarrow> (Inl e, s)
          | (Inr d, s) \<Rightarrow>
              if inp then
                (case waveCall A ''waveInStart'' (Device inp) [Use (Device inp)] [Use (Device inp)] s of
                  (Some e, s) \<Rightarrow> (Inl e, wave_close A d s)
                | (None, s) \<Rightarrow> (Inr d, s))
              else (Inr d, s)))"

section \<open>startAudio\<close>

text \<open>\<open>closeEvents\<close> closes the events that exist; \<open>n\<close> of them do.\<close>

fun close_events :: "answers \<Rightarrow> nat list \<Rightarrow> win_system \<Rightarrow> win_system" where
  "close_events A [] s = s"
| "close_events A (k # ks) s = close_events A ks 
     (snd (syscall (\<lambda>_. A ''CloseHandle'' [Event k] s) (\<lambda>(ok, _). if ok \<noteq> 0 then [Release (Event k)] else [Use (Event k)]) s))"

fun create_events :: "answers \<Rightarrow> nat list \<Rightarrow> nat list \<Rightarrow> win_system \<Rightarrow> error option \<times> win_system" where
  "create_events A [] created s = (None, s)"
| "create_events A (k # ks) created s =
     (let ((event, err), s) = syscall (\<lambda>_. A ''CreateEventW'' [Event k] s) (\<lambda>(event, _). if event = 0 then [] else [Acquire (Event k)]) s in
      if event = 0 then (Some (''create audio event: '' @ err), close_events A created s)
      else create_events A ks (created @ [k]) s)"

definition startAudio_windows :: "answers \<Rightarrow> win_system \<Rightarrow> (error + waveDevice \<times> waveDevice) \<times> win_system" where
  "startAudio_windows A s =
     (case create_events A [0, 1, 2] [] s of
        (Some e, s) \<Rightarrow> (Inl e, s)
      | (None, s) \<Rightarrow>
          (case openWave A True s of
             (Inl e, s) \<Rightarrow> (Inl e, close_events A [0, 1, 2] s)
           | (Inr din, s) \<Rightarrow>
               (case openWave A False s of
                  (Inl e, s) \<Rightarrow> (Inl e, close_events A [0, 1, 2] (wave_close A din s))
                | (Inr dout, s) \<Rightarrow> (Inr (din, dout), s))))"


section \<open>The audio thread\<close>

text \<open>A wake-up of the thread: the buffers each device has finished, in order, with the bytes the
  microphone recorded.  The loop handles at most three of each device and stops at the first that
  is not done.\<close>

record wake =
  recorded :: "(nat \<times> byte list) list"
  played_out :: nat

record audio_thread =
  mic :: waveDevice
  speaker :: waveDevice
  on_bridge :: audioBridge
  os :: win_system

text \<open>One finished buffer, which the driver has taken out of its queue; for the microphone \<open>data\<close> is what
  the driver left in it and \<open>n\<close> the header's \<open>recorded\<close>.\<close>

definition buffer_done :: "waveDevice \<Rightarrow> win_system \<Rightarrow> win_system" where
  "buffer_done d s = s\<lparr>acts := acts s @ [Release (Queued (dinput d) (nat (dnext d)))]\<rparr>"

definition service ::
  "answers \<Rightarrow> nat \<Rightarrow> byte list \<Rightarrow> waveDevice \<times> audioBridge \<times> win_system \<Rightarrow>
   (error option \<times> waveDevice \<times> audioBridge \<times> win_system) res" where
  "service A n data = (\<lambda>(d, b, s).
     bnd (idx (dbuffers d) (dnext d)) (\<lambda>buf.
     bnd (if dinput d then
            bnd (sub data 0 (int (min n (length data)))) (\<lambda>bytes.
            bnd (process [] bytes b) (\<lambda>(_, b). Ok (data, b)))
          else process (wpcm buf) [] b) (\<lambda>(data, b).
     bnd (upd (dbuffers d) (dnext d) (buf\<lparr>wpcm := data\<rparr>)) (\<lambda>bs.
     let d = d\<lparr>dbuffers := bs\<rparr>; (err, s) = wave_submit A (dinput d) (nat (dnext d)) (buffer_done d s) in
     case err of
       Some e \<Rightarrow> Ok (Some e, d, bridge_fail e b, s)
     | None \<Rightarrow> Ok (None, d\<lparr>dnext := (dnext d + 1) mod 3\<rparr>, b, s)))))"

fun service_all ::
  "answers \<Rightarrow> (nat \<times> byte list) list \<Rightarrow> waveDevice \<times> audioBridge \<times> win_system \<Rightarrow>
   (error option \<times> waveDevice \<times> audioBridge \<times> win_system) res" where
  "service_all A [] t = (case t of (d, b, s) \<Rightarrow> Ok (None, d, b, s))"
| "service_all A ((n, data) # rest) t =
     bnd (service A n data t) (\<lambda>(err, d, b, s).
     case err of Some e \<Rightarrow> Ok (Some e, d, b, s) | None \<Rightarrow> service_all A rest (d, b, s))"

definition devices_served :: "answers \<Rightarrow> wake \<Rightarrow> audio_thread \<Rightarrow> (error option \<times> audio_thread) res" where
  "devices_served A w t =
     bnd (service_all A (take 3 (recorded w)) (mic t, on_bridge t, os t)) (\<lambda>(err, d, b, s).
     let t = t\<lparr>mic := d, on_bridge := b, os := s\<rparr> in
     case err of
       Some e \<Rightarrow> Ok (Some e, t)
     | None \<Rightarrow>
         bnd (service_all A (replicate (min 3 (played_out w)) (0, [])) (speaker t, on_bridge t, os t)) (\<lambda>(err, d, b, s).
         Ok (err, t\<lparr>speaker := d, on_bridge := b, os := s\<rparr>)))"

text \<open>The deferred calls, the last one first.\<close>

definition thread_returns :: "answers \<Rightarrow> audio_thread \<Rightarrow> audio_thread" where
  "thread_returns A t = t\<lparr>os := wave_close A (mic t) (wave_close A (speaker t) (os t))\<rparr>"

definition wait_events :: "answers \<Rightarrow> win_system \<Rightarrow> (nat \<times> string) \<times> win_system" where
  "wait_events A s = syscall (\<lambda>_. A ''WaitForMultipleObjects'' [Event 0, Event 1, Event 2] s)
     (\<lambda>_. [Use (Event 0), Use (Event 1), Use (Event 2)]) s"

fun audio_thread_run :: "answers \<Rightarrow> wake list \<Rightarrow> audio_thread \<Rightarrow> (bool \<times> audio_thread) res" where
  "audio_thread_run A [] t = Ok (False, t)"
| "audio_thread_run A (w # ws) t =
     (let ((result, err), s) = wait_events A (os t); t = t\<lparr>os := s\<rparr> in
      if result = 2 then Ok (True, thread_returns A t)
      else if 2 < result then
        Ok (True, thread_returns A (t\<lparr>on_bridge := bridge_fail (''wait for audio: '' @ err) (on_bridge t)\<rparr>))
      else
        bnd (devices_served A w t) (\<lambda>(err, t).
        case err of Some e \<Rightarrow> Ok (True, thread_returns A t) | None \<Rightarrow> audio_thread_run A ws t))"

text \<open>The function that \<open>startAudio\<close> returns: it signals the third event, waits for the thread and
  closes the events.  \<open>ws\<close> are the wake-ups of the thread after the signal; while the thread has
  not ended, the caller still waits.\<close>

definition stop_windows :: "answers \<Rightarrow> wake list \<Rightarrow> bool \<times> audio_thread \<Rightarrow> (bool \<times> audio_thread) res" where
  "stop_windows A ws = (\<lambda>(ended, t).
     let t = t\<lparr>os := snd (syscall (\<lambda>_. A ''SetEvent'' [Event 2] (os t)) (\<lambda>_. [Use (Event 2)]) (os t))\<rparr> in
     bnd (if ended then Ok (True, t) else audio_thread_run A ws t) (\<lambda>(ended, t).
     Ok (ended, if ended then t\<lparr>os := close_events A [0, 1, 2] (os t)\<rparr> else t)))"

section \<open>The documented behaviour of the system\<close>

text \<open>A reset of an open device succeeds, a buffer that the driver does not work on can be unprepared, a
  device with no buffer left can be closed, and so can an event; every other call may fail at any
  time.\<close>

definition winmm :: "answers \<Rightarrow> bool" where
  "winmm A \<longleftrightarrow>
     (\<forall>inp s. Device inp \<in> set (held win_needs s) \<longrightarrow> fst (A (wave_function inp ''Reset'') [Device inp] s) = 0) \<and>
     (\<forall>inp i s. Buffer inp i \<in> set (held win_needs s) \<and> Queued inp i \<notin> set (held win_needs s) \<longrightarrow>
        fst (A (wave_function inp ''UnprepareHeader'') [Buffer inp i] s) = 0) \<and>
     (\<forall>inp s. Device inp \<in> set (held win_needs s) \<and> (\<forall>i. Buffer inp i \<notin> set (held win_needs s)) \<longrightarrow>
        fst (A (wave_function inp ''Close'') [Device inp] s) = 0) \<and>
     (\<forall>k s. Event k \<in> set (held win_needs s) \<longrightarrow> fst (A ''CloseHandle'' [Event k] s) \<noteq> 0)"

lemma winmm_reset:
  assumes "winmm A" "holds win_needs s H" "Device inp \<in> H"
  shows "fst (A (wave_function inp ''Reset'') [Device inp] s) = 0"
  using assms(1,3-) unfolding winmm_def holds_held[OF assms(2), symmetric] by blast

lemma winmm_unprepare:
  assumes "winmm A" "holds win_needs s H" "Buffer inp i \<in> H" "Queued inp i \<notin> H"
  shows "fst (A (wave_function inp ''UnprepareHeader'') [Buffer inp i] s) = 0"
  using assms(1,3-) unfolding winmm_def holds_held[OF assms(2), symmetric] by blast

lemma winmm_close:
  assumes "winmm A" "holds win_needs s H" "Device inp \<in> H" "\<And>i. Buffer inp i \<notin> H"
  shows "fst (A (wave_function inp ''Close'') [Device inp] s) = 0"
  using assms(1,3-) unfolding winmm_def holds_held[OF assms(2), symmetric] by blast

lemma winmm_event:
  assumes "winmm A" "holds win_needs s H" "Event k \<in> H"
  shows "fst (A ''CloseHandle'' [Event k] s) \<noteq> 0"
  using assms(1,3) unfolding winmm_def holds_held[OF assms(2), symmetric] by blast

section \<open>The books\<close>

abbreviation books :: "win_system \<Rightarrow> win set \<Rightarrow> bool" where
  "books \<equiv> holds win_needs"

lemma waveCall_books:
  assumes "books s H" "waveCall A name r dn failed s = (err, s')"
    "permits_all win_needs (if err = None then dn else failed) H"
  shows "books s' (fold posted (if err = None then dn else failed) H)"
proof -
  obtain code msg s1 where c: "syscall (\<lambda>_. A name [r] s) (\<lambda>(code, _). if code \<noteq> 0 then failed else dn) s = ((code, msg), s1)"
    by (metis surj_pair)
  have e: "s1 = s'" "(err = None) = (code = 0)" using assms(2) c by (auto simp: waveCall_def split: if_splits)
  show ?thesis using holds_syscall[OF assms(1) c] assms(3) e by (cases "code = 0"; cases err) simp_all
qed

text \<open>A call that is documented to succeed.\<close>

lemma waveCall_succeeds:
  assumes "books s H" "fst (A name [r] s) = 0" "permits_all win_needs dn H"
  shows "books (snd (waveCall A name r dn failed s)) (fold posted dn H)"
proof -
  obtain err s' where c: "waveCall A name r dn failed s = (err, s')" by fastforce
  have "err = None" using c assms(2) by (auto simp: waveCall_def syscall_def split: prod.splits if_splits)
  then show ?thesis using waveCall_books[OF assms(1) c] assms(3) c by simp
qed

lemma needed [simp]:
  "Queued inp i \<notin> set (win_needs c)" "Buffer inp i \<in> set (win_needs c) \<longleftrightarrow> c = Queued inp i"
  "Device inp \<in> set (win_needs c) \<longleftrightarrow> (\<exists>i. c = Buffer inp i)" "Pinned inp i \<in> set (win_needs c) \<longleftrightarrow> c = Buffer inp i"
  "Event k \<in> set (win_needs c) \<longleftrightarrow> c = Device True \<and> k = 0 \<or> c = Device False \<and> k = 1"
  by (cases c; auto)+

text \<open>A device with its prepared, queued and pinned buffers.\<close>

definition owned :: "bool \<Rightarrow> nat set \<Rightarrow> nat set \<Rightarrow> nat set \<Rightarrow> win set" where
  "owned inp B Q K = insert (Device inp) (Buffer inp ` B \<union> Queued inp ` Q \<union> Pinned inp ` K)"

lemma owned_iff [simp]:
  "Event k \<notin> owned inp B Q K" "Device j \<in> owned inp B Q K \<longleftrightarrow> j = inp"
  "Buffer j i \<in> owned inp B Q K \<longleftrightarrow> j = inp \<and> i \<in> B" "Queued j i \<in> owned inp B Q K \<longleftrightarrow> j = inp \<and> i \<in> Q"
  "Pinned j i \<in> owned inp B Q K \<longleftrightarrow> j = inp \<and> i \<in> K"
  by (auto simp: owned_def)

text \<open>Nothing of the device \<open>inp\<close> is in \<open>R\<close>.\<close>

definition apart :: "bool \<Rightarrow> win set \<Rightarrow> bool" where
  "apart inp R \<longleftrightarrow> Device inp \<notin> R \<and> (\<forall>i. Buffer inp i \<notin> R \<and> Queued inp i \<notin> R \<and> Pinned inp i \<notin> R)"

lemma apart_iff [simp]:
  assumes "apart inp R"
  shows "Device inp \<notin> R" "Buffer inp i \<notin> R" "Queued inp i \<notin> R" "Pinned inp i \<notin> R"
  using assms by (simp_all add: apart_def)

lemma owned_post:
  assumes "apart inp R"
  shows "insert (Buffer inp i) (owned inp B Q K \<union> R) = owned inp (insert i B) Q K \<union> R"
    "insert (Queued inp i) (owned inp B Q K \<union> R) = owned inp B (insert i Q) K \<union> R"
    "insert (Pinned inp i) (owned inp B Q K \<union> R) = owned inp B Q (insert i K) \<union> R"
    "owned inp B Q K \<union> R - {Buffer inp i} = owned inp (B - {i}) Q K \<union> R"
    "owned inp B Q K \<union> R - {Queued inp i} = owned inp B (Q - {i}) K \<union> R"
    "owned inp {} {} K \<union> R - {Device inp} = Pinned inp ` K \<union> R"
  using assms unfolding apart_def owned_def by auto

lemma dequeue:
  assumes R: "apart inp R"
  shows "set qs \<subseteq> Q \<Longrightarrow> distinct qs \<Longrightarrow>
     permits_all win_needs (map (\<lambda>i. Release (Queued inp i)) qs) (owned inp B Q K \<union> R) \<and>
     fold posted (map (\<lambda>i. Release (Queued inp i)) qs) (owned inp B Q K \<union> R) = owned inp B (Q - set qs) K \<union> R"
proof (induction qs arbitrary: Q)
  case (Cons q qs)
  have sub: "set qs \<subseteq> Q - {q}" "distinct qs" "q \<in> Q" using Cons.prems by auto
  have "Q - {q} - set qs = Q - set (q # qs)" by auto
  then show ?case using Cons.IH[OF sub(1,2)] sub(3) by (simp add: owned_post[OF R])
qed simp

lemma unpin:
  assumes R: "apart inp R"
  shows "distinct ps \<Longrightarrow>
     permits_all win_needs (map (\<lambda>i. Release (Pinned inp i)) ps) (Pinned inp ` set ps \<union> R) \<and>
     fold posted (map (\<lambda>i. Release (Pinned inp i)) ps) (Pinned inp ` set ps \<union> R) = R"
proof (induction ps)
  case (Cons q ps)
  have e: "insert (Pinned inp q) (Pinned inp ` set ps \<union> R) - {Pinned inp q} = Pinned inp ` set ps \<union> R"
  proof -
    have "Pinned inp q \<notin> Pinned inp ` set ps \<union> R" using Cons.prems apart_iff(4)[OF R] by auto
    then show ?thesis by blast
  qed
  have "c \<noteq> Buffer inp q" if "c \<in> insert (Pinned inp q) (Pinned inp ` set ps \<union> R)" for c
    using that apart_iff(2)[OF R] by auto
  then have p: "permits win_needs (Release (Pinned inp q)) (insert (Pinned inp q) (Pinned inp ` set ps \<union> R))" by auto
  have i: "Pinned inp ` set (q # ps) \<union> R = insert (Pinned inp q) (Pinned inp ` set ps \<union> R)" by simp
  have "distinct ps" using Cons.prems by simp
  from Cons.IH[OF this] p show ?case unfolding i list.map permits_all.simps fold_simps posted.simps e by simp
qed simp

text \<open>The device with its first \<open>n\<close> buffers prepared.\<close>

definition opened :: "bool \<Rightarrow> nat \<Rightarrow> waveDevice \<Rightarrow> bool" where
  "opened inp n d \<longleftrightarrow> dinput d = inp \<and> map prepared (dbuffers d) = map (\<lambda>i. i < n) [0, 1, 2] \<and> 0 \<le> dnext d \<and> dnext d < 3"

lemma opened_buffers:
  assumes "opened inp n d"
  obtains a b c where "dbuffers d = [a, b, c]" "prepared a = (0 < n)" "prepared b = (1 < n)" "prepared c = (2 < n)" "dinput d = inp"
  using assms by (auto simp: opened_def map_eq_Cons_conv)

lemma unprepare_one:
  assumes A: "winmm A" and R: "apart inp R" and s: "books s (owned inp B {} K \<union> R)" and b: "prepared b = (i \<in> B)"
  shows "books (if prepared b
        then snd (waveCall A (wave_function inp ''UnprepareHeader'') (Buffer inp i) [Release (Buffer inp i)] [Use (Buffer inp i)] s)
        else s) (owned inp (B - {i}) {} K \<union> R)"
proof (cases "i \<in> B")
  case True
  have "fst (A (wave_function inp ''UnprepareHeader'') [Buffer inp i] s) = 0"
    by (rule winmm_unprepare[OF A s]) (use True R in auto)
  from waveCall_succeeds[where A = A and name = "wave_function inp ''UnprepareHeader''" and r = "Buffer inp i" and dn = "[Release (Buffer inp i)]" and failed = "[Use (Buffer inp i)]", OF s this]
  moreover have "\<forall>c \<in> owned inp B {} K \<union> R. c \<noteq> Queued inp i" using apart_iff(3)[OF R] by auto
  ultimately show ?thesis using b True R by (auto simp: owned_post)
next
  case False
  then show ?thesis using b s by simp
qed

lemma unprepare_books:
  assumes A: "winmm A" and R: "apart inp R"
  shows "books s (owned inp B {} K \<union> R) \<Longrightarrow> distinct (map fst ibs) \<Longrightarrow> \<forall>(i, b) \<in> set ibs. prepared b = (i \<in> B) \<Longrightarrow>
     books (unprepare A inp ibs s) (owned inp (B - fst ` set ibs) {} K \<union> R)"
proof (induction ibs arbitrary: s B)
  case (Cons ib ibs)
  obtain i b where ib: "ib = (i, b)" by (cases ib)
  have "prepared b = (i \<in> B)" using Cons.prems(3) by (simp add: ib)
  note one = unprepare_one[OF A R Cons.prems(1) this]
  have "\<forall>(j, b) \<in> set ibs. prepared b = (j \<in> B - {i})" using Cons.prems(2,3) by (force simp: ib)
  moreover have "B - {i} - fst ` set ibs = B - fst ` set (ib # ibs)" by (auto simp: ib)
  ultimately show ?case using Cons.IH[OF one] Cons.prems(2) unfolding ib unprepare.simps by simp
qed simp

lemma wave_close_books:
  assumes A: "winmm A" and R: "apart inp R" and d: "opened inp n d" "dpins d = [0..<k]" and n: "n \<le> 3"
    and Q: "Q \<subseteq> {..<n}" and s: "books s (owned inp {..<n} Q {..<k} \<union> R)"
  shows "books (wave_close A d s) R"
proof -
  obtain a b c where ab: "dbuffers d = [a, b, c]" "prepared a = (0 < n)" "prepared b = (1 < n)" "prepared c = (2 < n)" "dinput d = inp"
    by (rule opened_buffers[OF d(1)])
  define s1 where "s1 = snd (waveCall A (wave_function inp ''Reset'') (Device inp)
                (Use (Device inp) # map (\<lambda>i. Release (Queued inp i)) (queued inp s)) [Use (Device inp)] s)"
  have q: "set (queued inp s) = Q" "distinct (queued inp s)"
    using R Q n by (auto simp: queued_def holds_held[OF s])
  have "fst (A (wave_function inp ''Reset'') [Device inp] s) = 0"
    by (rule winmm_reset[OF A s]) simp
  moreover have "permits_all win_needs (Use (Device inp) # map (\<lambda>i. Release (Queued inp i)) (queued inp s)) (owned inp {..<n} Q {..<k} \<union> R)"
    and f: "fold posted (Use (Device inp) # map (\<lambda>i. Release (Queued inp i)) (queued inp s)) (owned inp {..<n} Q {..<k} \<union> R) =
      owned inp {..<n} {} {..<k} \<union> R"
    using dequeue[OF R, of "queued inp s" Q "{..<n}" "{..<k}"] q by simp_all
  ultimately have s1: "books s1 (owned inp {..<n} {} {..<k} \<union> R)"
    unfolding s1_def by (subst f[symmetric]) (rule waveCall_succeeds[OF s])
  define s2 where "s2 = unprepare A inp (List.enumerate 0 (dbuffers d)) s1"
  have ibs: "List.enumerate 0 (dbuffers d) = [(0, a), (1, b), (2, c)]" by (simp add: ab(1) numeral_eq_Suc)
  have none: "{..<n} - fst ` set (List.enumerate 0 (dbuffers d)) = {}" unfolding ibs using n by auto
  have "books s2 (owned inp ({..<n} - fst ` set (List.enumerate 0 (dbuffers d))) {} {..<k} \<union> R)"
    unfolding s2_def by (rule unprepare_books[OF A R s1]) (simp_all add: ibs ab numeral_eq_Suc)
  then have s2: "books s2 (owned inp {} {} {..<k} \<union> R)" unfolding none .
  define s3 where "s3 = snd (waveCall A (wave_function inp ''Close'') (Device inp) [Release (Device inp)] [Use (Device inp)] s2)"
  have "fst (A (wave_function inp ''Close'') [Device inp] s2) = 0"
    by (rule winmm_close[OF A s2]) (use R in simp_all)
  moreover have "\<forall>c \<in> owned inp {} {} {..<k} \<union> R. \<forall>i. c \<noteq> Buffer inp i" using apart_iff(2)[OF R] by auto
  moreover note waveCall_succeeds[where A = A and name = "wave_function inp ''Close''" and r = "Device inp" and dn = "[Release (Device inp)]" and failed = "[Use (Device inp)]", OF s2]
  ultimately have s3: "books s3 (Pinned inp ` set (dpins d) \<union> R)"
    using R by (auto simp: s3_def owned_post d(2) atLeast0LessThan)
  have "distinct (dpins d)" by (simp add: d(2))
  then have "books (s3\<lparr>acts := acts s3 @ map (\<lambda>i. Release (Pinned inp i)) (dpins d)\<rparr>) R"
    using holds_acts[OF s3, of "map (\<lambda>i. Release (Pinned inp i)) (dpins d)"] unpin[OF R] by simp
  then show ?thesis by (simp add: wave_close_def Let_def ab(5) s1_def s2_def s3_def)
qed

definition three :: "nat set" where "three = {..<3}"

lemma opened_closes:
  assumes "winmm A" "apart inp R" "opened inp 3 d" "dpins d = [0..<3]" "Q \<subseteq> three" "books s (owned inp three Q three \<union> R)"
  shows "books (wave_close A d s) R"
  using wave_close_books[OF assms(1-4) order_refl] assms(5,6) by (simp add: three_def)

section \<open>Opening a device\<close>

definition opens :: "bool \<Rightarrow> win set \<Rightarrow> (error + waveDevice) \<times> win_system \<Rightarrow> bool" where
  "opens inp R r \<longleftrightarrow> (case r of
     (Inl e, s) \<Rightarrow> books s R
   | (Inr d, s) \<Rightarrow> books s (owned inp three three three \<union> R) \<and> opened inp 3 d \<and> dpins d = [0..<3])"

lemma opened_next:
  "opened inp n d \<Longrightarrow> n < 3 \<Longrightarrow> opened inp (Suc n) (d\<lparr>dpins := ps, dbuffers := (dbuffers d)[n := (dbuffers d ! n)\<lparr>prepared := True\<rparr>]\<rparr>)"
  by (rule opened_buffers[of inp n d], assumption) (auto simp: opened_def less_Suc_eq numeral_eq_Suc)

lemma open_buffers_books:
  assumes A: "winmm A" and R: "apart inp R"
  shows "n \<le> 3 \<Longrightarrow> opened inp n d \<Longrightarrow> dpins d = [0..<n] \<Longrightarrow> books s (owned inp {..<n} {..<n} {..<n} \<union> R) \<Longrightarrow>
     opens inp R (open_buffers A [n..<3] d s)"
proof (induction "3 - n" arbitrary: n d s)
  case 0
  then show ?case by (simp add: opens_def three_def)
next
  case (Suc k)
  then have n: "n < 3" "[n..<3] = n # [Suc n..<3]" by (simp_all add: upt_conv_Cons)
  define s1 where "s1 = s\<lparr>acts := acts s @ [Acquire (Pinned inp n)]\<rparr>"
  define d1 where "d1 = d\<lparr>dpins := dpins d @ [n]\<rparr>"
  define d2 where "d2 = d1\<lparr>dbuffers := (dbuffers d1)[n := (dbuffers d1 ! n)\<lparr>prepared := True\<rparr>]\<rparr>"
  have dev: "dinput d = inp" using Suc.prems(2) by (simp add: opened_def)
  have s1: "books s1 (owned inp {..<n} {..<n} {..<Suc n} \<union> R)"
    using holds_acts[OF Suc.prems(4), of "[Acquire (Pinned inp n)]"] R by (simp add: s1_def owned_post lessThan_Suc)
  obtain e1 s2 where c1: "waveCall A (wave_function inp ''PrepareHeader'') (Buffer inp n) [Acquire (Buffer inp n)] [] s1 = (e1, s2)" by fastforce
  have s2: "books s2 (owned inp (if e1 = None then {..<Suc n} else {..<n}) {..<n} {..<Suc n} \<union> R)"
    using waveCall_books[OF s1 c1] R by (cases e1) (simp_all add: owned_post lessThan_Suc)
  obtain e2 s3 where c2: "wave_submit A inp n s2 = (e2, s3)" by fastforce
  have s3: "books s3 (owned inp {..<Suc n} (if e2 = None then {..<Suc n} else {..<n}) {..<Suc n} \<union> R)" if "e1 = None"
    using waveCall_books[OF s2 c2[unfolded wave_submit_def]] R that by (cases e2) (simp_all add: owned_post lessThan_Suc)
  have d1: "opened inp n d1" "dpins d1 = [0..<Suc n]" using Suc.prems(2,3) by (simp_all add: d1_def opened_def)
  have d2: "opened inp (Suc n) d2" "dpins d2 = [0..<Suc n]"
    using opened_next[OF Suc.prems(2) n(1)] Suc.prems(3) by (simp_all add: d1_def d2_def)
  have "open_buffers A [n..<3] d s = (case e1 of Some e \<Rightarrow> (Inl e, wave_close A d1 s2)
      | None \<Rightarrow> case e2 of Some e \<Rightarrow> (Inl e, wave_close A d2 s3) | None \<Rightarrow> open_buffers A [Suc n..<3] d2 s3)"
    unfolding n(2) open_buffers.simps(2) Let_def dev s1_def[symmetric] d1_def[symmetric] c1 prod.case d2_def[symmetric] c2 ..
  moreover have "books (wave_close A d1 s2) R" if "e1 \<noteq> None"
    by (rule wave_close_books[OF A R d1, of "{..<n}"]) (use that s2 n in auto)
  moreover have "books (wave_close A d2 s3) R" if "e1 = None" "e2 \<noteq> None"
    by (rule wave_close_books[OF A R d2, of "{..<n}"]) (use that s3 n in auto)
  moreover have "opens inp R (open_buffers A [Suc n..<3] d2 s3)" if "e1 = None" "e2 = None"
    by (rule Suc.hyps(1)) (use Suc.hyps(2) d2 s3 n that in auto)
  ultimately show ?case by (auto simp: opens_def split: option.split)
qed

lemma openWave_books:
  assumes A: "winmm A" and R: "apart inp R" "Event (if inp then 0 else 1) \<in> R" and s: "books s R"
  shows "opens inp R (openWave A inp s)"
proof -
  define d where "d = \<lparr>dinput = inp, dbuffers = replicate 3 \<lparr>wpcm = replicate 320 0, prepared = False\<rparr>, dnext = 0, dpins = []\<rparr>"
  obtain e1 s1 where c1: "waveCall A (wave_function inp ''Open'') (Device inp) [Acquire (Device inp)] [] s = (e1, s1)" by fastforce
  have "insert (Device inp) R = owned inp {} {} {} \<union> R" by (auto simp: owned_def)
  then have s1: "books s1 (if e1 = None then owned inp {} {} {} \<union> R else R)"
    using waveCall_books[OF s c1] R by (cases e1) (simp_all split: if_splits)
  obtain r s2 where c2: "open_buffers A [0, 1, 2] d s1 = (r, s2)" by fastforce
  have list: "[0, 1, 2] = [0..<3]" by (simp add: numeral_eq_Suc)
  have o: "opens inp R (r, s2)" if "e1 = None"
    unfolding c2[symmetric] list
    by (rule open_buffers_books[OF A R(1)]) (use s1 that in \<open>simp_all add: d_def opened_def numeral_eq_Suc\<close>)
  obtain e3 s3 where c3: "waveCall A ''waveInStart'' (Device inp) [Use (Device inp)] [Use (Device inp)] s2 = (e3, s3)" by fastforce
  have fin: "opens inp R (case e3 of Some e \<Rightarrow> (Inl e, wave_close A d' s3) | None \<Rightarrow> (Inr d', s3))"
    if d': "opens inp R (Inr d', s2)" for d'
  proof -
    have b: "books s3 (owned inp three three three \<union> R)"
      using waveCall_books[OF _ c3, of "owned inp three three three \<union> R"] d' by (simp add: opens_def)
    have "books (wave_close A d' s3) R"
      by (rule opened_closes[OF A R(1) _ _ order_refl b]) (use d' in \<open>simp_all add: opens_def\<close>)
    then show ?thesis using b d' by (simp add: opens_def split: option.split)
  qed
  have "openWave A inp s = (case e1 of Some e \<Rightarrow> (Inl e, s1)
      | None \<Rightarrow> (case r of Inl e \<Rightarrow> (Inl e, s2)
          | Inr d \<Rightarrow> if inp then (case e3 of Some e \<Rightarrow> (Inl e, wave_close A d s3) | None \<Rightarrow> (Inr d, s3)) else (Inr d, s2)))"
    unfolding openWave_def Let_def d_def[symmetric] c1 prod.case c2 c3
    by (cases e1; cases r; cases e3) simp_all
  moreover have "opens inp R (Inl e, s1)" if "e1 = Some e" for e using s1 that by (simp add: opens_def)
  ultimately show ?thesis using o fin by (cases e1; cases r; cases inp) simp_all
qed

section \<open>startAudio and the end of the thread\<close>

lemma close_events_books:
  assumes A: "winmm A"
  shows "books s (Event ` set ks) \<Longrightarrow> distinct ks \<Longrightarrow> books (close_events A ks s) {}"
proof (induction ks arbitrary: s)
  case (Cons k ks)
  let ?f = "\<lambda>(ok :: nat, _ :: string). if ok \<noteq> 0 then [Release (Event k)] else [Use (Event k)]"
  obtain ok msg s' where c: "syscall (\<lambda>_. A ''CloseHandle'' [Event k] s) ?f s = ((ok, msg), s')" by (metis surj_pair)
  have "Event k \<in> Event ` set (k # ks)" by simp
  from winmm_event[OF A Cons.prems(1) this] have ok: "ok \<noteq> 0" using c by (auto simp: syscall_def)
  have "\<forall>c \<in> Event ` set (k # ks). Event k \<notin> set (win_needs c)" by auto
  moreover have "Event ` set (k # ks) - {Event k} = Event ` set ks" using Cons.prems(2) by auto
  ultimately have "books s' (Event ` set ks)"
    using holds_syscall[OF Cons.prems(1) c] ok by simp
  from Cons.IH[OF this] show ?case using Cons.prems(2) c by simp
qed simp

lemma create_events_books:
  assumes A: "winmm A"
  shows "books s (Event ` set created) \<Longrightarrow> distinct (created @ ks) \<Longrightarrow>
    (case create_events A ks created s of
      (Some e, s') \<Rightarrow> books s' {}
    | (None, s') \<Rightarrow> books s' (Event ` set (created @ ks)))"
proof (induction ks arbitrary: created s)
  case (Cons k ks)
  let ?f = "\<lambda>(event :: nat, _ :: string). if event = 0 then [] else [Acquire (Event k)]"
  obtain ev err s' where c: "syscall (\<lambda>_. A ''CreateEventW'' [Event k] s) ?f s = ((ev, err), s')" by (metis surj_pair)
  show ?case
  proof (cases "ev = 0")
    case True
    then have "books s' (Event ` set created)" using holds_syscall[OF Cons.prems(1) c] by simp
    then have "books (close_events A created s') {}" by (rule close_events_books[OF A]) (use Cons.prems(2) in simp)
    then show ?thesis using c True by simp
  next
    case False
    then have "books s' (Event ` set (created @ [k]))"
      using holds_syscall[OF Cons.prems(1) c] Cons.prems(2) by (auto simp: image_iff)
    from Cons.IH[OF this] show ?thesis using Cons.prems(2) c False by (simp split: prod.splits option.splits)
  qed
qed simp

definition all_events :: "win set" where
  "all_events = Event ` {0, 1, 2}"

definition all_held :: "win set" where
  "all_held = owned True three three three \<union> (owned False three three three \<union> all_events)"

lemma apart_events: "apart inp all_events" "apart False (owned True B Q K \<union> all_events)"
  "Event 0 \<in> all_events" "Event (Suc 0) \<in> all_events" "Event 2 \<in> all_events"
  by (auto simp: apart_def all_events_def)

lemma all_events_closed: "winmm A \<Longrightarrow> books s all_events \<Longrightarrow> books (close_events A [0, 1, 2] s) {}"
  by (rule close_events_books) (simp_all add: all_events_def)

definition device_ok :: "bool \<Rightarrow> waveDevice \<Rightarrow> bool" where
  "device_ok inp d \<longleftrightarrow> opened inp 3 d \<and> dpins d = [0..<3]"

lemma start_books:
  assumes A: "winmm A" and s: "books s {}"
  shows "case startAudio_windows A s of
      (Inl e, s') \<Rightarrow> books s' {}
    | (Inr (din, dout), s') \<Rightarrow> books s' all_held \<and> device_ok True din \<and> device_ok False dout"
proof -
  obtain e1 s1 where c1: "create_events A [0, 1, 2] [] s = (e1, s1)" by fastforce
  have s1: "books s1 (if e1 = None then all_events else {})"
    using create_events_books[OF A, of s "[]" "[0, 1, 2]"] s c1 by (cases e1) (simp_all add: all_events_def)
  obtain r2 s2 where c2: "openWave A True s1 = (r2, s2)" by fastforce
  obtain r3 s3 where c3: "openWave A False s2 = (r3, s3)" by fastforce
  show ?thesis
  proof (cases e1)
    case (Some e)
    then show ?thesis using c1 s1 by (simp add: startAudio_windows_def)
  next
    case None
    have o2: "opens True all_events (r2, s2)"
      unfolding c2[symmetric] by (rule openWave_books[OF A]) (use s1 None apart_events in simp_all)
    show ?thesis
    proof (cases r2)
      case (Inl e)
      then show ?thesis using o2 c1 c2 None all_events_closed[OF A] by (simp add: startAudio_windows_def opens_def)
    next
      case (Inr din)
      have d: "books s2 (owned True three three three \<union> all_events)" "opened True 3 din" "dpins din = [0..<3]"
        using o2 Inr by (simp_all add: opens_def)
      have o3: "opens False (owned True three three three \<union> all_events) (r3, s3)"
        unfolding c3[symmetric] by (rule openWave_books[OF A]) (use d apart_events in simp_all)
      show ?thesis
      proof (cases r3)
        case e: (Inl e)
        then have "books (wave_close A din s3) all_events"
          using o3 by (intro opened_closes[OF A apart_events(1) d(2,3) order_refl]) (simp add: opens_def)
        then show ?thesis using c1 c2 c3 None Inr e all_events_closed[OF A] by (simp add: startAudio_windows_def)
      next
        case dout: (Inr dout)
        then show ?thesis using o3 d c1 c2 c3 None Inr
          by (simp add: startAudio_windows_def opens_def all_held_def device_ok_def Un_left_commute)
      qed
    qed
  qed
qed

section \<open>The thread\<close>

text \<open>Every wake-up keeps the books and the bridge; all buffers stay in the queue of the driver until a
  submission fails.\<close>

lemma opened_length: "opened inp n d \<Longrightarrow> length (dbuffers d) = 3"
  by (metis opened_def length_map length_Cons list.size(3) numeral_3_eq_3)

definition serving :: "bool \<Rightarrow> win set \<Rightarrow> error option \<Rightarrow> win_system \<Rightarrow> bool" where
  "serving inp R err s \<longleftrightarrow> (\<exists>Q \<subseteq> three. (err = None \<longrightarrow> Q = three) \<and> books s (owned inp three Q three \<union> R))"

lemma resubmit:
  assumes "apart inp R" "serving inp R None s" "dinput d = inp" "nat (dnext d) = i" "i < 3"
    and "wave_submit A inp i (buffer_done d s) = (err, s')"
  shows "serving inp R err s'"
proof -
  have i: "i \<in> three" using assms(5) by (simp add: three_def)
  have s: "books s (owned inp three three three \<union> R)" using assms(2) by (simp add: serving_def)
  have "books (buffer_done d s) (owned inp three (three - {i}) three \<union> R)"
    using holds_acts[OF s, of "[Release (Queued inp i)]"] assms(1,3,4) i by (simp add: buffer_done_def owned_post)
  from waveCall_books[OF this assms(6)[unfolded wave_submit_def]]
  have "books s' (owned inp three (if err = None then three else three - {i}) three \<union> R)"
    using assms(1) i by (cases err) (simp_all add: owned_post insert_absorb)
  then show ?thesis unfolding serving_def by (cases err) auto
qed

lemma service_ok:
  assumes R: "apart inp R" and d0: "device_ok inp d" and b: "bridge_ok b" and s: "serving inp R None s"
  shows "safe (\<lambda>(err, d', b', s'). device_ok inp d' \<and> bridge_ok b' \<and> serving inp R err s') (service A n data (d, b, s))"
proof -
  have d: "0 \<le> dnext d" "dnext d < 3" "length (dbuffers d) = 3" "dinput d = inp"
    using d0 opened_length by (auto simp: device_ok_def opened_def)
  have bf: "bridge_ok (bridge_fail e b')" if "bridge_ok b'" for e b'
    using that by (auto simp: bridge_ok_def bridge_fail_def try_send_def)
  have dev: "device_ok inp (d\<lparr>dbuffers := (dbuffers d)[nat (dnext d) := (dbuffers d ! nat (dnext d))\<lparr>wpcm := p\<rparr>], dnext := k\<rparr>)"
    if "0 \<le> k" "k < 3" for p k
  proof -
    have "map prepared (bs[j := (bs ! j)\<lparr>wpcm := p\<rparr>]) = map prepared bs" for bs j
    proof (rule nth_equalityI)
      show "map prepared (bs[j := (bs ! j)\<lparr>wpcm := p\<rparr>]) ! i = map prepared bs ! i"
        if "i < length (map prepared (bs[j := (bs ! j)\<lparr>wpcm := p\<rparr>]))" for i
        using that by (cases "i = j") auto
    qed simp
    from this[of "dbuffers d" "nat (dnext d)"] show ?thesis
      using d0 that unfolding device_ok_def opened_def by auto
  qed
  define buf where "buf = dbuffers d ! nat (dnext d)"
  obtain data' b1 where p: "(if inp then
            bnd (sub data 0 (int (min n (length data)))) (\<lambda>bytes.
            bnd (process [] bytes b) (\<lambda>(_, b). Ok (data, b)))
          else process (wpcm buf) [] b) = Ok (data', b1)" "bridge_ok b1"
    using process_ok[OF b, of "[]" "take (min n (length data)) data"] process_ok[OF b, of "wpcm buf" "[]"]
    by (cases inp) auto
  define bs where "bs = (dbuffers d)[nat (dnext d) := buf\<lparr>wpcm := data'\<rparr>]"
  define d1 where "d1 = d\<lparr>dbuffers := bs\<rparr>"
  obtain err s1 where c: "wave_submit A inp (nat (dnext d)) (buffer_done d1 s) = (err, s1)" by fastforce
  have s1: "serving inp R err s1"
    by (rule resubmit[OF R s _ _ _ c]) (use d in \<open>simp_all add: d1_def\<close>)
  have k: "0 \<le> (dnext d + 1) mod 3" "(dnext d + 1) mod 3 < 3" by simp_all
  have i: "idx (dbuffers d) (dnext d) = Ok buf" and u: "upd (dbuffers d) (dnext d) (buf\<lparr>wpcm := data'\<rparr>) = Ok bs"
    using d by (simp_all add: buf_def bs_def)
  have d1: "dinput d1 = inp" "dnext d1 = dnext d" using d(4) by (simp_all add: d1_def)
  have "service A n data (d, b, s) = (case err of
       Some e \<Rightarrow> Ok (Some e, d1, bridge_fail e b1, s1)
     | None \<Rightarrow> Ok (None, d1\<lparr>dnext := (dnext d + 1) mod 3\<rparr>, b1, s1))"
    unfolding service_def prod.case i bnd.simps d(4) p(1) u Let_def d1_def[symmetric] d1 c by (cases err) simp_all
  moreover have "device_ok inp d1" "device_ok inp (d1\<lparr>dnext := (dnext d + 1) mod 3\<rparr>)"
    using dev[OF d(1,2), of data'] dev[OF k, of data'] by (simp_all add: bs_def buf_def d1_def)
  ultimately show ?thesis using p(2) s1 bf[OF p(2)] by (cases err) simp_all
qed

lemma service_all_ok:
  assumes R: "apart inp R"
  shows "device_ok inp d \<Longrightarrow> bridge_ok b \<Longrightarrow> serving inp R None s \<Longrightarrow>
    safe (\<lambda>(err, d', b', s'). device_ok inp d' \<and> bridge_ok b' \<and> serving inp R err s') (service_all A rs (d, b, s))"
proof (induction rs arbitrary: d b s)
  case (Cons r rs)
  obtain n data where r: "r = (n, data)" by (cases r)
  show ?case
    unfolding r service_all.simps
  proof (rule spec_bndI, rule spec_mono[OF service_ok[OF R Cons.prems]])
    fix x :: "error option \<times> waveDevice \<times> audioBridge \<times> win_system"
    assume x: "case x of (err, d', b', s') \<Rightarrow> device_ok inp d' \<and> bridge_ok b' \<and> serving inp R err s'"
    obtain err d' b' s' where e: "x = (err, d', b', s')" by (cases x)
    show "safe (\<lambda>(err, d', b', s'). device_ok inp d' \<and> bridge_ok b' \<and> serving inp R err s')
      (case x of (err, d, b, s) \<Rightarrow> case err of Some e \<Rightarrow> Ok (Some e, d, b, s) | None \<Rightarrow> service_all A rs (d, b, s))"
      using x Cons.IH[of d' b' s'] by (cases err) (simp_all add: e)
  qed
qed simp

definition thread_ok :: "error option \<Rightarrow> audio_thread \<Rightarrow> bool" where
  "thread_ok err t \<longleftrightarrow> device_ok True (mic t) \<and> device_ok False (speaker t) \<and> bridge_ok (on_bridge t) \<and>
     (\<exists>Q \<subseteq> three. \<exists>Q' \<subseteq> three. (err = None \<longrightarrow> Q = three \<and> Q' = three) \<and>
        books (os t) (owned True three Q three \<union> (owned False three Q' three \<union> all_events)))"

lemma thread_ok_serving:
  "thread_ok None t \<longleftrightarrow> device_ok True (mic t) \<and> device_ok False (speaker t) \<and> bridge_ok (on_bridge t) \<and>
     serving True (owned False three three three \<union> all_events) None (os t)"
  "thread_ok None t \<longleftrightarrow> device_ok True (mic t) \<and> device_ok False (speaker t) \<and> bridge_ok (on_bridge t) \<and>
     serving False (owned True three three three \<union> all_events) None (os t)"
  by (auto simp: thread_ok_def serving_def Un_left_commute)

lemma serving_thread:
  assumes "device_ok True (mic t)" "device_ok False (speaker t)" "bridge_ok (on_bridge t)"
    and "serving True (owned False three three three \<union> all_events) err (os t) \<or>
         serving False (owned True three three three \<union> all_events) err (os t)"
  shows "thread_ok err t"
  using assms unfolding thread_ok_def serving_def by (auto simp: Un_left_commute)

lemma apart_other: "apart True (owned False B Q K \<union> all_events)" "apart False (owned True B Q K \<union> all_events)"
  by (auto simp: apart_def all_events_def)

lemma devices_served_ok:
  assumes t: "thread_ok None t"
  shows "safe (\<lambda>(err, t'). thread_ok err t') (devices_served A w t)"
proof -
  have sp: "safe (\<lambda>(err, t'). thread_ok err t')
     (bnd (service_all A rs (speaker t1, on_bridge t1, os t1)) (\<lambda>(err, d, b, s).
        Ok (err, t1\<lparr>speaker := d, on_bridge := b, os := s\<rparr>)))" if t1: "thread_ok None t1" for rs t1
    by (rule spec_bndI, rule spec_mono[OF service_all_ok[OF apart_other(2)]])
      (use t1 in \<open>auto simp: thread_ok_serving(2) intro!: serving_thread\<close>)
  show ?thesis
    unfolding devices_served_def Let_def
  proof (rule spec_bndI, rule spec_mono[OF service_all_ok[OF apart_other(1)]])
    show "device_ok True (mic t)" "bridge_ok (on_bridge t)"
      "serving True (owned False three three three \<union> all_events) None (os t)"
      using t by (simp_all add: thread_ok_serving(1))
  next
    fix x :: "error option \<times> waveDevice \<times> audioBridge \<times> win_system"
    assume x: "case x of (err, d', b', s') \<Rightarrow> device_ok True d' \<and> bridge_ok b' \<and>
      serving True (owned False three three three \<union> all_events) err s'"
    obtain err d b s where e: "x = (err, d, b, s)" by (cases x)
    have t1: "thread_ok err (t\<lparr>mic := d, on_bridge := b, os := s\<rparr>)"
      using x t by (intro serving_thread) (simp_all add: e thread_ok_def)
    show "safe (\<lambda>(err, t'). thread_ok err t') (case x of (err, d, b, s) \<Rightarrow>
       case err of Some e \<Rightarrow> Ok (Some e, t\<lparr>mic := d, on_bridge := b, os := s\<rparr>)
       | None \<Rightarrow> bnd (service_all A (replicate (min 3 (played_out w)) (0, []))
           (speaker (t\<lparr>mic := d, on_bridge := b, os := s\<rparr>), on_bridge (t\<lparr>mic := d, on_bridge := b, os := s\<rparr>),
            os (t\<lparr>mic := d, on_bridge := b, os := s\<rparr>))) (\<lambda>(err, d', b', s').
         Ok (err, t\<lparr>mic := d, on_bridge := b, os := s\<rparr>\<lparr>speaker := d', on_bridge := b', os := s'\<rparr>)))"
      using t1 sp[of "t\<lparr>mic := d, on_bridge := b, os := s\<rparr>"] by (cases err) (simp_all add: e)
  qed
qed

lemma thread_returns_ok:
  assumes A: "winmm A" and t: "thread_ok err t"
  shows "books (os (thread_returns A t)) all_events" "on_bridge (thread_returns A t) = on_bridge t"
proof -
  obtain Q Q' where q: "Q \<subseteq> three" "Q' \<subseteq> three"
    and s: "books (os t) (owned False three Q' three \<union> (owned True three Q three \<union> all_events))"
    using t by (auto simp: thread_ok_def Un_left_commute)
  have d: "opened True 3 (mic t)" "dpins (mic t) = [0..<3]" "opened False 3 (speaker t)" "dpins (speaker t) = [0..<3]"
    using t by (simp_all add: thread_ok_def device_ok_def)
  have "books (wave_close A (speaker t) (os t)) (owned True three Q three \<union> all_events)"
    by (rule opened_closes[OF A apart_other(2) d(3,4) q(2) s])
  from opened_closes[OF A apart_events(1) d(1,2) q(1) this]
  show "books (os (thread_returns A t)) all_events" by (simp add: thread_returns_def)
qed (simp add: thread_returns_def)

lemma thread_ok_wait:
  assumes "thread_ok None t" "wait_events A (os t) = (r, s)"
  shows "thread_ok None (t\<lparr>os := s\<rparr>)"
proof -
  have t: "books (os t) (owned True three three three \<union> (owned False three three three \<union> all_events))"
    using assms(1) by (simp add: thread_ok_def)
  have e: "Event 0 \<in> all_events" "Event 1 \<in> all_events" "Event 2 \<in> all_events" by (simp_all add: all_events_def)
  from holds_syscall[OF t assms(2)[unfolded wait_events_def]]
  have "books s (owned True three three three \<union> (owned False three three three \<union> all_events))"
    using e by simp
  then show ?thesis using assms(1) by (simp add: thread_ok_def)
qed

text \<open>What is left when the thread has ended, or still runs.\<close>

definition thread_left :: "bool \<times> audio_thread \<Rightarrow> bool" where
  "thread_left r \<longleftrightarrow> bridge_ok (on_bridge (snd r)) \<and> (if fst r then books (os (snd r)) all_events else thread_ok None (snd r))"

lemma audio_thread_ok:
  assumes A: "winmm A"
  shows "thread_ok None t \<Longrightarrow> safe thread_left (audio_thread_run A ws t)"
proof (induction ws arbitrary: t)
  case Nil
  then show ?case by (simp add: thread_ok_def thread_left_def)
next
  case (Cons w ws)
  obtain result err s where c: "wait_events A (os t) = ((result, err), s)" by (metis surj_pair)
  have t: "thread_ok None (t\<lparr>os := s\<rparr>)" by (rule thread_ok_wait[OF Cons.prems c])
  have f: "thread_ok None (t'\<lparr>on_bridge := bridge_fail e (on_bridge t')\<rparr>)" if "thread_ok None t'" for t' e
    using that by (auto simp: thread_ok_def bridge_ok_def bridge_fail_def try_send_def)
  have ended: "thread_left (True, thread_returns A t')" if "thread_ok e t'" for t' e
    using thread_returns_ok[OF A that] that by (simp add: thread_left_def thread_ok_def)
  have served: "safe thread_left
       (bnd (devices_served A w (t\<lparr>os := s\<rparr>)) (\<lambda>(err, t).
         case err of Some e \<Rightarrow> Ok (True, thread_returns A t) | None \<Rightarrow> audio_thread_run A ws t))"
    by (rule spec_bndI, rule spec_mono[OF devices_served_ok[OF t]])
      (use ended Cons.IH in \<open>auto split: option.split\<close>)
  have "audio_thread_run A (w # ws) t =
      (if result = 2 then Ok (True, thread_returns A (t\<lparr>os := s\<rparr>))
       else if 2 < result then
         Ok (True, thread_returns A (t\<lparr>os := s, on_bridge := bridge_fail (''wait for audio: '' @ err) (on_bridge (t\<lparr>os := s\<rparr>))\<rparr>))
       else bnd (devices_served A w (t\<lparr>os := s\<rparr>)) (\<lambda>(err, t).
         case err of Some e \<Rightarrow> Ok (True, thread_returns A t) | None \<Rightarrow> audio_thread_run A ws t))"
    unfolding audio_thread_run.simps c prod.case Let_def by simp
  then show ?case using served ended[OF t] ended[OF f[OF t]] by simp
qed

lemma use_event:
  assumes "books s H" "Event k \<in> H"
  shows "books (snd (syscall B (\<lambda>_. [Use (Event k)]) s)) H"
  using holds_acts[OF assms(1), of "[Use (Event k)]"] assms(2) by (simp add: syscall_def holds_def)

lemma stop_ok:
  assumes A: "winmm A" and r: "thread_left r"
  shows "safe (\<lambda>(ended, t). bridge_ok (on_bridge t) \<and> (ended \<longrightarrow> books (os t) {})) (stop_windows A ws r)"
proof -
  obtain ended t where rt: "r = (ended, t)" by (cases r)
  define t' where "t' = t\<lparr>os := snd (syscall (\<lambda>_. A ''SetEvent'' [Event 2] (os t)) (\<lambda>_. [Use (Event 2)]) (os t))\<rparr>"
  have e: "Event 2 \<in> all_events" "Event 2 \<in> owned True three three three \<union> (owned False three three three \<union> all_events)"
    by (simp_all add: all_events_def)
  have t': "thread_left (ended, t')"
    using r use_event[OF _ e(1), of "os t"] use_event[OF _ e(2), of "os t"]
    by (cases ended) (auto simp: thread_left_def thread_ok_def t'_def rt)
  have "safe thread_left (if ended then Ok (True, t') else audio_thread_run A ws t')"
    using t' audio_thread_ok[OF A, of t' ws] by (cases ended) (simp_all add: thread_left_def)
  then show ?thesis
    unfolding stop_windows_def rt prod.case Let_def t'_def[symmetric]
    by (rule spec_bndI[OF spec_mono])
      (auto simp: thread_left_def thread_ok_def all_events_closed[OF A, unfolded One_nat_def] simp del: close_events.simps)
qed

section \<open>The properties\<close>

text \<open>C35: \<open>startAudio\<close> on Windows, when the system calls that give something back behave as documented and
  all others answer whatever they like: when it returns an error, every event, device, prepared
  buffer, queued buffer and pinned address it had got hold of has been given back by a call that
  succeeded, in an order in which nothing is given back while something still rests on it, so no
  memory is unpinned while the driver keeps its address; when it succeeds it holds exactly the
  three events and the two devices with their three buffers each, all of them queued.\<close>

theorem windows_start_clean:
  assumes "winmm A"
  shows "case startAudio_windows A nothing_done of
     (Inl e, s) \<Rightarrow> audit win_needs (acts s) [] = Some []
   | (Inr (din, dout), s) \<Rightarrow> \<exists>h. audit win_needs (acts s) [] = Some h \<and> set h = all_held"
  using start_books[OF assms holds_nothing_done]
  by (auto simp: holds_empty split: prod.splits sum.splits) (auto simp: holds_def)

text \<open>A system without a loudspeaker: the microphone has been started and is closed again.\<close>

definition mute_answers :: answers where
  "mute_answers name rs s =
     (case rs of [Event k] \<Rightarrow> 1 | [Device False] \<Rightarrow> if name = ''waveOutOpen'' then 2 else 0 | _ \<Rightarrow> 0, [])"

lemma winmm_mute: "winmm mute_answers"
  by (auto simp: winmm_def mute_answers_def wave_function_def split: bool.splits)

definition with_events :: win_system where
  "with_events = \<lparr>calls = 3, acts = [Acquire (Event 0), Acquire (Event 1), Acquire (Event 2)]\<rparr>"

lemma start_outcome:
  assumes "create_events A [0, 1, 2] [] nothing_done = (None, with_events)"
    and "\<not> isl (fst (openWave A True with_events))"
  shows "isl (fst (startAudio_windows A nothing_done)) = isl (fst (openWave A False (snd (openWave A True with_events))))"
  using assms by (auto simp: startAudio_windows_def isl_def split: prod.splits sum.splits)

theorem windows_start_clean_witness:
  "\<exists>e s. startAudio_windows mute_answers nothing_done = (Inl e, s) \<and> audit win_needs (acts s) [] = Some []"
proof -
  have "create_events mute_answers [0, 1, 2] [] nothing_done = (None, with_events)"
    "\<not> isl (fst (openWave mute_answers True with_events))"
    "isl (fst (openWave mute_answers False (snd (openWave mute_answers True with_events))))"
    by code_simp+
  then have "isl (fst (startAudio_windows mute_answers nothing_done))" using start_outcome by blast
  then obtain e s where "startAudio_windows mute_answers nothing_done = (Inl e, s)" by (metis isl_def prod.collapse)
  then show ?thesis using windows_start_clean[OF winmm_mute] by simp
qed

text \<open>C36: The audio thread on Windows never panics, whatever the driver reports and whenever a call that
  acquires, submits or waits fails; when it has ended and the returned stop function has run,
  nothing is held any more, every release was one the system accepted, and the driver never kept
  a buffer whose memory was not pinned.\<close>

theorem windows_thread_clean:
  assumes "winmm A" "startAudio_windows A nothing_done = (Inr (din, dout), s)" "bridge_ok b"
  shows "safe (\<lambda>(ended, t). bridge_ok (on_bridge t) \<and> (ended \<longrightarrow> audit win_needs (acts (os t)) [] = Some []))
    (bnd (audio_thread_run A ws \<lparr>mic = din, speaker = dout, on_bridge = b, os = s\<rparr>) (stop_windows A ws'))"
proof -
  have "thread_ok None \<lparr>mic = din, speaker = dout, on_bridge = b, os = s\<rparr>"
    using start_books[OF assms(1) holds_nothing_done] assms(2,3) by (simp add: thread_ok_def all_held_def)
  from audio_thread_ok[OF assms(1) this] show ?thesis
    unfolding holds_empty[symmetric] by (rule spec_bndI[OF spec_mono]) (rule stop_ok[OF assms(1)])
qed

text \<open>A system in which the first wake-up brings a recorded buffer and the second is the signal to stop.\<close>

definition quiet_answers :: answers where
  "quiet_answers name rs s = (case rs of [Event k] \<Rightarrow> 1 | [r] \<Rightarrow> 0 | _ \<Rightarrow> if 18 < calls s then 2 else 0, [])"

lemma winmm_quiet: "winmm quiet_answers"
  by (auto simp: winmm_def quiet_answers_def wave_function_def)

lemma quiet_start: "\<exists>din dout s. startAudio_windows quiet_answers nothing_done = (Inr (din, dout), s)"
proof -
  have "create_events quiet_answers [0, 1, 2] [] nothing_done = (None, with_events)"
    "\<not> isl (fst (openWave quiet_answers True with_events))"
    "\<not> isl (fst (openWave quiet_answers False (snd (openWave quiet_answers True with_events))))"
    by code_simp+
  then have "\<not> isl (fst (startAudio_windows quiet_answers nothing_done))" using start_outcome by blast
  then obtain d s where "startAudio_windows quiet_answers nothing_done = (Inr d, s)" 
    by (metis sum.collapse(2) prod.collapse)
  then show ?thesis by (cases d) auto
qed

theorem windows_thread_clean_witness:
  "\<exists>din dout s. startAudio_windows quiet_answers nothing_done = (Inr (din, dout), s) \<and>
     safe (\<lambda>(ended, t). bridge_ok (on_bridge t) \<and> (ended \<longrightarrow> audit win_needs (acts (os t)) [] = Some []))
       (bnd (audio_thread_run quiet_answers [\<lparr>recorded = [(320, replicate 320 1)], played_out = 0\<rparr>, \<lparr>recorded = [], played_out = 0\<rparr>]
          \<lparr>mic = din, speaker = dout, on_bridge = newAudioBridge, os = s\<rparr>) (stop_windows quiet_answers []))"
  using quiet_start windows_thread_clean[OF winmm_quiet _ bridge_ok_new] by blast
end
