(* ===== verification/UnixAudio.thy ===== *)
theory UnixAudio
  imports AudioBridge Ledger Decimal
begin

text \<open>
  audio_darwin.go, audio_linux.go and audio_unsupported.go of the talk command.  As on Windows, the
  calls of the system libraries are answered by the environment, and what is acquired and released
  is written to a ledger.
\<close>

type_synonym error = string

section \<open>macOS\<close>

text \<open>An answer is a status, the queue a call has created (0 for none) and the text of an error.  The
  two audio queues are the resources; their buffers are freed with them.\<close>

type_synonym mac_answers = "nat \<Rightarrow> int \<times> nat \<times> string"

datatype mac = Queue bool

definition mac_needs :: "mac \<Rightarrow> mac list" where
  "mac_needs q = []"

interpretation mac: resources mac_needs "\<lambda>_. 0"
  by unfold_locales (simp add: mac_needs_def)

text \<open>\<open>AudioQueueNewInput\<close> and \<open>AudioQueueNewOutput\<close> create a queue exactly when they succeed.\<close>

definition creates_queues :: "mac_answers \<Rightarrow> bool" where
  "creates_queues A \<longleftrightarrow> (\<forall>n. (fst (A n) = 0) = (fst (snd (A n)) \<noteq> 0))"

definition show_int :: "int \<Rightarrow> string" where
  "show_int v = (if v < 0 then ''-'' else '''') @ show_nat (nat \<bar>v\<bar>)"

definition mac_check :: "string \<Rightarrow> int \<Rightarrow> error option" where
  "mac_check operation status =
     (if status \<noteq> 0 then Some (operation @ '': OSStatus '' @ show_int status @
        '' (check default devices and microphone permission for your terminal)'') else None)"

text \<open>A call that only returns a status.\<close>

definition mac_call :: "mac_answers \<Rightarrow> string \<Rightarrow> mac act list \<Rightarrow> mac system \<Rightarrow> error option \<times> mac system" where
  "mac_call A operation effect s =
     (let ((status, _), s) = syscall A (\<lambda>_. effect) s in (mac_check operation status, s))"

definition mac_new :: "mac_answers \<Rightarrow> string \<Rightarrow> bool \<Rightarrow> mac system \<Rightarrow> error option \<times> nat \<times> mac system" where
  "mac_new A operation inp s =
     (let ((status, queue, _), s) = syscall A (\<lambda>(status, queue, _). if queue \<noteq> 0 then [Acquire (Queue inp)] else []) s
      in (mac_check operation status, queue, s))"

text \<open>\<open>closeAudio\<close>; it also makes the callbacks do nothing (\<open>stopping\<close>).\<close>

definition mac_dispose :: "mac_answers \<Rightarrow> bool \<Rightarrow> nat \<Rightarrow> mac system \<Rightarrow> mac system" where
  "mac_dispose A inp queue s = (if queue \<noteq> 0 then snd (syscall A (\<lambda>_. [Release (Queue inp)]) s) else s)"

definition mac_close :: "mac_answers \<Rightarrow> nat \<Rightarrow> nat \<Rightarrow> mac system \<Rightarrow> mac system" where
  "mac_close A qin qout s = mac_dispose A False qout (mac_dispose A True qin s)"

text \<open>Three buffers for each queue, then the start.\<close>

fun mac_buffers :: "mac_answers \<Rightarrow> bool \<Rightarrow> nat \<Rightarrow> mac system \<Rightarrow> error option \<times> mac system" where
  "mac_buffers A inp 0 s = mac_call A ''start audio'' [Use (Queue inp)] s"
| "mac_buffers A inp (Suc n) s =
     (case mac_call A ''allocate audio buffer'' [Use (Queue inp)] s of
        (Some e, s) \<Rightarrow> (Some e, s)
      | (None, s) \<Rightarrow>
          (case mac_call A ''enqueue audio buffer'' [Use (Queue inp)] s of
             (Some e, s) \<Rightarrow> (Some e, s)
           | (None, s) \<Rightarrow> mac_buffers A inp n s))"

definition startAudio_darwin :: "mac_answers \<Rightarrow> mac system \<Rightarrow> (error + nat \<times> nat) \<times> mac system" where
  "startAudio_darwin A s =
     (let ((status, _, text), s) = syscall A (\<lambda>_. []) s in
      if status \<noteq> 0 then (Inl (''load AudioToolbox: '' @ text), s)
      else
        let (err, qin, s) = mac_new A ''open default microphone'' True s in
        case err of
          Some e \<Rightarrow> (Inl e, s)
        | None \<Rightarrow>
            let (err, qout, s) = mac_new A ''open default output'' False s in
            case err of
              Some e \<Rightarrow> (Inl e, mac_close A qin qout s)
            | None \<Rightarrow>
                (case mac_buffers A True 3 s of
                   (Some e, s) \<Rightarrow> (Inl e, mac_close A qin qout s)
                 | (None, s) \<Rightarrow>
                     (case mac_buffers A False 3 s of
                        (Some e, s) \<Rightarrow> (Inl e, mac_close A qin qout s)
                      | (None, s) \<Rightarrow> (Inr (qin, qout), s))))"

text \<open>The two callbacks; \<open>data\<close> is the memory of the buffer, \<open>got\<close> the number of bytes the queue has
  recorded.  The result of the second is also what it plays.\<close>

definition mac_input_callback ::
  "mac_answers \<Rightarrow> bool \<Rightarrow> nat \<Rightarrow> byte list \<Rightarrow> audioBridge \<times> mac system \<Rightarrow> (audioBridge \<times> mac system) res" where
  "mac_input_callback A stopping got data = (\<lambda>(b, s).
     if stopping then Ok (b, s)
     else
       bnd (sub data 0 (int (min got (length data)))) (\<lambda>bytes.
       bnd (process [] bytes b) (\<lambda>(_, b).
       let (err, s) = mac_call A ''enqueue microphone buffer'' [Use (Queue True)] s in
       Ok (case err of Some e \<Rightarrow> bridge_fail e b | None \<Rightarrow> b, s))))"

definition mac_output_callback ::
  "mac_answers \<Rightarrow> bool \<Rightarrow> byte list \<Rightarrow> audioBridge \<times> mac system \<Rightarrow> (byte list \<times> audioBridge \<times> mac system) res" where
  "mac_output_callback A stopping data = (\<lambda>(b, s).
     if stopping then Ok (data, b, s)
     else
       bnd (sub data 0 (frameSamples * 2)) (\<lambda>bytes.
       bnd (process bytes [] b) (\<lambda>(out, b).
       let (err, s) = mac_call A ''enqueue output buffer'' [Use (Queue False)] s in
       Ok (blit data 0 out, case err of Some e \<Rightarrow> bridge_fail e b | None \<Rightarrow> b, s))))"

section \<open>Linux\<close>

text \<open>An answer is the error of the call.  The streams belong to the client.\<close>

type_synonym pulse_answers = "nat \<Rightarrow> error option"

datatype pulse = Client | Stream bool

fun pulse_needs :: "pulse \<Rightarrow> pulse list" where
  "pulse_needs Client = []"
| "pulse_needs (Stream inp) = [Client]"

fun pulse_rank :: "pulse \<Rightarrow> nat" where
  "pulse_rank Client = 0"
| "pulse_rank (Stream inp) = 1"

interpretation pulse: resources pulse_needs pulse_rank
proof
  show "p \<in> set (pulse_needs r) \<Longrightarrow> pulse_rank p < pulse_rank r" for p r by (cases r) auto
qed

definition pulse_new :: "pulse_answers \<Rightarrow> string \<Rightarrow> pulse \<Rightarrow> pulse system \<Rightarrow> error option \<times> pulse system" where
  "pulse_new A operation r s =
     (let (err, s) = syscall A (\<lambda>err. if err = None then [Acquire r] else []) s in
      (map_option (\<lambda>e. operation @ '': '' @ e) err, s))"

definition pulse_close :: "pulse_answers \<Rightarrow> pulse \<Rightarrow> pulse system \<Rightarrow> pulse system" where
  "pulse_close A r s = snd (syscall A (\<lambda>_. [Release r]) s)"

definition pulse_start :: "pulse_answers \<Rightarrow> pulse \<Rightarrow> pulse system \<Rightarrow> pulse system" where
  "pulse_start A r s = snd (syscall A (\<lambda>_. [Use r]) s)"

definition startAudio_linux :: "pulse_answers \<Rightarrow> pulse system \<Rightarrow> error option \<times> pulse system" where
  "startAudio_linux A s =
     (case pulse_new A ''connect to PulseAudio/PipeWire audio service'' Client s of
        (Some e, s) \<Rightarrow> (Some e, s)
      | (None, s) \<Rightarrow>
          (case pulse_new A ''open default microphone'' (Stream True) s of
             (Some e, s) \<Rightarrow> (Some e, pulse_close A Client s)
           | (None, s) \<Rightarrow>
               (case pulse_new A ''open default audio output'' (Stream False) s of
                  (Some e, s) \<Rightarrow> (Some e, pulse_close A Client (pulse_close A (Stream True) s))
                | (None, s) \<Rightarrow> (None, pulse_start A (Stream True) (pulse_start A (Stream False) s)))))"

definition stop_linux :: "pulse_answers \<Rightarrow> pulse system \<Rightarrow> pulse system" where
  "stop_linux A s = pulse_close A Client (pulse_close A (Stream False) (pulse_close A (Stream True) s))"

text \<open>\<open>Read\<close> and \<open>Write\<close> of the streams: the bytes, how many of them, and no error.\<close>

definition pulse_Read :: "byte list \<Rightarrow> audioBridge \<Rightarrow> (byte list \<times> nat \<times> audioBridge) res" where
  "pulse_Read data b = bnd (process data [] b) (\<lambda>(out, b). Ok (out, length data, b))"

definition pulse_Write :: "byte list \<Rightarrow> audioBridge \<Rightarrow> (nat \<times> audioBridge) res" where
  "pulse_Write data b = bnd (process [] data b) (\<lambda>(_, b). Ok (length data, b))"

section \<open>The other systems\<close>

definition startAudio_unsupported :: "error + unit" where
  "startAudio_unsupported = Inl ''talk supports Windows, Linux, and macOS''"

section \<open>The books\<close>

lemma syscall_audit:
  "syscall A f s = (r, s') \<Longrightarrow> audit needs (acts s') [] = Option.bind (audit needs (acts s) []) (audit needs (f r))"
  by (auto simp: syscall_def)

lemma mac_call_books:
  "mac_call A op effect s = (err, s') \<Longrightarrow>
     audit mac_needs (acts s') [] = Option.bind (audit mac_needs (acts s) []) (audit mac_needs effect)"
  by (auto simp: mac_call_def syscall_def split: prod.splits)

lemma mac_buffers_books:
  assumes "audit mac_needs (acts s) [] = Some h" "Queue inp \<in> set h" "mac_buffers A inp n s = (err, s')"
  shows "audit mac_needs (acts s') [] = Some h"
  using assms
proof (induction n arbitrary: s)
  case 0
  then show ?case using mac_call_books[of A _ _ s err s'] by simp
next
  case (Suc n)
  obtain e1 s1 where c1: "mac_call A ''allocate audio buffer'' [Use (Queue inp)] s = (e1, s1)" by fastforce
  obtain e2 s2 where c2: "mac_call A ''enqueue audio buffer'' [Use (Queue inp)] s1 = (e2, s2)" by fastforce
  have b: "audit mac_needs (acts s1) [] = Some h" "audit mac_needs (acts s2) [] = Some h"
    using mac_call_books[OF c1] mac_call_books[OF c2] Suc.prems(1,2) by simp_all
  show ?case
    using Suc.prems(3) c1 c2 b Suc.IH[OF b(2) Suc.prems(2)] by (cases e1; cases e2) auto
qed

lemma mac_new_books:
  assumes "audit mac_needs (acts s) [] = Some h" "Queue inp \<notin> set h" "creates_queues A"
    and "mac_new A op inp s = (err, q, s')"
  shows "audit mac_needs (acts s') [] = Some ((if err = None then [Queue inp] else []) @ h)" "(err = None) = (q \<noteq> 0)"
proof -
  have "(fst (A (calls s)) = 0) = (fst (snd (A (calls s))) \<noteq> 0)" using assms(3) by (simp only: creates_queues_def)
  then show "audit mac_needs (acts s') [] = Some ((if err = None then [Queue inp] else []) @ h)" "(err = None) = (q \<noteq> 0)"
    using assms(1,2,4) by (auto simp: mac_new_def syscall_def mac_check_def mac_needs_def split: prod.splits if_splits)
qed

lemma mac_close_books:
  assumes "audit mac_needs (acts s) [] = Some ((if qout \<noteq> 0 then [Queue False] else []) @ [Queue True])" "qin \<noteq> 0"
  shows "audit mac_needs (acts (mac_close A qin qout s)) [] = Some []"
  using assms by (auto simp: mac_close_def mac_dispose_def syscall_def mac_needs_def)


lemma pulse_new_books:
  assumes "audit pulse_needs (acts s) [] = Some h" "r \<notin> set h" "set (pulse_needs r) \<subseteq> set h" "pulse_new A op r s = (err, s')"
  shows "audit pulse_needs (acts s') [] = Some ((if err = None then [r] else []) @ h)"
  using assms by (auto simp: pulse_new_def syscall_def list_all_iff split: if_splits)

section \<open>The properties\<close>

text \<open>C37: \<open>startAudio\<close> and the stop function on macOS: whichever call fails, an error leaves no audio
  queue behind; after a success both queues exist, and stopping disposes of them.\<close>

theorem darwin_start_clean:
  assumes "creates_queues A"
  shows "case startAudio_darwin A nothing_done of
      (Inl e, s) \<Rightarrow> audit mac_needs (acts s) [] = Some []
    | (Inr (qin, qout), s) \<Rightarrow> audit mac_needs (acts s) [] = Some [Queue False, Queue True] \<and>
        audit mac_needs (acts (mac_close A qin qout s)) [] = Some []"
proof -
  obtain st q msg s0 where c0: "syscall A (\<lambda>_. []) (nothing_done :: mac system) = ((st, q, msg), s0)" by (metis surj_pair)
  obtain e1 qin s1 where c1: "mac_new A ''open default microphone'' True s0 = (e1, qin, s1)" by (metis surj_pair)
  obtain e2 qout s2 where c2: "mac_new A ''open default output'' False s1 = (e2, qout, s2)" by (metis surj_pair)
  obtain e3 s3 where c3: "mac_buffers A True 3 s2 = (e3, s3)" by fastforce
  obtain e4 s4 where c4: "mac_buffers A False 3 s3 = (e4, s4)" by fastforce
  have s0: "audit mac_needs (acts s0) [] = Some []" using syscall_audit[OF c0, of mac_needs] by (simp add: nothing_done_def)
  have s1: "audit mac_needs (acts s1) [] = Some (if e1 = None then [Queue True] else [])" "(e1 = None) = (qin \<noteq> 0)"
    using mac_new_books[OF s0 _ assms c1] by simp_all
  have s2: "audit mac_needs (acts s2) [] = Some ((if e2 = None then [Queue False] else []) @ [Queue True])" "(e2 = None) = (qout \<noteq> 0)"
    if "e1 = None" using mac_new_books[OF _ _ assms c2, of "[Queue True]"] s1 that by simp_all
  have s3: "audit mac_needs (acts s3) [] = Some [Queue False, Queue True]" if "e1 = None" "e2 = None"
    by (rule mac_buffers_books[OF _ _ c3]) (use s2 that in simp_all)
  have s4: "audit mac_needs (acts s4) [] = Some [Queue False, Queue True]" if "e1 = None" "e2 = None"
    by (rule mac_buffers_books[OF _ _ c4]) (use s3 that in simp_all)
  have close: "audit mac_needs (acts (mac_close A qin qout s)) [] = Some []"
    if "e1 = None" "audit mac_needs (acts s) [] = Some ((if e2 = None then [Queue False] else []) @ [Queue True])" for s
    by (rule mac_close_books) (use that s1(2) s2(2) in auto)
  show ?thesis
    unfolding startAudio_darwin_def c0 prod.case Let_def c1 c2 c3 c4
    using s0 s1(1) s2(1) s3 s4 close by (cases e1; cases e2; cases e3; cases e4) auto
qed

theorem darwin_start_clean_witness:
  "case startAudio_darwin (\<lambda>n. if n = 5 then (- 50, 0, []) else (0, 1, [])) nothing_done of
      (Inl e, s) \<Rightarrow> audit mac_needs (acts s) [] = Some []
    | (Inr (qin, qout), s) \<Rightarrow> audit mac_needs (acts s) [] = Some [Queue False, Queue True] \<and>
        audit mac_needs (acts (mac_close (\<lambda>n. if n = 5 then (- 50, 0, []) else (0, 1, [])) qin qout s)) [] = Some []"
  by (rule darwin_start_clean) (simp add: creates_queues_def)

text \<open>C38: \<open>startAudio\<close> and the stop function on Linux: whichever call fails, an error of the
  sound server leaves neither the client nor a stream open,
  and stopping closes the streams before the client.\<close>

theorem linux_start_clean:
  "case startAudio_linux A nothing_done of
     (Some e, s) \<Rightarrow> audit pulse_needs (acts s) [] = Some []
   | (None, s) \<Rightarrow> audit pulse_needs (acts s) [] = Some [Stream False, Stream True, Client] \<and>
       audit pulse_needs (acts (stop_linux A s)) [] = Some []"
proof -
  obtain e1 s1 where c1: "pulse_new A ''connect to PulseAudio/PipeWire audio service'' Client nothing_done = (e1, s1)" by fastforce
  obtain e2 s2 where c2: "pulse_new A ''open default microphone'' (Stream True) s1 = (e2, s2)" by fastforce
  obtain e3 s3 where c3: "pulse_new A ''open default audio output'' (Stream False) s2 = (e3, s3)" by fastforce
  have s1: "audit pulse_needs (acts s1) [] = Some (if e1 = None then [Client] else [])"
    using pulse_new_books[OF _ _ _ c1, of "[]"] by (simp add: nothing_done_def)
  have s2: "audit pulse_needs (acts s2) [] = Some ((if e2 = None then [Stream True] else []) @ [Client])" if "e1 = None"
    using pulse_new_books[OF _ _ _ c2, of "[Client]"] s1 that by simp
  have s3: "audit pulse_needs (acts s3) [] = Some ((if e3 = None then [Stream False] else []) @ [Stream True, Client])"
    if "e1 = None" "e2 = None" using pulse_new_books[OF _ _ _ c3, of "[Stream True, Client]"] s2 that by simp
  show ?thesis
    unfolding startAudio_linux_def c1 prod.case c2 c3
    using s1 s2 s3 by (cases e1; cases e2; cases e3) (auto simp: pulse_close_def pulse_start_def stop_linux_def syscall_def)
qed

end
