(* ===== verification/Talk.thy ===== *)
theory Talk
  imports Session Call Decimal
begin

text \<open>
  main.go of the talk command: the command line, the set-up of a call and the exit code.  The
  functions of the standard library that decide which command lines are accepted are modelled as
  far as the program uses them: \<open>FlagSet.Parse\<close> for two string flags, \<open>net.SplitHostPort\<close>,
  \<open>net.ParseIP\<close> (whether it succeeds) and \<open>strconv.Atoi\<close>.  Resolving an address and opening the
  socket are answered by the environment.
\<close>

section \<open>Flags\<close>

record options =
  serve :: string
  connect :: string

definition errHelp :: error where "errHelp = ''flag: help requested''"

text \<open>The name and, behind the first \<open>=\<close> that is not the first character, the value.\<close>

definition split_flag :: "string \<Rightarrow> string \<times> string option" where
  "split_flag s = (let name = hd s # takeWhile (\<lambda>c. c \<noteq> CHR ''='') (tl s); rest = drop (length name) s
     in (name, if rest = [] then None else Some (tl rest)))"

text \<open>An argument: the end of the flags, a malformed flag, or a flag; with the rest of the arguments.\<close>

datatype flag_arg = NoFlag | EndOfFlags | BadFlag | Flag string "string option"

definition flag_arg :: "string \<Rightarrow> flag_arg" where
  "flag_arg s =
     (if length s < 2 \<or> s ! 0 \<noteq> CHR ''-'' then NoFlag
      else if s = ''--'' then EndOfFlags
      else let body = (if s ! 1 = CHR ''-'' then drop 2 s else drop 1 s) in
        if body = [] \<or> hd body = CHR ''-'' \<or> hd body = CHR ''='' then BadFlag
        else case split_flag body of (name, value) \<Rightarrow> Flag name value)"

fun set_flag :: "string \<Rightarrow> string \<Rightarrow> options \<Rightarrow> options" where
  "set_flag name value opts =
     (if name = ''serve'' then opts\<lparr>serve := value\<rparr> else opts\<lparr>connect := value\<rparr>)"

text \<open>\<open>flags.Parse\<close>: the options and the arguments that are left.\<close>

fun parse_flags :: "string list \<Rightarrow> options \<Rightarrow> error + options \<times> string list" where
  "parse_flags [] opts = Inr (opts, [])"
| "parse_flags (s # args) opts =
     (case flag_arg s of
        NoFlag \<Rightarrow> Inr (opts, s # args)
      | EndOfFlags \<Rightarrow> Inr (opts, args)
      | BadFlag \<Rightarrow> Inl (''bad flag syntax: '' @ s)
      | Flag name value \<Rightarrow>
          if name = ''serve'' \<or> name = ''connect'' then
            (case value of
               Some v \<Rightarrow> parse_flags args (set_flag name v opts)
             | None \<Rightarrow>
                 (case args of
                    [] \<Rightarrow> Inl (''flag needs an argument: -'' @ name)
                  | v # rest \<Rightarrow> parse_flags rest (set_flag name v opts)))
          else if name = ''help'' \<or> name = ''h'' then Inl errHelp
          else Inl (''flag provided but not defined: -'' @ name))"

section \<open>Addresses\<close>

text \<open>\<open>net.SplitHostPort\<close>; every error of it is the same to the program.\<close>

definition split_last_colon :: "string \<Rightarrow> (string \<times> string) option" where
  "split_last_colon s =
     (if CHR '':'' \<notin> set s then None
      else let port = rev (takeWhile (\<lambda>c. c \<noteq> CHR '':'') (rev s))
        in Some (take (length s - length port - 1) s, port))"

definition SplitHostPort :: "string \<Rightarrow> (string \<times> string) option" where
  "SplitHostPort s =
     Option.bind (split_last_colon s) (\<lambda>(front, port).
       if s ! 0 = CHR ''['' then
         let host = takeWhile (\<lambda>c. c \<noteq> CHR '']'') (tl s); end = length host + 1 in
         if end < length s \<and> end + 1 = length front
           \<and> CHR ''['' \<notin> set (tl s) \<and> CHR '']'' \<notin> set (drop (end + 1) s)
         then Some (host, port) else None
       else if CHR '':'' \<in> set front \<or> CHR ''['' \<in> set s \<or> CHR '']'' \<in> set s then None
       else Some (front, port))"

text \<open>Whether \<open>net.ParseIP\<close> accepts: the dotted form of four bytes without leading zeros, or the
  groups of IPv6, of which one run of zeros may be left out and the last two may be dotted.\<close>

fun split_on :: "char \<Rightarrow> string \<Rightarrow> string list" where
  "split_on x [] = [[]]"
| "split_on x (c # cs) =
     (if c = x then [] # split_on x cs
      else case split_on x cs of f # fs \<Rightarrow> (c # f) # fs | [] \<Rightarrow> [[c]])"

definition ip4_field :: "string \<Rightarrow> bool" where
  "ip4_field f \<longleftrightarrow> (case read_nat f of Some n \<Rightarrow> n \<le> 255 \<and> (hd f = CHR ''0'' \<longrightarrow> length f = 1) | None \<Rightarrow> False)"

definition is_ip4 :: "string \<Rightarrow> bool" where
  "is_ip4 s \<longleftrightarrow> length (split_on CHR ''.'' s) = 4 \<and> list_all ip4_field (split_on CHR ''.'' s)"

definition hex_digit :: "char \<Rightarrow> bool" where
  "hex_digit c \<longleftrightarrow> (let k = of_char c :: nat in 48 \<le> k \<and> k \<le> 57 \<or> 97 \<le> k \<and> k \<le> 102 \<or> 65 \<le> k \<and> k \<le> 70)"

text \<open>The loop over the groups: \<open>i\<close> bytes are filled, \<open>gap\<close> says whether the run of zeros has been seen.
  Eight rounds are all that fit into 16 bytes.\<close>

fun ip6_groups :: "nat \<Rightarrow> nat \<Rightarrow> bool \<Rightarrow> string \<Rightarrow> bool" where
  "ip6_groups 0 i gap s = (s = [] \<and> \<not> gap)"
| "ip6_groups (Suc n) i gap s =
     (let group = takeWhile hex_digit s; s' = drop (length group) s in
      if group = [] \<or> 4 < length group then False
      else if s' \<noteq> [] \<and> hd s' = CHR ''.'' then (gap \<or> i = 12) \<and> i + 4 \<le> 16 \<and> is_ip4 s \<and> (i + 4 < 16) = gap
      else if s' = [] then (i + 2 < 16) = gap
      else if hd s' \<noteq> CHR '':'' \<or> tl s' = [] then False
      else if hd (tl s') = CHR '':'' then
        \<not> gap \<and> (if tl (tl s') = [] then i + 2 < 16 else ip6_groups n (i + 2) True (tl (tl s')))
      else ip6_groups n (i + 2) gap (tl s'))"

definition is_ip6 :: "string \<Rightarrow> bool" where
  "is_ip6 s \<longleftrightarrow> (if take 2 s = ''::'' then (if drop 2 s = [] then True else ip6_groups 8 0 True (drop 2 s))
     else ip6_groups 8 0 False s)"

text \<open>The first dot or colon decides; a zone makes the result nil.\<close>

definition ParseIP_ok :: "string \<Rightarrow> bool" where
  "ParseIP_ok s \<longleftrightarrow> CHR ''%'' \<notin> set s \<and>
     (case dropWhile (\<lambda>c. c \<noteq> CHR ''.'' \<and> c \<noteq> CHR '':'') s of
        [] \<Rightarrow> False
      | c # _ \<Rightarrow> if c = CHR ''.'' then is_ip4 s else is_ip6 s)"


section \<open>parseOptions\<close>

definition errChoose :: error where
  "errChoose = ''choose exactly one of --serve <port> or --connect <ip:port>''"
definition errAddress :: error where
  "errAddress = ''--connect requires an IP address and port; use [IPv6]:port for IPv6''"
definition errPort :: error where
  "errPort = ''UDP port must be between 1 and 65535''"

definition valid_port :: "string \<Rightarrow> bool" where
  "valid_port port \<longleftrightarrow> (case Atoi port of None \<Rightarrow> False | Some n \<Rightarrow> \<not> (n < 1 \<or> 65535 < n))"

definition parseOptions :: "string list \<Rightarrow> error + options" where
  "parseOptions args =
     (case parse_flags args \<lparr>serve = [], connect = []\<rparr> of
        Inl err \<Rightarrow> Inl err
      | Inr (opts, rest) \<Rightarrow>
          if rest \<noteq> [] \<or> (serve opts = []) = (connect opts = []) then Inl errChoose
          else
            (case (if connect opts \<noteq> [] then
                     (case SplitHostPort (connect opts) of
                        None \<Rightarrow> Inl errAddress
                      | Some (host, port) \<Rightarrow> if \<not> ParseIP_ok host then Inl errAddress else Inr port)
                   else Inr (serve opts)) of
               Inl err \<Rightarrow> Inl err
             | Inr port \<Rightarrow> if valid_port port then Inr opts else Inl errPort))"

section \<open>run and main\<close>

datatype talk_error = Plain error | ConnectError error | CallError call_error

text \<open>\<open>IP.To4() != nil\<close>, and the network that is opened.\<close>

definition is_To4 :: "byte list \<Rightarrow> bool" where
  "is_To4 ip \<longleftrightarrow> length ip = 4 \<or> length ip = 16 \<and> take 12 ip = v4InV6Prefix"

definition udp_network :: "udpAddr option \<Rightarrow> string" where
  "udp_network remote = (case remote of Some a \<Rightarrow> if is_To4 (IP a) then ''udp4'' else ''udp'' | None \<Rightarrow> ''udp'')"

text \<open>What the environment answers to one \<open>run\<close>: the resolver, the socket for each network, the random
  numbers and the rounds of the handshake, and the course of the call.\<close>

record course =
  resolves :: "error + udpAddr"
  listens :: "string \<Rightarrow> error option"
  random_bytes :: "error + byte list"
  handshake_turns :: "turn list"
  call_begins :: int
  audio_opens :: "error option"
  call_events :: "call_event list"
  call_ending :: ending
  call_tail :: farewell

text \<open>The result is what was sent and the error, none while the program still runs.\<close>

definition run_talk :: "platform \<Rightarrow> options \<Rightarrow> course \<Rightarrow> (datagram list \<times> talk_error option) res" where
  "run_talk P opts w =
     (case resolves w of
        Inl err \<Rightarrow> Ok ([], Some (Plain err))
      | Inr addr \<Rightarrow>
          let remote = (if connect opts \<noteq> [] then Some addr else None) in
          case listens w (udp_network remote) of
            Some err \<Rightarrow> Ok ([], Some (Plain err))
          | None \<Rightarrow>
              bnd (handshake (random_bytes w) remote (handshake_turns w)) (\<lambda>(out, r).
              case r of
                Continue _ \<Rightarrow> Ok (out, None)
              | Failed err \<Rightarrow> Ok (out, Some (ConnectError err))
              | Done p \<Rightarrow>
                  bnd (runCall P p (call_begins w) (audio_opens w) (call_events w) (call_ending w) (call_tail w)) (\<lambda>(out', err).
                  Ok (out @ out', map_option CallError err))))"

text \<open>The exit code: an ended call is no failure, whatever wraps its error.\<close>

definition errCanceled :: error where "errCanceled = ''context canceled''"

fun root_cause :: "talk_error \<Rightarrow> error option" where
  "root_cause (Plain e) = Some e"
| "root_cause (ConnectError e) = Some e"
| "root_cause (CallError (Other e)) = Some e"
| "root_cause (CallError (Codec e)) = None"

definition call_ended :: "talk_error \<Rightarrow> bool" where
  "call_ended e \<longleftrightarrow> root_cause e = Some errCanceled \<or> root_cause e = Some errPeerLeft"

definition main_talk :: "platform \<Rightarrow> string list \<Rightarrow> course \<Rightarrow> (datagram list \<times> int option) res" where
  "main_talk P args w =
     (case parseOptions args of
        Inl err \<Rightarrow> Ok ([], Some (if err = errHelp then 0 else 1))
      | Inr opts \<Rightarrow>
          bnd (run_talk P opts w) (\<lambda>(out, err).
          Ok (out, map_option (\<lambda>e. if call_ended e then 0 else 1) err)))"


section \<open>Accepted command lines\<close>

lemma valid_show: "valid_port (show_nat n) \<longleftrightarrow> 1 \<le> n \<and> n \<le> 65535"
  by (auto simp: valid_port_def Atoi_show)

lemma char_codes:
  "of_char CHR ''-'' = (45 :: nat)" "of_char CHR ''='' = (61 :: nat)" "of_char CHR ''.'' = (46 :: nat)"
  "of_char CHR '':'' = (58 :: nat)" "of_char CHR ''['' = (91 :: nat)" "of_char CHR '']'' = (93 :: nat)"
  "of_char CHR ''%'' = (37 :: nat)"
  by simp_all

lemma show_nat_chars [simp]:
  "CHR ''='' \<notin> set (show_nat n)" "CHR ''.'' \<notin> set (show_nat n)" "CHR '':'' \<notin> set (show_nat n)"
  "CHR ''['' \<notin> set (show_nat n)" "CHR '']'' \<notin> set (show_nat n)" "CHR ''%'' \<notin> set (show_nat n)"
  by (rule show_nat_free; simp)+

lemma takeWhile_all: "x \<notin> set xs \<Longrightarrow> takeWhile (\<lambda>c. c \<noteq> x) (xs @ x # ys) = xs"
  by (induction xs) auto

lemma split_colon:
  assumes "CHR '':'' \<notin> set port"
  shows "split_last_colon (front @ '':'' @ port) = Some (front, port)"
  using assms takeWhile_all[of "CHR '':''" "rev port" "rev front"] by (simp add: split_last_colon_def)

lemma split_host:
  assumes "\<forall>x \<in> {CHR '':'', CHR ''['', CHR '']''}. x \<notin> set host \<and> x \<notin> set port" "host \<noteq> []"
  shows "SplitHostPort (host @ '':'' @ port) = Some (host, port)"
proof -
  have "hd host \<noteq> CHR ''[''" using assms by (cases host) auto
  then have "(host @ '':'' @ port) ! 0 \<noteq> CHR ''[''" using assms(2) by (cases host) auto
  then show ?thesis using assms split_colon[of port host] by (simp add: SplitHostPort_def)
qed

lemma split_on_none: "x \<notin> set s \<Longrightarrow> split_on x s = [s]"
  by (induction s) auto

lemma split_on_nonempty [simp]: "split_on x s \<noteq> []"
  by (cases s) (auto split: list.splits)

lemma split_on_append: "x \<notin> set f \<Longrightarrow> split_on x (f @ x # s) = f # split_on x s"
  by (induction f) auto

definition dotted :: "nat \<Rightarrow> nat \<Rightarrow> nat \<Rightarrow> nat \<Rightarrow> string" where
  "dotted a b c d = show_nat a @ ''.'' @ show_nat b @ ''.'' @ show_nat c @ ''.'' @ show_nat d"

lemma split_dotted: "split_on CHR ''.'' (dotted a b c d) = [show_nat a, show_nat b, show_nat c, show_nat d]"
  by (simp add: dotted_def split_on_append split_on_none)

lemma ip4_field_show: "n \<le> 255 \<Longrightarrow> ip4_field (show_nat n)"
proof -
  assume n: "n \<le> 255"
  have "length (show_nat n) = 1" if "hd (show_nat n) = CHR ''0''"
  proof -
    have "digit 0 = CHR ''0''" by code_simp
    then have "n = 0" using show_nat_no_zero[of n] that by metis
    then show ?thesis by (simp add: show_nat.simps)
  qed
  then show ?thesis using n read_show[of n] by (simp add: ip4_field_def read_nat_def)
qed

lemma ParseIP_dotted:
  assumes "a \<le> 255" "b \<le> 255" "c \<le> 255" "d \<le> 255"
  shows "ParseIP_ok (dotted a b c d)"
proof -
  have "x \<noteq> CHR ''.'' \<and> x \<noteq> CHR '':''" if "x \<in> set (show_nat a)" for x
    using that show_nat_chars[of a] by metis
  then have "\<exists>y. dropWhile (\<lambda>c. c \<noteq> CHR ''.'' \<and> c \<noteq> CHR '':'') (dotted a b c d) = CHR ''.'' # y"
    unfolding dotted_def by (subst dropWhile_append2) auto
  then obtain y where "dropWhile (\<lambda>c. c \<noteq> CHR ''.'' \<and> c \<noteq> CHR '':'') (dotted a b c d) = CHR ''.'' # y" by blast
  moreover have "CHR ''%'' \<notin> set (dotted a b c d)" by (simp add: dotted_def)
  ultimately show ?thesis
    using assms by (simp add: ParseIP_ok_def is_ip4_def split_dotted ip4_field_show)
qed

text \<open>An address and a port as \<open>--connect\<close> takes them.\<close>

lemma SplitHostPort_dotted: "SplitHostPort (dotted a b c d @ '':'' @ show_nat n) = Some (dotted a b c d, show_nat n)"
  by (rule split_host) (auto simp: dotted_def)

lemma set_flag_parse:
  "parse_flags [''--serve'', v] opts = Inr (opts\<lparr>serve := v\<rparr>, [])"
  "parse_flags [''--connect'', v] opts = Inr (opts\<lparr>connect := v\<rparr>, [])"
proof -
  have "flag_arg ''--serve'' = Flag ''serve'' None" "flag_arg ''--connect'' = Flag ''connect'' None"
    by (simp_all add: flag_arg_def split_flag_def)
  then show "parse_flags [''--serve'', v] opts = Inr (opts\<lparr>serve := v\<rparr>, [])"
    "parse_flags [''--connect'', v] opts = Inr (opts\<lparr>connect := v\<rparr>, [])"
    by simp_all
qed

section \<open>What a run sends\<close>

definition talk_datagram :: "platform \<Rightarrow> peer \<Rightarrow> datagram \<Rightarrow> bool" where
  "talk_datagram P p d \<longleftrightarrow> d = control kindHello p \<or> d = control kindBye p \<or> call_datagram P p d"

lemma talk_datagram_address: "talk_datagram P p d \<Longrightarrow> snd d = address p"
  by (auto simp: talk_datagram_def call_datagram_def control_def)

lemma handshake_loop_client:
  "\<exists>out r. handshake_loop (Some a) ts p = Ok (out, r) \<and> set out \<subseteq> {control kindHello p} \<and> (\<forall>q. r = Done q \<longrightarrow> q = p)"
proof (induction ts)
  case (Cons t ts)
  then obtain out' r' where ih: "handshake_loop (Some a) ts p = Ok (out', r')" "set out' \<subseteq> {control kindHello p}"
    "\<forall>q. r' = Done q \<longrightarrow> q = p" by blast
  obtain out r where r: "handshake_round (Some a) t p = Ok (out, r)" using handshake_round_total by blast
  have "set out \<subseteq> {control kindHello p}" "r = Continue p \<or> (\<exists>e. r = Failed e) \<or> r = Done p"
    using handshake_round_client[OF r] by blast+
  then show ?case using ih r by auto
qed simp

lemma handshake_loop_server:
  "\<exists>out r q. handshake_loop None ts p = Ok (out, r) \<and> set out \<subseteq> {control kindAccept q} \<and> (\<forall>x. r = Done x \<longrightarrow> x = q)"
proof (induction ts)
  case (Cons t ts)
  obtain out r where r: "handshake_round None t p = Ok (out, r)" using handshake_round_total by blast
  from r show ?case
    by (cases rule: handshake_round_server) (use r Cons in auto)
qed simp

text \<open>A handshake involves one peer, for a client the one it was asked to call.\<close>

lemma handshake_sends:
  "\<exists>out r q. handshake random remote ts = Ok (out, r) \<and> (\<forall>d \<in> set out. talk_datagram P q d) \<and>
     (\<forall>x. r = Done x \<longrightarrow> x = q) \<and> (\<forall>a. remote = Some a \<longrightarrow> address q = Some a)"
proof (cases "handshake_start random remote")
  case (Inl e)
  then show ?thesis by (auto simp: handshake_def intro!: exI[of _ "\<lparr>address = remote, session = 0\<rparr>"])
next
  case (Inr p)
  show ?thesis
  proof (cases remote)
    case None
    then show ?thesis using handshake_loop_server[of ts p] Inr
      by (fastforce simp: handshake_def talk_datagram_def call_datagram_def)
  next
    case (Some a)
    have "address p = Some a" using start_session_odd Inr Some by blast
    then show ?thesis using handshake_loop_client[of a ts p] Inr Some
      by (fastforce simp: handshake_def talk_datagram_def)
  qed
qed

lemma runCall_sends:
  "spec nan_panic (\<lambda>(out, err). \<forall>d \<in> set out. talk_datagram P p d) (runCall P p now openAudio evs ending w)"
proof -
  have bye: "\<forall>d \<in> set (fst (send_result (bye_answer w) (control kindBye p))). talk_datagram P p d"
    using send_result_sent by (fastforce simp: talk_datagram_def)
  have run: "\<forall>d \<in> set out. talk_datagram P p d" if "\<forall>d \<in> set out. call_datagram P p d" for out
    using that by (auto simp: talk_datagram_def)
  have whole: "\<forall>d \<in> set out. talk_datagram P p d" if "bye_between P p w out" for out
    using that bye run unfolding bye_between_def by fastforce
  show ?thesis
    using runCall_outcome[of evs w openAudio p P ending now] bye run whole
    by (cases "runCall P p now openAudio evs ending w") (auto simp: run_panic_def)
qed

section \<open>Properties\<close>

text \<open>C39: \<open>talk --serve n\<close> and \<open>talk --connect a.b.c.d:n\<close> are accepted for every IPv4 address and exactly the
  ports 1 to 65535, with the argument as the option: the address is split at its colon, the host is
  an IP address and the port a number in range.\<close>

theorem accepted_command_lines:
  fixes a b c d :: byte
  shows "parseOptions [''--serve'', show_nat n] =
     (if 1 \<le> n \<and> n \<le> 65535 then Inr \<lparr>serve = show_nat n, connect = []\<rparr> else Inl errPort) \<and>
   parseOptions [''--connect'', dotted (unat a) (unat b) (unat c) (unat d) @ '':'' @ show_nat n] =
     (if 1 \<le> n \<and> n \<le> 65535
      then Inr \<lparr>serve = [], connect = dotted (unat a) (unat b) (unat c) (unat d) @ '':'' @ show_nat n\<rparr>
      else Inl errPort)"
proof -
  have "unat w < 2 ^ LENGTH(8)" for w :: byte by (rule unsigned_less)
  then have "unat w \<le> 255" for w :: byte by (simp add: less_Suc_eq_le[symmetric])
  then have ip: "ParseIP_ok (dotted (unat a) (unat b) (unat c) (unat d))" by (intro ParseIP_dotted)
  have "SplitHostPort (dotted (unat a) (unat b) (unat c) (unat d) @ CHR '':'' # show_nat n) =
      Some (dotted (unat a) (unat b) (unat c) (unat d), show_nat n)"
    using SplitHostPort_dotted[of "unat a" "unat b" "unat c" "unat d" n] by simp
  then show ?thesis using ip by (simp add: parseOptions_def set_flag_parse valid_show del: parse_flags.simps)
qed

text \<open>C40: A run of the program talks to one peer only, whatever the network does: every datagram is a Hello,
  an Accept, a Bye or intact audio of one session, sent to one address; a client's is the address
  the command line resolved to; and nothing is sent when the command line, the resolver or the
  socket fails.\<close>

theorem main_one_peer:
  "spec nan_panic (\<lambda>(out, code). \<exists>p. (\<forall>d \<in> set out. talk_datagram P p d \<and> snd d = address p) \<and>
     (\<forall>opts a. parseOptions args = Inr opts \<and> connect opts \<noteq> [] \<and> resolves w = Inr a \<longrightarrow> address p = Some a) \<and>
     (out = [] \<or> (\<exists>opts a. parseOptions args = Inr opts \<and> resolves w = Inr a \<and>
        listens w (udp_network (if connect opts \<noteq> [] then Some a else None)) = None)))
    (main_talk P args w)"
proof -
  have q: "\<exists>q :: peer. \<forall>a. resolves w = Inr a \<longrightarrow> address q = Some a"
    by (rule exI[of _ "\<lparr>address = Some (projr (resolves w)), session = 0\<rparr>"]) simp
  show ?thesis
  proof (cases "\<exists>opts a. parseOptions args = Inr opts \<and> resolves w = Inr a \<and>
        listens w (udp_network (if connect opts \<noteq> [] then Some a else None)) = None")
    case False
    then have "\<exists>code. main_talk P args w = Ok ([], code)"
      by (auto simp: main_talk_def run_talk_def Let_def split: sum.splits option.splits)
    then obtain code where "main_talk P args w = Ok ([], code)" by blast
    moreover obtain q :: peer where "\<forall>a. resolves w = Inr a \<longrightarrow> address q = Some a" using q by blast
    ultimately show ?thesis by (simp add: exI[of _ q])
  next
    case True
    then obtain opts a where o: "parseOptions args = Inr opts" "resolves w = Inr a"
      "listens w (udp_network (if connect opts \<noteq> [] then Some a else None)) = None" by blast
    let ?remote = "if connect opts \<noteq> [] then Some a else None"
    obtain out r p where h: "handshake (random_bytes w) ?remote (handshake_turns w) = Ok (out, r)"
      "\<forall>d \<in> set out. talk_datagram P p d" "\<forall>x. r = Done x \<longrightarrow> x = p" "\<forall>b. ?remote = Some b \<longrightarrow> address p = Some b"
      using handshake_sends[of "random_bytes w" ?remote "handshake_turns w" P] by blast
    have "spec nan_panic (\<lambda>(out, err). \<forall>d \<in> set out. talk_datagram P p d) (run_talk P opts w)"
    proof (cases r)
      case (Done x)
      then have "x = p" using h(3) by simp
      then have "run_talk P opts w = bnd (runCall P p (call_begins w) (audio_opens w) (call_events w) (call_ending w) (call_tail w))
          (\<lambda>(out', err). Ok (out @ out', map_option CallError err))"
        using h(1) Done o by (simp add: run_talk_def Let_def)
      then show ?thesis
        using h(2) by (simp only:) (rule spec_bndI, rule spec_mono[OF runCall_sends], auto)
    qed (use h(1,2) o in \<open>simp_all add: run_talk_def Let_def\<close>)
    then have "spec nan_panic (\<lambda>(out, code). \<forall>d \<in> set out. talk_datagram P p d) (main_talk P args w)"
      unfolding main_talk_def o sum.case by (intro spec_bndI) (erule spec_mono, auto)
    moreover have "(\<forall>d \<in> set out. talk_datagram P p d \<and> snd d = address p) \<and>
        (\<forall>opts a. parseOptions args = Inr opts \<and> connect opts \<noteq> [] \<and> resolves w = Inr a \<longrightarrow> address p = Some a)"
      if "\<forall>d \<in> set out. talk_datagram P p d" for out
      using that h(4) o talk_datagram_address by auto
    ultimately show ?thesis
      using o by (elim spec_mono) blast
  qed
qed

text \<open>A call of the second machine to the first, whose audio device cannot be opened.\<close>

definition lan_course :: course where
  "lan_course = \<lparr>resolves = Inr (lan 1), listens = (\<lambda>_. None), random_bytes = Inr [0, 0, 0, 0, 0, 0, 0, 2],
     handshake_turns = [quiet_turn ReadTimeout, quiet_turn (Received (packet_bytes lan_accept) (lan 1))], call_begins = 0,
     audio_opens = Some ''no device'', call_events = [], call_ending = WorkerFails, call_tail = canceled_call\<rparr>"

theorem main_one_peer_witness:
  "\<forall>P. spec nan_panic (\<lambda>(out, code). \<forall>d \<in> set out. snd d = Some (lan 1))
     (main_talk P [''--connect'', ''192.168.0.1:5000''] lan_course)"
proof
  fix P
  have "parseOptions [''--connect'', ''192.168.0.1:5000''] = Inr \<lparr>serve = [], connect = ''192.168.0.1:5000''\<rparr>"
    by code_simp
  then show "spec nan_panic (\<lambda>(out, code). \<forall>d \<in> set out. snd d = Some (lan 1))
     (main_talk P [''--connect'', ''192.168.0.1:5000''] lan_course)"
    using main_one_peer[of P "[''--connect'', ''192.168.0.1:5000'']" lan_course]
    by (elim spec_mono) (auto simp: lan_course_def)
qed

end
