(* ===== verification/Spec2Isabelle.thy ===== *)
theory Spec2Isabelle
  imports DecoderStream EncoderStream Synchrony Roundtrip Lsfgrid Nearest Recursion Session Jitter Call EndToEnd WinAudio UnixAudio Talk
begin

text \<open>
  iLBC-Go: the iLBC speech codec (package \<open>ilbc\<close>, src/src) and \<open>talk\<close>, a UDP telephone that uses it
  (src/cmd/talk).

  The program.  \<open>Encoder.Encode\<close> turns a frame of 160 or 240 samples into a packet of 38 or 50 bytes;
  \<open>Decoder.Decode\<close> turns a packet back into samples and \<open>Decoder.Conceal\<close> invents a frame for a
  packet that was lost.  Both carry a history from frame to frame, in the records \<open>encoderState\<close>
  and \<open>decoderState\<close> of constants.go.  \<open>encodeFrame\<close> (ilbc_encode.go) high-pass filters the frame,
  finds and quantises the LPC filters (lpcencode.go, lsf.go, helpfun.go), chooses and quantises the
  start state (frameclassify.go, statesearchw.go), searches the adaptive codebook for the other
  subframes (icbsearch.go, createcb.go, gainquant.go) and packs the indices (packing.go).
  \<open>decodeFrame\<close> (ilbc_decode.go) unpacks them, rebuilds the filters (lpcdecode.go) and the residual
  (stateconstructw.go, icbconstruct.go, getcbvec.go) or conceals the loss (docplc.go), enhances the
  pitch (enhancer.go) and synthesises the speech (syntfilter.go, hpoutput.go).  \<open>talk\<close> puts an audio
  callback (audio.go), an encoder, a decoder behind a reorder buffer (protocol.go) and a UDP socket
  (network.go) into one call (call.go); each system has its audio devices (audio_windows.go,
  audio_darwin.go, audio_linux.go, audio_unsupported.go), and main.go reads the command line.

  \<^bold>\<open>Correspondence\<close>

  \<^item> \<open>Prelude\<close>, \<open>Span\<close>, \<open>Softfloat\<close>: the language.  A computation that may panic is a value of
    \<open>'a res\<close>; an index out of bounds is the panic Go reports, and where a theorem speaks of the
    function that panics, the panic carries the line of the traceback with the function and its
    argument (\<open>traced\<close>).  \<open>for_up\<close>, \<open>for_by\<close> and \<open>for_down\<close> are
    the counted loops.  \<open>span\<close> is the type of span.go, by value: a function that writes through a
    span returns the backing array.  Pointers that a loop advances are a base and the counter.
    \<open>float32\<close> and \<open>float64\<close> are bit patterns with the IEEE operations computed exactly and rounded
    once, in the order of the code.
  \<^item> \<open>Constants\<close>: every table, layout and state record of constants.go.
  \<^item> \<open>Bits\<close>, \<open>Packing\<close>, \<open>Bitstream\<close>: packing.go and the packing loops of \<open>encodeFrame\<close> and
    \<open>decodeFrame\<close>.
  \<^item> \<open>Filters\<close>: filter.go, syntfilter.go, anafilter.go, hpinput.go, hpoutput.go, denormal.go.
    \<open>Helpfun\<close>: helpfun.go.  \<open>Lsf\<close>: lsf.go.  \<open>Lpc\<close>: lpcencode.go, lpcdecode.go.  \<open>Gainquant\<close>:
    gainquant.go.  \<open>Codebook\<close>: getcbvec.go, icbconstruct.go, createcb.go.  \<open>Cbsearch\<close>: icbsearch.go.
    \<open>StateCoding\<close>: stateconstructw.go, statesearchw.go.  \<open>Classify\<close>: frameclassify.go.  \<open>Enhancer\<close>:
    enhancer.go.  \<open>Plc\<close>: docplc.go.
  \<^item> \<open>Decoder\<close>: ilbc_decode.go.  \<open>Encoder\<close>: ilbc_encode.go.  \<open>Codec\<close>: codec.go, every exported operation.
  \<^item> \<open>Channel\<close>, \<open>AudioBridge\<close>: audio.go.  \<open>Protocol\<close>, \<open>Jitter\<close>: protocol.go.  \<open>Network\<close>, \<open>Session\<close>:
    network.go.  \<open>Call\<close>: call.go.  \<open>WinAudio\<close>: audio_windows.go.  \<open>UnixAudio\<close>: audio_darwin.go,
    audio_linux.go, audio_unsupported.go.  \<open>Talk\<close>: main.go.  \<open>Ledger\<close> is the accounting of what the
    system calls acquire, use and release; \<open>Decimal\<close> is \<open>%d\<close> and \<open>strconv.Atoi\<close>.

  A function of the source keeps its name; a long one is cut into definitions at its own joints
  (the stages of the codebook search, the boundary, forward and backward part of \<open>decode\<close>), and a
  name in Isabelle's way gets a suffix or a prefix.

  \<^bold>\<open>Results\<close>

  \<^item> No panic.  \<open>DecoderSafe\<close> gives the invariant \<open>dec_ok\<close> of the decoder and \<open>DecoderStream\<close> shows
    that no packet, loss or reset in any order makes a decoder panic.  \<open>AnalysisSafe\<close>, \<open>SearchSafe\<close>,
    \<open>EncoderSafe\<close>, \<open>EncoderFrame\<close> and \<open>EncoderStream\<close> do the same for the encoder, with one panic that
    remains possible, \<open>nan_panic\<close>: the index -1 in a run of \<open>sortSq\<close> whose argument, which the panic
    carries, is not a number.  \<open>Nearest\<close> shows the converse, that \<open>sortSq\<close> succeeds on every number.
    The rules for this are the
    lemmas of the collection \<open>wp\<close>.
  \<^item> The bit stream.  \<open>Roundtrip\<close>: packing and unpacking are inverse in both directions;
    \<open>EncoderFrame\<close>: the indices of the encoder fit their fields.
  \<^item> Encoder and decoder together.  \<open>Lockstep\<close> and \<open>Synchrony\<close>: the decoder rebuilds the very residual
    the encoder followed, gets back in step after any loss with one packet, and never takes a packet
    of an encoder for a damaged one.
  \<^item> Termination.  \<open>Rounding\<close>, \<open>Exact\<close> and \<open>Lsfgrid\<close>: the search of \<open>a2lsf\<close>, which has no bound of its
    own, ends within 642 steps.
  \<^item> Signal processing.  \<open>Nearest\<close>: the vector quantiser finds the nearest entry of its codebook
    and the scalar quantiser the entry whose interval holds the input; \<open>FloatOrder\<close> has the order of
    the floats for it.
    \<open>Recursion\<close>: the synthesis filter is the all-pole recursion on its memory and the signal.
  \<^item> The telephone.  \<open>Jitter\<close>: the reorder buffer refines an abstract window and plays in order.
    \<open>AudioBridge\<close>: playback is a queue, capture cuts frames.  \<open>Network\<close>, \<open>Session\<close>: what one peer
    accepts, and agreement of two peers on a hostile network.  \<open>Call\<close>: the workers under every
    interleaving.  \<open>EndToEnd\<close>: a frame from one microphone to the reorder buffer of the other call.
    \<open>WinAudio\<close>, \<open>UnixAudio\<close>: whichever system call fails, nothing is used before it is acquired or
    after it is released, and every failure releases what was acquired.  On Windows a release counts
    only when its call succeeds, and the calls that give something back are assumed to behave as
    documented (\<open>winmm\<close>).  \<open>Talk\<close>:
    the accepted command lines, and that a run talks to one peer only.

  \<^bold>\<open>Parameters, bounds and fuel\<close>

  \<^item> \<open>platform\<close> holds what differs between machines: \<open>math.Cos\<close>, \<open>math.Pow\<close> and \<open>math.Log10\<close>, which
    the Go library does not define bit by bit, and the conversion of a float that no integer of the type
    represents.  Every theorem holds for every platform.
  \<^item> Products and sums are rounded one by one; Go allows some processors to fuse \<open>x * y + z\<close>.  All NaNs
    are the same quiet NaN, which the program cannot tell apart.
  \<^item> \<open>int\<close> is unbounded: every value the program gives to one is shown or plain to be small.  The
    random seed, sequence numbers, sessions and samples are words.
  \<^item> \<open>a2lsf_fuel\<close> is 2000 for each frequency, and 642 are shown to be enough; \<open>dopack\<close> and \<open>unpack\<close>
    get a unit for each bit, and each iteration handles at least one.
  \<^item> The environment of \<open>talk\<close> (socket, clock, context, ticker) answers through \<open>turn\<close> records and
    event lists that are universally quantified; time is in nanoseconds.  The events of a call go on after its \<open>select\<close>, up
    to the Bye, up to the close of the socket and until all workers have returned (\<open>farewell\<close>).  A channel is the list of
    its buffered values with the capacity of the code, and a \<open>select\<close> with a default case is
    \<open>try_send\<close> or \<open>try_recv\<close>.

  \<^bold>\<open>Not modelled\<close>: what \<open>talk\<close> prints, the layouts of the C structures that the audio back ends
  hand to the system, the deadlines that are passed on to the socket, and accessors that only return a field of another
  package's object.  They are calls of the system with no computation of their own.  The answers
  of the system calls (the resolver, the socket, the random numbers, winmm, AudioToolbox,
  PulseAudio) are inputs of the model.
\<close>

end
